(* ===== verification/Prelude.thy ===== *)
theory Prelude
  imports Complex_Main "HOL-Library.AList" "HOL-Library.Product_Lexorder"
begin

text \<open>
  Shared vocabulary of the development.

  \<^item> Python dictionaries keep insertion order; they are association lists with the operations of
    \<open>HOL-Library.AList\<close> (\<open>map_of\<close> reads, \<open>AList.update\<close> overwrites in place or appends,
    \<open>AList.delete\<close> removes). \<open>dict_wf\<close> says that the keys are distinct.
  \<^item> Exceptions are the left summand of \<open>'e + 'a\<close>.
  \<^item> Clocks are explicit arguments: \<open>time.monotonic()\<close> is a \<open>real\<close>, \<open>datetime.now(UTC)\<close> an
    \<open>int\<close> number of microseconds, an ISO date string a triple of year, month and day ordered
    lexicographically (as zero-padded ISO strings are).
  \<^item> \<open>int(x)\<close> on a float is \<open>py_int\<close>, \<open>x or d\<close> on an optional integer is \<open>py_or\<close>, slices are
    \<open>take\<close> and \<open>drop\<close>.
\<close>

named_theorems dict_simps "reading a dictionary after it was written"
named_theorems inv_intros "operations that keep an invariant"

text \<open>Quantified pairs (dates, dictionary keys) stay whole.\<close>

declare split_paired_All [simp del] and split_paired_Ex [simp del]

type_synonym ('k, 'v) pydict = "('k \<times> 'v) list"
type_synonym date = "nat \<times> nat \<times> nat"
type_synonym year_month = "nat \<times> nat"

section \<open>Dictionaries\<close>

definition dict_wf :: "('k, 'v) pydict \<Rightarrow> bool" where
  "dict_wf d \<longleftrightarrow> distinct (map fst d)"

abbreviation dget :: "('k, 'v) pydict \<Rightarrow> 'k \<Rightarrow> 'v option" where
  "dget d k \<equiv> map_of d k"

abbreviation dset :: "'k \<Rightarrow> 'v \<Rightarrow> ('k, 'v) pydict \<Rightarrow> ('k, 'v) pydict" where
  "dset k v d \<equiv> AList.update k v d"

abbreviation ddel :: "'k \<Rightarrow> ('k, 'v) pydict \<Rightarrow> ('k, 'v) pydict" where
  "ddel k d \<equiv> AList.delete k d"

abbreviation dvalues :: "('k, 'v) pydict \<Rightarrow> 'v list" where
  "dvalues d \<equiv> map snd d"

lemma dget_dset [simp, dict_simps]: "dget (dset k v d) k' = (if k' = k then Some v else dget d k')"
  by (simp add: update_conv')

lemma dget_ddel [simp, dict_simps]: "dget (ddel k d) k' = (if k' = k then None else dget d k')"
  by (simp add: delete_conv')

lemma dict_wf_Nil [simp]: "dict_wf []"
  by (simp add: dict_wf_def)

lemma dict_wf_dset [simp, inv_intros]: "dict_wf d \<Longrightarrow> dict_wf (dset k v d)"
  by (simp add: dict_wf_def distinct_update)

lemma dict_wf_ddel [simp, inv_intros]: "dict_wf d \<Longrightarrow> dict_wf (ddel k d)"
  by (simp add: dict_wf_def distinct_delete)

lemma dict_wf_filter [simp, inv_intros]: "dict_wf d \<Longrightarrow> dict_wf (filter P d)"
  unfolding dict_wf_def by (induction d) auto

lemma dget_in_dvalues: "dget d k = Some v \<Longrightarrow> v \<in> set (dvalues d)"
  by (force dest: map_of_SomeD)

lemma dget_iff_mem: "dict_wf d \<Longrightarrow> (dget d k = Some v) = ((k, v) \<in> set d)"
  by (simp add: dict_wf_def)

lemma dget_filter:
  assumes "dict_wf d"
  shows "dget (filter (\<lambda>(k, v). P v) d) k =
    (case dget d k of None \<Rightarrow> None | Some v \<Rightarrow> if P v then Some v else None)"
  using assms unfolding dict_wf_def
proof (induction d)
  case Nil
  then show ?case by simp
next
  case (Cons kv d)
  obtain k0 v0 where kv: "kv = (k0, v0)" by fastforce
  have "dget d k0 = None" using Cons.prems kv by (simp add: map_of_eq_None_iff)
  with Cons kv show ?case by (auto split: option.splits)
qed

lemma dvalues_filter: "dvalues (filter (\<lambda>(_, v). P v) d) = filter P (dvalues d)"
  by (induction d) auto

lemma sum_ddel:
  fixes f :: "'v \<Rightarrow> int"
  assumes "dict_wf d"
  shows "sum_list (map f (dvalues (ddel k d))) =
         sum_list (map f (dvalues d)) - (case dget d k of None \<Rightarrow> 0 | Some v \<Rightarrow> f v)"
  using assms unfolding dict_wf_def
proof (induction d)
  case Nil
  then show ?case by simp
next
  case (Cons kv d)
  obtain k1 v1 where kv: "kv = (k1, v1)" by fastforce
  show ?case
  proof (cases "k1 = k")
    case True
    with Cons.prems kv have "k \<notin> fst ` set d" by auto
    then show ?thesis using True kv by (simp add: delete_idem)
  next
    case False
    with Cons kv show ?thesis by simp
  qed
qed

lemma dset_absent: "dget d k = None \<Longrightarrow> dset k v d = d @ [(k, v)]"
  by (induction d) (auto split: if_splits)

lemma dset_present:
  assumes "dict_wf d" and "dget d k = Some v0"
  shows "dset k v d = map (\<lambda>(k', v'). if k' = k then (k', v) else (k', v')) d"
  using assms unfolding dict_wf_def
proof (induction d)
  case Nil
  then show ?case by simp
next
  case (Cons kv d)
  obtain k1 v1 where kv: "kv = (k1, v1)" by fastforce
  show ?case
  proof (cases "k1 = k")
    case True
    with Cons.prems kv have "k \<notin> fst ` set d" by auto
    then have "map (\<lambda>(k', v'). if k' = k then (k', v) else (k', v')) d = d"
      by (intro map_idI) force
    with True kv show ?thesis by simp
  next
    case False
    with Cons kv show ?thesis by simp
  qed
qed

lemma sum_dset_present:
  fixes f :: "'v \<Rightarrow> int"
  assumes "dict_wf d" and "dget d k = Some v0"
  shows "sum_list (map f (dvalues (dset k v d))) = sum_list (map f (dvalues d)) + f v - f v0"
  using assms unfolding dict_wf_def
  by (induction d) (auto split: if_splits)

lemma sum_list_map_filter_if:
  fixes f :: "'a \<Rightarrow> int"
  shows "sum_list (map f (filter P xs)) = sum_list (map (\<lambda>x. if P x then f x else 0) xs)"
  by (induction xs) auto

lemma sum_list_filter_mono:
  fixes f :: "'a \<Rightarrow> int"
  assumes "\<And>x. x \<in> set xs \<Longrightarrow> 0 \<le> f x" and "\<And>x. x \<in> set xs \<Longrightarrow> P x \<Longrightarrow> Q x"
  shows "sum_list (map f (filter P xs)) \<le> sum_list (map f (filter Q xs))"
  using assms
proof (induction xs)
  case Nil
  then show ?case by simp
next
  case (Cons x xs)
  then have "sum_list (map f (filter P xs)) \<le> sum_list (map f (filter Q xs))" by simp
  moreover have "0 \<le> f x" and "P x \<Longrightarrow> Q x" using Cons.prems by auto
  ultimately show ?case by auto
qed

lemma sum_list_map_concat:
  fixes f :: "'a \<Rightarrow> int"
  shows "sum_list (map f (concat xss)) = sum_list (map (\<lambda>xs. sum_list (map f xs)) xss)"
  by (induction xss) auto

lemma filter_key_none: "n \<notin> key ` set rs \<Longrightarrow> filter (\<lambda>r. key r = n) rs = []"
  by (induction rs) auto

lemma sum_list_nonneg_int:
  fixes f :: "'a \<Rightarrow> int"
  assumes "\<And>x. x \<in> set xs \<Longrightarrow> 0 \<le> f x"
  shows "0 \<le> sum_list (map f xs)"
  using assms by (induction xs) auto

text \<open>
  \<open>d.setdefault(k, init)\<close> followed by an in-place update of the stored object: the idiom of every
  aggregation loop of the code.
\<close>

definition dacc :: "'k \<Rightarrow> 'v \<Rightarrow> ('v \<Rightarrow> 'v) \<Rightarrow> ('k, 'v) pydict \<Rightarrow> ('k, 'v) pydict" where
  "dacc k init f d = dset k (f (case dget d k of None \<Rightarrow> init | Some v \<Rightarrow> v)) d"

lemma dict_wf_dacc [simp, inv_intros]: "dict_wf d \<Longrightarrow> dict_wf (dacc k init f d)"
  by (simp add: dacc_def)

lemma dget_dacc [simp, dict_simps]:
  "dget (dacc k init f d) k' =
     (if k' = k then Some (f (case dget d k of None \<Rightarrow> init | Some v \<Rightarrow> v)) else dget d k')"
  by (simp add: dacc_def)

lemma sum_dacc:
  fixes g :: "'v \<Rightarrow> int"
  assumes "dict_wf d" and "\<And>v. g (f v) = g v + x" and "g init = 0"
  shows "sum_list (map g (dvalues (dacc k init f d))) = sum_list (map g (dvalues d)) + x"
proof (cases "dget d k")
  case None
  then show ?thesis using assms by (simp add: dacc_def dset_absent)
next
  case (Some v)
  then show ?thesis using assms sum_dset_present [OF assms(1) Some, of g "f v"] by (simp add: dacc_def)
qed

text \<open>The whole loop: the totals of the dictionary are the contributions of the items.\<close>

lemma dict_wf_fold_dacc [simp]:
  "dict_wf d \<Longrightarrow> dict_wf (fold (\<lambda>r. dacc (key r) (init r) (upd r)) rs d)"
  by (induction rs arbitrary: d) auto

lemma sum_fold_dacc:
  fixes g :: "'v \<Rightarrow> int"
  assumes "dict_wf d" and "\<And>r v. r \<in> set rs \<Longrightarrow> g (upd r v) = g v + x r" and "\<And>r. g (init r) = 0"
  shows "sum_list (map g (dvalues (fold (\<lambda>r. dacc (key r) (init r) (upd r)) rs d))) =
         sum_list (map g (dvalues d)) + sum_list (map x rs)"
  using assms
proof (induction rs arbitrary: d)
  case Nil
  then show ?case by simp
next
  case (Cons r rs)
  then show ?case using sum_dacc [of d g "upd r" "x r" "init r" "key r"] by simp
qed

section \<open>Numbers, clocks and dates\<close>

definition py_int :: "real \<Rightarrow> int" where
  \<comment> \<open>\<open>int(x)\<close> truncates towards zero\<close>
  "py_int x = (if 0 \<le> x then \<lfloor>x\<rfloor> else \<lceil>x\<rceil>)"

definition py_or :: "int option \<Rightarrow> int \<Rightarrow> int" where
  \<comment> \<open>\<open>x or d\<close>: both \<open>None\<close> and \<open>0\<close> are falsy\<close>
  "py_or x d = (case x of None \<Rightarrow> d | Some n \<Rightarrow> if n = 0 then d else n)"

definition ym_of :: "date \<Rightarrow> year_month" where
  \<comment> \<open>\<open>usage_date[:7]\<close>\<close>
  "ym_of d = (case d of (y, m, _) \<Rightarrow> (y, m))"

lemma ym_of_simp [simp]: "ym_of (y, m, d) = (y, m)"
  by (simp add: ym_of_def)

definition is_leap :: "nat \<Rightarrow> bool" where
  "is_leap y \<longleftrightarrow> y mod 4 = 0 \<and> (y mod 100 \<noteq> 0 \<or> y mod 400 = 0)"

definition days_in_month :: "nat \<Rightarrow> nat \<Rightarrow> nat" where
  "days_in_month y m = (if m = 2 then (if is_leap y then 29 else 28)
                        else if m \<in> {4, 6, 9, 11} then 30 else 31)"

definition prev_day :: "date \<Rightarrow> date" where
  "prev_day d = (case d of (y, m, n) \<Rightarrow>
     if 1 < n then (y, m, n - 1)
     else if 1 < m then (y, m - 1, days_in_month y (m - 1)) else (y - 1, 12, 31))"

definition next_day :: "date \<Rightarrow> date" where
  "next_day d = (case d of (y, m, n) \<Rightarrow>
     if n < days_in_month y m then (y, m, n + 1)
     else if m < 12 then (y, m + 1, 1) else (y + 1, 1, 1))"

definition shift_days :: "date \<Rightarrow> int \<Rightarrow> date" where
  \<comment> \<open>\<open>d + timedelta(days=n)\<close>\<close>
  "shift_days d n = (if n < 0 then (prev_day ^^ nat (- n)) d else (next_day ^^ nat n) d)"

definition valid_date :: "date \<Rightarrow> bool" where
  "valid_date d = (case d of (y, m, n) \<Rightarrow> 1 \<le> y \<and> 1 \<le> m \<and> m \<le> 12 \<and> 1 \<le> n \<and> n \<le> days_in_month y m)"

lemma days_in_month_bounds: "28 \<le> days_in_month y m \<and> days_in_month y m \<le> 31"
  by (simp add: days_in_month_def)

definition sane_today :: "date \<Rightarrow> bool" where
  \<comment> \<open>what the code relies on when it subtracts days from the current date\<close>
  "sane_today d \<longleftrightarrow> valid_date d \<and> 1970 \<le> fst d"

lemma prev_day_less: "0 < fst d \<Longrightarrow> prev_day d < d \<and> fst d - 1 \<le> fst (prev_day d)"
  by (cases d) (auto simp: prev_day_def less_prod_def)

lemma prev_days_le: "n \<le> fst d \<Longrightarrow> (prev_day ^^ n) d \<le> d \<and> fst d - n \<le> fst ((prev_day ^^ n) d)"
proof (induction n)
  case 0
  then show ?case by simp
next
  case (Suc n)
  then have IH: "(prev_day ^^ n) d \<le> d" "fst d - n \<le> fst ((prev_day ^^ n) d)" by auto
  then have "0 < fst ((prev_day ^^ n) d)" using Suc.prems by linarith
  from prev_day_less [OF this] IH show ?case by auto
qed

lemma shift_back_le: "0 \<le> n \<Longrightarrow> n \<le> int (fst d) \<Longrightarrow> shift_days d (- n) \<le> d"
  using prev_days_le [of "nat n" d] by (auto simp: shift_days_def)

section \<open>Lists\<close>

lemma dropWhile_sorted_filter:
  assumes "sorted (xs :: 'a::linorder list)"
  shows "dropWhile (\<lambda>t. t < c) xs = filter (\<lambda>t. c \<le> t) xs"
  using assms
proof (induction xs)
  case Nil
  then show ?case by simp
next
  case (Cons x xs)
  show ?case
  proof (cases "x < c")
    case True
    with Cons show ?thesis by simp
  next
    case False
    then have "c \<le> x" by simp
    moreover have "\<forall>y \<in> set xs. c \<le> y" using Cons.prems \<open>c \<le> x\<close> by force
    ultimately show ?thesis by simp
  qed
qed

lemma distinct_map_sort_key: "distinct (map f (sort_key g xs)) = distinct (map f xs)"
proof -
  have "distinct (map f ys) \<longleftrightarrow> distinct ys \<and> inj_on f (set ys)" for ys by (rule distinct_map)
  then show ?thesis by (simp only: distinct_sort set_sort)
qed

lemma take_last_length: "length (drop (length xs - n) xs) = min n (length xs)"
  by simp

section \<open>Searching a list by key\<close>

lemma find_key:
  assumes "distinct (map f ts)"
  shows "find (\<lambda>t. f t = k \<and> p t) ts = (case find (\<lambda>t. f t = k) ts of None \<Rightarrow> None | Some t \<Rightarrow> if p t then Some t else None)"
  using assms
proof (induction ts)
  case (Cons a ts)
  then have "f a \<notin> f ` set ts" by simp
  then have "find (\<lambda>t. f t = f a \<and> p t) ts = None" unfolding find_None_iff by (metis image_eqI)
  with Cons show ?case by auto
qed simp

lemma find_snoc: "find p (ts @ [t]) = (case find p ts of None \<Rightarrow> if p t then Some t else None | Some x \<Rightarrow> Some x)"
  by (induction ts) auto

lemma find_key_map: "\<forall>t. f (g t) = f t \<Longrightarrow> find (\<lambda>t. f t = k) (map g ts) = map_option g (find (\<lambda>t. f t = k) ts)"
  by (induction ts) auto

lemma find_key_filter: "x \<noteq> k \<Longrightarrow> find (\<lambda>t. f t = x) (filter (\<lambda>t. f t \<noteq> k) ts) = find (\<lambda>t. f t = x) ts"
  by (induction ts) auto

end
