(* ===== verification/RateLimit.thy ===== *)
theory RateLimit
  imports Prelude
begin

text \<open>
  The sliding-window rate limiter: \<open>app/ratelimit/memory.py\<close> (\<open>MemorySlidingWindowLimiter\<close>),
  \<open>app/ratelimit/service.py\<close> (\<open>RateLimitService\<close>) and the guards of
  \<open>app/ratelimit/dependencies.py\<close>. The clock value read by \<open>acquire\<close> is an argument; runs are lists
  of (key, clock) requests with a clock that never goes back, as \<open>time.monotonic\<close> promises.
\<close>

section \<open>State and operations\<close>

record rate_limit_result =
  allowed :: bool
  remaining :: int
  rl_limit :: int
  reset_after :: int

record limiter =
  max_calls :: int
  window_seconds :: int
  queues :: "(string, real list) pydict"

definition new_limiter :: "int \<Rightarrow> int \<Rightarrow> limiter" where
  "new_limiter l w = \<lparr>max_calls = l, window_seconds = w, queues = []\<rparr>"

definition acquire :: "limiter \<Rightarrow> string \<Rightarrow> real \<Rightarrow> rate_limit_result \<times> limiter" where
  "acquire st key now =
     (let cutoff = now - of_int (window_seconds st);
          is_new = (dget (queues st) key = None);
          queue = dropWhile (\<lambda>t. t < cutoff)
                    (case dget (queues st) key of None \<Rightarrow> [] | Some q \<Rightarrow> q)
      in if \<not> is_new \<and> queue = []
         then (\<lparr>allowed = True, remaining = max_calls st, rl_limit = max_calls st,
                reset_after = window_seconds st\<rparr>,
               st\<lparr>queues := ddel key (queues st)\<rparr>)
         else
           (let reset = (if queue = [] then window_seconds st
                         else max 1 (py_int (hd queue + of_int (window_seconds st) - now)))
            in if max_calls st \<le> int (length queue)
               then (\<lparr>allowed = False, remaining = 0, rl_limit = max_calls st, reset_after = reset\<rparr>,
                     st\<lparr>queues := dset key queue (queues st)\<rparr>)
               else (\<lparr>allowed = True, remaining = max_calls st - int (length (queue @ [now])),
                      rl_limit = max_calls st, reset_after = reset\<rparr>,
                     st\<lparr>queues := dset key (queue @ [now]) (queues st)\<rparr>)))"

record api_key =
  ak_key :: string
  ak_name :: string
  ak_id :: "string option"
  ak_user_id :: "string option"
  ak_workspace_id :: "string option"

datatype rate_limit_scope = AuthIpScope | ApiKeyScope

datatype rate_limit_error = RateLimitError rate_limit_scope int int

text \<open>\<open>RateLimitService\<close> works on any limiter that has the \<open>RateLimiter\<close> protocol.\<close>

type_synonym 's acquire_op = "'s \<Rightarrow> string \<Rightarrow> real \<Rightarrow> rate_limit_result \<times> 's"

definition check_and_record_key ::
  "'s acquire_op \<Rightarrow> 's \<Rightarrow> string \<Rightarrow> real \<Rightarrow> (rate_limit_error + rate_limit_result) \<times> 's" where
  "check_and_record_key acq st key now =
     (case acq st key now of (result, st') \<Rightarrow>
        (if \<not> allowed result
         then Inl (RateLimitError AuthIpScope (rl_limit result) (reset_after result))
         else Inr result, st'))"

definition check_and_record ::
  "'s acquire_op \<Rightarrow> 's \<Rightarrow> api_key \<Rightarrow> real \<Rightarrow> (rate_limit_error + rate_limit_result) \<times> 's" where
  "check_and_record acq st api_key now =
     (case acq st (ak_key api_key) now of (result, st') \<Rightarrow>
        (if \<not> allowed result
         then Inl (RateLimitError ApiKeyScope (rl_limit result) (reset_after result))
         else Inr result, st'))"

text \<open>
  The FastAPI dependencies: the guard returns the triple written to \<open>request.state\<close>, or
  \<open>None\<close> when rate limiting is switched off and the state of the request is not touched.
\<close>

type_synonym rate_headers = "int \<times> int \<times> int"

definition require_auth_ip_rate_limit ::
  "'s acquire_op \<Rightarrow> bool \<Rightarrow> 's \<Rightarrow> string option \<Rightarrow> real \<Rightarrow>
   (rate_limit_error + rate_headers option) \<times> 's" where
  "require_auth_ip_rate_limit acq enabled st client_host now =
     (if \<not> enabled then (Inr None, st)
      else
        (let client_ip = (case client_host of Some h \<Rightarrow> h | None \<Rightarrow> ''unknown'')
         in case check_and_record_key acq st (''auth_ip:'' @ client_ip) now of
              (Inl e, st') \<Rightarrow> (Inl e, st')
            | (Inr r, st') \<Rightarrow> (Inr (Some (remaining r, rl_limit r, reset_after r)), st')))"

definition require_rate_limit ::
  "'s acquire_op \<Rightarrow> bool \<Rightarrow> 's \<Rightarrow> api_key \<Rightarrow> real \<Rightarrow>
   (rate_limit_error + (api_key \<times> rate_headers option)) \<times> 's" where
  "require_rate_limit acq enabled st api_key now =
     (if \<not> enabled then (Inr (api_key, None), st)
      else
        (case check_and_record acq st api_key now of
           (Inl e, st') \<Rightarrow> (Inl e, st')
         | (Inr r, st') \<Rightarrow> (Inr (api_key, Some (remaining r, rl_limit r, reset_after r)), st')))"

definition require_admin_rate_limit ::
  "'s acquire_op \<Rightarrow> bool \<Rightarrow> 's \<Rightarrow> api_key \<Rightarrow> real \<Rightarrow>
   (rate_limit_error + (api_key \<times> rate_headers option)) \<times> 's" where
  "require_admin_rate_limit acq enabled st admin_key now =
     (if \<not> enabled then (Inr (admin_key, None), st)
      else
        (case check_and_record acq st admin_key now of
           (Inl e, st') \<Rightarrow> (Inl e, st')
         | (Inr r, st') \<Rightarrow> (Inr (admin_key, Some (remaining r, rl_limit r, reset_after r)), st')))"

section \<open>Runs\<close>

text \<open>A run answers requests in order; \<open>grants\<close> are the times at which a key was let through.\<close>

fun serve :: "limiter \<Rightarrow> (string \<times> real) list \<Rightarrow> (string \<times> real \<times> bool) list \<times> limiter" where
  "serve st [] = ([], st)"
| "serve st ((k, t) # reqs) =
     (case acquire st k t of (r, st') \<Rightarrow>
        (case serve st' reqs of (tr, st'') \<Rightarrow> ((k, t, allowed r) # tr, st'')))"

definition grants :: "string \<Rightarrow> (string \<times> real \<times> bool) list \<Rightarrow> real list" where
  "grants k tr = map (\<lambda>(_, t, _). t) (filter (\<lambda>(k', _, ok). k' = k \<and> ok) tr)"

definition count_since :: "real \<Rightarrow> real list \<Rightarrow> nat" where
  "count_since c xs = length (filter (\<lambda>x. c \<le> x) xs)"

lemma count_since_simps [simp]:
  "count_since c [] = 0"
  "count_since c (xs @ ys) = count_since c xs + count_since c ys"
  "count_since c (x # xs) = (if c \<le> x then 1 else 0) + count_since c xs"
  by (simp_all add: count_since_def)

lemma count_since_le_length: "count_since c xs \<le> length xs"
  by (simp add: count_since_def)

lemma count_since_antimono: "c \<le> c' \<Longrightarrow> count_since c' xs \<le> count_since c xs"
  by (induction xs) auto

lemma count_since_filter: "c0 \<le> c \<Longrightarrow> count_since c (filter (\<lambda>x. c0 \<le> x) xs) = count_since c xs"
  by (induction xs) auto

lemma count_since_0: "(count_since c xs = 0) = (\<forall>x \<in> set xs. x < c)"
  by (induction xs) auto

section \<open>The key invariant\<close>

text \<open>
  \<open>key_inv\<close> relates the queue of one key, the grants it received so far and the time of the last
  request. A missing queue hides at most one recent grant (the one of the garbage-collecting branch);
  a present queue hides at most one, and none once all its own entries have left the window.
\<close>

definition key_inv :: "int \<Rightarrow> int \<Rightarrow> real list option \<Rightarrow> real list \<Rightarrow> real \<Rightarrow> bool" where
  "key_inv l w oq gs now \<longleftrightarrow>
     (\<forall>x \<in> set gs. x \<le> now) \<and>
     (case oq of
        None \<Rightarrow> count_since (now - of_int w) gs \<le> 1
      | Some q \<Rightarrow> sorted q \<and> q \<noteq> [] \<and> int (length q) \<le> l \<and> (\<forall>x \<in> set q. x \<le> now) \<and>
          (\<forall>c \<ge> now - of_int w. count_since c gs \<le> count_since c q + 1 \<and>
             (count_since c q = 0 \<longrightarrow> count_since c gs = 0)))"

lemma key_inv_later:
  assumes "key_inv l w oq gs s" and "s \<le> t"
  shows "key_inv l w oq gs t"
proof -
  have "count_since (t - of_int w) gs \<le> count_since (s - of_int w) gs"
    using assms(2) by (intro count_since_antimono) simp
  then show ?thesis using assms by (force simp: key_inv_def split: option.splits)
qed

lemma key_inv_bound:
  assumes "key_inv l w oq gs t" and "0 < l"
  shows "int (count_since (t - of_int w) gs) \<le> l + 1"
proof (cases oq)
  case None
  with assms show ?thesis by (simp add: key_inv_def)
next
  case (Some q)
  with assms have "count_since (t - of_int w) gs \<le> count_since (t - of_int w) q + 1"
    and "int (length q) \<le> l"
    by (auto simp: key_inv_def)
  then show ?thesis using count_since_le_length [of "t - of_int w" q] by linarith
qed

lemma acquire_config [simp]:
  "max_calls (snd (acquire st k t)) = max_calls st"
  "window_seconds (snd (acquire st k t)) = window_seconds st"
  by (simp_all add: acquire_def Let_def)

lemma acquire_frame [simp]:
  "k' \<noteq> k \<Longrightarrow> dget (queues (snd (acquire st k t))) k' = dget (queues st) k'"
  by (simp add: acquire_def Let_def)

lemma acquire_known:
  assumes "dget (queues st) k = Some q"
    and "q' = dropWhile (\<lambda>x. x < t - of_int (window_seconds st)) q"
  shows "acquire st k t =
    (if q' = [] then
       (\<lparr>allowed = True, remaining = max_calls st, rl_limit = max_calls st, reset_after = window_seconds st\<rparr>,
        st\<lparr>queues := ddel k (queues st)\<rparr>)
     else
       (let reset = max 1 (py_int (hd q' + of_int (window_seconds st) - t))
        in if max_calls st \<le> int (length q')
           then (\<lparr>allowed = False, remaining = 0, rl_limit = max_calls st, reset_after = reset\<rparr>,
                 st\<lparr>queues := dset k q' (queues st)\<rparr>)
           else (\<lparr>allowed = True, remaining = max_calls st - int (length q' + 1),
                  rl_limit = max_calls st, reset_after = reset\<rparr>,
                 st\<lparr>queues := dset k (q' @ [t]) (queues st)\<rparr>)))"
  using assms by (simp add: acquire_def Let_def)

text \<open>One request keeps the invariant of its own key, whichever branch it takes.\<close>

lemma acquire_key_inv:
  assumes inv: "key_inv (max_calls st) (window_seconds st) (dget (queues st) k) gs t" and pos: "0 < max_calls st"
  shows "key_inv (max_calls st) (window_seconds st) (dget (queues (snd (acquire st k t))) k)
           (if allowed (fst (acquire st k t)) then gs @ [t] else gs) t"
proof (cases "dget (queues st) k")
  case None
  with pos have "dget (queues (snd (acquire st k t))) k = Some [t]"
    and "allowed (fst (acquire st k t))"
    by (simp_all add: acquire_def Let_def)
  moreover have "count_since c gs \<le> 1" if "t - of_int (window_seconds st) \<le> c" for c
    using inv None count_since_antimono [OF that, of gs] by (simp add: key_inv_def)
  moreover have "t < c \<Longrightarrow> count_since c gs = 0" for c
    using inv by (force simp: key_inv_def count_since_0)
  ultimately show ?thesis using inv pos by (auto simp: key_inv_def)
next
  case (Some q)
  define c0 where "c0 = t - of_int (window_seconds st)"
  define q' where "q' = filter (\<lambda>x. c0 \<le> x) q"
  have q: "sorted q" "int (length q) \<le> max_calls st" "\<forall>x \<in> set q. x \<le> t"
    and gs: "\<forall>x \<in> set gs. x \<le> t"
    and win: "\<And>c. c0 \<le> c \<Longrightarrow> count_since c gs \<le> count_since c q' + 1"
             "\<And>c. c0 \<le> c \<Longrightarrow> count_since c q' = 0 \<Longrightarrow> count_since c gs = 0"
    using inv Some by (auto simp: key_inv_def c0_def q'_def count_since_filter)
  have drop: "dropWhile (\<lambda>x. x < c0) q = q'"
    using q(1) by (simp add: dropWhile_sorted_filter q'_def)
  have "length q' \<le> length q" by (simp add: q'_def)
  then have len': "int (length q') \<le> max_calls st" using q(2) by linarith
  have q': "sorted q'" "int (length q') \<le> max_calls st" "\<forall>x \<in> set q'. x \<le> t"
    using q len' by (auto simp: q'_def sorted_wrt_filter)
  note acq = acquire_known [OF Some, of q' t, folded c0_def, OF drop [symmetric]]
  consider (gc) "q' = []" | (full) "q' \<noteq> []" "max_calls st \<le> int (length q')"
    | (room) "q' \<noteq> []" "int (length q') < max_calls st"
    by linarith
  then show ?thesis
  proof cases
    case gc
    then have "count_since c0 gs = 0" using win(2) [of c0] by simp
    with gc gs show ?thesis by (simp add: acq key_inv_def flip: c0_def)
  next
    case full
    then show ?thesis using q' gs win by (simp add: acq Let_def key_inv_def flip: c0_def)
  next
    case room
    have "t < c \<Longrightarrow> count_since c gs = 0" for c using gs by (force simp: count_since_0)
    then show ?thesis using room q' gs win by (auto simp: acq Let_def key_inv_def sorted_append simp flip: c0_def)
  qed
qed

section \<open>The limiter interface and its client\<close>

text \<open>
  The \<open>RateLimiter\<close> protocol as the service relies on it: a request of one key does not touch what
  another key may do, a refused request found the allowance of the key used up, and the invariant of
  the limiter survives every request made at a later time.
\<close>

locale rate_limiter =
  fixes acq :: "'s acquire_op"
    and budget :: "'s \<Rightarrow> int"
    and used :: "'s \<Rightarrow> string \<Rightarrow> real \<Rightarrow> nat"
    and invar :: "'s \<Rightarrow> real \<Rightarrow> bool"
  assumes frame: "k' \<noteq> k \<Longrightarrow> used (snd (acq st k t)) k' t' = used st k' t'"
    and refused_full: "\<not> allowed (fst (acq st k t)) \<Longrightarrow> budget st \<le> int (used st k t)"
    and granted_room: "invar st s \<Longrightarrow> s \<le> t \<Longrightarrow> 0 < budget st \<Longrightarrow> allowed (fst (acq st k t)) \<Longrightarrow>
          int (used st k t) < budget st"
    and keeps: "invar st s \<Longrightarrow> s \<le> t \<Longrightarrow> 0 < budget st \<Longrightarrow>
          invar (snd (acq st k t)) t \<and> budget (snd (acq st k t)) = budget st"
begin

lemma check_raises_iff_full:
  assumes "invar st s" and "s \<le> t" and "0 < budget st"
  shows "(\<exists>e. fst (check_and_record acq st ak t) = Inl e) \<longleftrightarrow> budget st \<le> int (used st (ak_key ak) t)"
  using refused_full [of st "ak_key ak" t] granted_room [OF assms, of "ak_key ak"]
  by (auto simp: check_and_record_def split: prod.splits)

lemma check_other_tenant:
  "ak_key other \<noteq> ak_key ak \<Longrightarrow>
   used (snd (check_and_record acq st ak t)) (ak_key other) t' = used st (ak_key other) t'"
  using frame [of "ak_key other" "ak_key ak" st t t'] by (simp add: check_and_record_def case_prod_beta)

end

text \<open>The memory limiter provides it.\<close>

definition queue_of :: "limiter \<Rightarrow> string \<Rightarrow> real list" where
  "queue_of st k = (case dget (queues st) k of None \<Rightarrow> [] | Some q \<Rightarrow> q)"

definition window_used :: "limiter \<Rightarrow> string \<Rightarrow> real \<Rightarrow> nat" where
  "window_used st k t = length (dropWhile (\<lambda>x. x < t - of_int (window_seconds st)) (queue_of st k))"

definition limiter_inv :: "limiter \<Rightarrow> real \<Rightarrow> bool" where
  "limiter_inv st now \<longleftrightarrow>
     (\<forall>k q. dget (queues st) k = Some q \<longrightarrow>
        sorted q \<and> q \<noteq> [] \<and> int (length q) \<le> max_calls st \<and> (\<forall>x \<in> set q. x \<le> now))"

lemma limiter_inv_key_inv:
  "limiter_inv st now \<longleftrightarrow> (\<forall>k. key_inv (max_calls st) (window_seconds st) (dget (queues st) k) [] now)"
  by (force simp: limiter_inv_def key_inv_def split: option.splits)

lemma acquire_limiter_inv:
  assumes inv: "limiter_inv st s" and "s \<le> t" and pos: "0 < max_calls st"
  shows "limiter_inv (snd (acquire st k t)) t"
  unfolding limiter_inv_def
proof (intro allI impI)
  fix k' q
  assume q: "dget (queues (snd (acquire st k t))) k' = Some q"
  have inv': "limiter_inv st t" using inv \<open>s \<le> t\<close> by (force simp: limiter_inv_def)
  show "sorted q \<and> q \<noteq> [] \<and> int (length q) \<le> max_calls (snd (acquire st k t)) \<and> (\<forall>x \<in> set q. x \<le> t)"
  proof (cases "k' = k")
    case True
    from inv' have "key_inv (max_calls st) (window_seconds st) (dget (queues st) k) [] t"
      by (simp add: limiter_inv_key_inv)
    from acquire_key_inv [OF this pos] q True show ?thesis by (simp add: key_inv_def)
  next
    case False
    with q inv' show ?thesis by (simp add: limiter_inv_def)
  qed
qed

interpretation memory: rate_limiter acquire max_calls window_used limiter_inv
proof unfold_locales
  show "k' \<noteq> k \<Longrightarrow> window_used (snd (acquire st k t)) k' t' = window_used st k' t'" for k' k st t t'
    by (simp add: window_used_def queue_of_def)
  show "\<not> allowed (fst (acquire st k t)) \<Longrightarrow> max_calls st \<le> int (window_used st k t)" for st k t
    by (auto simp: acquire_def Let_def window_used_def queue_of_def split: if_splits option.splits)
  show "limiter_inv st s \<Longrightarrow> s \<le> t \<Longrightarrow> 0 < max_calls st \<Longrightarrow> allowed (fst (acquire st k t)) \<Longrightarrow>
      int (window_used st k t) < max_calls st" for st s t k
    by (cases "dropWhile (\<lambda>x. x < t - of_int (window_seconds st)) (queue_of st k) = []")
       (auto simp: acquire_def Let_def window_used_def queue_of_def simp del: dropWhile_eq_Nil_conv
          split: if_splits option.splits)
  show "limiter_inv st s \<Longrightarrow> s \<le> t \<Longrightarrow> 0 < max_calls st \<Longrightarrow>
      limiter_inv (snd (acquire st k t)) t \<and> max_calls (snd (acquire st k t)) = max_calls st" for st s t k
    by (simp add: acquire_limiter_inv)
qed

section \<open>Properties\<close>

lemma serve_append:
  "serve st (xs @ ys) =
     (case serve st xs of (tr, st') \<Rightarrow> case serve st' ys of (tr', st'') \<Rightarrow> (tr @ tr', st''))"
  by (induction st xs rule: serve.induct) (auto split: prod.splits)

lemma serve_config:
  "max_calls (snd (serve st reqs)) = max_calls st \<and> window_seconds (snd (serve st reqs)) = window_seconds st"
proof (induction st reqs rule: serve.induct)
  case (1 st)
  then show ?case by simp
next
  case (2 st k t reqs)
  then show ?case by (cases "acquire st k t") (simp add: case_prod_beta, metis acquire_config snd_conv)
qed

lemma serve_key_inv:
  assumes "queues st = []" and "0 < max_calls st" and "sorted (map snd reqs)"
    and "\<forall>r \<in> set reqs. snd r \<le> t"
  shows "key_inv (max_calls st) (window_seconds st) (dget (queues (snd (serve st reqs))) k)
           (grants k (fst (serve st reqs))) t"
  using assms
proof (induction reqs arbitrary: t rule: rev_induct)
  case Nil
  then show ?case by (simp add: key_inv_def grants_def)
next
  case (snoc r reqs)
  obtain k' t' where r: "r = (k', t')" by fastforce
  define st' where "st' = snd (serve st reqs)"
  have cfg: "max_calls st' = max_calls st" "window_seconds st' = window_seconds st"
    by (simp_all add: st'_def serve_config)
  have last: "dget (queues (snd (serve st (reqs @ [r])))) k = dget (queues (snd (acquire st' k' t'))) k"
    "grants k (fst (serve st (reqs @ [r]))) =
       grants k (fst (serve st reqs)) @ (if k' = k \<and> allowed (fst (acquire st' k' t')) then [t'] else [])"
    by (simp_all add: r st'_def serve_append grants_def split: prod.splits)
  have IH: "key_inv (max_calls st') (window_seconds st') (dget (queues st') k) (grants k (fst (serve st reqs))) t'"
    using snoc by (auto simp: st'_def serve_config r sorted_append)
  have "key_inv (max_calls st') (window_seconds st') (dget (queues (snd (acquire st' k' t'))) k)
          (grants k (fst (serve st (reqs @ [r])))) t'"
  proof (cases "k' = k")
    case True
    from acquire_key_inv [OF IH] snoc.prems(2) cfg True show ?thesis
      unfolding last by (auto split: if_splits)
  next
    case False
    with IH show ?thesis by (simp add: last)
  qed
  moreover have "t' \<le> t" using snoc.prems(4) r by simp
  ultimately show ?case by (simp add: last cfg key_inv_later)
qed

text \<open>
  C4: over any run of requests with a monotonic clock, from a fresh limiter with a positive limit, the
  requests of one key that were let through within one closed window ending at the last request
  number at most the limit plus one. The extra one comes from the branch that drops an expired queue
  and answers without recording the request. With a limit of 0 there is no such bound: see \<open>zero_limit_lets_through\<close>.
\<close>

theorem sliding_window_bound:
  assumes "0 < l" and "sorted (map snd reqs)" and "\<forall>r \<in> set reqs. snd r \<le> t"
  shows "int (count_since (t - of_int w) (grants k (fst (serve (new_limiter l w) reqs)))) \<le> l + 1"
proof -
  have "key_inv l w (dget (queues (snd (serve (new_limiter l w) reqs))) k)
          (grants k (fst (serve (new_limiter l w) reqs))) t"
    using serve_key_inv [of "new_limiter l w" reqs t k] assms by (simp add: new_limiter_def)
  then show ?thesis using assms(1) by (rule key_inv_bound)
qed

theorem sliding_window_bound_witness:
  "int (count_since (62 - of_int 60)
     (grants ''a'' (fst (serve (new_limiter 1 60) [(''a'', 0), (''a'', 61), (''a'', 62)])))) \<le> 1 + 1"
  by (rule sliding_window_bound) simp_all

text \<open>
  The bound is attained: with a limit of one request per 60 seconds, the requests at 61s and 62s are
  both let through.
\<close>

lemma sliding_window_bound_tight:
  "fst (serve (new_limiter 1 60) [(''a'', 0), (''a'', 61), (''a'', 62), (''a'', 63)]) =
     [(''a'', 0, True), (''a'', 61, True), (''a'', 62, True), (''a'', 63, False)]"
  by (simp add: acquire_def new_limiter_def)

text \<open>A limit of zero refuses only every other request: the empty queue of the first is dropped by the second.\<close>

lemma zero_limit_lets_through:
  "fst (serve (new_limiter 0 60) [(''a'', 0), (''a'', 1), (''a'', 2), (''a'', 3)]) =
     [(''a'', 0, False), (''a'', 1, True), (''a'', 2, False), (''a'', 3, True)]"
  by (simp add: acquire_def new_limiter_def)

text \<open>
  With a positive limit and a clock that does not go back, \<open>check_and_record\<close> raises
  \<open>RateLimitError\<close> exactly when the entries of the key inside the window have used up the limit.
\<close>

theorem check_and_record_raises_iff:
  assumes "limiter_inv st s" and "s \<le> t" and "0 < max_calls st"
  shows "(\<exists>e. fst (check_and_record acquire st ak t) = Inl e) \<longleftrightarrow>
         max_calls st \<le> int (window_used st (ak_key ak) t)"
  using assms by (rule memory.check_raises_iff_full)

theorem check_and_record_raises_iff_witness:
  "(\<exists>e. fst (check_and_record acquire \<lparr>max_calls = 1, window_seconds = 60, queues = [(''h'', [5])]\<rparr>
       \<lparr>ak_key = ''h'', ak_name = ''n'', ak_id = None, ak_user_id = None, ak_workspace_id = None\<rparr> 9) = Inl e)"
  using check_and_record_raises_iff [of "\<lparr>max_calls = 1, window_seconds = 60, queues = [(''h'', [5])]\<rparr>" 5 9
      "\<lparr>ak_key = ''h'', ak_name = ''n'', ak_id = None, ak_user_id = None, ak_workspace_id = None\<rparr>"]
  by (simp add: limiter_inv_def window_used_def queue_of_def)

text \<open>
  C5: the advertised delay works: a key refused at \<open>now\<close> with \<open>reset_after\<close> seconds to wait is let
  through when it comes back more than one second after that delay (the delay is truncated to whole
  seconds) and nobody used the key in between.
\<close>

theorem retry_after_reset:
  assumes inv: "limiter_inv st s" "s \<le> now" and pos: "0 < max_calls st"
    and refused: "\<not> allowed (fst (acquire st k now))"
    and later: "now + of_int (reset_after (fst (acquire st k now))) + 1 \<le> now'"
  shows "allowed (fst (acquire (snd (acquire st k now)) k now'))"
proof -
  define c0 where "c0 = now - of_int (window_seconds st)"
  obtain q where q: "dget (queues st) k = Some q" "dropWhile (\<lambda>x. x < c0) q \<noteq> []"
    using refused pos by (auto simp: acquire_def Let_def c0_def split: option.splits if_splits)
  define q' where "q' = dropWhile (\<lambda>x. x < c0) q"
  have full: "max_calls st \<le> int (length q')"
    and st': "dget (queues (snd (acquire st k now))) k = Some q'"
    and reset: "reset_after (fst (acquire st k now)) =
                max 1 (py_int (hd q' + of_int (window_seconds st) - now))"
    using refused q by (auto simp: acquire_def Let_def c0_def q'_def split: if_splits)
  have "int (length q') \<le> max_calls st"
    using inv(1) q(1) length_dropWhile_le [of "\<lambda>x. x < c0" q] by (force simp: limiter_inv_def q'_def)
  obtain x xs where xs: "q' = x # xs" using q(2) by (cases q') (auto simp: q'_def)
  have "0 \<le> x + of_int (window_seconds st) - now"
    using xs hd_dropWhile [OF q(2)] unfolding q'_def [symmetric] by (simp add: c0_def)
  then have "x + of_int (window_seconds st) - now < of_int (reset_after (fst (acquire st k now))) + 1"
    using reset xs by (simp add: py_int_def) linarith
  then have "x < now' - of_int (window_seconds st)" using later by linarith
  then have "length (dropWhile (\<lambda>y. y < now' - of_int (window_seconds st)) q') < length q'"
    using xs length_dropWhile_le [of "\<lambda>y. y < now' - of_int (window_seconds st)" xs] by simp
  with \<open>int (length q') \<le> max_calls st\<close> show ?thesis
    using acquire_config [of st k now] by (simp add: acquire_def [of _ k now'] Let_def st')
qed

theorem retry_after_reset_witness:
  "allowed (fst (acquire (snd (acquire \<lparr>max_calls = 1, window_seconds = 60, queues = [(''h'', [5])]\<rparr> ''h'' 9)) ''h'' 66))"
  by (rule retry_after_reset [where s = 5])
     (simp_all add: limiter_inv_def acquire_def py_int_def)

end
