(* ===== verification/Usage.thy ===== *)
theory Usage
  imports Prelude
begin

text \<open>
  Token usage accounting: \<open>app/usage/models.py\<close>, the in-memory repository
  (\<open>app/usage/memory_repository.py\<close>), \<open>UsageService\<close> (\<open>app/usage/service.py\<close>) and
  \<open>UsageCollector\<close> (\<open>app/usage/collector.py\<close>).

  A key of the \<open>_daily\<close> dictionary, the string \<open>hash:date\<close>, is the pair of the two: API-key hashes are
  hexadecimal and contain no colon, so the prefix test on the string is a test on the components.
  \<open>today\<close> is the UTC date at which an operation runs.
\<close>

section \<open>Data\<close>

record usage_record =
  ur_request_id :: string
  ur_model :: string
  ur_prompt_tokens :: int
  ur_completion_tokens :: int
  ur_total_tokens :: int
  ur_latency_ms :: real
  ur_api_key_name :: "string option"
  ur_api_key_hash :: "string option"
  ur_workspace_id :: "string option"
  ur_usage_date :: "date option"

record usage_aggregation =
  agg_model :: string
  agg_request_count :: int
  agg_prompt_tokens :: int
  agg_completion_tokens :: int
  agg_total_tokens :: int

definition new_aggregation :: "string \<Rightarrow> usage_aggregation" where
  "new_aggregation m = \<lparr>agg_model = m, agg_request_count = 0, agg_prompt_tokens = 0,
     agg_completion_tokens = 0, agg_total_tokens = 0\<rparr>"

record usage_point =
  pt_usage_date :: date
  pt_total_tokens :: int
  pt_request_count :: int

record usage_ranking =
  rk_name :: string
  rk_total_tokens :: int
  rk_request_count :: int

record model_stats =
  ms_requests :: int
  ms_total_tokens :: int

record usage_summary =
  us_total_requests :: int
  us_total_prompt_tokens :: int
  us_total_completion_tokens :: int
  us_total_tokens :: int
  us_by_model :: "(string, model_stats) pydict"

section \<open>The in-memory repository\<close>

definition max_records :: nat where "max_records = 1000"
definition max_daily_days :: int where "max_daily_days = 90"

record usage_repo =
  ur_records :: "usage_record list"
  ur_daily :: "(string \<times> date, (string, usage_aggregation) pydict) pydict"

definition empty_usage_repo :: usage_repo where
  "empty_usage_repo = \<lparr>ur_records = [], ur_daily = []\<rparr>"

definition daily_cutoff :: "date \<Rightarrow> date" where
  "daily_cutoff today = shift_days today (- max_daily_days)"

definition cleanup_old_daily :: "date \<Rightarrow> usage_repo \<Rightarrow> usage_repo" where
  "cleanup_old_daily today st =
     st\<lparr>ur_daily := filter (\<lambda>(k, _). \<not> snd k < daily_cutoff today) (ur_daily st)\<rparr>"

definition add_record :: "usage_record \<Rightarrow> usage_aggregation \<Rightarrow> usage_aggregation" where
  "add_record r a = a\<lparr>
     agg_request_count := agg_request_count a + 1,
     agg_prompt_tokens := agg_prompt_tokens a + ur_prompt_tokens r,
     agg_completion_tokens := agg_completion_tokens a + ur_completion_tokens r,
     agg_total_tokens := agg_total_tokens a + ur_total_tokens r\<rparr>"

definition add_daily :: "usage_record \<Rightarrow> usage_repo \<Rightarrow> usage_repo" where
  "add_daily r st =
     (case (ur_api_key_hash r, ur_usage_date r) of
        (Some h, Some d) \<Rightarrow>
          if h = [] then st
          else st\<lparr>ur_daily := dacc (h, d) []
                   (dacc (ur_model r) (new_aggregation (ur_model r)) (add_record r)) (ur_daily st)\<rparr>
      | _ \<Rightarrow> st)"

definition record_usage :: "date \<Rightarrow> usage_record \<Rightarrow> usage_repo \<Rightarrow> usage_repo" where
  "record_usage today r st =
     (let recs = ur_records st @ [r];
          recs' = (if max_records < length recs then drop (length recs - max_records) recs else recs)
      in cleanup_old_daily today (add_daily r (st\<lparr>ur_records := recs'\<rparr>)))"

definition get_daily_usage :: "usage_repo \<Rightarrow> string \<Rightarrow> date \<Rightarrow> usage_aggregation list" where
  "get_daily_usage st h d = (case dget (ur_daily st) (h, d) of None \<Rightarrow> [] | Some aggs \<Rightarrow> dvalues aggs)"

definition merge_aggregation :: "usage_aggregation \<Rightarrow> usage_aggregation \<Rightarrow> usage_aggregation" where
  "merge_aggregation a m = m\<lparr>
     agg_request_count := agg_request_count m + agg_request_count a,
     agg_prompt_tokens := agg_prompt_tokens m + agg_prompt_tokens a,
     agg_completion_tokens := agg_completion_tokens m + agg_completion_tokens a,
     agg_total_tokens := agg_total_tokens m + agg_total_tokens a\<rparr>"

definition get_monthly_usage :: "usage_repo \<Rightarrow> string \<Rightarrow> year_month \<Rightarrow> usage_aggregation list" where
  "get_monthly_usage st h ym =
     dvalues (fold (\<lambda>a. dacc (agg_model a) (new_aggregation (agg_model a)) (merge_aggregation a))
       (concat (map (\<lambda>(_, aggs). dvalues aggs)
          (filter (\<lambda>((h', d), _). h' = h \<and> ym_of d = ym) (ur_daily st)))) [])"

definition get_total_tokens_for_key :: "usage_repo \<Rightarrow> string \<Rightarrow> date \<Rightarrow> int" where
  "get_total_tokens_for_key st h d = sum_list (map agg_total_tokens (get_daily_usage st h d))"

definition get_total_tokens_for_workspace :: "usage_repo \<Rightarrow> string \<Rightarrow> date \<Rightarrow> int" where
  "get_total_tokens_for_workspace st ws d =
     sum_list (map ur_total_tokens
       (filter (\<lambda>r. ur_workspace_id r = Some ws \<and> ur_usage_date r = Some d) (ur_records st)))"

definition in_month :: "year_month \<Rightarrow> usage_record \<Rightarrow> bool" where
  "in_month ym r = (case ur_usage_date r of None \<Rightarrow> False | Some d \<Rightarrow> ym_of d = ym)"

definition get_monthly_usage_for_workspace ::
  "usage_repo \<Rightarrow> string \<Rightarrow> year_month \<Rightarrow> usage_aggregation list" where
  "get_monthly_usage_for_workspace st ws ym =
     dvalues (fold (\<lambda>r. dacc (ur_model r) (new_aggregation (ur_model r))
         (\<lambda>a. a\<lparr>agg_request_count := agg_request_count a + 1,
                 agg_total_tokens := agg_total_tokens a + ur_total_tokens r\<rparr>))
       (filter (\<lambda>r. ur_workspace_id r = Some ws \<and> in_month ym r) (ur_records st)) [])"

definition in_scope :: "usage_record \<Rightarrow> string \<Rightarrow> bool" where
  "in_scope r owner \<longleftrightarrow>
     (if ur_workspace_id r = Some owner then True
      else ur_workspace_id r = None \<and> ur_api_key_hash r = Some owner)"

definition window_start :: "date \<Rightarrow> int \<Rightarrow> date" where
  "window_start today days = shift_days today (- (days - 1))"

definition in_window :: "date \<Rightarrow> string \<Rightarrow> usage_record \<Rightarrow> bool" where
  "in_window start owner r \<longleftrightarrow> in_scope r owner \<and>
     (case ur_usage_date r of None \<Rightarrow> False | Some d \<Rightarrow> \<not> d < start)"

definition get_workspace_trend :: "date \<Rightarrow> usage_repo \<Rightarrow> string \<Rightarrow> int \<Rightarrow> usage_point list" where
  "get_workspace_trend today st owner days =
     map snd (sort_key fst (fold (\<lambda>r. dacc (the (ur_usage_date r))
         \<lparr>pt_usage_date = the (ur_usage_date r), pt_total_tokens = 0, pt_request_count = 0\<rparr>
         (\<lambda>p. p\<lparr>pt_total_tokens := pt_total_tokens p + ur_total_tokens r,
                 pt_request_count := pt_request_count p + 1\<rparr>))
       (filter (in_window (window_start today days) owner) (ur_records st)) []))"

definition add_ranking :: "usage_record \<Rightarrow> usage_ranking \<Rightarrow> usage_ranking" where
  "add_ranking r k = k\<lparr>rk_total_tokens := rk_total_tokens k + ur_total_tokens r,
                       rk_request_count := rk_request_count k + 1\<rparr>"

definition rank :: "date \<Rightarrow> usage_record list \<Rightarrow> string \<Rightarrow> int \<Rightarrow> (usage_record \<Rightarrow> string) \<Rightarrow> usage_ranking list" where
  "rank today recs owner days key =
     sort_key (\<lambda>k. - rk_total_tokens k)
       (dvalues (fold (\<lambda>r. dacc (key r)
           \<lparr>rk_name = key r, rk_total_tokens = 0, rk_request_count = 0\<rparr> (add_ranking r))
         (filter (in_window (window_start today days) owner) recs) []))"

definition get_workspace_model_ranking :: "date \<Rightarrow> usage_repo \<Rightarrow> string \<Rightarrow> int \<Rightarrow> usage_ranking list" where
  "get_workspace_model_ranking today st owner days = rank today (ur_records st) owner days ur_model"

definition get_workspace_key_ranking :: "date \<Rightarrow> usage_repo \<Rightarrow> string \<Rightarrow> int \<Rightarrow> usage_ranking list" where
  "get_workspace_key_ranking today st owner days =
     map (\<lambda>k. k\<lparr>rk_name := take 8 (rk_name k)\<rparr>)
       (rank today (ur_records st) owner days
          (\<lambda>r. case ur_api_key_hash r of None \<Rightarrow> [] | Some h \<Rightarrow> h))"

definition summarize_step :: "usage_record \<Rightarrow> usage_summary \<Rightarrow> usage_summary" where
  "summarize_step r s = s\<lparr>
     us_total_requests := us_total_requests s + 1,
     us_total_prompt_tokens := us_total_prompt_tokens s + ur_prompt_tokens r,
     us_total_completion_tokens := us_total_completion_tokens s + ur_completion_tokens r,
     us_total_tokens := us_total_tokens s + ur_total_tokens r,
     us_by_model := dacc (ur_model r) \<lparr>ms_requests = 0, ms_total_tokens = 0\<rparr>
       (\<lambda>m. m\<lparr>ms_requests := ms_requests m + 1,
               ms_total_tokens := ms_total_tokens m + ur_total_tokens r\<rparr>) (us_by_model s)\<rparr>"

definition summarize :: "usage_record list \<Rightarrow> usage_summary" where
  "summarize recs = fold summarize_step recs
     \<lparr>us_total_requests = 0, us_total_prompt_tokens = 0, us_total_completion_tokens = 0,
      us_total_tokens = 0, us_by_model = []\<rparr>"

definition get_all_summary :: "usage_repo \<Rightarrow> usage_summary" where
  "get_all_summary st = summarize (ur_records st)"

definition get_summary_for_key :: "usage_repo \<Rightarrow> string \<Rightarrow> usage_summary" where
  "get_summary_for_key st h = summarize (filter (\<lambda>r. ur_api_key_hash r = Some h) (ur_records st))"

section \<open>Service and collector\<close>

type_synonym 's record_op = "date \<Rightarrow> usage_record \<Rightarrow> 's \<Rightarrow> 's"

definition service_record :: "'s record_op \<Rightarrow> date \<Rightarrow> usage_record \<Rightarrow> 's \<Rightarrow> 's" where
  "service_record rec today u st =
     (let u1 = (if ur_usage_date u = None then u\<lparr>ur_usage_date := Some today\<rparr> else u);
          u2 = (if ur_api_key_hash u1 = None then u1\<lparr>ur_api_key_hash := Some []\<rparr> else u1)
      in rec today u2 st)"

record identity_context =
  ic_user_id :: "string option"
  ic_workspace_id :: "string option"
  ic_api_key_id :: "string option"
  ic_api_key_hash :: string
  ic_role :: "string option"

record request_context =
  rc_request_id :: string
  rc_api_key :: "string option"
  rc_api_key_name :: "string option"
  rc_identity :: "identity_context option"

definition context_workspace_id :: "request_context \<Rightarrow> string option" where
  "context_workspace_id c = (case rc_identity c of None \<Rightarrow> None | Some i \<Rightarrow> ic_workspace_id i)"

record chat_usage =
  cu_model :: string
  cu_prompt_tokens :: "int option"
  cu_completion_tokens :: "int option"

definition usage_of ::
  "request_context \<Rightarrow> string \<Rightarrow> int option \<Rightarrow> int option \<Rightarrow> real \<Rightarrow> usage_record" where
  "usage_of c m prompt completion latency =
     \<lparr>ur_request_id = rc_request_id c, ur_model = m,
      ur_prompt_tokens = py_or prompt 0, ur_completion_tokens = py_or completion 0,
      ur_total_tokens = py_or prompt 0 + py_or completion 0, ur_latency_ms = latency,
      ur_api_key_name = rc_api_key_name c, ur_api_key_hash = rc_api_key c,
      ur_workspace_id = context_workspace_id c, ur_usage_date = None\<rparr>"

definition record_chat :: "'s record_op \<Rightarrow> date \<Rightarrow> request_context \<Rightarrow> chat_usage \<Rightarrow> real \<Rightarrow> 's \<Rightarrow> 's" where
  "record_chat rec today c resp latency st =
     service_record rec today
       (usage_of c (cu_model resp) (cu_prompt_tokens resp) (cu_completion_tokens resp) latency) st"

text \<open>
  \<open>record_stream\<close>: the chunks seen before the stream ends (normally, by an error or because the
  consumer stops) are passed through; the \<open>finally\<close> block records the last model name and the last
  token counts that were reported.
\<close>

fun stream_totals :: "string \<times> int option \<times> int option \<Rightarrow> chat_usage list \<Rightarrow> string \<times> int option \<times> int option" where
  "stream_totals acc [] = acc"
| "stream_totals (m, p, c) (r # rs) =
     stream_totals (if cu_model r \<noteq> [] then cu_model r else m,
                    if cu_prompt_tokens r \<noteq> None then cu_prompt_tokens r else p,
                    if cu_completion_tokens r \<noteq> None then cu_completion_tokens r else c) rs"

definition record_stream ::
  "'s record_op \<Rightarrow> date \<Rightarrow> request_context \<Rightarrow> chat_usage list \<Rightarrow> string \<Rightarrow> real \<Rightarrow> 's \<Rightarrow> chat_usage list \<times> 's" where
  "record_stream rec today c seen m latency st =
     (case stream_totals (m, None, None) seen of (m', p, cmp) \<Rightarrow>
        (seen, service_record rec today (usage_of c m' p cmp latency) st))"

section \<open>Invariant\<close>

definition usage_wf :: "usage_repo \<Rightarrow> bool" where
  "usage_wf st \<longleftrightarrow> dict_wf (ur_daily st) \<and> length (ur_records st) \<le> max_records \<and>
     (\<forall>k aggs. dget (ur_daily st) k = Some aggs \<longrightarrow> dict_wf aggs)"

lemma usage_wf_empty: "usage_wf empty_usage_repo"
  by (simp add: usage_wf_def empty_usage_repo_def)

lemma dget_cleanup:
  "dget (filter (\<lambda>(k, _). \<not> snd k < c) d) k = (if snd k < c then None else dget d k)"
  by (induction d) auto

lemma ur_daily_add_daily:
  "ur_daily (add_daily r st) =
     (if \<exists>h d. ur_api_key_hash r = Some h \<and> h \<noteq> [] \<and> ur_usage_date r = Some d
      then dacc (the (ur_api_key_hash r), the (ur_usage_date r)) []
             (dacc (ur_model r) (new_aggregation (ur_model r)) (add_record r)) (ur_daily st)
      else ur_daily st)"
  by (auto simp: add_daily_def split: option.splits)

lemma ur_daily_record_usage:
  "ur_daily (record_usage today r st) =
     filter (\<lambda>(k, _). \<not> snd k < daily_cutoff today) (ur_daily (add_daily r st))"
  by (auto simp: record_usage_def cleanup_old_daily_def add_daily_def Let_def split: option.splits)

lemma ur_records_record_usage:
  "ur_records (record_usage today r st) =
     drop (length (ur_records st @ [r]) - max_records) (ur_records st @ [r])"
  by (auto simp: record_usage_def cleanup_old_daily_def add_daily_def Let_def split: option.splits)

lemma usage_wf_record [inv_intros]:
  assumes "usage_wf st"
  shows "usage_wf (record_usage today r st)"
  using assms unfolding usage_wf_def ur_records_record_usage ur_daily_record_usage
  by (auto simp: ur_daily_add_daily dget_cleanup max_records_def split: if_splits option.splits)

lemma total_record_usage:
  assumes "usage_wf st"
  shows "get_total_tokens_for_key (record_usage today r st) h d =
    (if d < daily_cutoff today then 0
     else get_total_tokens_for_key st h d +
       (if ur_api_key_hash r = Some h \<and> h \<noteq> [] \<and> ur_usage_date r = Some d then ur_total_tokens r else 0))"
proof (cases "ur_api_key_hash r = Some h \<and> h \<noteq> [] \<and> ur_usage_date r = Some d")
  case True
  let ?aggs = "case dget (ur_daily st) (h, d) of None \<Rightarrow> [] | Some a \<Rightarrow> a"
  have "dict_wf ?aggs" using assms by (auto simp: usage_wf_def split: option.splits)
  then have "sum_list (map agg_total_tokens
      (dvalues (dacc (ur_model r) (new_aggregation (ur_model r)) (add_record r) ?aggs))) =
      sum_list (map agg_total_tokens (dvalues ?aggs)) + ur_total_tokens r"
    by (rule sum_dacc) (simp_all add: add_record_def new_aggregation_def)
  with True show ?thesis
    by (auto simp: get_total_tokens_for_key_def get_daily_usage_def ur_daily_record_usage dget_cleanup
        ur_daily_add_daily split: option.splits)
next
  case False
  then have "dget (ur_daily (add_daily r st)) (h, d) = dget (ur_daily st) (h, d)"
    by (auto simp: ur_daily_add_daily)
  with False show ?thesis
    by (auto simp: get_total_tokens_for_key_def get_daily_usage_def ur_daily_record_usage dget_cleanup)
qed

lemma daily_cutoff_le: "sane_today today \<Longrightarrow> \<not> today < daily_cutoff today"
  using shift_back_le [of 90 today] by (simp add: daily_cutoff_def max_daily_days_def sane_today_def not_less)

section \<open>The usage interface and its clients\<close>

text \<open>
  \<open>UsageRepository\<close> as the service, the collector and the quota layer rely on it: recording a usage
  dated today adds its tokens to the key's total of today and to no other key's.
\<close>

locale usage_repository =
  fixes rec :: "'s record_op"
    and used :: "'s \<Rightarrow> string \<Rightarrow> date \<Rightarrow> int"
    and invar :: "'s \<Rightarrow> bool"
  assumes charge: "invar st \<Longrightarrow> sane_today today \<Longrightarrow> ur_api_key_hash r = Some h \<Longrightarrow> h \<noteq> [] \<Longrightarrow>
      ur_usage_date r = Some today \<Longrightarrow> used (rec today r st) h today = used st h today + ur_total_tokens r"
    and frame: "invar st \<Longrightarrow> sane_today today \<Longrightarrow> ur_api_key_hash r \<noteq> Some h \<Longrightarrow>
      used (rec today r st) h today = used st h today"
    and keeps: "invar st \<Longrightarrow> invar (rec today r st)"
begin

lemma service_charges:
  assumes "invar st" "sane_today today" "ur_api_key_hash u = Some h" "h \<noteq> []" "ur_usage_date u = None"
  shows "used (service_record rec today u st) h today = used st h today + ur_total_tokens u"
  using assms charge [of st today "u\<lparr>ur_usage_date := Some today\<rparr>" h] by (simp add: service_record_def)

lemma service_frame:
  assumes "invar st" "sane_today today" "ur_api_key_hash u \<noteq> Some h" "h \<noteq> []"
  shows "used (service_record rec today u st) h today = used st h today"
  using assms unfolding service_record_def Let_def by (auto intro!: frame)

lemma collector_charges:
  assumes "invar st" "sane_today today" "h \<noteq> []"
  shows "used (record_chat rec today c resp latency st) h today =
    used st h today + (if rc_api_key c = Some h
       then py_or (cu_prompt_tokens resp) 0 + py_or (cu_completion_tokens resp) 0 else 0)"
proof (cases "rc_api_key c = Some h")
  case True
  then show ?thesis
    using assms service_charges [of st today "usage_of c (cu_model resp) (cu_prompt_tokens resp)
        (cu_completion_tokens resp) latency" h]
    by (simp add: record_chat_def usage_of_def)
next
  case False
  then show ?thesis
    using assms service_frame [of st today "usage_of c (cu_model resp) (cu_prompt_tokens resp)
        (cu_completion_tokens resp) latency" h]
    by (simp add: record_chat_def usage_of_def)
qed

lemma stream_charges:
  assumes "invar st" "sane_today today" "h \<noteq> []" "rc_api_key c = Some h"
    and "stream_totals (m, None, None) seen = (m', p, cmp)"
  shows "used (snd (record_stream rec today c seen m latency st)) h today =
    used st h today + py_or p 0 + py_or cmp 0"
  using assms service_charges [of st today "usage_of c m' p cmp latency" h]
  by (simp add: record_stream_def usage_of_def)

end

interpretation memory_usage: usage_repository record_usage get_total_tokens_for_key usage_wf
  by unfold_locales (auto simp: total_record_usage daily_cutoff_le inv_intros)

section \<open>Aggregation loops\<close>

lemma monthly_total:
  "sum_list (map agg_total_tokens (get_monthly_usage st h ym)) =
     sum_list (map (\<lambda>(_, aggs). sum_list (map agg_total_tokens (dvalues aggs)))
       (filter (\<lambda>((h', d), _). h' = h \<and> ym_of d = ym) (ur_daily st)))"
proof -
  let ?es = "filter (\<lambda>((h', d), _). h' = h \<and> ym_of d = ym) (ur_daily st)"
  have "sum_list (map agg_total_tokens (get_monthly_usage st h ym)) =
      sum_list (map agg_total_tokens (concat (map (\<lambda>(_, aggs). dvalues aggs) ?es)))"
    unfolding get_monthly_usage_def
    by (subst sum_fold_dacc [where x = agg_total_tokens])
       (simp_all add: merge_aggregation_def new_aggregation_def)
  also have "\<dots> = sum_list (map (\<lambda>(_, aggs). sum_list (map agg_total_tokens (dvalues aggs))) ?es)"
    by (simp add: sum_list_map_concat comp_def split_def)
  finally show ?thesis .
qed

lemma sum_entries:
  fixes f :: "'v \<Rightarrow> int"
  assumes "dict_wf d"
  shows "sum_list (map (\<lambda>(_, v). f v) (filter (\<lambda>(k, _). P k) d)) =
         (\<Sum>k \<in> {k \<in> fst ` set d. P k}. f (the (dget d k)))"
  using assms unfolding dict_wf_def
proof (induction d)
  case Nil
  then show ?case by simp
next
  case (Cons kv d)
  obtain k v where kv: "kv = (k, v)" by fastforce
  have fresh: "k \<notin> fst ` set d" using Cons.prems kv by simp
  have rest: "(\<Sum>k' \<in> {k' \<in> fst ` set d. P k'}. f (the (dget (kv # d) k'))) =
              (\<Sum>k' \<in> {k' \<in> fst ` set d. P k'}. f (the (dget d k')))"
    by (rule sum.cong) (use fresh kv in auto)
  have split: "{k' \<in> fst ` set (kv # d). P k'} =
      (if P k then insert k {k' \<in> fst ` set d. P k'} else {k' \<in> fst ` set d. P k'})"
    using kv by auto
  show ?case
  proof (cases "P k")
    case True
    have "(\<Sum>k' \<in> {k' \<in> fst ` set (kv # d). P k'}. f (the (dget (kv # d) k'))) =
          f v + (\<Sum>k' \<in> {k' \<in> fst ` set d. P k'}. f (the (dget (kv # d) k')))"
      unfolding split using True fresh kv by (simp add: sum.insert)
    then show ?thesis using Cons rest True kv by simp
  next
    case False
    then show ?thesis using Cons rest split kv by simp
  qed
qed

lemma rank_lookup:
  "dget (fold (\<lambda>r. dacc (key r) \<lparr>rk_name = key r, rk_total_tokens = 0, rk_request_count = 0\<rparr> (add_ranking r)) rs []) n =
    (if n \<in> key ` set rs
     then Some \<lparr>rk_name = n, rk_total_tokens = sum_list (map ur_total_tokens (filter (\<lambda>r. key r = n) rs)),
                rk_request_count = int (length (filter (\<lambda>r. key r = n) rs))\<rparr>
     else None)"
  by (induction rs rule: rev_induct) (auto simp: add_ranking_def filter_key_none)

lemma rank_entries:
  assumes "d = fold (\<lambda>r. dacc (key r) \<lparr>rk_name = key r, rk_total_tokens = 0, rk_request_count = 0\<rparr> (add_ranking r)) rs []"
  shows "dict_wf d" and "dvalues d = map (\<lambda>(n, _). \<lparr>rk_name = n,
      rk_total_tokens = sum_list (map ur_total_tokens (filter (\<lambda>r. key r = n) rs)),
      rk_request_count = int (length (filter (\<lambda>r. key r = n) rs))\<rparr>) d"
proof -
  show wf: "dict_wf d" by (simp add: assms)
  show "dvalues d = map (\<lambda>(n, _). \<lparr>rk_name = n,
      rk_total_tokens = sum_list (map ur_total_tokens (filter (\<lambda>r. key r = n) rs)),
      rk_request_count = int (length (filter (\<lambda>r. key r = n) rs))\<rparr>) d"
  proof (rule map_cong [OF refl])
    fix e assume "e \<in> set d"
    then have "dget d (fst e) = Some (snd e)" using wf by (simp add: dget_iff_mem)
    then show "snd e = (case e of (n, _) \<Rightarrow> \<lparr>rk_name = n,
        rk_total_tokens = sum_list (map ur_total_tokens (filter (\<lambda>r. key r = n) rs)),
        rk_request_count = int (length (filter (\<lambda>r. key r = n) rs))\<rparr>)"
      unfolding assms rank_lookup by (auto split: if_splits prod.splits)
  qed
qed

lemma summarize_split:
  "us_total_requests (summarize rs) = int (length rs)"
  "us_total_prompt_tokens (summarize rs) = sum_list (map ur_prompt_tokens rs)"
  "us_total_completion_tokens (summarize rs) = sum_list (map ur_completion_tokens rs)"
  "us_total_tokens (summarize rs) = sum_list (map ur_total_tokens rs)"
  "us_by_model (summarize rs) = fold (\<lambda>r. dacc (ur_model r) \<lparr>ms_requests = 0, ms_total_tokens = 0\<rparr>
     (\<lambda>m. m\<lparr>ms_requests := ms_requests m + 1, ms_total_tokens := ms_total_tokens m + ur_total_tokens r\<rparr>)) rs []"
  unfolding summarize_def by (induction rs rule: rev_induct) (auto simp: summarize_step_def)

section \<open>Properties\<close>

text \<open>
  Recording one chat response charges exactly the key of the request: its total of the day grows by
  the reported prompt and completion tokens (a missing count is zero), every other key's stays.
\<close>

theorem record_chat_charges_key:
  assumes "usage_wf st" and "sane_today today" and "h \<noteq> []"
  shows "get_total_tokens_for_key (record_chat record_usage today c resp latency st) h today =
    get_total_tokens_for_key st h today +
      (if rc_api_key c = Some h
       then py_or (cu_prompt_tokens resp) 0 + py_or (cu_completion_tokens resp) 0 else 0)"
  using assms by (rule memory_usage.collector_charges)

theorem record_chat_charges_key_witness:
  "get_total_tokens_for_key (record_chat record_usage (2026, 8, 4)
      \<lparr>rc_request_id = ''r'', rc_api_key = Some ''k'', rc_api_key_name = None, rc_identity = None\<rparr>
      \<lparr>cu_model = ''m'', cu_prompt_tokens = Some 7, cu_completion_tokens = None\<rparr> 0 empty_usage_repo)
      ''k'' (2026, 8, 4) = 7"
  using record_chat_charges_key [OF usage_wf_empty, of "(2026, 8, 4)" "''k''"
      "\<lparr>rc_request_id = ''r'', rc_api_key = Some ''k'', rc_api_key_name = None, rc_identity = None\<rparr>"
      "\<lparr>cu_model = ''m'', cu_prompt_tokens = Some 7, cu_completion_tokens = None\<rparr>" 0]
  by (simp add: sane_today_def valid_date_def days_in_month_def py_or_def
      get_total_tokens_for_key_def get_daily_usage_def empty_usage_repo_def)

text \<open>
  The monthly report of a key is the sum of its daily totals over the days of that month that are
  still stored: the merge by model loses and double-counts nothing.
\<close>

theorem monthly_usage_is_sum_of_days:
  assumes "usage_wf st"
  shows "sum_list (map agg_total_tokens (get_monthly_usage st h ym)) =
    (\<Sum>d \<in> {d. (h, d) \<in> fst ` set (ur_daily st) \<and> ym_of d = ym}. get_total_tokens_for_key st h d)"
proof -
  let ?P = "\<lambda>k. fst k = h \<and> ym_of (snd k) = ym"
  let ?f = "\<lambda>aggs. sum_list (map agg_total_tokens (dvalues aggs))"
  have "sum_list (map agg_total_tokens (get_monthly_usage st h ym)) =
      sum_list (map (\<lambda>(_, aggs). ?f aggs) (filter (\<lambda>(k, _). ?P k) (ur_daily st)))"
    unfolding monthly_total by (rule arg_cong [where f = "\<lambda>p. sum_list (map _ (filter p (ur_daily st)))"]) auto
  also have "\<dots> = (\<Sum>k \<in> {k \<in> fst ` set (ur_daily st). ?P k}. ?f (the (dget (ur_daily st) k)))"
    using assms by (intro sum_entries) (simp add: usage_wf_def)
  also have "\<dots> = (\<Sum>d \<in> {d. (h, d) \<in> fst ` set (ur_daily st) \<and> ym_of d = ym}. get_total_tokens_for_key st h d)"
  proof (rule sum.reindex_bij_witness [of _ "Pair h" snd])
    fix k assume k: "k \<in> {k \<in> fst ` set (ur_daily st). ?P k}"
    then obtain aggs where "dget (ur_daily st) k = Some aggs"
      by (metis (no_types, lifting) mem_Collect_eq map_of_eq_None_iff option.exhaust)
    with k show "get_total_tokens_for_key st h (snd k) = ?f (the (dget (ur_daily st) k))"
      by (cases k) (auto simp: get_total_tokens_for_key_def get_daily_usage_def)
  qed force+
  finally show ?thesis .
qed

theorem monthly_usage_is_sum_of_days_witness:
  "sum_list (map agg_total_tokens (get_monthly_usage empty_usage_repo ''k'' (2026, 8))) =
    (\<Sum>d \<in> {d. (''k'', d) \<in> fst ` set (ur_daily empty_usage_repo) \<and> ym_of d = (2026, 8)}.
       get_total_tokens_for_key empty_usage_repo ''k'' d)"
  by (rule monthly_usage_is_sum_of_days [OF usage_wf_empty])

text \<open>
  A dashboard ranking lists each name once, by non-increasing token total, and every total and
  request count is that of the records in scope and in the window that carry the name.
\<close>

theorem rank_correct:
  "sorted_wrt (\<lambda>a b. rk_total_tokens b \<le> rk_total_tokens a) (rank today recs owner days key) \<and>
   distinct (map rk_name (rank today recs owner days key)) \<and>
   set (rank today recs owner days key) =
     (\<lambda>n. \<lparr>rk_name = n,
        rk_total_tokens = sum_list (map ur_total_tokens
          (filter (\<lambda>r. in_window (window_start today days) owner r \<and> key r = n) recs)),
        rk_request_count = int (length
          (filter (\<lambda>r. in_window (window_start today days) owner r \<and> key r = n) recs))\<rparr>) `
     key ` set (filter (in_window (window_start today days) owner) recs)"
proof -
  let ?w = "in_window (window_start today days) owner"
  define rs where "rs = filter ?w recs"
  define d where "d = fold (\<lambda>r. dacc (key r)
      \<lparr>rk_name = key r, rk_total_tokens = 0, rk_request_count = 0\<rparr> (add_ranking r)) rs []"
  have rank: "rank today recs owner days key = sort_key (\<lambda>k. - rk_total_tokens k) (dvalues d)"
    by (simp add: rank_def d_def rs_def)
  have ff: "filter (\<lambda>r. key r = n) rs = filter (\<lambda>r. ?w r \<and> key r = n) recs" for n
    by (simp add: rs_def conj_commute)
  note entries = rank_entries [OF d_def, unfolded ff]
  have keys: "fst ` set d = key ` set rs"
  proof -
    have "dom (map_of d) = key ` set rs" unfolding d_def dom_def by (simp add: rank_lookup)
    then show ?thesis by (simp add: dom_map_of_conv_image_fst)
  qed
  have "sorted_wrt (\<lambda>a b. rk_total_tokens b \<le> rk_total_tokens a) (rank today recs owner days key)"
    using sorted_sort_key [of "\<lambda>k. - rk_total_tokens k" "dvalues d"] unfolding rank
    by (simp add: sorted_map)
  moreover have "distinct (map rk_name (rank today recs owner days key))"
  proof -
    have "map rk_name (dvalues d) = map fst d"
      unfolding entries(2) by (simp add: comp_def split_def)
    then have "distinct (map rk_name (dvalues d))" using entries(1) unfolding dict_wf_def by (rule ssubst)
    then show ?thesis unfolding rank distinct_map_sort_key .
  qed
  moreover have "set (rank today recs owner days key) =
     (\<lambda>n. \<lparr>rk_name = n,
        rk_total_tokens = sum_list (map ur_total_tokens (filter (\<lambda>r. ?w r \<and> key r = n) recs)),
        rk_request_count = int (length (filter (\<lambda>r. ?w r \<and> key r = n) recs))\<rparr>) ` key ` set rs"
    unfolding rank set_sort entries(2) keys [symmetric] by (force simp: image_image)
  ultimately show ?thesis by (simp add: rs_def)
qed

text \<open>
  A summary is exact: its grand totals are the sums over the records, and the per-model breakdown
  adds up to the same number of requests and tokens.
\<close>

theorem summary_breakdown_exact:
  "us_total_tokens (summarize recs) = sum_list (map ur_total_tokens recs) \<and>
   us_total_requests (summarize recs) = int (length recs) \<and>
   sum_list (map ms_total_tokens (dvalues (us_by_model (summarize recs)))) = us_total_tokens (summarize recs) \<and>
   sum_list (map ms_requests (dvalues (us_by_model (summarize recs)))) = us_total_requests (summarize recs)"
proof -
  have "sum_list (map ms_total_tokens (dvalues (us_by_model (summarize recs)))) = sum_list (map ur_total_tokens recs)"
    unfolding summarize_split by (subst sum_fold_dacc [where x = ur_total_tokens]) simp_all
  moreover have "sum_list (map ms_requests (dvalues (us_by_model (summarize recs)))) = sum_list (map (\<lambda>_. 1) recs)"
    unfolding summarize_split by (subst sum_fold_dacc [where x = "\<lambda>_. 1"]) simp_all
  moreover have "sum_list (map (\<lambda>_. 1::int) recs) = int (length recs)" by (induction recs) auto
  ultimately show ?thesis by (simp only: summarize_split)
qed

text \<open>
  The in-memory backend forgets workspace usage: once 1000 records are stored, recording another
  one takes the oldest record's tokens out of the workspace total the quota check reads.
\<close>

theorem workspace_total_evicts_oldest:
  assumes "ur_records st = old # rest" and "length (ur_records st) = max_records"
  shows "get_total_tokens_for_workspace (record_usage today r st) ws d =
    get_total_tokens_for_workspace st ws d
    - (if ur_workspace_id old = Some ws \<and> ur_usage_date old = Some d then ur_total_tokens old else 0)
    + (if ur_workspace_id r = Some ws \<and> ur_usage_date r = Some d then ur_total_tokens r else 0)"
  using assms by (simp add: get_total_tokens_for_workspace_def ur_records_record_usage)

definition full_repo :: usage_repo where
  "full_repo = \<lparr>ur_records = replicate 1000 \<lparr>ur_request_id = ''q'', ur_model = ''m'', ur_prompt_tokens = 5,
      ur_completion_tokens = 0, ur_total_tokens = 5, ur_latency_ms = 0, ur_api_key_name = None,
      ur_api_key_hash = Some ''k'', ur_workspace_id = Some ''ws'', ur_usage_date = Some (2026, 8, 4)\<rparr>,
    ur_daily = []\<rparr>"

theorem workspace_total_evicts_oldest_witness:
  "get_total_tokens_for_workspace (record_usage (2026, 8, 4)
      (hd (ur_records full_repo) \<lparr>ur_workspace_id := Some ''other''\<rparr>) full_repo) ''ws'' (2026, 8, 4) = 4995"
proof -
  let ?old = "hd (ur_records full_repo)"
  have rep: "replicate 1000 x = x # replicate 999 x" for x :: usage_record
    using replicate_Suc [of 999 x] by simp
  then have shape: "ur_records full_repo = ?old # replicate 999 ?old" "length (ur_records full_repo) = max_records"
    by (simp_all add: full_repo_def max_records_def)
  have total: "get_total_tokens_for_workspace full_repo ''ws'' (2026, 8, 4) = 5000"
    by (simp add: get_total_tokens_for_workspace_def full_repo_def sum_list_replicate filter_replicate)
  show ?thesis
    using workspace_total_evicts_oldest [OF shape, of "(2026, 8, 4)" "?old\<lparr>ur_workspace_id := Some ''other''\<rparr>" "''ws''"
        "(2026, 8, 4)"] total
    by (simp add: full_repo_def rep)
qed

end
