(* ===== verification/UsagePg.thy ===== *)
theory UsagePg
  imports Usage
begin

text \<open>
  Usage accounting over PostgreSQL: \<open>app/usage/postgres_repository.py\<close>, its statements over the rows of
  \<open>daily_usage\<close> (\<open>app/db/models.py\<close>), in the order in which they were inserted. Shown: what a key has used is what
  the in-memory repository says, as long as that one remembers the day, and no recorded token is lost.
\<close>

section \<open>The table and the upsert\<close>

record usage_row =
  uw_hash :: string
  uw_workspace :: "string option"
  uw_date :: date
  uw_model :: string
  uw_request_count :: int
  uw_prompt_tokens :: int
  uw_completion_tokens :: int
  uw_total_tokens :: int

definition row_key :: "usage_row \<Rightarrow> string \<times> date \<times> string" where
  "row_key w = (uw_hash w, uw_date w, uw_model w)"

definition row_add :: "usage_record \<Rightarrow> usage_row \<Rightarrow> usage_row" where
  "row_add r w = w\<lparr>uw_request_count := uw_request_count w + 1, uw_prompt_tokens := uw_prompt_tokens w + ur_prompt_tokens r,
     uw_completion_tokens := uw_completion_tokens w + ur_completion_tokens r, uw_total_tokens := uw_total_tokens w + ur_total_tokens r\<rparr>"

definition row_of :: "usage_record \<Rightarrow> string \<Rightarrow> date \<Rightarrow> usage_row" where
  "row_of r h d = \<lparr>uw_hash = h, uw_workspace = ur_workspace_id r, uw_date = d, uw_model = ur_model r, uw_request_count = 1,
     uw_prompt_tokens = ur_prompt_tokens r, uw_completion_tokens = ur_completion_tokens r, uw_total_tokens = ur_total_tokens r\<rparr>"

definition pgu_record_usage :: "usage_record \<Rightarrow> usage_row list \<Rightarrow> usage_row list" where
  "pgu_record_usage r rows =
     (case (ur_api_key_hash r, ur_usage_date r) of
        (Some h, Some d) \<Rightarrow>
          if h = [] then rows
          else if (h, d, ur_model r) \<in> row_key ` set rows
          then map (\<lambda>w. if row_key w = (h, d, ur_model r) then row_add r w else w) rows
          else rows @ [row_of r h d]
      | _ \<Rightarrow> rows)"

section \<open>The queries\<close>

definition row_to_agg :: "usage_row \<Rightarrow> usage_aggregation" where
  "row_to_agg w = \<lparr>agg_model = uw_model w, agg_request_count = uw_request_count w, agg_prompt_tokens = uw_prompt_tokens w,
     agg_completion_tokens = uw_completion_tokens w, agg_total_tokens = uw_total_tokens w\<rparr>"

definition pgu_get_daily_usage :: "usage_row list \<Rightarrow> string \<Rightarrow> date \<Rightarrow> usage_aggregation list" where
  "pgu_get_daily_usage rows h d = map row_to_agg (filter (\<lambda>w. uw_hash w = h \<and> uw_date w = d) rows)"

text \<open>The month as a half-open range of dates.\<close>

definition month_start :: "year_month \<Rightarrow> date" where
  "month_start ym = (case ym of (y, m) \<Rightarrow> (y, m, 1))"

definition month_end :: "year_month \<Rightarrow> date" where
  "month_end ym = (case ym of (y, m) \<Rightarrow> if m = 12 then (y + 1, 1, 1) else (y, m + 1, 1))"

definition in_range :: "year_month \<Rightarrow> usage_row \<Rightarrow> bool" where
  "in_range ym w \<longleftrightarrow> month_start ym \<le> uw_date w \<and> uw_date w < month_end ym"

definition pgu_get_monthly_usage :: "usage_row list \<Rightarrow> string \<Rightarrow> year_month \<Rightarrow> usage_aggregation list" where
  "pgu_get_monthly_usage rows h ym =
     dvalues (fold (\<lambda>w. dacc (uw_model w) (new_aggregation (uw_model w)) (merge_aggregation (row_to_agg w)))
       (sort_key uw_date (filter (\<lambda>w. uw_hash w = h \<and> in_range ym w) rows)) [])"

definition pgu_get_total_tokens_for_key :: "usage_row list \<Rightarrow> string \<Rightarrow> date \<Rightarrow> int" where
  "pgu_get_total_tokens_for_key rows h d = sum_list (map uw_total_tokens (filter (\<lambda>w. uw_hash w = h \<and> uw_date w = d) rows))"

definition pgu_get_total_tokens_for_workspace :: "usage_row list \<Rightarrow> string \<Rightarrow> date \<Rightarrow> int" where
  "pgu_get_total_tokens_for_workspace rows ws d =
     sum_list (map uw_total_tokens (filter (\<lambda>w. uw_workspace w = Some ws \<and> uw_date w = d) rows))"

definition pgu_get_monthly_usage_for_workspace :: "usage_row list \<Rightarrow> string \<Rightarrow> year_month \<Rightarrow> usage_aggregation list" where
  "pgu_get_monthly_usage_for_workspace rows ws ym =
     map row_to_agg (sort_key uw_date (filter (\<lambda>w. uw_workspace w = Some ws \<and> in_range ym w) rows))"

definition row_in_scope :: "date \<Rightarrow> string \<Rightarrow> usage_row \<Rightarrow> bool" where
  "row_in_scope start owner w \<longleftrightarrow>
     (uw_workspace w = Some owner \<or> uw_workspace w = None \<and> uw_hash w = owner) \<and> start \<le> uw_date w"

text \<open>\<open>GROUP BY\<close> with two sums: one row per value, in the order of first occurrence.\<close>

definition group_sums :: "(usage_row \<Rightarrow> 'k) \<Rightarrow> usage_row list \<Rightarrow> ('k \<times> int \<times> int) list" where
  "group_sums key rows =
     map (\<lambda>k. (k, sum_list (map uw_total_tokens (filter (\<lambda>w. key w = k) rows)), sum_list (map uw_request_count (filter (\<lambda>w. key w = k) rows))))
       (rev (remdups (rev (map key rows))))"

definition pgu_get_workspace_trend :: "date \<Rightarrow> usage_row list \<Rightarrow> string \<Rightarrow> int \<Rightarrow> usage_point list" where
  "pgu_get_workspace_trend today rows owner days =
     map (\<lambda>(d, t, n). \<lparr>pt_usage_date = d, pt_total_tokens = t, pt_request_count = n\<rparr>)
       (sort_key fst (group_sums uw_date (filter (row_in_scope (window_start today days) owner) rows)))"

definition pgu_workspace_ranking :: "date \<Rightarrow> usage_row list \<Rightarrow> string \<Rightarrow> int \<Rightarrow> bool \<Rightarrow> usage_ranking list" where
  "pgu_workspace_ranking today rows owner days by_key =
     map (\<lambda>(n, t, c). \<lparr>rk_name = (if by_key then take 8 n else n), rk_total_tokens = t, rk_request_count = c\<rparr>)
       (sort_key (\<lambda>(n, t, c). - t) (group_sums (if by_key then uw_hash else uw_model) (filter (row_in_scope (window_start today days) owner) rows)))"

definition pgu_get_workspace_model_ranking :: "date \<Rightarrow> usage_row list \<Rightarrow> string \<Rightarrow> int \<Rightarrow> usage_ranking list" where
  "pgu_get_workspace_model_ranking today rows owner days = pgu_workspace_ranking today rows owner days False"

definition pgu_get_workspace_key_ranking :: "date \<Rightarrow> usage_row list \<Rightarrow> string \<Rightarrow> int \<Rightarrow> usage_ranking list" where
  "pgu_get_workspace_key_ranking today rows owner days = pgu_workspace_ranking today rows owner days True"

definition pgu_summarize_step :: "usage_row \<Rightarrow> usage_summary \<Rightarrow> usage_summary" where
  "pgu_summarize_step w s = s\<lparr>
     us_total_requests := us_total_requests s + uw_request_count w,
     us_total_prompt_tokens := us_total_prompt_tokens s + uw_prompt_tokens w,
     us_total_completion_tokens := us_total_completion_tokens s + uw_completion_tokens w,
     us_total_tokens := us_total_tokens s + uw_total_tokens w,
     us_by_model := dacc (uw_model w) \<lparr>ms_requests = 0, ms_total_tokens = 0\<rparr>
       (\<lambda>m. m\<lparr>ms_requests := ms_requests m + uw_request_count w,
               ms_total_tokens := ms_total_tokens m + uw_total_tokens w\<rparr>) (us_by_model s)\<rparr>"

definition pgu_summarize :: "usage_row list \<Rightarrow> usage_summary" where
  "pgu_summarize rows = fold pgu_summarize_step rows
     \<lparr>us_total_requests = 0, us_total_prompt_tokens = 0, us_total_completion_tokens = 0, us_total_tokens = 0, us_by_model = []\<rparr>"

definition pgu_get_all_summary :: "usage_row list \<Rightarrow> usage_summary" where
  "pgu_get_all_summary rows = pgu_summarize rows"

definition pgu_get_summary_for_key :: "usage_row list \<Rightarrow> string \<Rightarrow> usage_summary" where
  "pgu_get_summary_for_key rows h = pgu_summarize (filter (\<lambda>w. uw_hash w = h) rows)"

section \<open>The simulation\<close>

text \<open>A record that the table takes: it names a key and a date.\<close>

definition keyed :: "usage_record \<Rightarrow> string \<Rightarrow> date \<Rightarrow> bool" where
  "keyed r h d \<longleftrightarrow> ur_api_key_hash r = Some h \<and> h \<noteq> [] \<and> ur_usage_date r = Some d"

definition keys_unique :: "usage_row list \<Rightarrow> bool" where
  "keys_unique rows \<longleftrightarrow> distinct (map row_key rows)"

lemma pgu_record_keyed:
  "keyed r h d \<Longrightarrow> pgu_record_usage r rows =
     (if (h, d, ur_model r) \<in> row_key ` set rows then map (\<lambda>w. if row_key w = (h, d, ur_model r) then row_add r w else w) rows
      else rows @ [row_of r h d])"
  by (simp add: keyed_def pgu_record_usage_def)

lemma pgu_record_unkeyed: "\<forall>h d. \<not> keyed r h d \<Longrightarrow> pgu_record_usage r rows = rows"
  by (auto simp: keyed_def pgu_record_usage_def split: option.splits)

lemma row_key_add [simp]: "row_key (row_add r w) = row_key w" "uw_hash (row_add r w) = uw_hash w" "uw_date (row_add r w) = uw_date w"
    "uw_model (row_add r w) = uw_model w" "uw_workspace (row_add r w) = uw_workspace w" "row_key (row_of r h d) = (h, d, ur_model r)"
  by (simp_all add: row_key_def row_add_def row_of_def)

lemma keys_unique_record:
  assumes "keys_unique rows"
  shows "keys_unique (pgu_record_usage r rows)"
proof (cases "\<exists>h d. keyed r h d")
  case True
  then obtain h d where k: "keyed r h d" by blast
  have "row_key \<circ> (\<lambda>w. if p w then row_add r w else w) = row_key" for p by (auto simp: fun_eq_iff)
  then show ?thesis using assms by (simp add: keys_unique_def pgu_record_keyed [OF k])
qed (use assms in \<open>simp add: pgu_record_unkeyed\<close>)

text \<open>The rows of one key and day, as the dictionary of that day holds them.\<close>

definition day_dict :: "usage_row list \<Rightarrow> string \<Rightarrow> date \<Rightarrow> (string, usage_aggregation) pydict" where
  "day_dict rows h d = map (\<lambda>w. (uw_model w, row_to_agg w)) (filter (\<lambda>w. uw_hash w = h \<and> uw_date w = d) rows)"

lemma row_to_agg_add: "row_to_agg (row_add r w) = add_record r (row_to_agg w)"
  by (simp add: row_to_agg_def row_add_def add_record_def)

lemma day_dict_wf: "keys_unique rows \<Longrightarrow> dict_wf (day_dict rows h d)"
  unfolding keys_unique_def dict_wf_def day_dict_def
  by (induction rows) (auto simp: row_key_def image_iff)

lemma day_dict_get: "dget (day_dict rows h d) m = None \<longleftrightarrow> (h, d, m) \<notin> row_key ` set rows"
  by (auto simp: day_dict_def map_of_eq_None_iff row_key_def image_iff)

lemma day_dict_record:
  assumes uniq: "keys_unique rows"
  shows "day_dict (pgu_record_usage r rows) h d =
    (if keyed r h d then dacc (ur_model r) (new_aggregation (ur_model r)) (add_record r) (day_dict rows h d) else day_dict rows h d)"
proof (cases "keyed r h d")
  case True
  show ?thesis
  proof (cases "(h, d, ur_model r) \<in> row_key ` set rows")
    case there: True
    then obtain a where a: "dget (day_dict rows h d) (ur_model r) = Some a" using day_dict_get by (metis option.exhaust)
    have "map (\<lambda>w. (uw_model w, row_to_agg w)) (filter (\<lambda>w. uw_hash w = h \<and> uw_date w = d)
        (map (\<lambda>w. if row_key w = (h, d, ur_model r) then row_add r w else w) rows)) =
        map (\<lambda>(m, x). if m = ur_model r then (m, add_record r x) else (m, x)) (day_dict rows h d)"
      unfolding day_dict_def by (induction rows) (auto simp: row_key_def row_to_agg_add)
    also have "\<dots> = map (\<lambda>(m, x). if m = ur_model r then (m, add_record r a) else (m, x)) (day_dict rows h d)"
    proof (intro map_cong refl)
      fix e assume "e \<in> set (day_dict rows h d)"
      then have "dget (day_dict rows h d) (fst e) = Some (snd e)" using day_dict_wf [OF uniq, of h d] by (simp add: dget_iff_mem)
      then have "fst e = ur_model r \<Longrightarrow> snd e = a" using a by simp
      then show "(case e of (m, x) \<Rightarrow> if m = ur_model r then (m, add_record r x) else (m, x)) =
          (case e of (m, x) \<Rightarrow> if m = ur_model r then (m, add_record r a) else (m, x))" by (cases e) simp
    qed
    also have "\<dots> = dset (ur_model r) (add_record r a) (day_dict rows h d)"
      by (simp add: dset_present [OF day_dict_wf [OF uniq] a])
    finally show ?thesis using True there a unfolding pgu_record_keyed [OF True] by (simp add: day_dict_def dacc_def)
  next
    case False
    then have "dget (day_dict rows h d) (ur_model r) = None" by (simp add: day_dict_get)
    moreover have "row_to_agg (row_of r h d) = add_record r (new_aggregation (ur_model r))"
      by (simp add: row_to_agg_def row_of_def add_record_def new_aggregation_def)
    ultimately show ?thesis using True False unfolding pgu_record_keyed [OF True]
      by (simp add: dacc_def dset_absent) (simp add: day_dict_def row_of_def)
  qed
next
  case False
  have "day_dict (pgu_record_usage r rows) h d = day_dict rows h d" if k: "keyed r h' d'" for h' d'
  proof -
    have other: "h' \<noteq> h \<or> d' \<noteq> d" using False k by (auto simp: keyed_def)
    have "filter (\<lambda>w. uw_hash w = h \<and> uw_date w = d) (map (\<lambda>w. if row_key w = (h', d', ur_model r) then row_add r w else w) rows) =
        filter (\<lambda>w. uw_hash w = h \<and> uw_date w = d) rows"
      using other by (induction rows) (auto simp: row_key_def)
    then show ?thesis using other unfolding pgu_record_keyed [OF k] by (auto simp: day_dict_def row_of_def)
  qed
  then show ?thesis using False pgu_record_unkeyed [of r rows] by metis
qed

lemma pgu_daily: "pgu_get_daily_usage rows h d = dvalues (day_dict rows h d)"
  by (simp add: pgu_get_daily_usage_def day_dict_def comp_def)

lemma pgu_total_daily: "pgu_get_total_tokens_for_key rows h d = sum_list (map agg_total_tokens (pgu_get_daily_usage rows h d))"
  by (simp add: pgu_get_total_tokens_for_key_def pgu_get_daily_usage_def comp_def row_to_agg_def)

text \<open>Recording a list of usages, each at its day.\<close>

definition record_all :: "(date \<times> usage_record) list \<Rightarrow> usage_repo" where
  "record_all us = fold (\<lambda>(today, r). record_usage today r) us empty_usage_repo"

definition pgu_record_all :: "(date \<times> usage_record) list \<Rightarrow> usage_row list" where
  "pgu_record_all us = fold (\<lambda>(_, r). pgu_record_usage r) us []"

lemma pgu_record_all_snoc: "pgu_record_all (us @ [(t, r)]) = pgu_record_usage r (pgu_record_all us)"
  by (simp add: pgu_record_all_def)

lemma record_all_snoc: "record_all (us @ [(t, r)]) = record_usage t r (record_all us)"
  by (simp add: record_all_def)

lemma pgu_unique: "keys_unique (pgu_record_all us)"
proof (induction us rule: rev_induct)
  case (snoc u us)
  then show ?case by (cases u) (simp add: pgu_record_all_snoc keys_unique_record)
qed (simp add: pgu_record_all_def keys_unique_def)

lemma memory_day:
  "dget (ur_daily (record_usage today r st)) (h, d) =
     (if d < daily_cutoff today then None
      else if keyed r h d
      then Some (dacc (ur_model r) (new_aggregation (ur_model r)) (add_record r) (case dget (ur_daily st) (h, d) of None \<Rightarrow> [] | Some x \<Rightarrow> x))
      else dget (ur_daily st) (h, d))"
  by (auto simp: ur_daily_record_usage dget_cleanup ur_daily_add_daily keyed_def)

lemma day_simulated:
  assumes "\<forall>(today, r) \<in> set us. \<not> d < daily_cutoff today"
  shows "day_dict (pgu_record_all us) h d = (case dget (ur_daily (record_all us)) (h, d) of None \<Rightarrow> [] | Some x \<Rightarrow> x)"
  using assms
proof (induction us rule: rev_induct)
  case (snoc u us)
  obtain t r where u: "u = (t, r)" by fastforce
  show ?case unfolding u pgu_record_all_snoc record_all_snoc day_dict_record [OF pgu_unique] memory_day
    using snoc u by (auto split: option.splits)
qed (simp add: pgu_record_all_def record_all_def day_dict_def empty_usage_repo_def)

interpretation pg_usage: usage_repository "\<lambda>today. pgu_record_usage" pgu_get_total_tokens_for_key keys_unique
proof unfold_locales
  fix st today h and r :: usage_record
  assume a: "keys_unique st" "ur_api_key_hash r = Some h" "h \<noteq> []" "ur_usage_date r = Some today"
  then show "pgu_get_total_tokens_for_key (pgu_record_usage r st) h today = pgu_get_total_tokens_for_key st h today + ur_total_tokens r"
    using sum_dacc [OF day_dict_wf [OF a(1), of h today], of agg_total_tokens "add_record r" "ur_total_tokens r" "new_aggregation (ur_model r)" "ur_model r"]
    by (simp add: pgu_total_daily pgu_daily day_dict_record keyed_def add_record_def new_aggregation_def)
next
  fix st today h and r :: usage_record
  assume "keys_unique st" "ur_api_key_hash r \<noteq> Some h"
  then show "pgu_get_total_tokens_for_key (pgu_record_usage r st) h today = pgu_get_total_tokens_for_key st h today"
    by (simp add: pgu_total_daily pgu_daily day_dict_record keyed_def)
qed (rule keys_unique_record)

text \<open>Nothing is lost: the rows add up to the records that name a key and a date.\<close>

lemma rows_total:
  assumes "keys_unique rows"
  shows "sum_list (map uw_total_tokens (pgu_record_usage r rows)) =
    sum_list (map uw_total_tokens rows) + (if \<exists>h d. keyed r h d then ur_total_tokens r else 0)"
proof (cases "\<exists>h d. keyed r h d")
  case True
  then obtain h d where k: "keyed r h d" by blast
  have add: "uw_total_tokens (row_add r w) = uw_total_tokens w + ur_total_tokens r" for w by (simp add: row_add_def)
  have "sum_list (map uw_total_tokens (map (\<lambda>w. if row_key w = k then row_add r w else w) rows)) = sum_list (map uw_total_tokens rows) + ur_total_tokens r"
    if "k \<in> row_key ` set rows" for k
    using assms that unfolding keys_unique_def
  proof (induction rows)
    case (Cons w rows)
    show ?case
    proof (cases "row_key w = k")
      case True
      then have "map (\<lambda>w. if row_key w = k then row_add r w else w) rows = rows" using Cons.prems(1) by (intro map_idI) (auto simp: image_iff)
      with True show ?thesis by (simp add: add)
    next
      case False
      with Cons show ?thesis by auto
    qed
  qed simp
  with k True show ?thesis by (auto simp: pgu_record_keyed [OF k] row_of_def)
next
  case False
  then show ?thesis by (simp add: pgu_record_unkeyed)
qed

section \<open>Properties\<close>

text \<open>
  Over PostgreSQL the usage of a key on a day, per model and in total, is what the in-memory repository reports
  after the same recordings, for every day that it has not dropped; and the table as a whole adds up to
  everything recorded with a key and a date.
\<close>

theorem postgres_usage_refines_memory:
  assumes "\<forall>(today, r) \<in> set us. \<not> d < daily_cutoff today"
  shows "pgu_get_daily_usage (pgu_record_all us) h d = get_daily_usage (record_all us) h d \<and>
    pgu_get_total_tokens_for_key (pgu_record_all us) h d = get_total_tokens_for_key (record_all us) h d \<and>
    us_total_tokens (pgu_get_all_summary (pgu_record_all us)) =
      sum_list (map (\<lambda>(_, r). ur_total_tokens r) (filter (\<lambda>(_, r). \<exists>h d. keyed r h d) us))"
proof -
  have daily: "pgu_get_daily_usage (pgu_record_all us) h d = get_daily_usage (record_all us) h d"
    by (simp add: pgu_daily get_daily_usage_def day_simulated [OF assms] split: option.split)
  have summary: "us_total_tokens (fold pgu_summarize_step rows s) = us_total_tokens s + sum_list (map uw_total_tokens rows)" for rows s
    by (induction rows arbitrary: s) (simp_all add: pgu_summarize_step_def)
  have "sum_list (map uw_total_tokens (pgu_record_all us)) =
      sum_list (map (\<lambda>(_, r). ur_total_tokens r) (filter (\<lambda>(_, r). \<exists>h d. keyed r h d) us))"
  proof (induction us rule: rev_induct)
    case (snoc u us)
    then show ?case by (cases u) (auto simp: pgu_record_all_snoc rows_total [OF pgu_unique])
  qed (simp add: pgu_record_all_def)
  with daily show ?thesis
    by (simp add: pgu_total_daily get_total_tokens_for_key_def pgu_get_all_summary_def pgu_summarize_def summary)
qed

definition wit_usage :: "string \<Rightarrow> int \<Rightarrow> usage_record" where
  "wit_usage ws n = \<lparr>ur_request_id = ''q'', ur_model = ''m'', ur_prompt_tokens = n, ur_completion_tokens = 0, ur_total_tokens = n, ur_latency_ms = 0,
     ur_api_key_name = None, ur_api_key_hash = Some ''k'', ur_workspace_id = Some ws, ur_usage_date = Some (2026, 5, 2)\<rparr>"

theorem postgres_usage_refines_memory_witness:
  "get_total_tokens_for_key (record_all [((2026, 5, 2), wit_usage ''a'' 3), ((2026, 5, 3), wit_usage ''b'' 4)]) ''k'' (2026, 5, 2) = 7 \<and>
   pgu_get_total_tokens_for_key (pgu_record_all [((2026, 5, 2), wit_usage ''a'' 3), ((2026, 5, 3), wit_usage ''b'' 4)]) ''k'' (2026, 5, 2) =
     get_total_tokens_for_key (record_all [((2026, 5, 2), wit_usage ''a'' 3), ((2026, 5, 3), wit_usage ''b'' 4)]) ''k'' (2026, 5, 2)"
proof -
  let ?us = "[((2026, 5, 2), wit_usage ''a'' 3), ((2026, 5, 3), wit_usage ''b'' 4)]"
  have "\<not> (2026, 5, 2) < daily_cutoff (2026, 5, 2)" by code_simp
  moreover have "\<not> (2026, 5, 2) < daily_cutoff (2026, 5, 3)" by code_simp
  ultimately have "\<forall>(today, r) \<in> set ?us. \<not> (2026, 5, 2) < daily_cutoff today" by simp
  note t = postgres_usage_refines_memory [OF this, of "''k''"]
  have "pgu_get_total_tokens_for_key (pgu_record_all ?us) ''k'' (2026, 5, 2) = 7"
    by (simp add: pgu_record_all_def wit_usage_def pgu_record_usage_def row_of_def row_key_def row_add_def pgu_get_total_tokens_for_key_def)
  with t show ?thesis by simp
qed

text \<open>
  The conflict target leaves the workspace out: a second workspace that uses the same key, day and model is charged to
  the first.
\<close>

lemma usage_charged_to_first_workspace:
  "pgu_get_total_tokens_for_workspace (pgu_record_all [(t, wit_usage ''a'' 3), (t, wit_usage ''b'' 4)]) ''a'' (2026, 5, 2) = 7 \<and>
   pgu_get_total_tokens_for_workspace (pgu_record_all [(t, wit_usage ''a'' 3), (t, wit_usage ''b'' 4)]) ''b'' (2026, 5, 2) = 0"
  by (simp add: pgu_record_all_def wit_usage_def pgu_record_usage_def row_of_def row_key_def row_add_def pgu_get_total_tokens_for_workspace_def)

end
