(* ===== verification/Billing.thy ===== *)
theory Billing
  imports Prelude
begin

text \<open>
  Plans and subscriptions: \<open>app/billing/models.py\<close>, the in-memory repository
  (\<open>app/billing/memory_repository.py\<close>), \<open>PlanService\<close> (\<open>app/billing/service.py\<close>),
  \<open>EntitlementService\<close> (\<open>app/billing/entitlement.py\<close>) and the seeds (\<open>app/billing/seeds.py\<close>).
  The services are written against the \<open>BillingRepository\<close> protocol, here a record of operations; the
  identifier \<open>uuid.uuid4()\<close> and the clock are arguments.
\<close>

section \<open>Data\<close>

datatype subscription_status = ACTIVE | TRIAL | EXPIRED | CANCELLED

definition active_status :: "subscription_status \<Rightarrow> bool" where
  "active_status s \<longleftrightarrow> s = ACTIVE \<or> s = TRIAL"

record plan =
  plan_id :: string
  plan_name :: string
  plan_version :: int
  plan_daily_token_limit :: "int option"
  plan_monthly_token_limit :: "int option"
  plan_max_agents :: "int option"
  plan_max_documents :: "int option"
  plan_max_members :: "int option"
  plan_features :: "(string, bool) pydict"

record subscription =
  sub_id :: string
  sub_workspace_id :: string
  sub_plan_id :: string
  sub_status :: subscription_status
  sub_started_at :: "int option"
  sub_expired_at :: "int option"

datatype billing_error = PlanNotFound string | SubscriptionGone
  | PlanLimitReached string string int | UnknownResource string

section \<open>The in-memory repository\<close>

record billing_repo =
  plans_by_id :: "(string, plan) pydict"
  plans_by_name :: "(string, plan) pydict"
  subscriptions_by_id :: "(string, subscription) pydict"
  subscription_workspace_ids :: "(string, string) pydict"

definition new_billing_repo :: "plan list \<Rightarrow> billing_repo" where
  "new_billing_repo plans =
     \<lparr>plans_by_id = fold (\<lambda>p. dset (plan_id p) p) plans [],
      plans_by_name = fold (\<lambda>p. dset (plan_name p) p) plans [],
      subscriptions_by_id = [], subscription_workspace_ids = []\<rparr>"

definition seed_plan :: "billing_repo \<Rightarrow> plan \<Rightarrow> plan \<times> billing_repo" where
  "seed_plan st p =
     (case dget (plans_by_name st) (plan_name p) of
        Some existing \<Rightarrow> (existing, st)
      | None \<Rightarrow> (p, st\<lparr>plans_by_id := dset (plan_id p) p (plans_by_id st),
                        plans_by_name := dset (plan_name p) p (plans_by_name st)\<rparr>))"

definition list_plans :: "billing_repo \<Rightarrow> plan list" where
  "list_plans st = dvalues (plans_by_id st)"

definition get_plan :: "billing_repo \<Rightarrow> string \<Rightarrow> plan option" where
  "get_plan st pid = dget (plans_by_id st) pid"

definition put_subscription :: "billing_repo \<Rightarrow> subscription \<Rightarrow> billing_repo" where
  "put_subscription st s =
     st\<lparr>subscriptions_by_id := dset (sub_id s) s (subscriptions_by_id st),
        subscription_workspace_ids := dset (sub_workspace_id s) (sub_id s) (subscription_workspace_ids st)\<rparr>"

definition create_subscription :: "billing_repo \<Rightarrow> subscription \<Rightarrow> subscription \<times> billing_repo" where
  "create_subscription st s = (s, put_subscription st s)"

definition update_subscription :: "billing_repo \<Rightarrow> subscription \<Rightarrow> subscription option \<times> billing_repo" where
  "update_subscription st s =
     (if dget (subscriptions_by_id st) (sub_id s) = None then (None, st)
      else (Some s, put_subscription st s))"

definition get_subscription_for_workspace :: "billing_repo \<Rightarrow> string \<Rightarrow> subscription option" where
  "get_subscription_for_workspace st ws =
     (case dget (subscription_workspace_ids st) ws of
        None \<Rightarrow> None
      | Some sid \<Rightarrow> dget (subscriptions_by_id st) sid)"

definition list_subscriptions ::
  "billing_repo \<Rightarrow> string option \<Rightarrow> subscription_status option \<Rightarrow> subscription list" where
  "list_subscriptions st pid status =
     filter (\<lambda>s. (pid = None \<or> pid = Some (sub_plan_id s)) \<and> (status = None \<or> status = Some (sub_status s)))
       (dvalues (subscriptions_by_id st))"

section \<open>PlanService\<close>

record 's billing_ops =
  op_get_plan :: "'s \<Rightarrow> string \<Rightarrow> plan option"
  op_get_subscription :: "'s \<Rightarrow> string \<Rightarrow> subscription option"
  op_create_subscription :: "'s \<Rightarrow> subscription \<Rightarrow> subscription \<times> 's"
  op_update_subscription :: "'s \<Rightarrow> subscription \<Rightarrow> subscription option \<times> 's"

definition memory_billing_ops :: "billing_repo billing_ops" where
  "memory_billing_ops =
     \<lparr>op_get_plan = get_plan, op_get_subscription = get_subscription_for_workspace,
      op_create_subscription = create_subscription, op_update_subscription = update_subscription\<rparr>"

definition assign_plan ::
  "'s billing_ops \<Rightarrow> 's \<Rightarrow> string \<Rightarrow> string \<Rightarrow> subscription_status \<Rightarrow> string \<Rightarrow> int \<Rightarrow>
   (billing_error + subscription) \<times> 's" where
  "assign_plan ops st ws pid status uuid now =
     (if op_get_plan ops st pid = None then (Inl (PlanNotFound pid), st)
      else
        case op_get_subscription ops st ws of
          None \<Rightarrow>
            (case op_create_subscription ops st
                \<lparr>sub_id = uuid, sub_workspace_id = ws, sub_plan_id = pid, sub_status = status,
                 sub_started_at = Some now,
                 sub_expired_at = (if active_status status then None else Some now)\<rparr> of
               (saved, st') \<Rightarrow> (Inr saved, st'))
        | Some existing \<Rightarrow>
            (let expired = (if active_status status then None
                            else if sub_expired_at existing = None then Some now
                            else sub_expired_at existing)
             in case op_update_subscription ops st
                   (existing\<lparr>sub_plan_id := pid, sub_status := status, sub_expired_at := expired\<rparr>) of
                  (None, st') \<Rightarrow> (Inl SubscriptionGone, st')
                | (Some updated, st') \<Rightarrow> (Inr updated, st')))"

section \<open>EntitlementService\<close>

definition limit_for :: "plan \<Rightarrow> string \<Rightarrow> billing_error + int option" where
  "limit_for p resource =
     (if resource = ''agent'' then Inr (plan_max_agents p)
      else if resource = ''document'' then Inr (plan_max_documents p)
      else if resource = ''member'' then Inr (plan_max_members p)
      else Inl (UnknownResource resource))"

definition plan_for_workspace :: "'s billing_ops \<Rightarrow> 's \<Rightarrow> string \<Rightarrow> plan option" where
  "plan_for_workspace ops st ws =
     (case op_get_subscription ops st ws of
        None \<Rightarrow> None
      | Some s \<Rightarrow> if \<not> active_status (sub_status s) then None else op_get_plan ops st (sub_plan_id s))"

definition check_feature :: "'s billing_ops \<Rightarrow> 's \<Rightarrow> string \<Rightarrow> string \<Rightarrow> bool" where
  "check_feature ops st ws feature =
     (case plan_for_workspace ops st ws of
        None \<Rightarrow> True
      | Some p \<Rightarrow> (case dget (plan_features p) feature of None \<Rightarrow> False | Some b \<Rightarrow> b))"

definition check_limit :: "'s billing_ops \<Rightarrow> 's \<Rightarrow> string \<Rightarrow> string \<Rightarrow> int \<Rightarrow> billing_error + bool" where
  "check_limit ops st ws resource current =
     (case plan_for_workspace ops st ws of
        None \<Rightarrow> Inr True
      | Some p \<Rightarrow>
          (case limit_for p resource of
             Inl e \<Rightarrow> Inl e
           | Inr None \<Rightarrow> Inr True
           | Inr (Some l) \<Rightarrow> Inr (current < l)))"

definition require_limit :: "'s billing_ops \<Rightarrow> 's \<Rightarrow> string \<Rightarrow> string \<Rightarrow> int \<Rightarrow> billing_error + unit" where
  "require_limit ops st ws resource current =
     (case plan_for_workspace ops st ws of
        None \<Rightarrow> Inr ()
      | Some p \<Rightarrow>
          (case limit_for p resource of
             Inl e \<Rightarrow> Inl e
           | Inr None \<Rightarrow> Inr ()
           | Inr (Some l) \<Rightarrow> if current < l then Inr () else Inl (PlanLimitReached (plan_name p) resource l)))"

section \<open>Seeds\<close>

definition free_plan :: plan where
  "free_plan = \<lparr>plan_id = ''10000000-0000-0000-0000-000000000001'', plan_name = ''free'', plan_version = 1,
     plan_daily_token_limit = None, plan_monthly_token_limit = Some 100000, plan_max_agents = Some 3,
     plan_max_documents = Some 5, plan_max_members = None,
     plan_features = [(''reranker'', False), (''benchmark'', False)]\<rparr>"

definition pro_plan :: plan where
  "pro_plan = \<lparr>plan_id = ''10000000-0000-0000-0000-000000000002'', plan_name = ''pro'', plan_version = 1,
     plan_daily_token_limit = None, plan_monthly_token_limit = Some 10000000, plan_max_agents = Some 50,
     plan_max_documents = Some 100, plan_max_members = None,
     plan_features = [(''reranker'', True), (''benchmark'', True)]\<rparr>"

definition enterprise_plan :: plan where
  "enterprise_plan = \<lparr>plan_id = ''10000000-0000-0000-0000-000000000003'', plan_name = ''enterprise'', plan_version = 1,
     plan_daily_token_limit = None, plan_monthly_token_limit = None, plan_max_agents = None,
     plan_max_documents = None, plan_max_members = None,
     plan_features = [(''reranker'', True), (''benchmark'', True)]\<rparr>"

definition build_seed_plans :: "plan list" where
  "build_seed_plans = [free_plan, pro_plan, enterprise_plan]"

definition seed_billing_plans :: "billing_repo \<Rightarrow> billing_repo" where
  "seed_billing_plans st = fold (\<lambda>p st. snd (seed_plan st p)) build_seed_plans st"

section \<open>Invariant\<close>

text \<open>
  Every workspace points at a stored subscription of its own, every stored subscription is the one its
  workspace points at (so there is at most one per workspace), and the expiry stamp is present exactly
  when the subscription no longer counts.
\<close>

definition billing_inv :: "billing_repo \<Rightarrow> bool" where
  "billing_inv st \<longleftrightarrow>
     (\<forall>ws sid. dget (subscription_workspace_ids st) ws = Some sid \<longrightarrow>
        (\<exists>s. dget (subscriptions_by_id st) sid = Some s \<and> sub_workspace_id s = ws \<and> sub_id s = sid)) \<and>
     (\<forall>sid s. dget (subscriptions_by_id st) sid = Some s \<longrightarrow>
        dget (subscription_workspace_ids st) (sub_workspace_id s) = Some sid \<and>
        (sub_expired_at s = None) = active_status (sub_status s))"

lemma billing_inv_new: "billing_inv (new_billing_repo plans)"
  by (simp add: billing_inv_def new_billing_repo_def)

lemma billing_inv_seed [inv_intros]: "billing_inv st \<Longrightarrow> billing_inv (snd (seed_plan st p))"
  by (simp add: billing_inv_def seed_plan_def split: option.splits)

lemma billing_wsD:
  "billing_inv st \<Longrightarrow> dget (subscription_workspace_ids st) ws = Some sid \<Longrightarrow>
   \<exists>s. dget (subscriptions_by_id st) sid = Some s \<and> sub_workspace_id s = ws \<and> sub_id s = sid"
  unfolding billing_inv_def by blast

lemma billing_subD:
  assumes "billing_inv st" and "dget (subscriptions_by_id st) sid = Some s"
  shows "dget (subscription_workspace_ids st) (sub_workspace_id s) = Some sid" and "sub_id s = sid"
    and "(sub_expired_at s = None) = active_status (sub_status s)"
proof -
  show ws: "dget (subscription_workspace_ids st) (sub_workspace_id s) = Some sid"
    and "(sub_expired_at s = None) = active_status (sub_status s)"
    using assms unfolding billing_inv_def by blast+
  from billing_wsD [OF assms(1) ws] assms(2) show "sub_id s = sid" by auto
qed

lemma get_subscription_Some:
  assumes "billing_inv st"
  shows "get_subscription_for_workspace st ws = Some s \<longleftrightarrow>
    dget (subscriptions_by_id st) (sub_id s) = Some s \<and> sub_workspace_id s = ws"
proof (cases "dget (subscription_workspace_ids st) ws")
  case None
  then show ?thesis using billing_subD(1) [OF assms, of "sub_id s" s]
    by (auto simp: get_subscription_for_workspace_def)
next
  case (Some sid)
  from billing_wsD [OF assms Some] obtain t where
    "dget (subscriptions_by_id st) sid = Some t" "sub_workspace_id t = ws" "sub_id t = sid" by blast
  with Some show ?thesis using billing_subD(1) [OF assms, of "sub_id s" s]
    by (auto simp: get_subscription_for_workspace_def)
qed

lemma get_subscription_None:
  assumes "billing_inv st"
  shows "get_subscription_for_workspace st ws = None \<longleftrightarrow> dget (subscription_workspace_ids st) ws = None"
  using billing_wsD [OF assms] by (fastforce simp: get_subscription_for_workspace_def split: option.splits)

lemma one_subscription_per_workspace:
  assumes "billing_inv st" and "dget (subscriptions_by_id st) i = Some s"
    and "dget (subscriptions_by_id st) j = Some t" and "sub_workspace_id s = sub_workspace_id t"
  shows "i = j"
  using billing_subD(1) [OF assms(1,2)] billing_subD(1) [OF assms(1,3)] assms(4) by simp

lemma get_put_subscription:
  assumes inv: "billing_inv st"
    and old: "dget (subscriptions_by_id st) (sub_id s) = None \<or>
         (\<exists>old. dget (subscriptions_by_id st) (sub_id s) = Some old \<and> sub_workspace_id old = sub_workspace_id s)"
  shows "get_subscription_for_workspace (put_subscription st s) ws =
    (if ws = sub_workspace_id s then Some s else get_subscription_for_workspace st ws)"
proof (cases "ws = sub_workspace_id s")
  case True
  then show ?thesis by (simp add: get_subscription_for_workspace_def put_subscription_def)
next
  case False
  then have "dget (subscription_workspace_ids st) ws \<noteq> Some (sub_id s)"
    using billing_wsD [OF inv, of ws "sub_id s"] old by auto
  with False show ?thesis
    by (simp add: get_subscription_for_workspace_def put_subscription_def split: option.splits)
qed

lemma billing_inv_put [inv_intros]:
  assumes inv: "billing_inv st"
    and old: "get_subscription_for_workspace st (sub_workspace_id s) = None \<and>
              dget (subscriptions_by_id st) (sub_id s) = None \<or>
              (\<exists>old. get_subscription_for_workspace st (sub_workspace_id s) = Some old \<and> sub_id old = sub_id s)"
    and exp: "(sub_expired_at s = None) = active_status (sub_status s)"
  shows "billing_inv (put_subscription st s)"
  unfolding billing_inv_def
proof (intro conjI allI impI)
  fix ws sid
  assume "dget (subscription_workspace_ids (put_subscription st s)) ws = Some sid"
  then consider "ws = sub_workspace_id s" "sid = sub_id s"
    | "ws \<noteq> sub_workspace_id s" "dget (subscription_workspace_ids st) ws = Some sid"
    by (auto simp: put_subscription_def split: if_splits)
  then show "\<exists>t. dget (subscriptions_by_id (put_subscription st s)) sid = Some t \<and> sub_workspace_id t = ws \<and> sub_id t = sid"
  proof cases
    case 1
    then show ?thesis by (simp add: put_subscription_def)
  next
    case 2
    from billing_wsD [OF inv this(2)] obtain t where
      t: "dget (subscriptions_by_id st) sid = Some t" "sub_workspace_id t = ws" "sub_id t = sid" by blast
    with 2 old have "sid \<noteq> sub_id s" using get_subscription_Some [OF inv] by auto
    with t show ?thesis by (simp add: put_subscription_def)
  qed
next
  fix sid t
  assume t: "dget (subscriptions_by_id (put_subscription st s)) sid = Some t"
  show "dget (subscription_workspace_ids (put_subscription st s)) (sub_workspace_id t) = Some sid"
  proof (cases "sid = sub_id s")
    case True
    with t show ?thesis by (simp add: put_subscription_def)
  next
    case False
    with t have "dget (subscriptions_by_id st) sid = Some t" by (simp add: put_subscription_def)
    note st = billing_subD [OF inv this]
    with False old have "sub_workspace_id t \<noteq> sub_workspace_id s"
      by (auto simp: get_subscription_None [OF inv] get_subscription_Some [OF inv] dest: billing_subD(1) [OF inv])
    with st show ?thesis by (simp add: put_subscription_def)
  qed
  show "(sub_expired_at t = None) = active_status (sub_status t)"
    using t exp billing_subD(3) [OF inv] by (auto simp: put_subscription_def split: if_splits)
qed

section \<open>The repository interface and its clients\<close>

text \<open>
  \<open>BillingRepository\<close> as the services rely on it. \<open>fresh\<close> says that an identifier is not in use: what
  \<open>uuid4\<close> provides.
\<close>

locale billing_repository =
  fixes ops :: "'s billing_ops"
    and invar :: "'s \<Rightarrow> bool"
    and fresh :: "'s \<Rightarrow> string \<Rightarrow> bool"
  assumes get_created: "invar st \<Longrightarrow> fresh st (sub_id s) \<Longrightarrow>
        op_create_subscription ops st s = (saved, st') \<Longrightarrow>
        saved = s \<and> (\<forall>ws. op_get_subscription ops st' ws =
          (if ws = sub_workspace_id s then Some s else op_get_subscription ops st ws))"
    and get_updated: "invar st \<Longrightarrow> op_get_subscription ops st (sub_workspace_id s) = Some old \<Longrightarrow>
        sub_id old = sub_id s \<Longrightarrow> op_update_subscription ops st s = (res, st') \<Longrightarrow>
        res = Some s \<and> (\<forall>ws. op_get_subscription ops st' ws =
          (if ws = sub_workspace_id s then Some s else op_get_subscription ops st ws))"
    and own: "invar st \<Longrightarrow> op_get_subscription ops st ws = Some s \<Longrightarrow> sub_workspace_id s = ws"
    and plans_created: "op_get_plan ops (snd (op_create_subscription ops st s)) = op_get_plan ops st"
    and plans_updated: "op_get_plan ops (snd (op_update_subscription ops st s)) = op_get_plan ops st"
begin

lemma assign_plan_spec:
  assumes inv: "invar st" and known: "op_get_plan ops st pid = Some p" and fresh: "fresh st uuid"
  obtains s st' where "assign_plan ops st ws pid status uuid now = (Inr s, st')"
    and "sub_workspace_id s = ws" "sub_plan_id s = pid" "sub_status s = status"
    and "\<And>ws'. op_get_subscription ops st' ws' = (if ws' = ws then Some s else op_get_subscription ops st ws')"
    and "op_get_plan ops st' = op_get_plan ops st"
proof (cases "op_get_subscription ops st ws")
  case None
  define s where "s = \<lparr>sub_id = uuid, sub_workspace_id = ws, sub_plan_id = pid, sub_status = status,
    sub_started_at = Some now, sub_expired_at = (if active_status status then None else Some now)\<rparr>"
  obtain saved st' where c: "op_create_subscription ops st s = (saved, st')" by fastforce
  from get_created [OF inv _ c] fresh have "saved = s"
    and "\<And>ws'. op_get_subscription ops st' ws' = (if ws' = ws then Some s else op_get_subscription ops st ws')"
    by (simp_all add: s_def)
  moreover have "assign_plan ops st ws pid status uuid now = (Inr saved, st')"
    using None known c by (simp add: assign_plan_def s_def)
  moreover have "op_get_plan ops st' = op_get_plan ops st" using plans_created [of st s] c by simp
  ultimately show ?thesis using that by (simp add: s_def)
next
  case (Some old)
  define s where "s = old\<lparr>sub_plan_id := pid, sub_status := status,
    sub_expired_at := (if active_status status then None
       else if sub_expired_at old = None then Some now else sub_expired_at old)\<rparr>"
  have ws: "sub_workspace_id s = ws" using own [OF inv Some] by (simp add: s_def)
  obtain res st' where u: "op_update_subscription ops st s = (res, st')" by fastforce
  from get_updated [OF inv _ _ u, of old] Some ws have "res = Some s"
    and "\<And>ws'. op_get_subscription ops st' ws' = (if ws' = ws then Some s else op_get_subscription ops st ws')"
    by (simp_all add: s_def)
  moreover from this have "assign_plan ops st ws pid status uuid now = (Inr s, st')"
    using Some known u by (simp add: assign_plan_def s_def)
  moreover have "op_get_plan ops st' = op_get_plan ops st" using plans_updated [of st s] u by simp
  ultimately show ?thesis using that [of s st'] ws by (simp add: s_def)
qed

lemma assigned_plan_effective:
  assumes "invar st" and "op_get_plan ops st pid = Some p" and "fresh st uuid"
  shows "plan_for_workspace ops (snd (assign_plan ops st ws pid status uuid now)) ws =
    (if active_status status then Some p else None)"
proof -
  from assign_plan_spec [OF assms, of ws status now] obtain s st' where
    "assign_plan ops st ws pid status uuid now = (Inr s, st')"
    "sub_plan_id s = pid" "sub_status s = status"
    "op_get_subscription ops st' ws = Some s" "op_get_plan ops st' = op_get_plan ops st" by metis
  then show ?thesis using assms(2) by (simp add: plan_for_workspace_def)
qed

end

lemma billing_own: "billing_inv st \<Longrightarrow> get_subscription_for_workspace st ws = Some s \<Longrightarrow> sub_workspace_id s = ws"
  by (simp add: get_subscription_Some)

interpretation memory_billing: billing_repository memory_billing_ops billing_inv
    "\<lambda>st i. dget (subscriptions_by_id st) i = None"
proof unfold_locales
  fix st :: billing_repo and s saved st'
  assume "billing_inv st" "dget (subscriptions_by_id st) (sub_id s) = None"
    "op_create_subscription memory_billing_ops st s = (saved, st')"
  then show "saved = s \<and> (\<forall>ws. op_get_subscription memory_billing_ops st' ws =
      (if ws = sub_workspace_id s then Some s else op_get_subscription memory_billing_ops st ws))"
    by (auto simp: memory_billing_ops_def create_subscription_def get_put_subscription)
next
  fix st :: billing_repo and s old res st'
  assume a: "billing_inv st" "op_get_subscription memory_billing_ops st (sub_workspace_id s) = Some old"
    "sub_id old = sub_id s" "op_update_subscription memory_billing_ops st s = (res, st')"
  then have "dget (subscriptions_by_id st) (sub_id s) = Some old"
    by (auto simp: memory_billing_ops_def get_subscription_Some)
  with a billing_own [OF a(1), of "sub_workspace_id s" old]
  show "res = Some s \<and> (\<forall>ws. op_get_subscription memory_billing_ops st' ws =
      (if ws = sub_workspace_id s then Some s else op_get_subscription memory_billing_ops st ws))"
    by (auto simp: memory_billing_ops_def update_subscription_def get_put_subscription)
next
  show "billing_inv st \<Longrightarrow> op_get_subscription memory_billing_ops st ws = Some s \<Longrightarrow> sub_workspace_id s = ws" for st ws s
    by (simp add: memory_billing_ops_def billing_own)
qed (simp_all add: memory_billing_ops_def create_subscription_def update_subscription_def
      put_subscription_def get_plan_def fun_eq_iff)

section \<open>Properties\<close>

lemma assign_plan_cases:
  assumes inv: "billing_inv st" and fresh: "dget (subscriptions_by_id st) uuid = None"
  shows "snd (assign_plan memory_billing_ops st ws pid status uuid now) = st \<or>
    (\<exists>s. snd (assign_plan memory_billing_ops st ws pid status uuid now) = put_subscription st s \<and>
       sub_workspace_id s = ws \<and> (sub_expired_at s = None) = active_status (sub_status s) \<and>
       (get_subscription_for_workspace st ws = None \<and> sub_id s = uuid \<or>
        (\<exists>old. get_subscription_for_workspace st ws = Some old \<and> sub_id old = sub_id s)))"
proof (cases "get_subscription_for_workspace st ws")
  case None
  then show ?thesis
    by (auto simp: assign_plan_def memory_billing_ops_def create_subscription_def)
next
  case (Some old)
  then have "sub_workspace_id old = ws" and "dget (subscriptions_by_id st) (sub_id old) = Some old"
    using get_subscription_Some [OF inv] by auto
  with Some show ?thesis
    by (auto simp: assign_plan_def memory_billing_ops_def update_subscription_def Let_def)
qed

text \<open>
  Assigning a plan keeps the subscription store consistent: at most one subscription per
  workspace, each found under its workspace, with an expiry stamp exactly when it is expired or
  cancelled. The identifier is assumed new, as \<open>uuid4\<close> promises.
\<close>

theorem assign_plan_keeps_invariant:
  assumes "billing_inv st" and "dget (subscriptions_by_id st) uuid = None"
  shows "billing_inv (snd (assign_plan memory_billing_ops st ws pid status uuid now))"
  using assign_plan_cases [OF assms, of ws pid status now] assms by (auto intro!: billing_inv_put)

theorem assign_plan_keeps_invariant_witness:
  "billing_inv (snd (assign_plan memory_billing_ops (new_billing_repo build_seed_plans) ''ws''
     ''10000000-0000-0000-0000-000000000002'' TRIAL ''u1'' 5))"
  by (rule assign_plan_keeps_invariant [OF billing_inv_new]) (simp add: new_billing_repo_def)

text \<open>
  An assigned plan takes effect at once, and only for its workspace: entitlement checks see the
  plan when the status is active or trial and the unrestricted legacy state otherwise, and the
  effective plan of every other workspace is what it was.
\<close>

theorem assign_plan_effective:
  assumes "billing_inv st" and "get_plan st pid = Some p" and "dget (subscriptions_by_id st) uuid = None"
  shows "plan_for_workspace memory_billing_ops (snd (assign_plan memory_billing_ops st ws pid status uuid now)) ws' =
    (if ws' = ws then (if active_status status then Some p else None)
     else plan_for_workspace memory_billing_ops st ws')"
proof -
  have known: "op_get_plan memory_billing_ops st pid = Some p" using assms(2) by (simp add: memory_billing_ops_def)
  from memory_billing.assign_plan_spec [OF assms(1) known assms(3), of ws status now] obtain s st' where
    "assign_plan memory_billing_ops st ws pid status uuid now = (Inr s, st')"
    "\<And>w. op_get_subscription memory_billing_ops st' w =
       (if w = ws then Some s else op_get_subscription memory_billing_ops st w)"
    "op_get_plan memory_billing_ops st' = op_get_plan memory_billing_ops st" by metis
  with memory_billing.assigned_plan_effective [OF assms(1) known assms(3), of ws status now]
  show ?thesis by (auto simp: plan_for_workspace_def split: option.splits)
qed

theorem assign_plan_effective_witness:
  "plan_for_workspace memory_billing_ops (snd (assign_plan memory_billing_ops (new_billing_repo build_seed_plans)
     ''ws'' ''10000000-0000-0000-0000-000000000002'' TRIAL ''u1'' 5)) ''ws'' = Some pro_plan"
  by (subst assign_plan_effective [OF billing_inv_new, of _ _ pro_plan])
     (simp_all add: new_billing_repo_def build_seed_plans_def get_plan_def active_status_def
        free_plan_def pro_plan_def enterprise_plan_def)

text \<open>
  \<open>require_limit\<close> and \<open>check_limit\<close> agree on every branch: the one raises the plan-limit error
  exactly when the other answers False, and an unknown resource name fails loudly in both as soon as
  a plan is in force.
\<close>

theorem require_limit_iff_check_limit:
  "(check_limit ops st ws res n = Inr False) = (\<exists>nm l. require_limit ops st ws res n = Inl (PlanLimitReached nm res l)) \<and>
   (check_limit ops st ws res n = Inr True) = (require_limit ops st ws res n = Inr ()) \<and>
   (check_limit ops st ws res n = Inl (UnknownResource res)) = (require_limit ops st ws res n = Inl (UnknownResource res)) \<and>
   (res \<notin> {''agent'', ''document'', ''member''} \<and> plan_for_workspace ops st ws \<noteq> None \<longleftrightarrow>
    check_limit ops st ws res n = Inl (UnknownResource res))"
  by (auto simp: check_limit_def require_limit_def limit_for_def split: option.splits sum.splits)

lemma seed_plan_known: "dget (plans_by_name (snd (seed_plan st p))) (plan_name p) \<noteq> None"
  by (simp add: seed_plan_def split: option.splits)

lemma seed_plan_keeps:
  "dget (plans_by_name st) n = Some q \<Longrightarrow> dget (plans_by_name (snd (seed_plan st p))) n = Some q"
  by (auto simp: seed_plan_def split: option.splits)

lemma seed_plan_noop: "dget (plans_by_name st) (plan_name p) \<noteq> None \<Longrightarrow> snd (seed_plan st p) = st"
  by (auto simp: seed_plan_def split: option.splits)

lemma fold_seed_keeps:
  "dget (plans_by_name st) n = Some q \<Longrightarrow>
   dget (plans_by_name (fold (\<lambda>p st. snd (seed_plan st p)) ps st)) n = Some q"
  by (induction ps arbitrary: st) (auto simp: seed_plan_keeps)

lemma fold_seed_known:
  "p \<in> set ps \<Longrightarrow> dget (plans_by_name (fold (\<lambda>p st. snd (seed_plan st p)) ps st)) (plan_name p) \<noteq> None"
proof (induction ps arbitrary: st)
  case Nil
  then show ?case by simp
next
  case (Cons q ps)
  show ?case
  proof (cases "p \<in> set ps")
    case True
    then show ?thesis using Cons.IH by simp
  next
    case False
    then have "dget (plans_by_name (snd (seed_plan st q))) (plan_name p) \<noteq> None"
      using Cons.prems seed_plan_known by auto
    then show ?thesis using fold_seed_keeps by force
  qed
qed

lemma fold_seed_noop:
  "(\<And>p. p \<in> set ps \<Longrightarrow> dget (plans_by_name st) (plan_name p) \<noteq> None) \<Longrightarrow>
   fold (\<lambda>p st. snd (seed_plan st p)) ps st = st"
  by (induction ps) (auto simp: seed_plan_noop)

text \<open>
  Seeding is idempotent and never replaces a plan: a second bootstrap leaves the store as the first
  one left it, and a plan name that was present before keeps its plan.
\<close>

theorem seed_billing_plans_idempotent:
  "seed_billing_plans (seed_billing_plans st) = seed_billing_plans st \<and>
   (\<forall>n q. dget (plans_by_name st) n = Some q \<longrightarrow> dget (plans_by_name (seed_billing_plans st)) n = Some q)"
proof -
  have "seed_billing_plans (seed_billing_plans st) = seed_billing_plans st"
    unfolding seed_billing_plans_def by (rule fold_seed_noop) (rule fold_seed_known)
  then show ?thesis using fold_seed_keeps by (auto simp: seed_billing_plans_def)
qed

theorem seed_billing_plans_idempotent_witness:
  "dget (plans_by_name (seed_billing_plans (new_billing_repo [pro_plan\<lparr>plan_max_agents := Some 7\<rparr>]))) ''pro'' =
     Some (pro_plan\<lparr>plan_max_agents := Some 7\<rparr>)"
  using seed_billing_plans_idempotent [of "new_billing_repo [pro_plan\<lparr>plan_max_agents := Some 7\<rparr>]"]
  by (simp add: new_billing_repo_def pro_plan_def)

end
