(* ===== verification/Quota.thy ===== *)
theory Quota
  imports Usage Billing
begin

text \<open>
  Token quota: \<open>app/quota/models.py\<close>, the repository protocol (\<open>app/quota/repository.py\<close>), the
  in-memory repository (\<open>app/quota/memory_repository.py\<close>) and \<open>QuotaService\<close>
  (\<open>app/quota/service.py\<close>).

  Each operation runs at one instant: all its reads of \<open>datetime.now(UTC)\<close> are the same clock value.
  What the repository reads from the usage store is a record of query functions (\<open>usage_port\<close>);
  \<open>memory_usage_port\<close> builds it from the in-memory usage repository.
\<close>

section \<open>Data\<close>

datatype reservation_result = CREATED | DAILY_LIMIT | MONTHLY_LIMIT | NOT_FOUND

datatype quota_scope = KeyScope | WorkspaceScope

record quota_config =
  cfg_daily_token_limit :: "int option"
  cfg_monthly_token_limit :: "int option"
  cfg_default_reserve_tokens :: int
  cfg_reservation_ttl_seconds :: int
  cfg_reservation_renewal_seconds :: int
  cfg_quota_scope :: quota_scope

definition quota_enabled :: "quota_config \<Rightarrow> bool" where
  "quota_enabled cfg \<longleftrightarrow> cfg_daily_token_limit cfg \<noteq> None \<or> cfg_monthly_token_limit cfg \<noteq> None"

record quota_reservation =
  qr_reservation_id :: string
  qr_api_key_hash :: string
  qr_reserved_tokens :: int
  qr_usage_date :: date
  qr_workspace_id :: "string option"

record workspace_quota =
  wq_workspace_id :: string
  wq_daily_token_limit :: "int option"
  wq_monthly_token_limit :: "int option"

record usage_port =
  up_total_for_key :: "string \<Rightarrow> date \<Rightarrow> int"
  up_total_for_workspace :: "string \<Rightarrow> date \<Rightarrow> int"
  up_monthly_for_key :: "string \<Rightarrow> year_month \<Rightarrow> usage_aggregation list"
  up_monthly_for_workspace :: "string \<Rightarrow> year_month \<Rightarrow> usage_aggregation list"

definition memory_usage_port :: "usage_repo \<Rightarrow> usage_port" where
  "memory_usage_port st = \<lparr>up_total_for_key = get_total_tokens_for_key st,
     up_total_for_workspace = get_total_tokens_for_workspace st,
     up_monthly_for_key = get_monthly_usage st,
     up_monthly_for_workspace = get_monthly_usage_for_workspace st\<rparr>"

section \<open>The in-memory repository\<close>

record reservation_entry =
  re_api_key_hash :: string
  re_workspace_id :: "string option"
  re_usage_date :: date
  re_reserved_tokens :: int
  re_settled :: bool
  re_expires_at :: int

record quota_repo =
  q_workspace_quotas :: "(string, workspace_quota) pydict"
  q_reservations :: "(string, reservation_entry) pydict"

definition empty_quota_repo :: quota_repo where
  "empty_quota_repo = \<lparr>q_workspace_quotas = [], q_reservations = []\<rparr>"

definition expires_after :: "int \<Rightarrow> int \<Rightarrow> int" where
  \<comment> \<open>\<open>now + timedelta(seconds=ttl)\<close> in microseconds\<close>
  "expires_after now ttl = now + ttl * 1000000"

definition purge_expired :: "int \<Rightarrow> quota_repo \<Rightarrow> quota_repo" where
  "purge_expired now st =
     st\<lparr>q_reservations := filter (\<lambda>(_, e). \<not> (re_settled e \<or> re_expires_at e \<le> now)) (q_reservations st)\<rparr>"

definition entry_active :: "int \<Rightarrow> reservation_entry \<Rightarrow> bool" where
  "entry_active now e \<longleftrightarrow> \<not> re_settled e \<and> now < re_expires_at e"

definition reserved_where :: "int \<Rightarrow> (reservation_entry \<Rightarrow> bool) \<Rightarrow> quota_repo \<Rightarrow> int" where
  "reserved_where now P st =
     sum_list (map re_reserved_tokens (filter (\<lambda>e. P e \<and> entry_active now e) (dvalues (q_reservations st))))"

definition of_key_day :: "string \<Rightarrow> date \<Rightarrow> reservation_entry \<Rightarrow> bool" where
  "of_key_day h d e \<longleftrightarrow> re_api_key_hash e = h \<and> re_usage_date e = d"

definition of_key_month :: "string \<Rightarrow> year_month \<Rightarrow> reservation_entry \<Rightarrow> bool" where
  "of_key_month h ym e \<longleftrightarrow> re_api_key_hash e = h \<and> ym_of (re_usage_date e) = ym"

definition of_workspace_day :: "string \<Rightarrow> date \<Rightarrow> reservation_entry \<Rightarrow> bool" where
  "of_workspace_day ws d e \<longleftrightarrow> re_workspace_id e = Some ws \<and> re_usage_date e = d"

definition of_workspace_month :: "string \<Rightarrow> year_month \<Rightarrow> reservation_entry \<Rightarrow> bool" where
  "of_workspace_month ws ym e \<longleftrightarrow> re_workspace_id e = Some ws \<and> ym_of (re_usage_date e) = ym"

definition get_reserved_tokens_for_key :: "int \<Rightarrow> quota_repo \<Rightarrow> string \<Rightarrow> date \<Rightarrow> int" where
  "get_reserved_tokens_for_key now st h d = reserved_where now (of_key_day h d) st"

definition get_monthly_reserved_tokens_for_key :: "int \<Rightarrow> quota_repo \<Rightarrow> string \<Rightarrow> year_month \<Rightarrow> int" where
  "get_monthly_reserved_tokens_for_key now st h ym = reserved_where now (of_key_month h ym) st"

definition daily_committed :: "usage_port \<Rightarrow> int \<Rightarrow> quota_repo \<Rightarrow> string \<Rightarrow> string option \<Rightarrow> date \<Rightarrow> int" where
  "daily_committed up now st h ws d =
     (case ws of
        Some w \<Rightarrow> up_total_for_workspace up w d + reserved_where now (of_workspace_day w d) st
      | None \<Rightarrow> up_total_for_key up h d + get_reserved_tokens_for_key now st h d)"

definition monthly_committed :: "usage_port \<Rightarrow> int \<Rightarrow> quota_repo \<Rightarrow> string \<Rightarrow> string option \<Rightarrow> year_month \<Rightarrow> int" where
  "monthly_committed up now st h ws ym =
     (case ws of
        Some w \<Rightarrow> sum_list (map agg_total_tokens (up_monthly_for_workspace up w ym))
                  + reserved_where now (of_workspace_month w ym) st
      | None \<Rightarrow> sum_list (map agg_total_tokens (up_monthly_for_key up h ym))
                + get_monthly_reserved_tokens_for_key now st h ym)"

definition over_limit :: "int option \<Rightarrow> int \<Rightarrow> bool" where
  "over_limit limit n = (case limit of None \<Rightarrow> False | Some l \<Rightarrow> l < n)"

definition create_reservation ::
  "usage_port \<Rightarrow> int \<Rightarrow> quota_repo \<Rightarrow> string \<Rightarrow> string \<Rightarrow> date \<Rightarrow> int \<Rightarrow> int option \<Rightarrow> int option \<Rightarrow> int \<Rightarrow>
   string option \<Rightarrow> reservation_result \<times> quota_repo" where
  "create_reservation up now st0 rid h d tokens daily_limit monthly_limit ttl ws =
     (let st = purge_expired now st0
      in if over_limit daily_limit (daily_committed up now st h ws d + tokens) then (DAILY_LIMIT, st)
         else if over_limit monthly_limit (monthly_committed up now st h ws (ym_of d) + tokens)
         then (MONTHLY_LIMIT, st)
         else (CREATED, st\<lparr>q_reservations := dset rid
                 \<lparr>re_api_key_hash = h, re_workspace_id = ws, re_usage_date = d, re_reserved_tokens = tokens,
                  re_settled = False, re_expires_at = expires_after now ttl\<rparr> (q_reservations st)\<rparr>))"

definition settle_reservation :: "quota_repo \<Rightarrow> string \<Rightarrow> quota_repo" where
  "settle_reservation st rid = st\<lparr>q_reservations := ddel rid (q_reservations st)\<rparr>"

definition release_reservation :: "quota_repo \<Rightarrow> string \<Rightarrow> quota_repo" where
  "release_reservation st rid = st\<lparr>q_reservations := ddel rid (q_reservations st)\<rparr>"

text \<open>The \<open>workspace_id\<close> argument of \<open>extend_reservation\<close> is accepted and not used, as in the source.\<close>

definition extend_reservation ::
  "usage_port \<Rightarrow> int \<Rightarrow> quota_repo \<Rightarrow> string \<Rightarrow> int \<Rightarrow> int option \<Rightarrow> int option \<Rightarrow> string option \<Rightarrow>
   reservation_result \<times> quota_repo" where
  "extend_reservation up now st0 rid extra daily_limit monthly_limit ws =
     (let st = purge_expired now st0
      in case dget (q_reservations st) rid of
           None \<Rightarrow> (NOT_FOUND, st)
         | Some e \<Rightarrow>
             if re_settled e then (NOT_FOUND, st)
             else
               (let h = re_api_key_hash e; d = re_usage_date e
                in if over_limit daily_limit (daily_committed up now st h None d + extra) then (DAILY_LIMIT, st)
                   else if over_limit monthly_limit (monthly_committed up now st h None (ym_of d) + extra)
                   then (MONTHLY_LIMIT, st)
                   else (CREATED, st\<lparr>q_reservations :=
                      dset rid (e\<lparr>re_reserved_tokens := re_reserved_tokens e + extra\<rparr>) (q_reservations st)\<rparr>)))"

definition renew_reservation :: "int \<Rightarrow> quota_repo \<Rightarrow> string \<Rightarrow> int \<Rightarrow> bool \<times> quota_repo" where
  "renew_reservation now st rid ttl =
     (case dget (q_reservations st) rid of
        None \<Rightarrow> (False, st)
      | Some e \<Rightarrow>
          if re_settled e \<or> re_expires_at e \<le> now then (False, st)
          else (True, st\<lparr>q_reservations :=
                  dset rid (e\<lparr>re_expires_at := expires_after now ttl\<rparr>) (q_reservations st)\<rparr>))"

definition get_workspace_quota :: "quota_repo \<Rightarrow> string \<Rightarrow> workspace_quota option" where
  "get_workspace_quota st ws = dget (q_workspace_quotas st) ws"

definition set_workspace_quota ::
  "quota_repo \<Rightarrow> string \<Rightarrow> int option \<Rightarrow> int option \<Rightarrow> workspace_quota \<times> quota_repo" where
  "set_workspace_quota st ws daily monthly =
     (let q = \<lparr>wq_workspace_id = ws, wq_daily_token_limit = daily, wq_monthly_token_limit = monthly\<rparr>
      in (q, st\<lparr>q_workspace_quotas := dset ws q (q_workspace_quotas st)\<rparr>))"

definition cleanup_expired :: "int \<Rightarrow> quota_repo \<Rightarrow> int \<times> quota_repo" where
  "cleanup_expired now st =
     (let before = int (length (q_reservations st)); st' = purge_expired now st
      in (before - int (length (q_reservations st')), st'))"

section \<open>QuotaService\<close>

text \<open>Three views of \<open>datetime.now(UTC)\<close>: the date, the microseconds since midnight, the instant.\<close>

record clock =
  clk_date :: date
  clk_us_of_day :: int
  clk_now :: int

record 's quota_ops =
  qo_create :: "usage_port \<Rightarrow> int \<Rightarrow> 's \<Rightarrow> string \<Rightarrow> string \<Rightarrow> date \<Rightarrow> int \<Rightarrow> int option \<Rightarrow> int option \<Rightarrow> int \<Rightarrow>
                string option \<Rightarrow> reservation_result \<times> 's"
  qo_settle :: "'s \<Rightarrow> string \<Rightarrow> 's"
  qo_extend :: "usage_port \<Rightarrow> int \<Rightarrow> 's \<Rightarrow> string \<Rightarrow> int \<Rightarrow> int option \<Rightarrow> int option \<Rightarrow> string option \<Rightarrow>
                reservation_result \<times> 's"
  qo_release :: "'s \<Rightarrow> string \<Rightarrow> 's"
  qo_renew :: "int \<Rightarrow> 's \<Rightarrow> string \<Rightarrow> int \<Rightarrow> bool \<times> 's"
  qo_cleanup :: "int \<Rightarrow> 's \<Rightarrow> int \<times> 's"
  qo_get_workspace_quota :: "'s \<Rightarrow> string \<Rightarrow> workspace_quota option"
  qo_set_workspace_quota :: "'s \<Rightarrow> string \<Rightarrow> int option \<Rightarrow> int option \<Rightarrow> workspace_quota \<times> 's"

definition memory_quota_ops :: "quota_repo quota_ops" where
  "memory_quota_ops =
     \<lparr>qo_create = create_reservation, qo_settle = settle_reservation, qo_extend = extend_reservation,
      qo_release = release_reservation, qo_renew = renew_reservation, qo_cleanup = cleanup_expired,
      qo_get_workspace_quota = get_workspace_quota, qo_set_workspace_quota = set_workspace_quota\<rparr>"

datatype quota_error =
    DailyQuotaExceeded int
  | MonthlyQuotaExceeded int
  | ReservationInactive
  | AssertionFailed
  | UnsupportedResult reservation_result

definition date_ordinal :: "date \<Rightarrow> int" where
  \<comment> \<open>\<open>date.toordinal()\<close>\<close>
  "date_ordinal dt = (case dt of (y, m, d) \<Rightarrow>
     (let py = int y - 1
      in 365 * py + py div 4 - py div 100 + py div 400
         + int (sum_list (map (days_in_month y) [1..<m])) + int d))"

definition seconds_until :: "date \<Rightarrow> clock \<Rightarrow> int" where
  \<comment> \<open>\<open>int((midnight of d - now).total_seconds())\<close>\<close>
  "seconds_until d clk =
     ((date_ordinal d - date_ordinal (clk_date clk)) * 86400 * 1000000 - clk_us_of_day clk) div 1000000"

definition seconds_until_next_day :: "clock \<Rightarrow> int" where
  "seconds_until_next_day clk = seconds_until (next_day (clk_date clk)) clk"

definition seconds_until_next_month :: "clock \<Rightarrow> int" where
  "seconds_until_next_month clk =
     (case clk_date clk of (y, m, _) \<Rightarrow>
        if m = 12 then seconds_until (y + 1, 1, 1) clk else seconds_until (y, m + 1, 1) clk)"

definition lock_key :: "quota_config \<Rightarrow> string \<Rightarrow> string option \<Rightarrow> string" where
  "lock_key cfg h ws =
     (case ws of
        Some w \<Rightarrow> if cfg_quota_scope cfg = WorkspaceScope then ''ws:'' @ w else h
      | None \<Rightarrow> h)"

definition plan_token_limits :: "('b billing_ops \<times> 'b) option \<Rightarrow> string \<Rightarrow> int option \<times> int option" where
  "plan_token_limits billing ws =
     (case billing of
        None \<Rightarrow> (None, None)
      | Some (ops, st) \<Rightarrow>
          (case op_get_subscription ops st ws of
             None \<Rightarrow> (None, None)
           | Some s \<Rightarrow>
               if \<not> active_status (sub_status s) then (None, None)
               else (case op_get_plan ops st (sub_plan_id s) of
                       None \<Rightarrow> (None, None)
                     | Some p \<Rightarrow> (plan_daily_token_limit p, plan_monthly_token_limit p))))"

definition override :: "'a option \<Rightarrow> 'a option \<Rightarrow> 'a option" where
  "override new old = (if new \<noteq> None then new else old)"

definition resolve_workspace_limits ::
  "quota_config \<Rightarrow> ('b billing_ops \<times> 'b) option \<Rightarrow> 's quota_ops \<Rightarrow> 's \<Rightarrow> string option \<Rightarrow> int option \<times> int option" where
  "resolve_workspace_limits cfg billing ops st ws =
     (case ws of
        None \<Rightarrow> (cfg_daily_token_limit cfg, cfg_monthly_token_limit cfg)
      | Some w \<Rightarrow>
          (let plan = plan_token_limits billing w;
               daily = override (fst plan) (cfg_daily_token_limit cfg);
               monthly = override (snd plan) (cfg_monthly_token_limit cfg)
           in case qo_get_workspace_quota ops st w of
                None \<Rightarrow> (daily, monthly)
              | Some q \<Rightarrow> (override (wq_daily_token_limit q) daily, override (wq_monthly_token_limit q) monthly)))"

definition resolve_limits ::
  "quota_config \<Rightarrow> ('b billing_ops \<times> 'b) option \<Rightarrow> 's quota_ops \<Rightarrow> 's \<Rightarrow> string option \<Rightarrow> int option \<times> int option" where
  "resolve_limits cfg billing ops st ws =
     (if cfg_quota_scope cfg = KeyScope then (cfg_daily_token_limit cfg, cfg_monthly_token_limit cfg)
      else resolve_workspace_limits cfg billing ops st ws)"

definition dimension_workspace :: "quota_config \<Rightarrow> string option \<Rightarrow> string option" where
  "dimension_workspace cfg ws = (if cfg_quota_scope cfg = WorkspaceScope then ws else None)"

definition raise_daily_limit :: "quota_config \<Rightarrow> clock \<Rightarrow> quota_error" where
  "raise_daily_limit cfg clk =
     (if cfg_daily_token_limit cfg = None then AssertionFailed
      else DailyQuotaExceeded (seconds_until_next_day clk))"

definition raise_monthly_limit :: "quota_config \<Rightarrow> clock \<Rightarrow> quota_error" where
  "raise_monthly_limit cfg clk =
     (if cfg_monthly_token_limit cfg = None then AssertionFailed
      else MonthlyQuotaExceeded (seconds_until_next_month clk))"

definition reserve ::
  "quota_config \<Rightarrow> ('b billing_ops \<times> 'b) option \<Rightarrow> 's quota_ops \<Rightarrow> usage_port \<Rightarrow> clock \<Rightarrow> string \<Rightarrow> 's \<Rightarrow>
   string \<Rightarrow> int option \<Rightarrow> int \<Rightarrow> string option \<Rightarrow> (quota_error + quota_reservation option) \<times> 's" where
  "reserve cfg billing ops up clk uuid st h max_tokens prompt_tokens ws =
     (if \<not> quota_enabled cfg then (Inr None, st)
      else
        (let today = clk_date clk;
             amount = prompt_tokens + py_or max_tokens (cfg_default_reserve_tokens cfg);
             limits = resolve_limits cfg billing ops st ws
         in case qo_create ops up (clk_now clk) st uuid h today amount (fst limits) (snd limits)
                   (cfg_reservation_ttl_seconds cfg) (dimension_workspace cfg ws) of
              (DAILY_LIMIT, st') \<Rightarrow> (Inl (raise_daily_limit cfg clk), st')
            | (MONTHLY_LIMIT, st') \<Rightarrow> (Inl (raise_monthly_limit cfg clk), st')
            | (NOT_FOUND, st') \<Rightarrow> (Inl (UnsupportedResult NOT_FOUND), st')
            | (CREATED, st') \<Rightarrow>
                (Inr (Some \<lparr>qr_reservation_id = uuid, qr_api_key_hash = h, qr_reserved_tokens = amount,
                            qr_usage_date = today, qr_workspace_id = ws\<rparr>), st')))"

definition settle :: "quota_config \<Rightarrow> 's quota_ops \<Rightarrow> 's \<Rightarrow> string \<Rightarrow> 's" where
  "settle cfg ops st rid = (if \<not> quota_enabled cfg then st else qo_settle ops st rid)"

definition extend ::
  "quota_config \<Rightarrow> ('b billing_ops \<times> 'b) option \<Rightarrow> 's quota_ops \<Rightarrow> usage_port \<Rightarrow> clock \<Rightarrow> 's \<Rightarrow> string \<Rightarrow> int \<Rightarrow>
   string option \<Rightarrow> (quota_error + unit) \<times> 's" where
  "extend cfg billing ops up clk st rid extra ws =
     (if \<not> quota_enabled cfg \<or> extra \<le> 0 then (Inr (), st)
      else
        (let limits = resolve_limits cfg billing ops st ws
         in case qo_extend ops up (clk_now clk) st rid extra (fst limits) (snd limits)
                   (dimension_workspace cfg ws) of
              (DAILY_LIMIT, st') \<Rightarrow> (Inl (DailyQuotaExceeded (seconds_until_next_day clk)), st')
            | (MONTHLY_LIMIT, st') \<Rightarrow> (Inl (MonthlyQuotaExceeded (seconds_until_next_month clk)), st')
            | (NOT_FOUND, st') \<Rightarrow> (Inl ReservationInactive, st')
            | (CREATED, st') \<Rightarrow> (Inr (), st')))"

definition release :: "quota_config \<Rightarrow> 's quota_ops \<Rightarrow> 's \<Rightarrow> string \<Rightarrow> 's" where
  "release cfg ops st rid = (if \<not> quota_enabled cfg then st else qo_release ops st rid)"

definition renew :: "quota_config \<Rightarrow> 's quota_ops \<Rightarrow> int \<Rightarrow> 's \<Rightarrow> string \<Rightarrow> bool \<times> 's" where
  "renew cfg ops now st rid =
     (if \<not> quota_enabled cfg then (False, st) else qo_renew ops now st rid (cfg_reservation_ttl_seconds cfg))"

section \<open>Reserved totals\<close>

definition quota_wf :: "quota_repo \<Rightarrow> bool" where
  "quota_wf st \<longleftrightarrow> dict_wf (q_reservations st) \<and> (\<forall>e \<in> set (dvalues (q_reservations st)). 0 \<le> re_reserved_tokens e)"

definition share :: "int \<Rightarrow> (reservation_entry \<Rightarrow> bool) \<Rightarrow> reservation_entry \<Rightarrow> int" where
  "share now P e = (if P e \<and> entry_active now e then re_reserved_tokens e else 0)"

lemma reserved_share: "reserved_where now P st = sum_list (map (share now P) (dvalues (q_reservations st)))"
  by (simp add: reserved_where_def sum_list_map_filter_if share_def [abs_def])

lemma purge_reservations:
  "q_reservations (purge_expired now st) = filter (\<lambda>(_, e). entry_active now e) (q_reservations st)"
  by (simp add: purge_expired_def entry_active_def not_le)

lemma purge_workspace_quotas [simp]: "q_workspace_quotas (purge_expired now st) = q_workspace_quotas st"
  by (simp add: purge_expired_def)

lemma quota_wf_empty [simp]: "quota_wf empty_quota_repo"
  by (simp add: quota_wf_def empty_quota_repo_def)

lemma quota_wf_purge [simp, inv_intros]: "quota_wf st \<Longrightarrow> quota_wf (purge_expired now st)"
  by (auto simp: quota_wf_def purge_reservations dvalues_filter)

lemma reserved_purge [simp]: "reserved_where now P (purge_expired now st) = reserved_where now P st"
  unfolding reserved_where_def purge_reservations dvalues_filter filter_filter
  by (rule arg_cong [where f = "\<lambda>p. sum_list (map _ (filter p _))"]) auto

lemma dget_purge:
  assumes "quota_wf st"
  shows "dget (q_reservations (purge_expired now st)) rid =
    (case dget (q_reservations st) rid of None \<Rightarrow> None | Some e \<Rightarrow> if entry_active now e then Some e else None)"
  using assms by (simp add: quota_wf_def purge_reservations dget_filter)

lemma set_dvalues_dset: "set (dvalues (dset k v d)) \<subseteq> insert v (set (dvalues d))"
  by (induction d) auto

lemma set_dvalues_ddel: "set (dvalues (ddel k d)) \<subseteq> set (dvalues d)"
  by (induction d) auto

lemma quota_wf_put [inv_intros]:
  assumes "quota_wf st" and "0 \<le> re_reserved_tokens e"
  shows "quota_wf (st\<lparr>q_reservations := dset rid e (q_reservations st)\<rparr>)"
proof -
  have "0 \<le> re_reserved_tokens x" if "x \<in> set (dvalues (dset rid e (q_reservations st)))" for x
    using subsetD [OF set_dvalues_dset that] assms unfolding quota_wf_def by blast
  with assms show ?thesis by (simp add: quota_wf_def del: set_map)
qed

lemma quota_wf_del [inv_intros]: "quota_wf st \<Longrightarrow> quota_wf (st\<lparr>q_reservations := ddel rid (q_reservations st)\<rparr>)"
  unfolding quota_wf_def using set_dvalues_ddel [of rid "q_reservations st"] by (simp del: set_map) blast

lemma reserved_put:
  assumes "quota_wf st"
  shows "reserved_where now P (st\<lparr>q_reservations := dset rid e (q_reservations st)\<rparr>) =
    reserved_where now P st + share now P e
    - (case dget (q_reservations st) rid of None \<Rightarrow> 0 | Some e0 \<Rightarrow> share now P e0)"
proof (cases "dget (q_reservations st) rid")
  case None
  then show ?thesis by (simp add: reserved_share dset_absent)
next
  case (Some e0)
  with assms sum_dset_present [of "q_reservations st" rid e0 "share now P" e] show ?thesis
    by (simp add: quota_wf_def reserved_share)
qed

lemma reserved_del:
  assumes "quota_wf st"
  shows "reserved_where now P (st\<lparr>q_reservations := ddel rid (q_reservations st)\<rparr>) =
    reserved_where now P st - (case dget (q_reservations st) rid of None \<Rightarrow> 0 | Some e0 \<Rightarrow> share now P e0)"
  using assms sum_ddel [of "q_reservations st" "share now P" rid] by (simp add: quota_wf_def reserved_share)

lemma share_nonneg: "quota_wf st \<Longrightarrow> e \<in> set (dvalues (q_reservations st)) \<Longrightarrow> 0 \<le> share now P e"
  by (auto simp: quota_wf_def share_def)

lemma dget_tokens_nonneg: "quota_wf st \<Longrightarrow> dget (q_reservations st) rid = Some e \<Longrightarrow> 0 \<le> re_reserved_tokens e"
  using dget_in_dvalues [of "q_reservations st" rid e] by (auto simp: quota_wf_def)

lemma reserved_nonneg: "quota_wf st \<Longrightarrow> 0 \<le> reserved_where now P st"
  unfolding reserved_share by (rule sum_list_nonneg_int) (rule share_nonneg)

lemma reserved_later:
  assumes "quota_wf st" and "now \<le> now'"
  shows "reserved_where now' P st \<le> reserved_where now P st"
  unfolding reserved_where_def
  by (rule sum_list_filter_mono) (use assms in \<open>auto simp: quota_wf_def entry_active_def\<close>)

lemma reserved_del_le:
  assumes "quota_wf st"
  shows "reserved_where now P (st\<lparr>q_reservations := ddel rid (q_reservations st)\<rparr>) \<le> reserved_where now P st"
  using assms by (auto simp: reserved_del share_def dest: dget_tokens_nonneg split: option.splits)

lemma committed_purge [simp]:
  "daily_committed up now (purge_expired now st) h ws d = daily_committed up now st h ws d"
  "monthly_committed up now (purge_expired now st) h ws ym = monthly_committed up now st h ws ym"
  by (simp_all add: daily_committed_def monthly_committed_def get_reserved_tokens_for_key_def
      get_monthly_reserved_tokens_for_key_def split: option.splits)

section \<open>The repository interface and its clients\<close>

text \<open>
  \<open>QuotaRepository\<close> as the service and the reservation lifecycle rely on it. \<open>live st now rid\<close> is the
  reservation that counts against the limits at \<open>now\<close>, if there is one.
\<close>

locale quota_repository =
  fixes ops :: "'s quota_ops"
    and invar :: "'s \<Rightarrow> bool"
    and live :: "'s \<Rightarrow> int \<Rightarrow> string \<Rightarrow> reservation_entry option"
    and unused :: "'s \<Rightarrow> string \<Rightarrow> bool"
  assumes created: "invar st \<Longrightarrow> unused st rid \<Longrightarrow> 0 < ttl \<Longrightarrow> 0 \<le> tokens \<Longrightarrow>
        qo_create ops up now st rid h d tokens dl ml ttl ws = (CREATED, st') \<Longrightarrow>
        invar st' \<and> live st' now = (live st now)(rid := Some
          \<lparr>re_api_key_hash = h, re_workspace_id = ws, re_usage_date = d, re_reserved_tokens = tokens,
           re_settled = False, re_expires_at = expires_after now ttl\<rparr>)"
    and refused: "invar st \<Longrightarrow> unused st rid \<Longrightarrow> res \<noteq> CREATED \<Longrightarrow>
        qo_create ops up now st rid h d tokens dl ml ttl ws = (res, st') \<Longrightarrow>
        res \<noteq> NOT_FOUND \<and> invar st' \<and> live st' now = live st now"
    and settled: "invar st \<Longrightarrow> invar (qo_settle ops st rid) \<and>
        live (qo_settle ops st rid) now = (live st now)(rid := None)"
    and released: "invar st \<Longrightarrow> invar (qo_release ops st rid) \<and>
        live (qo_release ops st rid) now = (live st now)(rid := None)"
    and renewed: "invar st \<Longrightarrow> 0 < ttl \<Longrightarrow> qo_renew ops now st rid ttl = (b, st') \<Longrightarrow>
        invar st' \<and> (b \<longleftrightarrow> live st now rid \<noteq> None) \<and>
        live st' now = (case live st now rid of None \<Rightarrow> live st now
          | Some e \<Rightarrow> (live st now)(rid := Some (e\<lparr>re_expires_at := expires_after now ttl\<rparr>)))"
begin

lemma reserve_creates:
  assumes "invar st" and "unused st uuid" and "quota_enabled cfg" and "0 < cfg_reservation_ttl_seconds cfg"
    and "0 \<le> prompt + py_or mt (cfg_default_reserve_tokens cfg)"
    and "reserve cfg billing ops up clk uuid st h mt prompt ws = (Inr r, st')"
  shows "\<exists>q e. r = Some q \<and> invar st' \<and> live st' (clk_now clk) (qr_reservation_id q) = Some e \<and>
    re_reserved_tokens e = prompt + py_or mt (cfg_default_reserve_tokens cfg) \<and>
    re_api_key_hash e = h \<and> re_workspace_id e = dimension_workspace cfg ws"
  using assms created [OF assms(1,2,4,5)]
  by (auto simp: reserve_def Let_def split: prod.splits reservation_result.splits)

lemma reserve_fails_clean:
  assumes "invar st" and "unused st uuid" and "reserve cfg billing ops up clk uuid st h mt prompt ws = (Inl err, st')"
  shows "invar st' \<and> live st' (clk_now clk) = live st (clk_now clk) \<and> (\<forall>r. err \<noteq> UnsupportedResult r)"
proof -
  define tokens where "tokens = prompt + py_or mt (cfg_default_reserve_tokens cfg)"
  define dl where "dl = fst (resolve_limits cfg billing ops st ws)"
  define ml where "ml = snd (resolve_limits cfg billing ops st ws)"
  obtain res st'' where c: "qo_create ops up (clk_now clk) st uuid h (clk_date clk) tokens dl ml
      (cfg_reservation_ttl_seconds cfg) (dimension_workspace cfg ws) = (res, st'')"
    by (metis surj_pair)
  have r: "res \<noteq> CREATED" "st' = st''" "res \<noteq> NOT_FOUND \<Longrightarrow> \<forall>r. err \<noteq> UnsupportedResult r"
    using assms(3) c unfolding tokens_def [symmetric] dl_def [symmetric] ml_def [symmetric]
    by (auto simp: reserve_def Let_def raise_daily_limit_def raise_monthly_limit_def
        tokens_def [symmetric] dl_def [symmetric] ml_def [symmetric]
        split: prod.splits reservation_result.splits if_splits)
  from refused [OF assms(1,2) r(1) c] r show ?thesis by simp
qed

end

definition live_entry :: "quota_repo \<Rightarrow> int \<Rightarrow> string \<Rightarrow> reservation_entry option" where
  "live_entry st now rid = (case dget (q_reservations st) rid of
     None \<Rightarrow> None | Some e \<Rightarrow> if entry_active now e then Some e else None)"

lemma live_purge: "quota_wf st \<Longrightarrow> live_entry (purge_expired now st) now = live_entry st now"
  by (auto simp: live_entry_def dget_purge fun_eq_iff split: option.splits)

lemma live_put: "live_entry (st\<lparr>q_reservations := dset rid e (q_reservations st)\<rparr>) now =
    (live_entry st now)(rid := (if entry_active now e then Some e else None))"
  by (simp add: live_entry_def fun_eq_iff)

lemma live_del: "live_entry (st\<lparr>q_reservations := ddel rid (q_reservations st)\<rparr>) now = (live_entry st now)(rid := None)"
  by (simp add: live_entry_def fun_eq_iff)

lemma active_fresh: "0 < ttl \<Longrightarrow> now < expires_after now ttl"
  by (simp add: expires_after_def)

interpretation memory_quota: quota_repository memory_quota_ops quota_wf live_entry
    "\<lambda>st rid. dget (q_reservations st) rid = None"
proof unfold_locales
  fix st :: quota_repo and rid ttl tokens up now h d dl ml ws st'
  assume a: "quota_wf st" "(0::int) < ttl" "0 \<le> tokens"
    and c: "qo_create memory_quota_ops up now st rid h d tokens dl ml ttl ws = (CREATED, st')"
  from c have st': "st' = (purge_expired now st)\<lparr>q_reservations := dset rid
       \<lparr>re_api_key_hash = h, re_workspace_id = ws, re_usage_date = d, re_reserved_tokens = tokens,
        re_settled = False, re_expires_at = expires_after now ttl\<rparr> (q_reservations (purge_expired now st))\<rparr>"
    by (auto simp: memory_quota_ops_def create_reservation_def Let_def split: if_splits)
  show "quota_wf st' \<and> live_entry st' now = (live_entry st now)(rid := Some
       \<lparr>re_api_key_hash = h, re_workspace_id = ws, re_usage_date = d, re_reserved_tokens = tokens,
        re_settled = False, re_expires_at = expires_after now ttl\<rparr>)"
    unfolding st' live_put live_purge [OF a(1)]
    using a by (auto intro!: quota_wf_put simp: entry_active_def active_fresh)
next
  show "quota_wf st \<Longrightarrow> dget (q_reservations st) rid = None \<Longrightarrow> res \<noteq> CREATED \<Longrightarrow>
      qo_create memory_quota_ops up now st rid h d tokens dl ml ttl ws = (res, st') \<Longrightarrow>
      res \<noteq> NOT_FOUND \<and> quota_wf st' \<and> live_entry st' now = live_entry st now"
    for st res up now rid h d tokens dl ml ttl ws st'
    by (auto simp: memory_quota_ops_def create_reservation_def Let_def live_purge split: if_splits)
next
  show "quota_wf st \<Longrightarrow> quota_wf (qo_settle memory_quota_ops st rid) \<and>
      live_entry (qo_settle memory_quota_ops st rid) now = (live_entry st now)(rid := None)" for st rid now
    by (simp add: memory_quota_ops_def settle_reservation_def live_del quota_wf_del)
next
  show "quota_wf st \<Longrightarrow> quota_wf (qo_release memory_quota_ops st rid) \<and>
      live_entry (qo_release memory_quota_ops st rid) now = (live_entry st now)(rid := None)" for st rid now
    by (simp add: memory_quota_ops_def release_reservation_def live_del quota_wf_del)
next
  fix st :: quota_repo and ttl now rid b st'
  assume a: "quota_wf st" "(0::int) < ttl" and r: "qo_renew memory_quota_ops now st rid ttl = (b, st')"
  show "quota_wf st' \<and> (b \<longleftrightarrow> live_entry st now rid \<noteq> None) \<and>
      live_entry st' now = (case live_entry st now rid of None \<Rightarrow> live_entry st now
        | Some e \<Rightarrow> (live_entry st now)(rid := Some (e\<lparr>re_expires_at := expires_after now ttl\<rparr>)))"
  proof (cases "live_entry st now rid")
    case None
    with r have "b = False" "st' = st"
      by (auto simp: memory_quota_ops_def renew_reservation_def live_entry_def entry_active_def split: option.splits if_splits)
    with None a show ?thesis by simp
  next
    case (Some e)
    then have e: "dget (q_reservations st) rid = Some e" "entry_active now e"
      by (auto simp: live_entry_def split: option.splits if_splits)
    with r have "b" "st' = st\<lparr>q_reservations := dset rid (e\<lparr>re_expires_at := expires_after now ttl\<rparr>) (q_reservations st)\<rparr>"
      by (auto simp: memory_quota_ops_def renew_reservation_def entry_active_def)
    with Some e a show ?thesis
      by (auto intro!: quota_wf_put simp: live_put entry_active_def active_fresh dest: dget_tokens_nonneg)
  qed
qed

end
