(* ===== verification/QuotaSystem.thy ===== *)
theory QuotaSystem
  imports Quota
begin

text \<open>
  The quota service, its in-memory repository and the usage store as one system: what one call does to
  the tokens committed against a limit, and a step relation over the calls of concurrent requests
  (\<open>reserve\<close>, \<open>extend\<close>, \<open>renew\<close>, \<open>release\<close>, the collector, \<open>settle\<close>, the background
  \<open>cleanup_expired\<close>, and time passing) whose reachable states commit more than the daily limit only by what
  requests spent beyond their reservations.
\<close>

section \<open>One call\<close>

lemma create_cases:
  assumes "create_reservation up now st rid h d tokens dl ml ttl ws = (res, st')"
  obtains (created) "res = CREATED" "\<not> over_limit dl (daily_committed up now st h ws d + tokens)"
      "\<not> over_limit ml (monthly_committed up now st h ws (ym_of d) + tokens)"
      "st' = (purge_expired now st)\<lparr>q_reservations := dset rid
         \<lparr>re_api_key_hash = h, re_workspace_id = ws, re_usage_date = d, re_reserved_tokens = tokens,
          re_settled = False, re_expires_at = expires_after now ttl\<rparr> (q_reservations (purge_expired now st))\<rparr>"
  | (daily) "res = DAILY_LIMIT" "over_limit dl (daily_committed up now st h ws d + tokens)"
      "st' = purge_expired now st"
  | (monthly) "res = MONTHLY_LIMIT" "over_limit ml (monthly_committed up now st h ws (ym_of d) + tokens)"
      "st' = purge_expired now st"
  using assms unfolding create_reservation_def Let_def by (auto split: if_splits)

lemma extend_cases:
  assumes "extend_reservation up now st rid extra dl ml ws = (res, st')" and "quota_wf st"
  obtains (extended) e where "res = CREATED" "live_entry st now rid = Some e"
      "\<not> over_limit dl (daily_committed up now st (re_api_key_hash e) None (re_usage_date e) + extra)"
      "\<not> over_limit ml (monthly_committed up now st (re_api_key_hash e) None (ym_of (re_usage_date e)) + extra)"
      "st' = (purge_expired now st)\<lparr>q_reservations := dset rid
         (e\<lparr>re_reserved_tokens := re_reserved_tokens e + extra\<rparr>) (q_reservations (purge_expired now st))\<rparr>"
  | (refused) "res \<noteq> CREATED" "st' = purge_expired now st" "res = NOT_FOUND \<longleftrightarrow> live_entry st now rid = None"
  using assms unfolding extend_reservation_def Let_def
  by (auto simp: dget_purge live_entry_def entry_active_def split: if_splits option.splits)

lemma dget_purge_fresh:
  "quota_wf st \<Longrightarrow> dget (q_reservations st) rid = None \<Longrightarrow> dget (q_reservations (purge_expired now st)) rid = None"
  by (simp add: dget_purge)

lemma reserved_created:
  assumes "quota_wf st" and "dget (q_reservations st) rid = None"
  shows "reserved_where now P ((purge_expired now st)\<lparr>q_reservations := dset rid e (q_reservations (purge_expired now st))\<rparr>)
    = reserved_where now P st + share now P e"
  using assms by (simp add: reserved_put dget_purge_fresh)

lemma dget_purge_live: "quota_wf st \<Longrightarrow> dget (q_reservations (purge_expired now st)) rid = live_entry st now rid"
  by (simp add: dget_purge live_entry_def)

lemma reserved_updated:
  assumes "quota_wf st" and "live_entry st now rid = Some e0"
  shows "reserved_where now P ((purge_expired now st)\<lparr>q_reservations := dset rid e (q_reservations (purge_expired now st))\<rparr>)
    = reserved_where now P st + share now P e - share now P e0"
  using assms by (simp add: reserved_put dget_purge_live)

lemma committed_created:
  assumes "quota_wf st" and "dget (q_reservations st) rid = None" and "0 < ttl"
    and "e = \<lparr>re_api_key_hash = h, re_workspace_id = ws, re_usage_date = d, re_reserved_tokens = tokens,
          re_settled = False, re_expires_at = expires_after now ttl\<rparr>"
    and "st' = (purge_expired now st)\<lparr>q_reservations := dset rid e (q_reservations (purge_expired now st))\<rparr>"
  shows "daily_committed up now st' h ws d = daily_committed up now st h ws d + tokens"
    and "monthly_committed up now st' h ws (ym_of d) = monthly_committed up now st h ws (ym_of d) + tokens"
  using assms
  by (simp_all add: daily_committed_def monthly_committed_def get_reserved_tokens_for_key_def
      get_monthly_reserved_tokens_for_key_def reserved_created share_def entry_active_def active_fresh
      of_key_day_def of_key_month_def of_workspace_day_def of_workspace_month_def split: option.splits)

text \<open>
  \<open>create_reservation\<close> never oversubscribes. When it answers \<open>CREATED\<close>, the tokens committed in the
  dimension it judges by (workspace or key), used plus reserved, have grown by exactly the amount asked
  for and stay within the daily and the monthly limit; any other answer names a limit that the amount
  would really have exceeded, and leaves what is committed as it was.
\<close>

theorem create_never_oversubscribes:
  assumes "quota_wf st" and "dget (q_reservations st) rid = None" and "0 < ttl"
    and "create_reservation up now st rid h d tokens dl ml ttl ws = (res, st')"
  shows "case res of
      CREATED \<Rightarrow> daily_committed up now st' h ws d = daily_committed up now st h ws d + tokens \<and>
        monthly_committed up now st' h ws (ym_of d) = monthly_committed up now st h ws (ym_of d) + tokens \<and>
        \<not> over_limit dl (daily_committed up now st' h ws d) \<and>
        \<not> over_limit ml (monthly_committed up now st' h ws (ym_of d))
    | DAILY_LIMIT \<Rightarrow> over_limit dl (daily_committed up now st h ws d + tokens) \<and>
        daily_committed up now st' h ws d = daily_committed up now st h ws d
    | MONTHLY_LIMIT \<Rightarrow> over_limit ml (monthly_committed up now st h ws (ym_of d) + tokens) \<and>
        monthly_committed up now st' h ws (ym_of d) = monthly_committed up now st h ws (ym_of d)
    | NOT_FOUND \<Rightarrow> False"
  using assms(4)
proof (cases rule: create_cases)
  case created
  with committed_created [OF assms(1-3) refl created(4), of up] show ?thesis by simp
next
  case daily
  then show ?thesis by simp
next
  case monthly
  then show ?thesis by simp
qed

theorem create_never_oversubscribes_witness:
  "daily_committed (memory_usage_port empty_usage_repo) 0
     (snd (create_reservation (memory_usage_port empty_usage_repo) 0 empty_quota_repo ''r'' ''k'' (2026, 8, 4) 60
        (Some 100) None 30 None)) ''k'' None (2026, 8, 4) = 60"
proof -
  obtain st' where r: "create_reservation (memory_usage_port empty_usage_repo) 0 empty_quota_repo ''r'' ''k'' (2026, 8, 4) 60
      (Some 100) None 30 None = (CREATED, st')"
    by (simp add: create_reservation_def daily_committed_def memory_usage_port_def over_limit_def empty_quota_repo_def
        empty_usage_repo_def get_total_tokens_for_key_def get_daily_usage_def get_reserved_tokens_for_key_def
        reserved_where_def purge_expired_def Let_def)
  have "daily_committed (memory_usage_port empty_usage_repo) 0 empty_quota_repo ''k'' None (2026, 8, 4) = 0"
    by (simp add: daily_committed_def memory_usage_port_def empty_usage_repo_def get_total_tokens_for_key_def
        get_daily_usage_def get_reserved_tokens_for_key_def reserved_where_def empty_quota_repo_def)
  moreover have "dget (q_reservations empty_quota_repo) ''r'' = None" by (simp add: empty_quota_repo_def)
  ultimately show ?thesis
    using create_never_oversubscribes [OF quota_wf_empty _ _ r] unfolding r by simp
qed

section \<open>Concurrent requests\<close>

record quota_world =
  qw_clock :: clock
  qw_usage :: usage_repo
  qw_quota :: quota_repo

abbreviation world_now :: "quota_world \<Rightarrow> int" where "world_now w \<equiv> clk_now (qw_clock w)"
abbreviation world_port :: "quota_world \<Rightarrow> usage_port" where "world_port w \<equiv> memory_usage_port (qw_usage w)"

definition spent :: "chat_usage \<Rightarrow> int" where
  "spent u = py_or (cu_prompt_tokens u) 0 + py_or (cu_completion_tokens u) 0"

text \<open>
  The calls of any number of requests, in any order and without any assumption on what a request spends, whose key it
  charges, on which day, or whether its reservation is still live. A request \<open>rid\<close> that ends makes two calls: the
  collector records what it spent, and later \<open>settle\<close> removes its reservation. The second component of a
  state is bookkeeping of the proof: a charge for every recorded usage, with the part of it that no
  reservation has covered. Recording covers nothing; settling a live reservation covers, of the charge of the same
  request, key and day, at most what was reserved.
\<close>

record charge =
  cg_request :: string
  cg_key :: string
  cg_day :: date
  cg_uncovered :: int

definition uncovered :: "charge list \<Rightarrow> string \<Rightarrow> date \<Rightarrow> int" where
  "uncovered cs h d = sum_list (map cg_uncovered (filter (\<lambda>g. cg_key g = h \<and> cg_day g = d) cs))"

fun cover :: "string \<Rightarrow> reservation_entry \<Rightarrow> charge list \<Rightarrow> charge list" where
  "cover rid e [] = []"
| "cover rid e (g # gs) =
     (if cg_request g = rid \<and> cg_key g = re_api_key_hash e \<and> cg_day g = re_usage_date e
      then g\<lparr>cg_uncovered := max 0 (cg_uncovered g - re_reserved_tokens e)\<rparr> # gs
      else g # cover rid e gs)"

definition covered_by :: "string \<Rightarrow> reservation_entry option \<Rightarrow> charge list \<Rightarrow> charge list" where
  "covered_by rid live cs = (case live of None \<Rightarrow> cs | Some e \<Rightarrow> cover rid e cs)"

definition charged_key :: "request_context \<Rightarrow> string" where
  "charged_key c = (case rc_api_key c of None \<Rightarrow> [] | Some h \<Rightarrow> h)"

inductive quota_step ::
  "quota_config \<Rightarrow> ('b billing_ops \<times> 'b) option \<Rightarrow> quota_world \<times> charge list \<Rightarrow> quota_world \<times> charge list \<Rightarrow> bool"
  for cfg :: quota_config and billing :: "('b billing_ops \<times> 'b) option" where
  tick: "world_now w \<le> clk_now c \<Longrightarrow> quota_step cfg billing (w, cs) (w\<lparr>qw_clock := c\<rparr>, cs)"
| reserve: "dget (q_reservations (qw_quota w)) uuid = None \<Longrightarrow>
    0 \<le> prompt + py_or mt (cfg_default_reserve_tokens cfg) \<Longrightarrow>
    reserve cfg billing memory_quota_ops (world_port w) (qw_clock w) uuid (qw_quota w) h mt prompt ws = (r, q) \<Longrightarrow>
    quota_step cfg billing (w, cs) (w\<lparr>qw_quota := q\<rparr>, cs)"
| extend: "Quota.extend cfg billing memory_quota_ops (world_port w) (qw_clock w) (qw_quota w) rid extra ws = (x, q) \<Longrightarrow>
    quota_step cfg billing (w, cs) (w\<lparr>qw_quota := q\<rparr>, cs)"
| renew: "renew cfg memory_quota_ops (world_now w) (qw_quota w) rid = (b, q) \<Longrightarrow>
    quota_step cfg billing (w, cs) (w\<lparr>qw_quota := q\<rparr>, cs)"
| release: "quota_step cfg billing (w, cs) (w\<lparr>qw_quota := release cfg memory_quota_ops (qw_quota w) rid\<rparr>, cs)"
| cleanup: "quota_step cfg billing (w, cs) (w\<lparr>qw_quota := snd (cleanup_expired (world_now w) (qw_quota w))\<rparr>, cs)"
| charge: "0 \<le> spent u \<Longrightarrow>
    quota_step cfg billing (w, cs)
      (w\<lparr>qw_usage := record_chat record_usage (clk_date (qw_clock w)) c u latency (qw_usage w)\<rparr>,
       \<lparr>cg_request = rid, cg_key = charged_key c, cg_day = clk_date (qw_clock w), cg_uncovered = spent u\<rparr> # cs)"
| settle: "quota_step cfg billing (w, cs)
      (w\<lparr>qw_quota := settle cfg memory_quota_ops (qw_quota w) rid\<rparr>,
       covered_by rid (live_entry (qw_quota w) (world_now w) rid) cs)"

definition committed :: "quota_world \<Rightarrow> string \<Rightarrow> date \<Rightarrow> int" where
  "committed w h d = get_total_tokens_for_key (qw_usage w) h d
     + get_reserved_tokens_for_key (world_now w) (qw_quota w) h d"

text \<open>\<open>B\<close> bounds what a key has committed on a day.\<close>

definition world_inv :: "(string \<Rightarrow> date \<Rightarrow> int) \<Rightarrow> quota_world \<Rightarrow> bool" where
  "world_inv B w \<longleftrightarrow> quota_wf (qw_quota w) \<and> usage_wf (qw_usage w) \<and>
     (\<forall>h d. 0 \<le> get_total_tokens_for_key (qw_usage w) h d \<and> committed w h d \<le> B h d)"

definition empty_world :: "clock \<Rightarrow> quota_world" where
  "empty_world c = \<lparr>qw_clock = c, qw_usage = empty_usage_repo, qw_quota = empty_quota_repo\<rparr>"

lemma world_invD:
  assumes "world_inv B w"
  shows "quota_wf (qw_quota w)" and "usage_wf (qw_usage w)" and "0 \<le> get_total_tokens_for_key (qw_usage w) h d"
    and "get_total_tokens_for_key (qw_usage w) h d + reserved_where (world_now w) (of_key_day h d) (qw_quota w) \<le> B h d"
  using assms by (simp_all add: world_inv_def committed_def get_reserved_tokens_for_key_def)

text \<open>A change of the reservations alone that leaves no key with more than before, or within the limit.\<close>

lemma world_inv_quota:
  assumes "world_inv B w" and "quota_wf q"
    and "\<And>h d. reserved_where (world_now w) (of_key_day h d) q \<le> reserved_where (world_now w) (of_key_day h d) (qw_quota w)
           \<or> get_total_tokens_for_key (qw_usage w) h d + reserved_where (world_now w) (of_key_day h d) q \<le> B h d"
  shows "world_inv B (w\<lparr>qw_quota := q\<rparr>)"
proof -
  have "get_total_tokens_for_key (qw_usage w) h d + reserved_where (world_now w) (of_key_day h d) q \<le> B h d" for h d
    using world_invD(4) [OF assms(1), of h d] assms(3) [of h d] by linarith
  with assms(1,2) show ?thesis
    by (simp add: world_inv_def committed_def get_reserved_tokens_for_key_def)
qed

lemma world_inv_purge: "world_inv B w \<Longrightarrow> world_inv B (w\<lparr>qw_quota := purge_expired (world_now w) (qw_quota w)\<rparr>)"
  by (rule world_inv_quota) (simp_all add: world_invD(1))

lemma create_within:
  assumes "world_inv B w" and "dget (q_reservations (qw_quota w)) rid = None" and "0 \<le> tokens"
    and limit: "L \<le> B h d"
    and "create_reservation (world_port w) (world_now w) (qw_quota w) rid h d tokens (Some L) ml ttl None = (res, q)"
  shows "world_inv B (w\<lparr>qw_quota := q\<rparr>)"
  using assms(5)
proof (cases rule: create_cases)
  case created
  have wf: "quota_wf (qw_quota w)" using assms(1) by (simp add: world_inv_def)
  show ?thesis
  proof (rule world_inv_quota [OF assms(1)])
    show "quota_wf q" unfolding created(4) using wf assms(3) by (intro quota_wf_put) simp_all
    fix h' d'
    show "reserved_where (world_now w) (of_key_day h' d') q \<le> reserved_where (world_now w) (of_key_day h' d') (qw_quota w)
        \<or> get_total_tokens_for_key (qw_usage w) h' d' + reserved_where (world_now w) (of_key_day h' d') q \<le> B h' d'"
      using created(2) assms(3) limit unfolding created(4) reserved_created [OF wf assms(2)]
      by (auto simp: share_def of_key_day_def over_limit_def daily_committed_def memory_usage_port_def
          get_reserved_tokens_for_key_def of_key_day_def [abs_def])
  qed
qed (simp_all add: world_inv_purge assms(1))

lemma extend_within:
  assumes "world_inv B w" and "0 \<le> extra" and limit: "\<And>h d. L \<le> B h d"
    and "extend_reservation (world_port w) (world_now w) (qw_quota w) rid extra (Some L) ml None = (res, q)"
  shows "world_inv B (w\<lparr>qw_quota := q\<rparr>)"
  using assms(4) world_invD(1) [OF assms(1)]
proof (cases rule: extend_cases)
  case (extended e)
  have wf: "quota_wf (qw_quota w)" using assms(1) by (rule world_invD)
  have "0 \<le> re_reserved_tokens e"
    using dget_tokens_nonneg [OF wf] extended(2) by (simp add: live_entry_def split: option.splits if_splits)
  show ?thesis
  proof (rule world_inv_quota [OF assms(1)])
    show "quota_wf q" unfolding extended(5) using wf assms(2) \<open>0 \<le> re_reserved_tokens e\<close>
      by (intro quota_wf_put) simp_all
    fix h' d'
    have "share (world_now w) (of_key_day h' d') (e\<lparr>re_reserved_tokens := re_reserved_tokens e + extra\<rparr>)
        - share (world_now w) (of_key_day h' d') e \<le> (if of_key_day h' d' e then extra else 0)"
      using assms(2) by (simp add: share_def of_key_day_def entry_active_def)
    then show "reserved_where (world_now w) (of_key_day h' d') q \<le> reserved_where (world_now w) (of_key_day h' d') (qw_quota w)
        \<or> get_total_tokens_for_key (qw_usage w) h' d' + reserved_where (world_now w) (of_key_day h' d') q \<le> B h' d'"
      using extended(3) limit [of h' d'] unfolding extended(5) reserved_updated [OF wf extended(2)]
      by (auto simp: of_key_day_def over_limit_def daily_committed_def memory_usage_port_def
          get_reserved_tokens_for_key_def of_key_day_def [abs_def] split: if_splits)
  qed
qed (simp_all add: world_inv_purge assms(1))

lemma renew_within:
  assumes "world_inv B w" and "renew_reservation (world_now w) (qw_quota w) rid ttl = (b, q)" and "0 < ttl"
  shows "world_inv B (w\<lparr>qw_quota := q\<rparr>)"
proof (cases "live_entry (qw_quota w) (world_now w) rid")
  case None
  with assms(2) have "q = qw_quota w"
    by (auto simp: renew_reservation_def live_entry_def entry_active_def split: option.splits if_splits)
  then show ?thesis using assms(1) by simp
next
  case (Some e)
  have wf: "quota_wf (qw_quota w)" using assms(1) by (rule world_invD)
  have e: "dget (q_reservations (qw_quota w)) rid = Some e" "entry_active (world_now w) e"
    using Some by (auto simp: live_entry_def split: option.splits if_splits)
  with assms(2) have q: "q = (qw_quota w)\<lparr>q_reservations :=
      dset rid (e\<lparr>re_expires_at := expires_after (world_now w) ttl\<rparr>) (q_reservations (qw_quota w))\<rparr>"
    by (auto simp: renew_reservation_def entry_active_def)
  show ?thesis
    by (rule world_inv_quota [OF assms(1)])
      (use wf e assms(3) dget_tokens_nonneg [OF wf e(1)] in
        \<open>auto simp: q reserved_put share_def entry_active_def active_fresh of_key_day_def intro!: quota_wf_put\<close>)
qed

lemma delete_within:
  assumes "world_inv B w"
  shows "world_inv B (w\<lparr>qw_quota := (qw_quota w)\<lparr>q_reservations := ddel rid (q_reservations (qw_quota w))\<rparr>\<rparr>)"
  by (rule world_inv_quota [OF assms])
    (simp_all add: quota_wf_del reserved_del_le world_invD(1) [OF assms])

lemma tick_within:
  assumes "world_inv B w" and "world_now w \<le> clk_now c"
  shows "world_inv B (w\<lparr>qw_clock := c\<rparr>)"
proof -
  have "get_total_tokens_for_key (qw_usage w) h d + reserved_where (clk_now c) (of_key_day h d) (qw_quota w) \<le> B h d" for h d
    using world_invD(4) [OF assms(1), of h d] reserved_later [OF world_invD(1) [OF assms(1)] assms(2), of "of_key_day h d"]
    by linarith
  then show ?thesis using assms(1)
    by (simp add: world_inv_def committed_def get_reserved_tokens_for_key_def)
qed

lemma record_chat_usage:
  "record_chat record_usage today c u latency st = record_usage today
     ((usage_of c (cu_model u) (cu_prompt_tokens u) (cu_completion_tokens u) latency)
        \<lparr>ur_usage_date := Some today, ur_api_key_hash := Some (case rc_api_key c of None \<Rightarrow> [] | Some h \<Rightarrow> h)\<rparr>) st"
  by (simp add: record_chat_def service_record_def usage_of_def Let_def split: option.splits)

lemma charge_within:
  assumes "world_inv B w" and "0 \<le> spent u" and "\<And>h d. B h d + (if h = charged_key c \<and> d = clk_date (qw_clock w) then spent u else 0) \<le> B' h d"
  shows "world_inv B' (w\<lparr>qw_usage := record_chat record_usage (clk_date (qw_clock w)) c u latency (qw_usage w)\<rparr>)"
    (is "world_inv B' (w\<lparr>qw_usage := ?u\<rparr>)")
proof -
  have uwf: "usage_wf (qw_usage w)" using assms(1) by (rule world_invD)
  have t: "get_total_tokens_for_key ?u h d =
      (if d < daily_cutoff (clk_date (qw_clock w)) then 0
       else get_total_tokens_for_key (qw_usage w) h d + (if h = charged_key c \<and> h \<noteq> [] \<and> d = clk_date (qw_clock w) then spent u else 0))" for h d
    unfolding record_chat_usage total_record_usage [OF uwf]
    by (auto simp: usage_of_def spent_def charged_key_def split: option.splits)
  have nn: "0 \<le> get_total_tokens_for_key (qw_usage w) h d" for h d using assms(1) by (rule world_invD)
  have "0 \<le> get_total_tokens_for_key ?u h d" for h d using nn [of h d] assms(2) by (simp add: t)
  moreover have "get_total_tokens_for_key ?u h d + reserved_where (world_now w) (of_key_day h d) (qw_quota w) \<le> B' h d" for h d
    using world_invD(4) [OF assms(1), of h d] nn [of h d] assms(2) assms(3) [of h d] by (auto simp: t split: if_splits)
  moreover have "usage_wf ?u" unfolding record_chat_usage using uwf by (rule usage_wf_record)
  ultimately show ?thesis using assms(1) by (simp add: world_inv_def committed_def get_reserved_tokens_for_key_def)
qed

lemma cover_uncovered: "0 \<le> re_reserved_tokens e \<Longrightarrow> list_all (\<lambda>g. 0 \<le> cg_uncovered g) cs \<Longrightarrow>
    uncovered cs h d - (if of_key_day h d e then re_reserved_tokens e else 0) \<le> uncovered (cover rid e cs) h d \<and>
    list_all (\<lambda>g. 0 \<le> cg_uncovered g) (cover rid e cs)"
  by (induction cs) (auto simp: uncovered_def of_key_day_def)

lemma settle_within:
  assumes "world_inv B w" and "live_entry (qw_quota w) (world_now w) rid = Some e"
    and "\<And>h d. B h d - (if of_key_day h d e then re_reserved_tokens e else 0) \<le> B' h d"
  shows "world_inv B' (w\<lparr>qw_quota := settle_reservation (qw_quota w) rid\<rparr>)"
    (is "world_inv B' (w\<lparr>qw_quota := ?q\<rparr>)")
proof -
  have wf: "quota_wf (qw_quota w)" using assms(1) by (rule world_invD)
  have e: "dget (q_reservations (qw_quota w)) rid = Some e" "entry_active (world_now w) e"
    using assms(2) by (auto simp: live_entry_def split: option.splits if_splits)
  have "reserved_where (world_now w) (of_key_day h d) ?q =
      reserved_where (world_now w) (of_key_day h d) (qw_quota w) - (if of_key_day h d e then re_reserved_tokens e else 0)"
    for h d using wf e by (simp add: settle_reservation_def reserved_del share_def)
  then have "get_total_tokens_for_key (qw_usage w) h d + reserved_where (world_now w) (of_key_day h d) ?q \<le> B' h d" for h d
    using world_invD(4) [OF assms(1), of h d] assms(3) [of h d] by simp
  moreover have "quota_wf ?q" by (simp add: settle_reservation_def wf quota_wf_del)
  ultimately show ?thesis using assms(1) by (simp add: world_inv_def committed_def get_reserved_tokens_for_key_def)
qed

lemma reserve_via_create:
  assumes "reserve cfg billing memory_quota_ops up clk uuid st h mt prompt ws = (r, st')" and "quota_enabled cfg"
    and "cfg_quota_scope cfg = KeyScope"
  obtains res where "create_reservation up (clk_now clk) st uuid h (clk_date clk)
      (prompt + py_or mt (cfg_default_reserve_tokens cfg)) (cfg_daily_token_limit cfg) (cfg_monthly_token_limit cfg)
      (cfg_reservation_ttl_seconds cfg) None = (res, st')"
  using assms
  by (auto simp: reserve_def Let_def memory_quota_ops_def resolve_limits_def dimension_workspace_def
      split: prod.splits reservation_result.splits)

lemma extend_via_extend:
  assumes "Quota.extend cfg billing memory_quota_ops up clk st rid extra ws = (r, st')"
    and "cfg_quota_scope cfg = KeyScope"
  obtains "st' = st" | res where "0 \<le> extra" "extend_reservation up (clk_now clk) st rid extra
      (cfg_daily_token_limit cfg) (cfg_monthly_token_limit cfg) None = (res, st')"
  using assms
  by (auto simp: Quota.extend_def Let_def memory_quota_ops_def resolve_limits_def dimension_workspace_def
      split: prod.splits reservation_result.splits if_splits)

definition system_inv :: "int \<Rightarrow> quota_world \<times> charge list \<Rightarrow> bool" where
  "system_inv L x \<longleftrightarrow> world_inv (\<lambda>h d. L + uncovered (snd x) h d) (fst x) \<and> list_all (\<lambda>g. 0 \<le> cg_uncovered g) (snd x)"

lemma uncovered_nonneg: "list_all (\<lambda>g. 0 \<le> cg_uncovered g) cs \<Longrightarrow> 0 \<le> uncovered cs h d"
  unfolding uncovered_def by (induction cs) auto

lemma settle_system:
  assumes "system_inv L (w, cs)"
  shows "system_inv L (w\<lparr>qw_quota := settle_reservation (qw_quota w) rid\<rparr>, covered_by rid (live_entry (qw_quota w) (world_now w) rid) cs)"
proof (cases "live_entry (qw_quota w) (world_now w) rid")
  case None
  then show ?thesis using assms delete_within by (simp add: system_inv_def covered_by_def settle_reservation_def)
next
  case (Some e)
  have w: "world_inv (\<lambda>h d. L + uncovered cs h d) w" and cs: "list_all (\<lambda>g. 0 \<le> cg_uncovered g) cs"
    using assms by (simp_all add: system_inv_def)
  have "0 \<le> re_reserved_tokens e"
    using dget_tokens_nonneg [OF world_invD(1) [OF w]] Some by (simp add: live_entry_def split: option.splits if_splits)
  note cov = cover_uncovered [OF this cs, of _ _ rid]
  have "world_inv (\<lambda>h d. L + uncovered (cover rid e cs) h d) (w\<lparr>qw_quota := settle_reservation (qw_quota w) rid\<rparr>)"
    by (rule settle_within [OF w Some]) (use cov in \<open>auto simp: algebra_simps\<close>)
  with cov Some show ?thesis by (simp add: system_inv_def covered_by_def)
qed

lemma quota_step_inv [inv_intros]:
  assumes "quota_step cfg billing x y" and inv: "system_inv L x"
    and scope: "cfg_quota_scope cfg = KeyScope" and L: "cfg_daily_token_limit cfg = Some L" and ttl: "0 < cfg_reservation_ttl_seconds cfg"
  shows "system_inv L y"
proof -
  have on: "quota_enabled cfg" using L by (simp add: quota_enabled_def)
  have world: "world_inv (\<lambda>h d. L + uncovered (snd x) h d) (fst x)" and cs: "list_all (\<lambda>g. 0 \<le> cg_uncovered g) (snd x)"
    using inv by (simp_all add: system_inv_def)
  have le: "L \<le> L + uncovered (snd x) h d" for h d using uncovered_nonneg [OF cs] by simp
  show ?thesis using assms(1)
  proof cases
    case (tick w c cs')
    then show ?thesis using world cs by (simp add: system_inv_def tick_within)
  next
    case (reserve w uuid prompt mt h ws r q cs')
    from reserve_via_create [OF reserve(5) on scope] obtain res
      where "create_reservation (world_port w) (world_now w) (qw_quota w) uuid h (clk_date (qw_clock w))
        (prompt + py_or mt (cfg_default_reserve_tokens cfg)) (Some L) (cfg_monthly_token_limit cfg)
        (cfg_reservation_ttl_seconds cfg) None = (res, q)" unfolding L .
    from create_within [OF world [unfolded reserve(1) fst_conv snd_conv] reserve(3,4) le [unfolded reserve(1) snd_conv] this]
    show ?thesis using cs by (simp add: system_inv_def reserve(1,2))
  next
    case (extend w rid extra ws r q cs')
    from extend(3) scope show ?thesis
    proof (cases rule: extend_via_extend)
      case (2 res)
      from extend_within [OF world [unfolded extend(1) fst_conv snd_conv] 2(1) le [unfolded extend(1) snd_conv] 2(2) [unfolded L]]
      show ?thesis using cs by (simp add: system_inv_def extend(1,2))
    qed (use inv extend(1,2) in simp)
  next
    case (renew w rid b q cs')
    then show ?thesis using renew_within [OF world [unfolded renew(1) fst_conv snd_conv] _ ttl] on cs
      by (simp add: system_inv_def renew_def memory_quota_ops_def)
  next
    case (release w cs' rid)
    then show ?thesis using delete_within [OF world [unfolded release(1) fst_conv snd_conv]] on cs
      by (simp add: system_inv_def release_def memory_quota_ops_def release_reservation_def)
  next
    case (cleanup w cs')
    then show ?thesis using world_inv_purge [OF world] cs by (simp add: system_inv_def cleanup_expired_def Let_def)
  next
    case (charge u w cs' c latency rid)
    have "world_inv (\<lambda>h d. L + uncovered (snd y) h d) (fst y)" unfolding charge(2) fst_conv
      by (rule charge_within [OF world [unfolded charge(1) fst_conv snd_conv] charge(3)]) (auto simp: uncovered_def)
    then show ?thesis using cs charge by (simp add: system_inv_def)
  next
    case (settle w cs' rid)
    then show ?thesis using settle_system [of L w cs' rid] inv on by (simp add: settle_def memory_quota_ops_def)
  qed
qed

lemma quota_reachable_inv:
  assumes "(quota_step cfg billing)\<^sup>*\<^sup>* x y" and "system_inv L x"
    and "cfg_quota_scope cfg = KeyScope" and "cfg_daily_token_limit cfg = Some L" and "0 < cfg_reservation_ttl_seconds cfg"
  shows "system_inv L y"
  using assms by (induction rule: rtranclp_induct) (blast intro: quota_step_inv)+

lemma empty_world_inv: "0 \<le> L \<Longrightarrow> system_inv L (empty_world c, [])"
  by (simp add: system_inv_def world_inv_def empty_world_def usage_wf_empty committed_def get_total_tokens_for_key_def
      get_daily_usage_def get_reserved_tokens_for_key_def reserved_where_def empty_usage_repo_def empty_quota_repo_def
      quota_wf_def usage_wf_def uncovered_def)

text \<open>
  C1: with quotas per key, a daily limit and a positive time to live, from empty stores and whatever the requests of all keys do
  and in whatever order their calls interleave (reserving a nonnegative amount under a fresh id, extending, renewing, releasing,
  recording a nonnegative usage, settling, expiring as time goes on, the background clean-up), the tokens a key has used on a day plus the ones it has
  reserved for that day exceed the daily limit by at most the uncovered part of the usages recorded for that key and
  day: the part of each that goes beyond the reservation its request settled, and all of it as long as the
  request has not settled a live reservation of that key and day. In particular they never exceed the limit where
  every recorded usage is settled within its live reservation.
\<close>

theorem daily_limit_never_exceeded:
  assumes "(quota_step cfg billing)\<^sup>*\<^sup>* (empty_world c, []) (w, cs)"
    and "cfg_quota_scope cfg = KeyScope" and "cfg_daily_token_limit cfg = Some L"
    and "0 < cfg_reservation_ttl_seconds cfg" and "0 \<le> L"
  shows "get_total_tokens_for_key (qw_usage w) h d
    + get_reserved_tokens_for_key (clk_now (qw_clock w)) (qw_quota w) h d \<le> L + uncovered cs h d"
  using quota_reachable_inv [OF assms(1) empty_world_inv [OF assms(5)] assms(2-4)]
  by (simp add: system_inv_def world_inv_def committed_def)

definition demo_cfg :: quota_config where
  "demo_cfg = \<lparr>cfg_daily_token_limit = Some 100, cfg_monthly_token_limit = None, cfg_default_reserve_tokens = 10,
     cfg_reservation_ttl_seconds = 30, cfg_reservation_renewal_seconds = 10, cfg_quota_scope = KeyScope\<rparr>"

definition demo_clock :: clock where
  "demo_clock = \<lparr>clk_date = (2026, 8, 4), clk_us_of_day = 0, clk_now = 0\<rparr>"

definition demo_world :: quota_world where
  "demo_world = (empty_world demo_clock)\<lparr>qw_quota := snd (reserve demo_cfg (None :: (billing_repo billing_ops \<times> billing_repo) option)
     memory_quota_ops (world_port (empty_world demo_clock)) demo_clock ''r'' empty_quota_repo ''k'' (Some 50) 40 None)\<rparr>"

definition demo_usage :: chat_usage where
  "demo_usage = \<lparr>cu_model = ''m'', cu_prompt_tokens = Some 40, cu_completion_tokens = Some 60\<rparr>"

definition demo_context :: request_context where
  "demo_context = \<lparr>rc_request_id = ''q'', rc_api_key = Some ''k'', rc_api_key_name = None, rc_identity = None\<rparr>"

definition demo_charged :: quota_world where
  "demo_charged = demo_world\<lparr>qw_usage := record_chat record_usage (clk_date (qw_clock demo_world)) demo_context demo_usage 0 (qw_usage demo_world)\<rparr>"

definition demo_settled :: quota_world where
  "demo_settled = demo_charged\<lparr>qw_quota := settle demo_cfg memory_quota_ops (qw_quota demo_charged) ''r''\<rparr>"

definition demo_charges :: "charge list" where
  "demo_charges = [\<lparr>cg_request = ''r'', cg_key = charged_key demo_context, cg_day = clk_date (qw_clock demo_world), cg_uncovered = spent demo_usage\<rparr>]"

abbreviation no_plans :: "(billing_repo billing_ops \<times> billing_repo) option" where "no_plans \<equiv> None"

lemma demo_world_step: "quota_step demo_cfg no_plans (empty_world demo_clock, []) (demo_world, [])"
proof -
  let ?w = "empty_world demo_clock"
  have "quota_step demo_cfg no_plans (?w, []) (?w\<lparr>qw_quota := snd
     (reserve demo_cfg no_plans memory_quota_ops (world_port ?w) (qw_clock ?w) ''r'' (qw_quota ?w) ''k'' (Some 50) 40 None)\<rparr>, [])"
    by (rule quota_step.reserve [OF _ _ prod.collapse [symmetric]])
      (simp_all add: empty_world_def empty_quota_repo_def py_or_def)
  then show ?thesis by (simp add: demo_world_def empty_world_def)
qed

lemma demo_charge_step: "quota_step demo_cfg no_plans (demo_world, []) (demo_charged, demo_charges)"
  unfolding demo_charged_def demo_charges_def by (rule quota_step.charge) (simp add: spent_def demo_usage_def py_or_def)

lemma demo_settle_step:
  "quota_step demo_cfg no_plans (demo_charged, demo_charges)
     (demo_settled, covered_by ''r'' (live_entry (qw_quota demo_charged) (world_now demo_charged) ''r'') demo_charges)"
  unfolding demo_settled_def by (rule quota_step.settle)

lemma demo_entry:
  "live_entry (qw_quota demo_charged) (world_now demo_charged) ''r'' = Some \<lparr>re_api_key_hash = ''k'', re_workspace_id = None,
     re_usage_date = (2026, 8, 4), re_reserved_tokens = 90, re_settled = False, re_expires_at = expires_after 0 30\<rparr>"
  by (simp add: demo_charged_def demo_world_def reserve_def demo_cfg_def demo_clock_def quota_enabled_def memory_quota_ops_def
      create_reservation_def resolve_limits_def dimension_workspace_def daily_committed_def memory_usage_port_def
      over_limit_def empty_world_def empty_quota_repo_def empty_usage_repo_def get_total_tokens_for_key_def
      get_daily_usage_def get_reserved_tokens_for_key_def reserved_where_def purge_expired_def Let_def py_or_def
      of_key_day_def entry_active_def expires_after_def live_entry_def)

theorem daily_limit_never_exceeded_witness:
  "get_total_tokens_for_key (qw_usage demo_settled) ''k'' (2026, 8, 4)
     + get_reserved_tokens_for_key (clk_now (qw_clock demo_settled)) (qw_quota demo_settled) ''k'' (2026, 8, 4) \<le> 100 + 10"
proof -
  have "uncovered (covered_by ''r'' (live_entry (qw_quota demo_charged) (world_now demo_charged) ''r'') demo_charges) ''k'' (2026, 8, 4) = 10"
    unfolding demo_entry
    by (simp add: covered_by_def demo_charges_def charged_key_def demo_context_def demo_world_def empty_world_def demo_clock_def
        spent_def demo_usage_def py_or_def uncovered_def)
  moreover have reach: "(quota_step demo_cfg no_plans)\<^sup>*\<^sup>* (empty_world demo_clock, [])
      (demo_settled, covered_by ''r'' (live_entry (qw_quota demo_charged) (world_now demo_charged) ''r'') demo_charges)"
    using demo_world_step demo_charge_step demo_settle_step by (meson converse_rtranclp_into_rtranclp rtranclp.rtrancl_refl)
  ultimately show ?thesis using daily_limit_never_exceeded [OF reach, of 100 "''k''" "(2026, 8, 4)"] by (simp add: demo_cfg_def)
qed

section \<open>Retry-After\<close>

lemma div_pred:
  fixes y k :: int
  assumes "0 < k"
  shows "y div k = (y - 1) div k + (if y mod k = 0 then 1 else 0)"
proof -
  define q r where "q = y div k" and "r = y mod k"
  have y: "y = k * q + r" and r: "0 \<le> r" "r < k" using assms by (simp_all add: q_def r_def)
  show ?thesis
  proof (cases "r = 0")
    case True
    have "(y - 1) div k = q - 1"
      using assms by (intro int_div_pos_eq [where r = "k - 1"]) (simp_all add: y True algebra_simps)
    then show ?thesis using True by (simp add: q_def r_def)
  next
    case False
    have "(y - 1) div k = q" using r False by (intro int_div_pos_eq [where r = "r - 1"]) (simp_all add: y)
    then show ?thesis using False by (simp add: q_def r_def)
  qed
qed

lemma leap_years:
  fixes y :: int
  shows "y div 4 - y div 100 + y div 400 = (y - 1) div 4 - (y - 1) div 100 + (y - 1) div 400
    + (if y mod 4 = 0 \<and> (y mod 100 \<noteq> 0 \<or> y mod 400 = 0) then 1 else 0)"
proof -
  have m: "y mod 400 mod 100 = y mod 100" "y mod 100 mod 4 = y mod 4" by (rule mod_mod_cancel, simp)+
  have k: "0 < (4::int)" "0 < (100::int)" "0 < (400::int)" by simp_all
  have mods: "y mod 400 = 0 \<Longrightarrow> y mod 100 = 0" "y mod 100 = 0 \<Longrightarrow> y mod 4 = 0"
    using m by (metis mod_0)+
  have "d4 = e4 + (if p4 then 1 else 0) \<Longrightarrow> d100 = e100 + (if p100 then 1 else 0) \<Longrightarrow>
      d400 = e400 + (if p400 then 1 else 0) \<Longrightarrow> (p400 \<Longrightarrow> p100) \<Longrightarrow> (p100 \<Longrightarrow> p4) \<Longrightarrow>
      d4 - d100 + d400 = e4 - e100 + e400 + (if p4 \<and> (\<not> p100 \<or> p400) then 1 else 0)"
    for d4 d100 d400 e4 e100 e400 :: int and p4 p100 p400 by (cases p4; cases p100; cases p400) simp_all
  from this [OF div_pred [OF k(1), of y] div_pred [OF k(2), of y] div_pred [OF k(3), of y] mods] show ?thesis .
qed

lemma is_leap_int: "is_leap y \<longleftrightarrow> int y mod 4 = 0 \<and> (int y mod 100 \<noteq> 0 \<or> int y mod 400 = 0)"
proof -
  have "int y mod int k = int (y mod k)" for k by (simp add: zmod_int)
  from this [of 4] this [of 100] this [of 400] show ?thesis by (simp add: is_leap_def)
qed

lemma days_before_december: "sum_list (map (days_in_month y) [1..<12]) = (if is_leap y then 335 else 334)"
proof -
  have "[1..<12] = [1, 2, 3, 4, 5, 6, 7, 8, 9, 10, 11 :: nat]" by code_simp
  then show ?thesis by (simp add: days_in_month_def)
qed

lemma ordinal_new_year:
  shows "date_ordinal (Suc y, 1, 1) = date_ordinal (y, 12, 31) + 1"
proof -
  define c :: "int \<Rightarrow> int" where "c x = x div 4 - x div 100 + x div 400" for x
  have o: "date_ordinal (Suc y, 1, 1) = 365 * int y + c (int y) + 1"
    "date_ordinal (y, 12, 31) = 365 * (int y - 1) + c (int y - 1) + (if is_leap y then 335 else 334) + 31"
    unfolding date_ordinal_def Let_def prod.case days_before_december by (simp_all add: c_def)
  have "c (int y) = c (int y - 1) + (if is_leap y then 1 else 0)"
    unfolding c_def is_leap_int by (rule leap_years)
  with o show ?thesis by simp
qed

lemma ordinal_in_month: "date_ordinal (y, m, n) = date_ordinal (y, m, 1) + int n - 1"
  by (simp add: date_ordinal_def Let_def)

lemma ordinal_next_month:
  assumes "1 \<le> y" and "1 \<le> m" and "m \<le> 12"
  shows "date_ordinal (if m = 12 then (y + 1, 1, 1) else (y, m + 1, 1)) = date_ordinal (y, m, 1) + int (days_in_month y m)"
proof (cases "m = 12")
  case True
  then show ?thesis using ordinal_new_year [of y] ordinal_in_month [of y 12 31] by (simp add: days_in_month_def)
next
  case False
  then show ?thesis using assms(2) by (simp add: date_ordinal_def Let_def)
qed

lemma ordinal_next_day:
  assumes "valid_date dt"
  shows "date_ordinal (next_day dt) = date_ordinal dt + 1"
proof -
  obtain y m n where dt: "dt = (y, m, n)" by (metis prod_cases3)
  with assms have b: "1 \<le> y" "1 \<le> m" "m \<le> 12" "1 \<le> n" "n \<le> days_in_month y m" by (simp_all add: valid_date_def)
  show ?thesis
    using ordinal_next_month [OF b(1-3)] b ordinal_in_month [of y m n] ordinal_in_month [of y m "n + 1"]
    by (auto simp: dt next_day_def split: if_splits)
qed

text \<open>
  The \<open>Retry-After\<close> of a quota error is sound. At a valid date and time of day, the seconds until the
  daily reset lie between 0 and 86400, those until the monthly reset between 0 and 31 days, the daily
  reset never comes after the monthly one, and waiting the announced time plus one second always
  passes midnight.
\<close>

theorem retry_after_bounds:
  assumes "valid_date (clk_date clk)" and "0 \<le> clk_us_of_day clk" and "clk_us_of_day clk < 86400000000"
  shows "0 \<le> seconds_until_next_day clk \<and> seconds_until_next_day clk \<le> 86400 \<and>
    seconds_until_next_day clk \<le> seconds_until_next_month clk \<and> seconds_until_next_month clk \<le> 31 * 86400 \<and>
    86400000000 < clk_us_of_day clk + (seconds_until_next_day clk + 1) * 1000000"
proof -
  obtain y m n where dt: "clk_date clk = (y, m, n)" by (metis prod_cases3)
  with assms have b: "1 \<le> y" "1 \<le> m" "m \<le> 12" "1 \<le> n" "n \<le> days_in_month y m" by (simp_all add: valid_date_def)
  define k where "k = int (days_in_month y m) - int n + 1"
  have k: "1 \<le> k" "k \<le> 31" using b days_in_month_bounds [of y m] by (auto simp: k_def)
  have day: "seconds_until_next_day clk = (86400000000 - clk_us_of_day clk) div 1000000"
    using ordinal_next_day [OF assms(1)] by (simp add: seconds_until_next_day_def seconds_until_def)
  have q: "seconds_until_next_day clk * 1000000 \<le> 86400000000 - clk_us_of_day clk"
    "86400000000 - clk_us_of_day clk < seconds_until_next_day clk * 1000000 + 1000000"
    using div_mult_mod_eq [of "86400000000 - clk_us_of_day clk" 1000000]
      pos_mod_bound [of 1000000 "86400000000 - clk_us_of_day clk"] pos_mod_sign [of 1000000 "86400000000 - clk_us_of_day clk"]
    unfolding day by linarith+
  have month: "seconds_until_next_month clk = (k * 86400000000 - clk_us_of_day clk) div 1000000"
    using ordinal_next_month [OF b(1-3)] ordinal_in_month [of y m n]
    by (auto simp: seconds_until_next_month_def seconds_until_def dt k_def algebra_simps split: if_splits)
  have mono: "(86400000000 - clk_us_of_day clk) div 1000000 \<le> (k * 86400000000 - clk_us_of_day clk) div 1000000"
    using k by (intro zdiv_mono1) auto
  have top: "(k * 86400000000 - clk_us_of_day clk) div 1000000 \<le> (31 * 86400000000) div 1000000"
    using k assms(2) by (intro zdiv_mono1) auto
  show ?thesis
  proof (intro conjI)
    show "0 \<le> seconds_until_next_day clk" "seconds_until_next_day clk \<le> 86400"
      "86400000000 < clk_us_of_day clk + (seconds_until_next_day clk + 1) * 1000000"
      using q assms(2,3) unfolding distrib_right by linarith+
    show "seconds_until_next_day clk \<le> seconds_until_next_month clk" "seconds_until_next_month clk \<le> 31 * 86400"
      unfolding day month using mono top by simp_all
  qed
qed

theorem retry_after_bounds_witness:
  "seconds_until_next_day \<lparr>clk_date = (2024, 2, 29), clk_us_of_day = 86399500000, clk_now = 0\<rparr> = 0 \<and>
   seconds_until_next_month \<lparr>clk_date = (2024, 2, 29), clk_us_of_day = 86399500000, clk_now = 0\<rparr> \<le> 31 * 86400"
proof
  show "seconds_until_next_day \<lparr>clk_date = (2024, 2, 29), clk_us_of_day = 86399500000, clk_now = 0\<rparr> = 0"
    by (simp add: seconds_until_next_day_def seconds_until_def next_day_def days_in_month_def is_leap_def
        date_ordinal_def Let_def upt_conv_Cons)
  show "seconds_until_next_month \<lparr>clk_date = (2024, 2, 29), clk_us_of_day = 86399500000, clk_now = 0\<rparr> \<le> 31 * 86400"
    using retry_after_bounds [of "\<lparr>clk_date = (2024, 2, 29), clk_us_of_day = 86399500000, clk_now = 0\<rparr>"]
    by (simp add: valid_date_def days_in_month_def is_leap_def)
qed

end
