(* ===== verification/QuotaLifecycle.thy ===== *)
theory QuotaLifecycle
  imports QuotaSystem
begin

text \<open>
  \<open>ReservationLifecycle\<close> (\<open>app/quota/lifecycle.py\<close>): the context manager that renews a reservation in
  the background while a request runs and settles or releases it exactly once.

  The renewal task and the body of the \<open>async with\<close> interleave at the awaits; a \<open>Renew\<close> action is one
  iteration of the background loop and may come between any two actions of the body. The service is a
  record of operations over its own state, each of which may raise (\<open>Inl\<close>).
\<close>

section \<open>State\<close>

datatype lifecycle_error =
    RenewalRefused       \<comment> \<open>\<open>QuotaReservationError("Quota reservation could not be renewed.")\<close>\<close>
  | RenewalFailed        \<comment> \<open>\<open>QuotaReservationError("Quota reservation renewal failed.")\<close>\<close>
  | SignalWithoutError   \<comment> \<open>\<open>RuntimeError("Quota renewal failure signal completed without an error.")\<close>\<close>
  | OperationCancelled
  | OperationError string
  | ServiceError string

text \<open>The future \<open>_renewal_failure\<close>: pending or completed with an error.\<close>

datatype failure_signal = Pending | Failed lifecycle_error

record 's lifecycle_service =
  ls_settle :: "string \<Rightarrow> 's \<Rightarrow> (lifecycle_error + unit) \<times> 's"
  ls_release :: "string \<Rightarrow> 's \<Rightarrow> (lifecycle_error + unit) \<times> 's"
  ls_renew :: "int \<Rightarrow> string \<Rightarrow> 's \<Rightarrow> (lifecycle_error + bool) \<times> 's"

record lifecycle =
  lc_reservation :: "quota_reservation option"
  lc_has_service :: bool
  lc_renewal_failure :: "failure_signal option"
  lc_renewal_task :: bool
  lc_finalized :: bool

definition new_lifecycle :: "quota_reservation option \<Rightarrow> bool \<Rightarrow> lifecycle" where
  "new_lifecycle r svc = \<lparr>lc_reservation = r, lc_has_service = svc, lc_renewal_failure = None,
     lc_renewal_task = False, lc_finalized = False\<rparr>"

section \<open>Operations\<close>

definition aenter :: "lifecycle \<Rightarrow> lifecycle" where
  "aenter lc =
     (if lc_reservation lc = None \<or> \<not> lc_has_service lc then lc
      else lc\<lparr>lc_renewal_failure := Some Pending, lc_renewal_task := True\<rparr>)"

definition stop_renewal :: "lifecycle \<Rightarrow> lifecycle" where
  "stop_renewal lc = lc\<lparr>lc_renewal_task := False, lc_renewal_failure := None\<rparr>"

definition set_renewal_failure :: "lifecycle_error \<Rightarrow> lifecycle \<Rightarrow> lifecycle" where
  "set_renewal_failure err lc =
     (case lc_renewal_failure lc of
        Some Pending \<Rightarrow> lc\<lparr>lc_renewal_failure := Some (Failed err)\<rparr>
      | _ \<Rightarrow> lc)"

text \<open>One iteration of \<open>_renew_reservation\<close>; the loop ends (the task is done) on a refusal or an error.\<close>

definition renew_reservation_loop ::
  "'s lifecycle_service \<Rightarrow> int \<Rightarrow> lifecycle \<times> 's \<Rightarrow> lifecycle \<times> 's" where
  "renew_reservation_loop svc now x =
     (case x of (lc, st) \<Rightarrow>
        (case (lc_renewal_task lc, lc_reservation lc) of
           (True, Some r) \<Rightarrow>
             (case ls_renew svc now (qr_reservation_id r) st of
                (Inr True, st') \<Rightarrow> (lc, st')
              | (Inr False, st') \<Rightarrow> (set_renewal_failure RenewalRefused lc\<lparr>lc_renewal_task := False\<rparr>, st')
              | (Inl _, st') \<Rightarrow> (set_renewal_failure RenewalFailed lc\<lparr>lc_renewal_task := False\<rparr>, st'))
         | _ \<Rightarrow> (lc, st)))"

definition lc_finish ::
  "(string \<Rightarrow> 's \<Rightarrow> (lifecycle_error + unit) \<times> 's) \<Rightarrow> lifecycle \<times> 's \<Rightarrow> (lifecycle_error + unit) \<times> lifecycle \<times> 's" where
  "lc_finish f x =
     (let lc = stop_renewal (fst x); st = snd x
      in case (lc_finalized lc \<or> \<not> lc_has_service lc, lc_reservation lc) of
           (False, Some r) \<Rightarrow>
             (case f (qr_reservation_id r) st of
                (Inl err, st') \<Rightarrow> (Inl err, lc, st')
              | (Inr _, st') \<Rightarrow> (Inr (), lc\<lparr>lc_finalized := True\<rparr>, st'))
         | _ \<Rightarrow> (Inr (), lc, st))"

definition lc_settle :: "'s lifecycle_service \<Rightarrow> lifecycle \<times> 's \<Rightarrow> (lifecycle_error + unit) \<times> lifecycle \<times> 's" where
  "lc_settle svc = lc_finish (ls_settle svc)"

definition lc_release :: "'s lifecycle_service \<Rightarrow> lifecycle \<times> 's \<Rightarrow> (lifecycle_error + unit) \<times> lifecycle \<times> 's" where
  "lc_release svc = lc_finish (ls_release svc)"

definition aexit :: "'s lifecycle_service \<Rightarrow> lifecycle \<times> 's \<Rightarrow> (lifecycle_error + unit) \<times> lifecycle \<times> 's" where
  "aexit svc x =
     (let lc = stop_renewal (fst x)
      in if \<not> lc_finalized lc then lc_release svc (lc, snd x) else (Inr (), lc, snd x))"

text \<open>
  \<open>run\<close>: how the race between the operation and the renewal failure ends. \<open>Interrupted\<close> is the
  waiting task being cancelled itself; \<open>done_op\<close> says whether the operation had completed when the wait
  returned, \<open>after_cancel\<close> how the operation ends once it has been asked to cancel.
\<close>

datatype 'a op_result = Value 'a | Raised lifecycle_error | WasCancelled

fun result_of :: "'a op_result \<Rightarrow> lifecycle_error + 'a" where
  "result_of (Value v) = Inr v"
| "result_of (Raised e) = Inl e"
| "result_of WasCancelled = Inl OperationCancelled"

datatype 'a wait_outcome =
    Interrupted
  | OperationDone "'a op_result"
  | SignalDone "'a op_result option" "'a op_result"
    \<comment> \<open>the signal is done; the operation too, if it has a result; else how it reacts to the cancellation\<close>

definition run :: "lifecycle \<Rightarrow> bool \<Rightarrow> 'a op_result \<Rightarrow> 'a wait_outcome \<Rightarrow> lifecycle_error + 'a" where
  "run lc return_quota_failure_result direct w =
     (case lc_renewal_failure lc of
        None \<Rightarrow> result_of direct
      | Some sig \<Rightarrow>
          (case w of
             Interrupted \<Rightarrow> Inl OperationCancelled
           | OperationDone r \<Rightarrow> result_of r
           | SignalDone op_done after_cancel \<Rightarrow>
               (case sig of
                  Pending \<Rightarrow> Inl SignalWithoutError
                | Failed err \<Rightarrow>
                    (let r = (case op_done of Some r \<Rightarrow> r | None \<Rightarrow> after_cancel)
                     in if return_quota_failure_result \<and> r \<noteq> WasCancelled then result_of r else Inl err))))"

section \<open>A whole request\<close>

datatype lc_action = Renew int | Settle | Release

definition lc_act :: "'s lifecycle_service \<Rightarrow> lc_action \<Rightarrow> lifecycle \<times> 's \<Rightarrow> lifecycle \<times> 's" where
  "lc_act svc a x =
     (case a of
        Renew now \<Rightarrow> renew_reservation_loop svc now x
      | Settle \<Rightarrow> snd (lc_settle svc x)
      | Release \<Rightarrow> snd (lc_release svc x))"

definition with_lifecycle ::
  "'s lifecycle_service \<Rightarrow> quota_reservation option \<Rightarrow> lc_action list \<Rightarrow> 's \<Rightarrow> (lifecycle_error + unit) \<times> lifecycle \<times> 's" where
  "with_lifecycle svc r acts st = aexit svc (fold (lc_act svc) acts (aenter (new_lifecycle r True), st))"

definition quota_lifecycle_service :: "quota_config \<Rightarrow> 's quota_ops \<Rightarrow> 's lifecycle_service" where
  "quota_lifecycle_service cfg ops =
     \<lparr>ls_settle = (\<lambda>rid st. (Inr (), settle cfg ops st rid)),
      ls_release = (\<lambda>rid st. (Inr (), release cfg ops st rid)),
      ls_renew = (\<lambda>now rid st. case renew cfg ops now st rid of (b, st') \<Rightarrow> (Inr b, st'))\<rparr>"

section \<open>Exactly one finalization\<close>

text \<open>What the background loop does to the service when it wakes at the given instants.\<close>

fun renewals :: "'s lifecycle_service \<Rightarrow> string \<Rightarrow> int list \<Rightarrow> 's \<Rightarrow> 's" where
  "renewals svc rid [] st = st"
| "renewals svc rid (now # ticks) st =
     (case ls_renew svc now rid st of
        (Inr True, st') \<Rightarrow> renewals svc rid ticks st'
      | (_, st') \<Rightarrow> st')"

fun ticks_before :: "lc_action list \<Rightarrow> int list" where
  "ticks_before (Renew now # acts) = now # ticks_before acts"
| "ticks_before _ = []"

text \<open>
  The finalizing calls that reach the service: the body's, in order, up to the first one that succeeds, and the release of
  \<open>__aexit__\<close> when none of them did. The first call of the body stops the renewal task for good.
\<close>

fun until_finalized :: "'s lifecycle_service \<Rightarrow> string \<Rightarrow> lc_action list \<Rightarrow> 's \<Rightarrow> (lifecycle_error + unit) \<times> 's" where
  "until_finalized svc rid [] st = ls_release svc rid st"
| "until_finalized svc rid (Renew now # acts) st = until_finalized svc rid acts st"
| "until_finalized svc rid (Settle # acts) st =
     (case ls_settle svc rid st of (Inr u, st') \<Rightarrow> (Inr u, st') | (Inl _, st') \<Rightarrow> until_finalized svc rid acts st')"
| "until_finalized svc rid (Release # acts) st =
     (case ls_release svc rid st of (Inr u, st') \<Rightarrow> (Inr u, st') | (Inl _, st') \<Rightarrow> until_finalized svc rid acts st')"

definition lc_open :: "quota_reservation \<Rightarrow> lifecycle \<Rightarrow> bool" where
  "lc_open r lc \<longleftrightarrow> lc_reservation lc = Some r \<and> lc_has_service lc \<and> \<not> lc_finalized lc"

definition lc_closed :: "lifecycle \<Rightarrow> bool" where
  "lc_closed lc \<longleftrightarrow> lc_finalized lc \<and> \<not> lc_renewal_task lc"

lemma set_renewal_failure_frame [simp]:
  "lc_reservation (set_renewal_failure e lc) = lc_reservation lc"
  "lc_has_service (set_renewal_failure e lc) = lc_has_service lc"
  "lc_finalized (set_renewal_failure e lc) = lc_finalized lc"
  "lc_renewal_task (set_renewal_failure e lc) = lc_renewal_task lc"
  by (auto simp: set_renewal_failure_def split: option.splits failure_signal.splits)

lemma closed_acts: "lc_closed lc \<Longrightarrow> \<exists>lc'. fold (lc_act svc) acts (lc, st) = (lc', st) \<and> lc_closed lc'"
proof (induction acts arbitrary: lc)
  case (Cons a acts)
  have "\<exists>lc'. lc_act svc a (lc, st) = (lc', st) \<and> lc_closed lc'" using Cons.prems
    by (cases a) (auto simp: lc_act_def renew_reservation_loop_def lc_settle_def lc_release_def lc_finish_def
        lc_closed_def stop_renewal_def split: option.splits)
  with Cons.IH show ?case by fastforce
qed simp

lemma closed_exit:
  assumes "lc_closed lc"
  shows "\<exists>lc'. aexit svc (fold (lc_act svc) acts (lc, st)) = (Inr (), lc', st) \<and> lc_closed lc'"
  using closed_acts [OF assms, of svc acts st] by (auto simp: aexit_def lc_closed_def stop_renewal_def Let_def)

lemma finish_open:
  assumes "lc_open r lc"
  shows "\<exists>lc'. lc_finish f (lc, st) = (fst (f (qr_reservation_id r) st), lc', snd (f (qr_reservation_id r) st)) \<and>
    \<not> lc_renewal_task lc' \<and>
    (if fst (f (qr_reservation_id r) st) = Inr () then lc_closed lc' else lc_open r lc')"
  using assms by (cases "f (qr_reservation_id r) st"; cases "fst (f (qr_reservation_id r) st)")
    (auto simp: lc_finish_def lc_open_def lc_closed_def stop_renewal_def)

definition exits_as :: "'s lifecycle_service \<Rightarrow> lc_action list \<Rightarrow> lifecycle \<times> 's \<Rightarrow> (lifecycle_error + unit) \<times> 's \<Rightarrow> bool" where
  "exits_as svc acts x y \<longleftrightarrow> (\<exists>lc'. aexit svc (fold (lc_act svc) acts x) = (fst y, lc', snd y) \<and>
     (lc_finalized lc' \<longleftrightarrow> fst y = Inr ()) \<and> \<not> lc_renewal_task lc')"

lemma exits_closed: "lc_closed lc \<Longrightarrow> exits_as svc acts (lc, st) (Inr (), st)"
  using closed_exit [of lc svc acts st] by (auto simp: exits_as_def lc_closed_def)

lemma exits_Cons: "exits_as svc (a # acts) x y \<longleftrightarrow> exits_as svc acts (lc_act svc a x) y"
  by (simp add: exits_as_def)

lemma exits_Nil:
  assumes "lc_open r lc"
  shows "exits_as svc [] (lc, st) (ls_release svc (qr_reservation_id r) st)"
  using finish_open [of r "stop_renewal lc" "ls_release svc" st] assms
  by (auto simp: exits_as_def aexit_def lc_release_def lc_open_def lc_closed_def stop_renewal_def Let_def split: if_splits)

lemma exits_finish:
  assumes "lc_open r lc" and "lc_act svc a (lc, st) = snd (lc_finish f (lc, st))"
    and "\<And>lc' st'. lc_open r lc' \<Longrightarrow> \<not> lc_renewal_task lc' \<Longrightarrow>
      exits_as svc acts (lc', st') (until_finalized svc (qr_reservation_id r) acts st')"
  shows "exits_as svc (a # acts) (lc, st) (case f (qr_reservation_id r) st of
      (Inr u, st') \<Rightarrow> (Inr u, st') | (Inl _, st') \<Rightarrow> until_finalized svc (qr_reservation_id r) acts st')"
proof -
  obtain lc' where lc': "lc_finish f (lc, st) = (fst (f (qr_reservation_id r) st), lc', snd (f (qr_reservation_id r) st))"
      "\<not> lc_renewal_task lc'" "if fst (f (qr_reservation_id r) st) = Inr () then lc_closed lc' else lc_open r lc'"
    using finish_open [OF assms(1), of f st] by blast
  then show ?thesis using exits_closed [of lc' svc acts] assms(3) [of lc'] unfolding exits_Cons assms(2)
    by (cases "f (qr_reservation_id r) st"; cases "fst (f (qr_reservation_id r) st)") (simp_all split: if_splits)
qed

lemma open_run:
  assumes "lc_open r lc"
  shows "exits_as svc acts (lc, st) (until_finalized svc (qr_reservation_id r) acts
     (if lc_renewal_task lc then renewals svc (qr_reservation_id r) (ticks_before acts) st else st))"
  using assms
proof (induction acts arbitrary: lc st)
  case Nil
  then show ?case using exits_Nil by simp
next
  case (Cons a acts)
  have rest: "exits_as svc acts (lc', st') (until_finalized svc (qr_reservation_id r) acts st')"
    if "lc_open r lc'" "\<not> lc_renewal_task lc'" for lc' st' using Cons.IH [OF that(1), of st'] that(2) by simp
  show ?case
  proof (cases a)
    case (Renew now)
    have dead: "\<not> lc_renewal_task lc \<Longrightarrow> lc_act svc (Renew now) (lc, st) = (lc, st)"
      by (simp add: lc_act_def renew_reservation_loop_def)
    obtain b st' where n: "ls_renew svc now (qr_reservation_id r) st = (b, st')" by (meson surj_pair)
    have "\<exists>lc'. lc_act svc (Renew now) (lc, st) = (lc', st') \<and> lc_open r lc' \<and> (lc_renewal_task lc' \<longleftrightarrow> b = Inr True)"
      if "lc_renewal_task lc"
      using that Cons.prems n
      by (cases b) (auto simp: lc_act_def renew_reservation_loop_def lc_open_def split: bool.splits)
    with n dead Renew Cons.IH Cons.prems show ?thesis
      by (cases "lc_renewal_task lc"; cases b) (fastforce simp: exits_Cons split: bool.splits)+
  next
    case Settle
    from exits_finish [OF Cons.prems _ rest, where a = Settle and f = "ls_settle svc" and st = st] Settle
    show ?thesis by (simp add: lc_act_def lc_settle_def)
  next
    case Release
    from exits_finish [OF Cons.prems _ rest, where a = Release and f = "ls_release svc" and st = st] Release
    show ?thesis by (simp add: lc_act_def lc_release_def)
  qed
qed

lemma with_lifecycle_run:
  "\<exists>lc. with_lifecycle svc (Some r) acts st =
      (fst (until_finalized svc (qr_reservation_id r) acts (renewals svc (qr_reservation_id r) (ticks_before acts) st)), lc,
       snd (until_finalized svc (qr_reservation_id r) acts (renewals svc (qr_reservation_id r) (ticks_before acts) st))) \<and>
    (lc_finalized lc \<longleftrightarrow>
       fst (until_finalized svc (qr_reservation_id r) acts (renewals svc (qr_reservation_id r) (ticks_before acts) st)) = Inr ()) \<and>
    \<not> lc_renewal_task lc"
  using open_run [of r "aenter (new_lifecycle (Some r) True)" svc acts st]
  by (simp add: with_lifecycle_def lc_open_def exits_as_def aenter_def new_lifecycle_def)

text \<open>
  C3: a reservation is finalized at most once, and exactly once unless the release on exit raises. Whatever settle and
  release calls the body makes, whichever of them the service answers with an error, and in whatever order the renewal loop
  interleaves with them, the service is left in the state reached by the renewals that came before the first
  finalizing call, followed by the body's finalizing calls up to and including the first one that succeeds, and by the
  release of \<open>__aexit__\<close> when none succeeded; nothing reaches the service after a successful one. The block ends
  normally, with the lifecycle finalized, iff the last of these calls succeeded; otherwise the release on exit raised, and its error is
  what the block raises. In both cases the renewal task is stopped.
\<close>

theorem lifecycle_finalizes_once:
  "\<exists>lc. with_lifecycle svc (Some r) acts st =
      (fst (until_finalized svc (qr_reservation_id r) acts (renewals svc (qr_reservation_id r) (ticks_before acts) st)), lc,
       snd (until_finalized svc (qr_reservation_id r) acts (renewals svc (qr_reservation_id r) (ticks_before acts) st))) \<and>
    (lc_finalized lc \<longleftrightarrow>
       fst (until_finalized svc (qr_reservation_id r) acts (renewals svc (qr_reservation_id r) (ticks_before acts) st)) = Inr ()) \<and>
    \<not> lc_renewal_task lc"
  by (rule with_lifecycle_run)

text \<open>The service of the example counts the calls of settle, release and renew, and its first settle raises.\<close>

definition counting_service :: "(nat \<times> nat \<times> nat) lifecycle_service" where
  "counting_service =
     \<lparr>ls_settle = (\<lambda>_ (s, r, n). (if s = 0 then Inl (ServiceError ''database'') else Inr (), (s + 1, r, n))),
      ls_release = (\<lambda>_ (s, r, n). (Inr (), (s, r + 1, n))),
      ls_renew = (\<lambda>now _ (s, r, n). (Inr (now < 30), (s, r, n + 1)))\<rparr>"

theorem lifecycle_finalizes_once_witness:
  "snd (snd (with_lifecycle counting_service
     (Some \<lparr>qr_reservation_id = ''r'', qr_api_key_hash = ''k'', qr_reserved_tokens = 5, qr_usage_date = (2026, 8, 4),
            qr_workspace_id = None\<rparr>)
     [Renew 10, Renew 20, Settle, Renew 25, Release, Settle] (0, 0, 0))) = (1, 1, 2)"
  using lifecycle_finalizes_once [of counting_service "\<lparr>qr_reservation_id = ''r'', qr_api_key_hash = ''k'', qr_reserved_tokens = 5,
      qr_usage_date = (2026, 8, 4), qr_workspace_id = None\<rparr>" "[Renew 10, Renew 20, Settle, Renew 25, Release, Settle]" "(0, 0, 0)"]
  by (auto simp: counting_service_def)

section \<open>Over a quota repository\<close>

context quota_repository
begin

lemma renewals_invar:
  assumes "0 < cfg_reservation_ttl_seconds cfg" and "invar st"
  shows "invar (renewals (quota_lifecycle_service cfg ops) rid ticks st)"
  using assms(2)
proof (induction ticks arbitrary: st)
  case (Cons now ticks)
  obtain b st' where r: "renew cfg ops now st rid = (b, st')" by (meson surj_pair)
  have "invar st'" using r renewed [OF Cons.prems assms(1), of now rid b st'] Cons.prems
    by (auto simp: renew_def split: if_splits)
  then show ?case using Cons.IH [of st'] by (cases b) (simp_all add: quota_lifecycle_service_def r)
qed simp

lemma lifecycle_frees:
  assumes "invar st" and "quota_enabled cfg" and "0 < cfg_reservation_ttl_seconds cfg"
  shows "invar (snd (snd (with_lifecycle (quota_lifecycle_service cfg ops) (Some r) acts st))) \<and>
    live (snd (snd (with_lifecycle (quota_lifecycle_service cfg ops) (Some r) acts st))) now (qr_reservation_id r) = None"
proof -
  let ?svc = "quota_lifecycle_service cfg ops" and ?rid = "qr_reservation_id r"
  let ?st = "renewals ?svc ?rid (ticks_before acts) st"
  have i: "invar ?st" by (rule renewals_invar [OF assms(3,1)])
  have fin: "until_finalized ?svc ?rid acts x \<in> {(Inr (), qo_settle ops x ?rid), (Inr (), qo_release ops x ?rid)}" for x
    using assms(2) by (induction ?svc ?rid acts x rule: until_finalized.induct)
      (simp_all add: quota_lifecycle_service_def settle_def release_def)
  have "snd (snd (with_lifecycle ?svc (Some r) acts st)) = snd (until_finalized ?svc ?rid acts ?st)"
    using with_lifecycle_run [of ?svc r acts st] by (elim exE conjE) simp
  then show ?thesis using fin [of ?st] settled [OF i, of ?rid now] released [OF i, of ?rid now] by auto
qed

lemma reserve_run_free:
  assumes "invar st" and "unused st uuid" and "quota_enabled cfg" and "0 < cfg_reservation_ttl_seconds cfg"
    and "0 \<le> prompt + py_or mt (cfg_default_reserve_tokens cfg)"
    and "reserve cfg billing ops up clk uuid st h mt prompt ws = (Inr r, st')"
  shows "\<exists>q. r = Some q \<and> live st' (clk_now clk) (qr_reservation_id q) \<noteq> None \<and>
    live (snd (snd (with_lifecycle (quota_lifecycle_service cfg ops) r acts st'))) now (qr_reservation_id q) = None"
proof -
  from reserve_creates [OF assms] obtain q where "r = Some q" "invar st'"
    "live st' (clk_now clk) (qr_reservation_id q) \<noteq> None" by fastforce
  with lifecycle_frees [OF \<open>invar st'\<close> assms(3,4), of q acts now] show ?thesis by auto
qed

end

text \<open>
  C2: no reservation outlives its request. A reservation that \<open>QuotaService.reserve\<close> hands out counts
  against the limits at that instant, and after the \<open>async with\<close> block, however its body and the renewal
  loop went, the repository has no live reservation of that id any more at any later time.
\<close>

theorem reservation_never_outlives_request:
  assumes "quota_wf st" and "dget (q_reservations st) uuid = None" and "quota_enabled cfg"
    and "0 < cfg_reservation_ttl_seconds cfg" and "0 \<le> prompt + py_or mt (cfg_default_reserve_tokens cfg)"
    and "reserve cfg billing memory_quota_ops up clk uuid st h mt prompt ws = (Inr r, st')"
  shows "\<exists>q. r = Some q \<and> live_entry st' (clk_now clk) (qr_reservation_id q) \<noteq> None \<and>
    live_entry (snd (snd (with_lifecycle (quota_lifecycle_service cfg memory_quota_ops) r acts st'))) now
      (qr_reservation_id q) = None"
  by (rule memory_quota.reserve_run_free [OF assms])

theorem reservation_never_outlives_request_witness:
  "\<exists>r. fst (reserve demo_cfg (None :: (billing_repo billing_ops \<times> billing_repo) option) memory_quota_ops
       (memory_usage_port empty_usage_repo) demo_clock ''r'' empty_quota_repo ''k'' (Some 50) 40 None) = Inr (Some r) \<and>
     live_entry (snd (snd (with_lifecycle (quota_lifecycle_service demo_cfg memory_quota_ops) (Some r) [Renew 5]
       (qw_quota demo_world)))) 6 (qr_reservation_id r) = None"
proof -
  obtain r where r: "reserve demo_cfg (None :: (billing_repo billing_ops \<times> billing_repo) option) memory_quota_ops
       (memory_usage_port empty_usage_repo) demo_clock ''r'' empty_quota_repo ''k'' (Some 50) 40 None =
       (Inr (Some r), qw_quota demo_world)"
    by (simp add: demo_world_def reserve_def demo_cfg_def demo_clock_def quota_enabled_def memory_quota_ops_def
        create_reservation_def resolve_limits_def dimension_workspace_def daily_committed_def memory_usage_port_def
        over_limit_def empty_world_def empty_quota_repo_def empty_usage_repo_def get_total_tokens_for_key_def
        get_daily_usage_def get_reserved_tokens_for_key_def reserved_where_def purge_expired_def Let_def py_or_def)
  have "\<exists>q. Some r = Some q \<and> live_entry (qw_quota demo_world) (clk_now demo_clock) (qr_reservation_id q) \<noteq> None \<and>
      live_entry (snd (snd (with_lifecycle (quota_lifecycle_service demo_cfg memory_quota_ops) (Some r) [Renew 5]
        (qw_quota demo_world)))) 6 (qr_reservation_id q) = None"
    by (rule reservation_never_outlives_request [OF quota_wf_empty _ _ _ _ r])
      (simp_all add: empty_quota_repo_def quota_enabled_def demo_cfg_def py_or_def)
  with r show ?thesis by auto
qed

end
