(* ===== verification/QuotaPg.thy ===== *)
theory QuotaPg
  imports QuotaLifecycle
begin

text \<open>
  The PostgreSQL quota repository (\<open>app/quota/postgres_repository.py\<close>): its statements over the rows of
  \<open>quota_reservations\<close> and of the workspace quota table, and that it refines the in-memory repository.

  Each operation is one transaction at one instant; \<open>now()\<close> of the database and \<open>datetime.now(UTC)\<close> are
  the same clock. The rows of a table are a list in insertion order with the primary key first, where
  \<open>SELECT\<close> filters, \<open>UPDATE\<close> maps and \<open>DELETE\<close> drops. An \<open>INSERT\<close> under an existing primary key
  raises and changes nothing: the \<open>None\<close> of \<open>pg_create_reservation\<close>.
\<close>

section \<open>Tables and statements\<close>

record pg_db =
  pg_reservations :: "(string \<times> reservation_entry) list"
  pg_quotas :: "(string \<times> workspace_quota) list"

definition active_row :: "int \<Rightarrow> reservation_entry \<Rightarrow> bool" where
  \<comment> \<open>\<open>settled = false AND expires_at > now()\<close>\<close>
  "active_row now e \<longleftrightarrow> re_settled e = False \<and> re_expires_at e > now"

definition sum_reserved :: "int \<Rightarrow> (reservation_entry \<Rightarrow> bool) \<Rightarrow> pg_db \<Rightarrow> int" where
  \<comment> \<open>\<open>SELECT COALESCE(SUM(reserved_tokens), 0) ... AND settled = false AND expires_at > now()\<close>\<close>
  "sum_reserved now P db = sum_list (map (re_reserved_tokens \<circ> snd) (filter (\<lambda>r. P (snd r) \<and> active_row now (snd r)) (pg_reservations db)))"

definition month_start :: "year_month \<Rightarrow> date" where
  "month_start ym = (fst ym, snd ym, 1)"

definition month_end :: "year_month \<Rightarrow> date" where
  "month_end ym = (if snd ym = 12 then (fst ym + 1, 1, 1) else (fst ym, snd ym + 1, 1))"

definition in_range :: "date \<Rightarrow> date \<Rightarrow> date \<Rightarrow> bool" where
  "in_range a b d \<longleftrightarrow> d \<ge> a \<and> d < b"

definition pg_get_daily_reserved :: "int \<Rightarrow> pg_db \<Rightarrow> string \<Rightarrow> date \<Rightarrow> int" where
  "pg_get_daily_reserved now db h d = sum_reserved now (\<lambda>e. re_api_key_hash e = h \<and> re_usage_date e = d) db"

definition pg_get_daily_reserved_workspace :: "int \<Rightarrow> pg_db \<Rightarrow> string \<Rightarrow> date \<Rightarrow> int" where
  "pg_get_daily_reserved_workspace now db ws d = sum_reserved now (\<lambda>e. re_workspace_id e = Some ws \<and> re_usage_date e = d) db"

definition pg_get_monthly_reserved :: "int \<Rightarrow> pg_db \<Rightarrow> string \<Rightarrow> year_month \<Rightarrow> int" where
  "pg_get_monthly_reserved now db h ym =
     sum_reserved now (\<lambda>e. re_api_key_hash e = h \<and> in_range (month_start ym) (month_end ym) (re_usage_date e)) db"

definition pg_get_monthly_reserved_workspace :: "int \<Rightarrow> pg_db \<Rightarrow> string \<Rightarrow> year_month \<Rightarrow> int" where
  "pg_get_monthly_reserved_workspace now db ws ym =
     sum_reserved now (\<lambda>e. re_workspace_id e = Some ws \<and> in_range (month_start ym) (month_end ym) (re_usage_date e)) db"

text \<open>The two limit checks that \<open>create_reservation\<close> and \<open>extend_reservation\<close> share, for tokens to add.\<close>

definition pg_check_daily ::
  "usage_port \<Rightarrow> int \<Rightarrow> pg_db \<Rightarrow> string \<Rightarrow> string option \<Rightarrow> date \<Rightarrow> int \<Rightarrow> int option \<Rightarrow> bool" where
  "pg_check_daily up now db h ws d tokens daily_limit =
     (case daily_limit of
        None \<Rightarrow> True
      | Some l \<Rightarrow>
          (let used = (case ws of Some w \<Rightarrow> up_total_for_workspace up w d | None \<Rightarrow> up_total_for_key up h d);
               reserved = (case ws of Some w \<Rightarrow> pg_get_daily_reserved_workspace now db w d
                                    | None \<Rightarrow> pg_get_daily_reserved now db h d)
           in \<not> used + reserved + tokens > l))"

definition pg_check_monthly ::
  "usage_port \<Rightarrow> int \<Rightarrow> pg_db \<Rightarrow> string \<Rightarrow> string option \<Rightarrow> date \<Rightarrow> int \<Rightarrow> int option \<Rightarrow> bool" where
  "pg_check_monthly up now db h ws d tokens monthly_limit =
     (case monthly_limit of
        None \<Rightarrow> True
      | Some l \<Rightarrow>
          (let ym = ym_of d;
               aggs = (case ws of Some w \<Rightarrow> up_monthly_for_workspace up w ym | None \<Rightarrow> up_monthly_for_key up h ym);
               reserved = (case ws of Some w \<Rightarrow> pg_get_monthly_reserved_workspace now db w ym
                                    | None \<Rightarrow> pg_get_monthly_reserved now db h ym)
           in \<not> sum_list (map agg_total_tokens aggs) + reserved + tokens > l))"

definition pg_create_reservation ::
  "usage_port \<Rightarrow> int \<Rightarrow> pg_db \<Rightarrow> string \<Rightarrow> string \<Rightarrow> date \<Rightarrow> int \<Rightarrow> int option \<Rightarrow> int option \<Rightarrow> int \<Rightarrow>
   string option \<Rightarrow> (reservation_result \<times> pg_db) option" where
  "pg_create_reservation up now db rid h d tokens daily_limit monthly_limit ttl ws =
     (if \<not> pg_check_daily up now db h ws d tokens daily_limit then Some (DAILY_LIMIT, db)
      else if \<not> pg_check_monthly up now db h ws d tokens monthly_limit then Some (MONTHLY_LIMIT, db)
      else if rid \<in> fst ` set (pg_reservations db) then None
      else Some (CREATED, db\<lparr>pg_reservations := pg_reservations db @
         [(rid, \<lparr>re_api_key_hash = h, re_workspace_id = ws, re_usage_date = d, re_reserved_tokens = tokens,
                 re_settled = False, re_expires_at = expires_after now ttl\<rparr>)]\<rparr>))"

definition delete_row :: "string \<Rightarrow> pg_db \<Rightarrow> pg_db" where
  "delete_row rid db = db\<lparr>pg_reservations := filter (\<lambda>r. \<not> fst r = rid) (pg_reservations db)\<rparr>"

definition pg_settle_reservation :: "pg_db \<Rightarrow> string \<Rightarrow> pg_db" where
  "pg_settle_reservation db rid = delete_row rid db"

definition pg_release_reservation :: "pg_db \<Rightarrow> string \<Rightarrow> pg_db" where
  "pg_release_reservation db rid = delete_row rid db"

definition update_rows :: "(string \<Rightarrow> reservation_entry \<Rightarrow> bool) \<Rightarrow> (reservation_entry \<Rightarrow> reservation_entry) \<Rightarrow> pg_db \<Rightarrow> pg_db" where
  "update_rows P f db = db\<lparr>pg_reservations := map (\<lambda>(i, e). if P i e then (i, f e) else (i, e)) (pg_reservations db)\<rparr>"

text \<open>The key of the advisory lock: what \<open>create_reservation\<close> is given, and what \<open>extend_reservation\<close> works out.\<close>

definition create_lock :: "string \<Rightarrow> string \<Rightarrow> string" where
  "create_lock lock h = (if lock = [] then h else lock)"

definition extend_lock :: "string \<Rightarrow> string option \<Rightarrow> string" where
  "extend_lock stored_key stored_workspace = (case stored_workspace of Some w \<Rightarrow> ''ws:'' @ w | None \<Rightarrow> stored_key)"

definition pg_extend_reservation ::
  "usage_port \<Rightarrow> int \<Rightarrow> pg_db \<Rightarrow> string \<Rightarrow> int \<Rightarrow> int option \<Rightarrow> int option \<Rightarrow> string option \<Rightarrow> reservation_result \<times> pg_db" where
  "pg_extend_reservation up now db rid extra daily_limit monthly_limit ws =
     (case find (\<lambda>r. fst r = rid) (pg_reservations db) of
        None \<Rightarrow> (NOT_FOUND, db)
      | Some (_, key_row) \<Rightarrow>
          (case find (\<lambda>r. fst r = rid \<and> active_row now (snd r)) (pg_reservations db) of
             None \<Rightarrow> (NOT_FOUND, db)
           | Some (_, e) \<Rightarrow>
               (let h = re_api_key_hash e; d = re_usage_date e;
                    effective = (if ws \<noteq> None then ws else re_workspace_id key_row)
                in if \<not> pg_check_daily up now db h effective d extra daily_limit then (DAILY_LIMIT, db)
                   else if \<not> pg_check_monthly up now db h effective d extra monthly_limit then (MONTHLY_LIMIT, db)
                   else (CREATED, update_rows (\<lambda>i _. i = rid)
                           (\<lambda>x. x\<lparr>re_reserved_tokens := re_reserved_tokens x + extra\<rparr>) db))))"

definition pg_renew_reservation :: "int \<Rightarrow> pg_db \<Rightarrow> string \<Rightarrow> int \<Rightarrow> bool \<times> pg_db" where
  "pg_renew_reservation now db rid ttl =
     (list_ex (\<lambda>r. fst r = rid \<and> active_row now (snd r)) (pg_reservations db),
      update_rows (\<lambda>i e. i = rid \<and> active_row now e) (\<lambda>e. e\<lparr>re_expires_at := expires_after now ttl\<rparr>) db)"

definition pg_get_workspace_quota :: "pg_db \<Rightarrow> string \<Rightarrow> workspace_quota option" where
  "pg_get_workspace_quota db ws =
     (case dget (pg_quotas db) ws of
        None \<Rightarrow> None
      | Some row \<Rightarrow> Some \<lparr>wq_workspace_id = ws, wq_daily_token_limit = wq_daily_token_limit row,
                         wq_monthly_token_limit = wq_monthly_token_limit row\<rparr>)"

definition pg_set_workspace_quota :: "pg_db \<Rightarrow> string \<Rightarrow> int option \<Rightarrow> int option \<Rightarrow> workspace_quota \<times> pg_db" where
  "pg_set_workspace_quota db ws daily monthly =
     (let q = \<lparr>wq_workspace_id = ws, wq_daily_token_limit = daily, wq_monthly_token_limit = monthly\<rparr>
      in (q, case dget (pg_quotas db) ws of
               None \<Rightarrow> db\<lparr>pg_quotas := pg_quotas db @ [(ws, q)]\<rparr>
             | Some row \<Rightarrow> db\<lparr>pg_quotas := map (\<lambda>(w, r). if w = ws
                  then (w, r\<lparr>wq_daily_token_limit := daily, wq_monthly_token_limit := monthly\<rparr>) else (w, r)) (pg_quotas db)\<rparr>))"

definition pg_cleanup_expired :: "int \<Rightarrow> pg_db \<Rightarrow> int \<times> pg_db" where
  "pg_cleanup_expired now db =
     (int (length (filter (\<lambda>r. re_settled (snd r) = True \<or> re_expires_at (snd r) < now) (pg_reservations db))),
      db\<lparr>pg_reservations := filter (\<lambda>r. \<not> (re_settled (snd r) = True \<or> re_expires_at (snd r) < now)) (pg_reservations db)\<rparr>)"

section \<open>Refinement of the in-memory repository\<close>

text \<open>The in-memory repository a database stands for.\<close>

definition repo_of :: "pg_db \<Rightarrow> quota_repo" where
  "repo_of db = \<lparr>q_workspace_quotas = pg_quotas db, q_reservations = pg_reservations db\<rparr>"


lemma repo_of_simps [simp]:
  "q_workspace_quotas (repo_of db) = pg_quotas db" "q_reservations (repo_of db) = pg_reservations db"
  by (simp_all add: repo_of_def)

lemma active_row_iff: "active_row now e \<longleftrightarrow> entry_active now e"
  by (simp add: active_row_def entry_active_def)





text \<open>Two repositories that differ in dead reservations only.\<close>

definition same_live :: "int \<Rightarrow> quota_repo \<Rightarrow> quota_repo \<Rightarrow> bool" where
  "same_live now a b \<longleftrightarrow> purge_expired now a = purge_expired now b"

lemma purge_idem [simp]: "purge_expired now (purge_expired now st) = purge_expired now st"
  by (simp add: purge_expired_def comp_def split_def)

lemma same_live_live: "quota_wf a \<Longrightarrow> quota_wf b \<Longrightarrow> same_live now a b \<Longrightarrow> live_entry a now = live_entry b now"
  by (metis live_purge same_live_def)



lemma repo_delete [simp]: "repo_of (delete_row rid db) = (repo_of db)\<lparr>q_reservations := ddel rid (q_reservations (repo_of db))\<rparr>"
  by (auto simp: delete_row_def repo_of_def AList.delete_eq split_def intro: filter_cong)

lemma repo_update:
  assumes "quota_wf (repo_of db)" and "dget (pg_reservations db) rid = Some e" and "P rid e" and "\<And>i x. P i x \<Longrightarrow> i = rid"
  shows "repo_of (update_rows P f db) = (repo_of db)\<lparr>q_reservations := dset rid (f e) (q_reservations (repo_of db))\<rparr>"
proof -
  have w: "dict_wf (pg_reservations db)" using assms(1) by (simp add: quota_wf_def)
  have "(if P i x then (i, f x) else (i, x)) = (if i = rid then (i, f e) else (i, x))" if "(i, x) \<in> set (pg_reservations db)" for i x
  proof (cases "i = rid")
    case True
    with that assms(2) w have "x = e" by (simp add: dget_iff_mem [OF w, symmetric])
    with True assms(3) show ?thesis by simp
  next
    case False
    with assms(4) [of i x] show ?thesis by auto
  qed
  then have "map (\<lambda>(i, x). if P i x then (i, f x) else (i, x)) (pg_reservations db) =
      map (\<lambda>(i, x). if i = rid then (i, f e) else (i, x)) (pg_reservations db)" by (auto intro!: map_cong)
  with dset_present [OF w assms(2)] show ?thesis by (simp add: update_rows_def repo_of_def)
qed






lemma pg_renew_memory:
  assumes q: "quota_wf (repo_of db)"
  shows "map_prod id repo_of (pg_renew_reservation now db rid ttl) = renew_reservation now (repo_of db) rid ttl"
proof -
  from q have w: "dict_wf (pg_reservations db)" by (simp add: quota_wf_def)
  have ex: "list_ex (\<lambda>r. fst r = rid \<and> active_row now (snd r)) (pg_reservations db) \<longleftrightarrow> live_entry (repo_of db) now rid \<noteq> None"
  proof -
    have "list_ex (\<lambda>r. fst r = rid \<and> active_row now (snd r)) (pg_reservations db) \<longleftrightarrow>
        (\<exists>x. dget (pg_reservations db) rid = Some x \<and> entry_active now x)"
      unfolding dget_iff_mem [OF w] by (force simp: list_ex_iff active_row_iff)
    then show ?thesis by (auto simp: live_entry_def split: option.splits)
  qed
  have none: "update_rows (\<lambda>i e. i = rid \<and> active_row now e) f db = db" if "live_entry (repo_of db) now rid = None" for f
  proof -
    have "\<not> (i = rid \<and> active_row now x)" if "(i, x) \<in> set (pg_reservations db)" for i x
      using that ex \<open>live_entry (repo_of db) now rid = None\<close> by (force simp: list_ex_iff)
    then have "map (\<lambda>(i, e). if i = rid \<and> active_row now e then (i, f e) else (i, e)) (pg_reservations db) = pg_reservations db"
      by (intro map_idI) auto
    then show ?thesis by (simp add: update_rows_def)
  qed
  have some: "repo_of (update_rows (\<lambda>i e. i = rid \<and> active_row now e) f db) =
      (repo_of db)\<lparr>q_reservations := dset rid (f e) (q_reservations (repo_of db))\<rparr>"
    if "live_entry (repo_of db) now rid = Some e" for f e
    using that by (intro repo_update [OF q]) (auto simp: live_entry_def active_row_iff split: option.splits if_splits)
  show "map_prod id repo_of (pg_renew_reservation now db rid ttl) = renew_reservation now (repo_of db) rid ttl"
    using ex none some
    by (cases "live_entry (repo_of db) now rid")
       (auto simp: pg_renew_reservation_def renew_reservation_def live_entry_def entry_active_def split: option.splits if_splits)
qed




definition demo_pg :: pg_db where
  "demo_pg = \<lparr>pg_reservations = [(''r1'', \<lparr>re_api_key_hash = ''k'', re_workspace_id = None, re_usage_date = (2024, 2, 29),
       re_reserved_tokens = 40, re_settled = False, re_expires_at = 90\<rparr>)],
     pg_quotas = [(''w'', \<lparr>wq_workspace_id = ''w'', wq_daily_token_limit = Some 5, wq_monthly_token_limit = None\<rparr>)]\<rparr>"


section \<open>The repository contract\<close>

text \<open>The operations as the service calls them; a failed insert, which raises, stands as \<open>NOT_FOUND\<close>.\<close>

definition pg_quota_ops :: "pg_db quota_ops" where
  "pg_quota_ops =
     \<lparr>qo_create = (\<lambda>up now db rid h d tokens dl ml ttl ws.
        case pg_create_reservation up now db rid h d tokens dl ml ttl ws of Some x \<Rightarrow> x | None \<Rightarrow> (NOT_FOUND, db)),
      qo_settle = pg_settle_reservation, qo_extend = pg_extend_reservation, qo_release = pg_release_reservation,
      qo_renew = pg_renew_reservation, qo_cleanup = pg_cleanup_expired, qo_get_workspace_quota = pg_get_workspace_quota,
      qo_set_workspace_quota = pg_set_workspace_quota\<rparr>"

definition pg_live :: "pg_db \<Rightarrow> int \<Rightarrow> string \<Rightarrow> reservation_entry option" where
  "pg_live db = live_entry (repo_of db)"

interpretation pg_quota: quota_repository pg_quota_ops "\<lambda>db. quota_wf (repo_of db)" pg_live
    "\<lambda>db rid. dget (pg_reservations db) rid = None"
proof unfold_locales
  fix db :: pg_db and rid ttl tokens up now h d dl ml ws db'
  assume a: "quota_wf (repo_of db)" "dget (pg_reservations db) rid = None" "(0::int) < ttl" "0 \<le> tokens"
    and c: "qo_create pg_quota_ops up now db rid h d tokens dl ml ttl ws = (CREATED, db')"
  let ?e = "\<lparr>re_api_key_hash = h, re_workspace_id = ws, re_usage_date = d, re_reserved_tokens = tokens,
        re_settled = False, re_expires_at = expires_after now ttl\<rparr>"
  from c have "db' = db\<lparr>pg_reservations := pg_reservations db @ [(rid, ?e)]\<rparr>"
    by (auto simp: pg_quota_ops_def pg_create_reservation_def split: if_splits)
  then have db': "repo_of db' = (repo_of db)\<lparr>q_reservations := dset rid ?e (q_reservations (repo_of db))\<rparr>"
    using a(2) by (simp add: repo_of_def dset_absent)
  show "quota_wf (repo_of db') \<and> pg_live db' now = (pg_live db now)(rid := Some ?e)"
    unfolding pg_live_def db' live_put using a by (auto intro!: quota_wf_put [OF a(1)] simp: entry_active_def active_fresh simp del: repo_of_simps)
next
  show "quota_wf (repo_of db) \<Longrightarrow> dget (pg_reservations db) rid = None \<Longrightarrow> res \<noteq> CREATED \<Longrightarrow>
      qo_create pg_quota_ops up now db rid h d tokens dl ml ttl ws = (res, db') \<Longrightarrow>
      res \<noteq> NOT_FOUND \<and> quota_wf (repo_of db') \<and> pg_live db' now = pg_live db now"
    for db rid res up now h d tokens dl ml ttl ws db'
    by (auto simp: pg_quota_ops_def pg_create_reservation_def map_of_eq_None_iff split: if_splits)
next
  show "quota_wf (repo_of db) \<Longrightarrow> quota_wf (repo_of (qo_settle pg_quota_ops db rid)) \<and>
      pg_live (qo_settle pg_quota_ops db rid) now = (pg_live db now)(rid := None)" for db rid now
    using quota_wf_del [where st = "repo_of db" and rid = rid] live_del [where st = "repo_of db" and rid = rid and now = now]
    by (simp add: pg_quota_ops_def pg_settle_reservation_def pg_live_def)
next
  show "quota_wf (repo_of db) \<Longrightarrow> quota_wf (repo_of (qo_release pg_quota_ops db rid)) \<and>
      pg_live (qo_release pg_quota_ops db rid) now = (pg_live db now)(rid := None)" for db rid now
    using quota_wf_del [where st = "repo_of db" and rid = rid] live_del [where st = "repo_of db" and rid = rid and now = now]
    by (simp add: pg_quota_ops_def pg_release_reservation_def pg_live_def)
next
  fix db :: pg_db and ttl now rid b db'
  assume a: "quota_wf (repo_of db)" "(0::int) < ttl" and r: "qo_renew pg_quota_ops now db rid ttl = (b, db')"
  have "qo_renew memory_quota_ops now (repo_of db) rid ttl = (b, repo_of db')"
    using r pg_renew_memory [OF a(1), of now rid ttl] by (simp add: pg_quota_ops_def memory_quota_ops_def)
  from memory_quota.renewed [OF a this]
  show "quota_wf (repo_of db') \<and> (b \<longleftrightarrow> pg_live db now rid \<noteq> None) \<and>
      pg_live db' now = (case pg_live db now rid of None \<Rightarrow> pg_live db now
        | Some e \<Rightarrow> (pg_live db now)(rid := Some (e\<lparr>re_expires_at := expires_after now ttl\<rparr>)))"
    unfolding pg_live_def .
qed

text \<open>
  Over PostgreSQL, too, no reservation outlives its request: what \<open>QuotaService.reserve\<close> hands out
  is live at that instant, and after the \<open>async with\<close> block its row no longer counts at any time; and
  \<open>create\<close> and a later \<open>extend\<close> of the same reservation take the same advisory lock.
\<close>

theorem postgres_reservation_never_outlives_request:
  assumes "quota_wf (repo_of db)" and "dget (pg_reservations db) uuid = None" and "quota_enabled cfg"
    and "0 < cfg_reservation_ttl_seconds cfg" and "0 \<le> prompt + py_or mt (cfg_default_reserve_tokens cfg)"
    and "reserve cfg billing pg_quota_ops up clk uuid db h mt prompt ws = (Inr r, db')" and "h \<noteq> []"
  shows "\<exists>q e. r = Some q \<and> pg_live db' (clk_now clk) (qr_reservation_id q) = Some e \<and>
    pg_live (snd (snd (with_lifecycle (quota_lifecycle_service cfg pg_quota_ops) r acts db'))) now (qr_reservation_id q) = None \<and>
    extend_lock (re_api_key_hash e) (re_workspace_id e) = create_lock (lock_key cfg h ws) h"
proof -
  obtain q where q: "r = Some q"
    "pg_live (snd (snd (with_lifecycle (quota_lifecycle_service cfg pg_quota_ops) r acts db'))) now (qr_reservation_id q) = None"
    using pg_quota.reserve_run_free [OF assms(1-6), of acts now] by blast
  obtain q' e where e: "r = Some q'" "pg_live db' (clk_now clk) (qr_reservation_id q') = Some e"
    "re_api_key_hash e = h" "re_workspace_id e = dimension_workspace cfg ws"
    using pg_quota.reserve_creates [OF assms(1-6)] by blast
  have "extend_lock h (dimension_workspace cfg ws) = create_lock (lock_key cfg h ws) h"
    by (simp add: extend_lock_def create_lock_def lock_key_def dimension_workspace_def assms(7) split: option.splits)
  with q e show ?thesis by auto
qed

theorem postgres_reservation_never_outlives_request_witness:
  "\<exists>r db'. reserve demo_cfg (None :: (billing_repo billing_ops \<times> billing_repo) option) pg_quota_ops
       (memory_usage_port empty_usage_repo) demo_clock ''r2'' demo_pg ''k2'' (Some 50) 40 None = (Inr r, db') \<and>
     (\<exists>q. r = Some q \<and> pg_live (snd (snd (with_lifecycle (quota_lifecycle_service demo_cfg pg_quota_ops) r [Renew 5] db'))) 6
       (qr_reservation_id q) = None)"
proof -
  have wf: "quota_wf (repo_of demo_pg)" by (simp add: demo_pg_def quota_wf_def dict_wf_def)
  obtain r db' where r: "reserve demo_cfg (None :: (billing_repo billing_ops \<times> billing_repo) option) pg_quota_ops
       (memory_usage_port empty_usage_repo) demo_clock ''r2'' demo_pg ''k2'' (Some 50) 40 None = (Inr r, db')"
    by (simp add: reserve_def demo_cfg_def demo_clock_def quota_enabled_def pg_quota_ops_def demo_pg_def
        pg_create_reservation_def resolve_limits_def dimension_workspace_def pg_check_daily_def pg_check_monthly_def
        memory_usage_port_def empty_usage_repo_def get_total_tokens_for_key_def get_daily_usage_def
        pg_get_daily_reserved_def sum_reserved_def Let_def py_or_def)
  have "\<exists>q e. r = Some q \<and> pg_live db' (clk_now demo_clock) (qr_reservation_id q) = Some e \<and>
    pg_live (snd (snd (with_lifecycle (quota_lifecycle_service demo_cfg pg_quota_ops) r [Renew 5] db'))) 6 (qr_reservation_id q) = None \<and>
    extend_lock (re_api_key_hash e) (re_workspace_id e) = create_lock (lock_key demo_cfg ''k2'' None) ''k2''"
    by (rule postgres_reservation_never_outlives_request [OF wf _ _ _ _ r])
       (simp_all add: demo_pg_def quota_enabled_def demo_cfg_def py_or_def)
  with r show ?thesis by blast
qed

end
