(* ===== verification/PyValue.thy ===== *)
theory PyValue
  imports Prelude
begin

text \<open>
  Python's JSON-like values and the parts of the standard library the workflow engine, the tools and the
  agents use on them: \<open>str\<close>, \<open>repr\<close>, \<open>json.dumps(..., ensure_ascii=False)\<close>, \<open>str.split\<close>, slices, and
  the whitespace class of \<open>re\<close>. A character is a code point below 256; a float is represented by
  its shortest \<open>repr\<close>.
\<close>

section \<open>Values\<close>

datatype pyval =
    PNone
  | PBool bool
  | PInt int
  | PFloat string
  | PStr string
  | PList "pyval list"
  | PDict "(string \<times> pyval) list"

definition py_get :: "(string, pyval) pydict \<Rightarrow> string \<Rightarrow> pyval" where
  \<comment> \<open>\<open>d.get(k)\<close>\<close>
  "py_get d k = (case dget d k of None \<Rightarrow> PNone | Some v \<Rightarrow> v)"

fun is_mapping :: "pyval \<Rightarrow> bool" where
  "is_mapping (PDict _) = True"
| "is_mapping _ = False"

fun as_dict :: "pyval \<Rightarrow> (string, pyval) pydict" where
  "as_dict (PDict d) = d"
| "as_dict _ = []"

text \<open>\<open>iter(v)\<close>: \<open>None\<close> where Python raises \<open>TypeError\<close>.\<close>

fun py_iter :: "pyval \<Rightarrow> pyval list option" where
  "py_iter (PList xs) = Some xs"
| "py_iter (PStr s) = Some (map (\<lambda>c. PStr [c]) s)"
| "py_iter (PDict d) = Some (map (PStr \<circ> fst) d)"
| "py_iter _ = None"

text \<open>\<open>bool(v)\<close>.\<close>

fun py_truthy :: "pyval \<Rightarrow> bool" where
  "py_truthy PNone = False"
| "py_truthy (PBool b) = b"
| "py_truthy (PInt i) = (i \<noteq> 0)"
| "py_truthy (PFloat r) = (r \<notin> {''0.0'', ''-0.0''})"
| "py_truthy (PStr s) = (s \<noteq> [])"
| "py_truthy (PList xs) = (xs \<noteq> [])"
| "py_truthy (PDict d) = (d \<noteq> [])"

text \<open>A comprehension whose element may raise.\<close>

fun mapM :: "('a \<Rightarrow> 'e + 'b) \<Rightarrow> 'a list \<Rightarrow> 'e + 'b list" where
  "mapM f [] = Inr []"
| "mapM f (x # xs) =
     (case f x of Inl e \<Rightarrow> Inl e | Inr y \<Rightarrow>
      case mapM f xs of Inl e \<Rightarrow> Inl e | Inr ys \<Rightarrow> Inr (y # ys))"

section \<open>Text\<close>

definition chr_of :: "int \<Rightarrow> char" where "chr_of n = char_of n"

fun nat_digits :: "nat \<Rightarrow> string" where
  "nat_digits n = (if n < 10 then [chr_of (48 + int n)] else nat_digits (n div 10) @ [chr_of (48 + int (n mod 10))])"

declare nat_digits.simps [simp del]

definition int_digits :: "int \<Rightarrow> string" where
  "int_digits i = (if i < 0 then ''-'' @ nat_digits (nat (- i)) else nat_digits (nat i))"

fun join :: "string \<Rightarrow> string list \<Rightarrow> string" where
  "join sep [] = []"
| "join sep [x] = x"
| "join sep (x # y # zs) = x @ sep @ join sep (y # zs)"

definition is_space :: "char \<Rightarrow> bool" where
  "is_space c \<longleftrightarrow> (let n = of_char c :: int
     in (9 \<le> n \<and> n \<le> 13) \<or> (28 \<le> n \<and> n \<le> 32) \<or> n = 133 \<or> n = 160)"

definition blank_text :: "string \<Rightarrow> bool" where
  \<comment> \<open>\<open>not s.strip()\<close>\<close>
  "blank_text s \<longleftrightarrow> dropWhile is_space s = []"

text \<open>\<open>s.split()\<close>: the maximal runs of non-space characters.\<close>

function py_split :: "string \<Rightarrow> string list" where
  "py_split s =
     (case dropWhile is_space s of
        [] \<Rightarrow> []
      | c # cs \<Rightarrow> (c # takeWhile (\<lambda>x. \<not> is_space x) cs) # py_split (dropWhile (\<lambda>x. \<not> is_space x) cs))"
  by pat_completeness auto
termination
proof (relation "measure length")
  fix s c cs assume a: "dropWhile is_space s = c # cs"
  have "length (dropWhile is_space s) \<le> length s" by (rule length_dropWhile_le)
  with a length_dropWhile_le [of "\<lambda>x. \<not> is_space x" cs]
  show "(dropWhile (\<lambda>x. \<not> is_space x) cs, s) \<in> measure length" by simp
qed simp

declare py_split.simps [simp del]

definition hex_digit :: "int \<Rightarrow> char" where
  "hex_digit n = chr_of (if n < 10 then 48 + n else 87 + n)"

definition hex2 :: "int \<Rightarrow> string" where
  "hex2 n = [hex_digit (n div 16), hex_digit (n mod 16)]"

text \<open>\<open>json.dumps\<close> of a string without ASCII escaping.\<close>

definition json_char :: "char \<Rightarrow> string" where
  "json_char c = (let n = of_char c :: int
     in if n = 34 then [chr_of 92, chr_of 34] else if n = 92 then [chr_of 92, chr_of 92]
        else if n = 10 then chr_of 92 # ''n'' else if n = 13 then chr_of 92 # ''r''
        else if n = 9 then chr_of 92 # ''t'' else if n = 12 then chr_of 92 # ''f''
        else if n = 8 then chr_of 92 # ''b''
        else if n < 32 then chr_of 92 # ''u00'' @ hex2 n else [c])"

definition json_str :: "string \<Rightarrow> string" where
  "json_str s = [chr_of 34] @ concat (map json_char s) @ [chr_of 34]"

text \<open>\<open>json.dumps\<close> of a float: \<open>float.__repr__\<close>, except for the values JSON has no number for.\<close>

definition json_float :: "string \<Rightarrow> string" where
  "json_float r = (if r = ''inf'' then ''Infinity'' else if r = ''-inf'' then ''-Infinity'' else if r = ''nan'' then ''NaN'' else r)"

fun json_dumps :: "pyval \<Rightarrow> string" where
  "json_dumps PNone = ''null''"
| "json_dumps (PBool b) = (if b then ''true'' else ''false'')"
| "json_dumps (PInt i) = int_digits i"
| "json_dumps (PFloat r) = json_float r"
| "json_dumps (PStr s) = json_str s"
| "json_dumps (PList xs) = ''['' @ join '', '' (map json_dumps xs) @ '']''"
| "json_dumps (PDict d) = ''{'' @ join '', '' (map (\<lambda>kv. json_str (fst kv) @ '': '' @ json_dumps (snd kv)) d) @ ''}''"

text \<open>\<open>repr\<close> of a string: single quotes unless it has a single quote and no double one.\<close>

definition repr_char :: "char \<Rightarrow> char \<Rightarrow> string" where
  "repr_char q c = (let n = of_char c :: int
     in if c = q \<or> n = 92 then [chr_of 92, c]
        else if n = 10 then chr_of 92 # ''n'' else if n = 13 then chr_of 92 # ''r''
        else if n = 9 then chr_of 92 # ''t''
        else if n < 32 \<or> (127 \<le> n \<and> n \<le> 160) \<or> n = 173 then chr_of 92 # ''x'' @ hex2 n else [c])"

definition repr_str :: "string \<Rightarrow> string" where
  "repr_str s = (let q = (if chr_of 39 \<in> set s \<and> chr_of 34 \<notin> set s then chr_of 34 else chr_of 39)
     in [q] @ concat (map (repr_char q) s) @ [q])"

fun py_repr :: "pyval \<Rightarrow> string" where
  "py_repr PNone = ''None''"
| "py_repr (PBool b) = (if b then ''True'' else ''False'')"
| "py_repr (PInt i) = int_digits i"
| "py_repr (PFloat r) = r"
| "py_repr (PStr s) = repr_str s"
| "py_repr (PList xs) = ''['' @ join '', '' (map py_repr xs) @ '']''"
| "py_repr (PDict d) = ''{'' @ join '', '' (map (\<lambda>kv. repr_str (fst kv) @ '': '' @ py_repr (snd kv)) d) @ ''}''"

definition py_str :: "pyval \<Rightarrow> string" where
  "py_str v = (case v of PStr s \<Rightarrow> s | _ \<Rightarrow> py_repr v)"

fun is_infix :: "string \<Rightarrow> string \<Rightarrow> bool" where
  \<comment> \<open>\<open>x in s\<close>\<close>
  "is_infix x [] = (x = [])"
| "is_infix x (c # s) = (take (length x) (c # s) = x \<or> is_infix x s)"

lemma py_str_PStr [simp]: "py_str (PStr s) = s"
  by (simp add: py_str_def)

lemma is_infix_iff: "is_infix x s \<longleftrightarrow> (\<exists>a b. s = a @ x @ b)"
proof (induction s)
  case (Cons c s)
  have "take (length x) (c # s) = x \<longleftrightarrow> (\<exists>b. c # s = x @ b)"
    by (metis append_eq_conv_conj)
  moreover have "(\<exists>a b. c # s = a @ x @ b) \<longleftrightarrow> (\<exists>b. c # s = x @ b) \<or> (\<exists>a b. s = a @ x @ b)"
    by (metis append_Cons append_Nil list.inject neq_Nil_conv)
  ultimately show ?case using Cons.IH by simp
qed auto

end
