(* ===== verification/WorkflowGraph.thy ===== *)
theory WorkflowGraph
  imports PyValue
begin

text \<open>
  The graph part of the workflow engine: \<open>app/workflows/engine/models.py\<close> (nodes, edges, definitions and
  their dictionary form, bounded summaries), \<open>topological_order\<close> (Kahn's algorithm) of
  \<open>app/workflows/engine/validation.py\<close> and \<open>_descendants\<close> of \<open>app/workflows/engine/executor.py\<close>.

  An order is returned exactly for the acyclic graphs, it lists every node once and respects every edge
  and every condition branch.
\<close>

section \<open>Models\<close>

datatype node_type = INPUT | LLM | KNOWLEDGE | TOOL | CODE | CONDITION | AGENT | OUTPUT

fun node_type_value :: "node_type \<Rightarrow> string" where
  "node_type_value INPUT = ''input''"
| "node_type_value LLM = ''llm''"
| "node_type_value KNOWLEDGE = ''knowledge''"
| "node_type_value TOOL = ''tool''"
| "node_type_value CODE = ''code''"
| "node_type_value CONDITION = ''condition''"
| "node_type_value AGENT = ''agent''"
| "node_type_value OUTPUT = ''output''"

definition all_node_types :: "node_type list" where
  "all_node_types = [INPUT, LLM, KNOWLEDGE, TOOL, CODE, CONDITION, AGENT, OUTPUT]"

text \<open>\<open>NodeType(s)\<close>: \<open>None\<close> where Python raises \<open>ValueError\<close>.\<close>

definition parse_node_type :: "string \<Rightarrow> node_type option" where
  "parse_node_type s = find (\<lambda>t. node_type_value t = s) all_node_types"

definition truncation_marker :: string where "truncation_marker = ''...[truncated]''"

definition truncate_summary :: "string \<Rightarrow> int \<Rightarrow> string" where
  "truncate_summary value max_chars =
     (if max_chars \<le> 0 then []
      else
        (let compact = join '' '' (py_split value)
         in if int (length compact) \<le> max_chars then compact
            else
              (let available = max_chars - int (length truncation_marker)
               in if available \<le> 0 then take (nat max_chars) truncation_marker
                  else take (nat available) compact @ truncation_marker)))"

definition summary_max_chars :: int where "summary_max_chars = 256"

record workflow_node =
  wn_id :: string
  wn_type :: node_type
  wn_config :: "(string, pyval) pydict"

record workflow_edge =
  we_from :: string
  we_to :: string

record workflow_definition =
  wd_nodes :: "workflow_node list"
  wd_edges :: "workflow_edge list"
  wd_version :: int

datatype model_error = KeyErr string | ValueErr string | TypeErr | OverflowErr

definition py_item :: "(string, pyval) pydict \<Rightarrow> string \<Rightarrow> model_error + pyval" where
  \<comment> \<open>\<open>d[k]\<close>\<close>
  "py_item d k = (case dget d k of None \<Rightarrow> Inl (KeyErr k) | Some v \<Rightarrow> Inr v)"

text \<open>
  \<open>dict(x or {})\<close>: a mapping is copied, an iterable must hold pairs. The dictionaries of the model have
  string keys; a pair with another key is answered like one that cannot be a key.
\<close>

fun dict_pairs :: "pyval list \<Rightarrow> (string, pyval) pydict \<Rightarrow> model_error + (string, pyval) pydict" where
  "dict_pairs [] d = Inr d"
| "dict_pairs (x # xs) d =
     (case py_iter x of
        None \<Rightarrow> Inl TypeErr
      | Some [PStr k, v] \<Rightarrow> dict_pairs xs (dset k v d)
      | Some [_, _] \<Rightarrow> Inl TypeErr
      | Some _ \<Rightarrow> Inl (ValueErr []))"

definition py_dict_or_empty :: "pyval \<Rightarrow> model_error + (string, pyval) pydict" where
  "py_dict_or_empty v =
     (if \<not> py_truthy v then Inr []
      else case v of
             PDict d \<Rightarrow> Inr d
           | _ \<Rightarrow> (case py_iter v of None \<Rightarrow> Inl TypeErr | Some xs \<Rightarrow> dict_pairs xs []))"

definition node_from_dict :: "(string, pyval) pydict \<Rightarrow> model_error + workflow_node" where
  "node_from_dict raw =
     (case py_item raw ''id'' of Inl e \<Rightarrow> Inl e | Inr i \<Rightarrow>
      case py_item raw ''type'' of Inl e \<Rightarrow> Inl e | Inr t \<Rightarrow>
      case parse_node_type (py_str t) of None \<Rightarrow> Inl (ValueErr (py_str t)) | Some ty \<Rightarrow>
      case py_dict_or_empty (py_get raw ''config'') of Inl e \<Rightarrow> Inl e | Inr c \<Rightarrow>
        Inr \<lparr>wn_id = py_str i, wn_type = ty, wn_config = c\<rparr>)"

definition node_to_dict :: "workflow_node \<Rightarrow> (string, pyval) pydict" where
  "node_to_dict n = [(''id'', PStr (wn_id n)), (''type'', PStr (node_type_value (wn_type n))),
     (''config'', PDict (wn_config n))]"

definition edge_from_dict :: "(string, pyval) pydict \<Rightarrow> model_error + workflow_edge" where
  "edge_from_dict raw =
     (case py_item raw ''from'' of Inl e \<Rightarrow> Inl e | Inr f \<Rightarrow>
      case py_item raw ''to'' of Inl e \<Rightarrow> Inl e | Inr t \<Rightarrow> Inr \<lparr>we_from = py_str f, we_to = py_str t\<rparr>)"

definition edge_to_dict :: "workflow_edge \<Rightarrow> (string, pyval) pydict" where
  "edge_to_dict e = [(''from'', PStr (we_from e)), (''to'', PStr (we_to e))]"

definition from_mapping :: "((string, pyval) pydict \<Rightarrow> model_error + 'a) \<Rightarrow> pyval \<Rightarrow> model_error + 'a" where
  "from_mapping f v = (case v of PDict d \<Rightarrow> f d | _ \<Rightarrow> Inl TypeErr)"

definition iter_or_error :: "(string, pyval) pydict \<Rightarrow> string \<Rightarrow> model_error + pyval list" where
  \<comment> \<open>iterating over \<open>raw.get(k, [])\<close>\<close>
  "iter_or_error raw k =
     (case dget raw k of None \<Rightarrow> Inr []
      | Some v \<Rightarrow> (case py_iter v of None \<Rightarrow> Inl TypeErr | Some xs \<Rightarrow> Inr xs))"

text \<open>\<open>int(v)\<close>: decimal text with a sign and single underscores; a float is cut towards zero.\<close>

definition digit_of :: "char \<Rightarrow> int option" where
  "digit_of c = (let n = of_char c :: int in if 48 \<le> n \<and> n \<le> 57 then Some (n - 48) else None)"

fun digits_val :: "int \<Rightarrow> bool \<Rightarrow> string \<Rightarrow> int option" where
  "digits_val acc after_digit [] = (if after_digit then Some acc else None)"
| "digits_val acc after_digit (c # cs) =
     (case digit_of c of
        Some d \<Rightarrow> digits_val (acc * 10 + d) True cs
      | None \<Rightarrow> if c = CHR ''_'' \<and> after_digit then digits_val acc False cs else None)"

definition signed_val :: "(string \<Rightarrow> int option) \<Rightarrow> string \<Rightarrow> int option" where
  "signed_val f s =
     (case s of
        [] \<Rightarrow> f s
      | c # cs \<Rightarrow> if c = CHR ''-'' then map_option uminus (f cs) else if c = CHR ''+'' then f cs else f s)"

definition int_of_text :: "string \<Rightarrow> int option" where
  "int_of_text s = signed_val (digits_val 0 False) (rev (dropWhile is_space (rev (dropWhile is_space s))))"

definition float_trunc_abs :: "string \<Rightarrow> int option" where
  "float_trunc_abs s =
     (let isd = (\<lambda>c. digit_of c \<noteq> None); whole = takeWhile isd s; r1 = dropWhile isd s;
          frac = (case r1 of c # cs \<Rightarrow> if c = CHR ''.'' then takeWhile isd cs else [] | [] \<Rightarrow> []);
          r2 = (case r1 of c # cs \<Rightarrow> if c = CHR ''.'' then dropWhile isd cs else r1 | [] \<Rightarrow> []);
          e = (case r2 of [] \<Rightarrow> Some 0 | c # cs \<Rightarrow> if c = CHR ''e'' then signed_val (digits_val 0 False) cs else None)
      in case (digits_val 0 False (whole @ frac), e) of
           (Some n, Some k) \<Rightarrow>
             (let x = k - int (length frac) in Some (if 0 \<le> x then n * 10 ^ nat x else n div 10 ^ nat (- x)))
         | _ \<Rightarrow> None)"

definition py_int_of :: "pyval \<Rightarrow> model_error + int" where
  "py_int_of v = (case v of
       PInt i \<Rightarrow> Inr i
     | PBool b \<Rightarrow> Inr (if b then 1 else 0)
     | PStr s \<Rightarrow> (case int_of_text s of None \<Rightarrow> Inl (ValueErr s) | Some i \<Rightarrow> Inr i)
     | PFloat r \<Rightarrow> (case signed_val float_trunc_abs r of
                     Some i \<Rightarrow> Inr i | None \<Rightarrow> Inl (if r = ''nan'' then ValueErr r else OverflowErr))
     | _ \<Rightarrow> Inl TypeErr)"

definition definition_from_dict :: "(string, pyval) pydict \<Rightarrow> model_error + workflow_definition" where
  "definition_from_dict raw =
     (case iter_or_error raw ''nodes'' of Inl e \<Rightarrow> Inl e | Inr ns \<Rightarrow>
      case mapM (from_mapping node_from_dict) ns of Inl e \<Rightarrow> Inl e | Inr nodes \<Rightarrow>
      case iter_or_error raw ''edges'' of Inl e \<Rightarrow> Inl e | Inr es \<Rightarrow>
      case mapM (from_mapping edge_from_dict) es of Inl e \<Rightarrow> Inl e | Inr edges \<Rightarrow>
      case py_int_of (case dget raw ''version'' of None \<Rightarrow> PInt 1 | Some v \<Rightarrow> v) of Inl e \<Rightarrow> Inl e | Inr v \<Rightarrow>
        Inr \<lparr>wd_nodes = nodes, wd_edges = edges, wd_version = v\<rparr>)"

definition definition_to_dict :: "workflow_definition \<Rightarrow> (string, pyval) pydict" where
  "definition_to_dict d =
     [(''nodes'', PList (map (PDict \<circ> node_to_dict) (wd_nodes d))),
      (''edges'', PList (map (PDict \<circ> edge_to_dict) (wd_edges d))),
      (''version'', PInt (wd_version d))]"

section \<open>Edges of the graph\<close>

abbreviation node_ids :: "workflow_definition \<Rightarrow> string list" where
  "node_ids d \<equiv> map wn_id (wd_nodes d)"

text \<open>
  The targets a condition node adds: \<open>node.config.get("branches", [])\<close>, its mapping entries, their
  string targets that are nodes of the definition. \<open>None\<close> where the iteration raises \<open>TypeError\<close>.
\<close>

definition branch_targets :: "string set \<Rightarrow> pyval list \<Rightarrow> string list" where
  "branch_targets ids branches =
     concat (map (\<lambda>b. if is_mapping b
                       then (case py_get (as_dict b) ''target'' of PStr t \<Rightarrow> if t \<in> ids then [t] else [] | _ \<Rightarrow> [])
                       else []) branches)"

definition condition_targets :: "string set \<Rightarrow> workflow_node \<Rightarrow> string list option" where
  "condition_targets ids n =
     (if wn_type n \<noteq> CONDITION then Some []
      else (case dget (wn_config n) ''branches'' of
              None \<Rightarrow> Some []
            | Some v \<Rightarrow> map_option (branch_targets ids) (py_iter v)))"

definition all_edges :: "workflow_definition \<Rightarrow> (string \<times> string) list" where
  "all_edges d = map (\<lambda>e. (we_from e, we_to e)) (wd_edges d)
     @ concat (map (\<lambda>n. case condition_targets (set (node_ids d)) n of
                          None \<Rightarrow> [] | Some ts \<Rightarrow> map (Pair (wn_id n)) ts) (wd_nodes d))"

section \<open>Kahn's algorithm\<close>

text \<open>
  The dictionaries \<open>adjacency\<close> and \<open>in_degree\<close> are built by appending and counting the edges in order;
  here they are functions of the edge list. The inner loop decrements and appends; the outer loop runs
  until \<open>ready\<close> is empty.
\<close>

definition adjacency :: "(string \<times> string) list \<Rightarrow> string \<Rightarrow> string list" where
  "adjacency es u = map snd (filter (\<lambda>e. fst e = u) es)"

definition in_degree0 :: "(string \<times> string) list \<Rightarrow> string \<Rightarrow> int" where
  "in_degree0 es v = int (length (filter (\<lambda>e. snd e = v) es))"

fun relax :: "string list \<Rightarrow> (string \<Rightarrow> int) \<Rightarrow> string list \<Rightarrow> (string \<Rightarrow> int) \<times> string list" where
  "relax [] deg ready = (deg, ready)"
| "relax (t # ts) deg ready =
     (let deg' = deg(t := deg t - 1)
      in relax ts deg' (if deg' t = 0 then ready @ [t] else ready))"

lemma relax_deg: "fst (relax ts deg ready) v = deg v - int (count_list ts v)"
  by (induction ts arbitrary: deg ready) (auto simp: Let_def)

definition positive_targets :: "(string \<times> string) list \<Rightarrow> (string \<Rightarrow> int) \<Rightarrow> nat" where
  "positive_targets es deg = card {v \<in> snd ` set es. 0 < deg v}"

lemma relax_measure:
  "set ts \<subseteq> snd ` set es \<Longrightarrow>
   length (snd (relax ts deg ready)) + positive_targets es (fst (relax ts deg ready))
     \<le> length ready + positive_targets es deg"
proof (induction ts arbitrary: deg ready)
  case (Cons t ts)
  let ?deg = "deg(t := deg t - 1)"
  let ?ready = "if deg t - 1 = 0 then ready @ [t] else ready"
  have le: "length ?ready + positive_targets es ?deg \<le> length ready + positive_targets es deg"
  proof (cases "deg t = 1")
    case True
    then have "{v \<in> snd ` set es. 0 < deg v} = insert t {v \<in> snd ` set es. 0 < ?deg v}"
      using Cons.prems by auto
    moreover have "t \<notin> {v \<in> snd ` set es. 0 < ?deg v}" using True by simp
    ultimately show ?thesis using True by (simp add: positive_targets_def)
  next
    case False
    have "{v \<in> snd ` set es. 0 < ?deg v} \<subseteq> {v \<in> snd ` set es. 0 < deg v}" by auto
    then show ?thesis using False by (simp add: positive_targets_def card_mono)
  qed
  have eq: "relax (t # ts) deg ready = relax ts ?deg ?ready" by (simp add: Let_def)
  have "set ts \<subseteq> snd ` set es" using Cons.prems by simp
  from Cons.IH [OF this] le show ?case unfolding eq by (rule order_trans)
qed simp

function kahn :: "(string \<times> string) list \<Rightarrow> (string \<Rightarrow> int) \<Rightarrow> string list \<Rightarrow> string list \<Rightarrow> string list" where
  "kahn es deg [] ordered = ordered"
| "kahn es deg (u # ready) ordered =
     kahn es (fst (relax (adjacency es u) deg ready)) (snd (relax (adjacency es u) deg ready)) (ordered @ [u])"
  by pat_completeness auto
termination
proof (relation "measure (\<lambda>(es, deg, ready, _). length ready + positive_targets es deg)")
  fix es :: "(string \<times> string) list" and deg u ready and ordered :: "string list"
  have "set (adjacency es u) \<subseteq> snd ` set es" by (auto simp: adjacency_def)
  from relax_measure [OF this, of deg ready]
  show "((es, fst (relax (adjacency es u) deg ready), snd (relax (adjacency es u) deg ready), ordered @ [u]),
      (es, deg, u # ready, ordered)) \<in> measure (\<lambda>(es, deg, ready, _). length ready + positive_targets es deg)"
    by simp
qed simp

datatype topo_error = TopoKeyError string | TopoTypeError

definition missing_endpoint :: "workflow_definition \<Rightarrow> string option" where
  \<comment> \<open>the first key the construction of the dictionaries fails to find\<close>
  "missing_endpoint d = find (\<lambda>x. x \<notin> set (node_ids d))
     (concat (map (\<lambda>e. [we_from e, we_to e]) (wd_edges d)))"

definition topological_order :: "workflow_definition \<Rightarrow> topo_error + string list option" where
  "topological_order d =
     (case missing_endpoint d of
        Some x \<Rightarrow> Inl (TopoKeyError x)
      | None \<Rightarrow>
          if \<exists>n \<in> set (wd_nodes d). condition_targets (set (node_ids d)) n = None then Inl TopoTypeError
          else
            (let es = all_edges d;
                 ordered = kahn es (in_degree0 es) (filter (\<lambda>i. in_degree0 es i = 0) (node_ids d)) []
             in Inr (if length ordered \<noteq> length (wd_nodes d) then None else Some ordered)))"

section \<open>Correctness of the order\<close>

lemma relax_ready:
  assumes "\<And>v. int (count_list ts v) \<le> deg v"
  shows "\<exists>new. snd (relax ts deg ready) = ready @ new \<and> distinct new \<and>
    set new = {v \<in> set ts. deg v = int (count_list ts v)}"
  using assms
proof (induction ts arbitrary: deg ready)
  case (Cons t ts)
  let ?deg = "deg(t := deg t - 1)"
  let ?ready = "if deg t = 1 then ready @ [t] else ready"
  have eq: "relax (t # ts) deg ready = relax ts ?deg ?ready" by (simp add: Let_def)
  have le: "int (count_list ts v) \<le> ?deg v" for v using Cons.prems [of v] by (simp split: if_splits)
  obtain new where new: "snd (relax ts ?deg ?ready) = ?ready @ new" "distinct new"
    "set new = {v \<in> set ts. ?deg v = int (count_list ts v)}" using Cons.IH [OF le] by blast
  show ?case
  proof (cases "deg t = 1")
    case True
    with Cons.prems [of t] have "count_list ts t = 0" by simp
    then have t: "t \<notin> set ts" by (simp add: count_list_0_iff)
    have "v \<in> set (t # new) \<longleftrightarrow> v \<in> set (t # ts) \<and> deg v = int (count_list (t # ts) v)" for v
      using True t by (cases "v = t") (simp_all add: new(3))
    then have "set (t # new) = {v \<in> set (t # ts). deg v = int (count_list (t # ts) v)}" by blast
    moreover have "distinct (t # new)" using new(2,3) t by simp
    moreover have "snd (relax (t # ts) deg ready) = ready @ t # new" unfolding eq new(1) using True by simp
    ultimately show ?thesis by blast
  next
    case False
    have "t \<in> set new \<longleftrightarrow> t \<in> set ts \<and> deg t = int (count_list ts t) + 1" unfolding new(3) by auto
    moreover have "t \<notin> set ts \<Longrightarrow> count_list ts t = 0" by (rule count_notin)
    moreover have "v \<noteq> t \<Longrightarrow> v \<in> set new \<longleftrightarrow> v \<in> set ts \<and> deg v = int (count_list ts v)" for v
      unfolding new(3) by simp
    ultimately have "v \<in> set new \<longleftrightarrow> v \<in> set (t # ts) \<and> deg v = int (count_list (t # ts) v)" for v
      using False by (cases "v = t"; cases "t \<in> set ts") auto
    then have "set new = {v \<in> set (t # ts). deg v = int (count_list (t # ts) v)}" by blast
    moreover have "snd (relax (t # ts) deg ready) = ready @ new" unfolding eq new(1) using False by simp
    ultimately show ?thesis using new(2) by blast
  qed
qed simp

definition pending :: "(string \<times> string) list \<Rightarrow> string list \<Rightarrow> string \<Rightarrow> nat" where
  "pending es ordered v = length (filter (\<lambda>e. snd e = v \<and> fst e \<notin> set ordered) es)"

lemma count_adjacency: "count_list (adjacency es u) v = length (filter (\<lambda>e. fst e = u \<and> snd e = v) es)"
  by (induction es) (auto simp: adjacency_def)

lemma pending_step:
  "u \<notin> set ordered \<Longrightarrow> pending es ordered v = pending es (ordered @ [u]) v + count_list (adjacency es u) v"
  unfolding pending_def count_adjacency by (induction es) auto

lemma pending_zero: "pending es ordered v = 0 \<longleftrightarrow> (\<forall>u. (u, v) \<in> set es \<longrightarrow> u \<in> set ordered)"
  unfolding pending_def by (auto simp: filter_empty_conv)

text \<open>The loop invariant of Kahn's algorithm.\<close>

definition kahn_inv :: "(string \<times> string) list \<Rightarrow> string set \<Rightarrow> (string \<Rightarrow> int) \<Rightarrow> string list \<Rightarrow> string list \<Rightarrow> bool" where
  "kahn_inv es ids deg ready ordered \<longleftrightarrow>
     distinct (ordered @ ready) \<and> set (ordered @ ready) = {v \<in> ids. deg v = 0} \<and>
     (\<forall>v. deg v = int (pending es ordered v)) \<and>
     (\<forall>xs v ys. ordered = xs @ v # ys \<longrightarrow> (\<forall>u. (u, v) \<in> set es \<longrightarrow> u \<in> set xs))"

lemma kahn_inv_step:
  assumes inv: "kahn_inv es ids deg (u # ready) ordered" and ids: "snd ` set es \<subseteq> ids"
  shows "kahn_inv es ids (fst (relax (adjacency es u) deg ready)) (snd (relax (adjacency es u) deg ready)) (ordered @ [u])"
proof -
  let ?ts = "adjacency es u"
  let ?deg = "fst (relax ?ts deg ready)"
  have u: "u \<notin> set ordered" "deg u = 0" and d: "\<And>v. deg v = int (pending es ordered v)"
    and dist: "distinct (ordered @ u # ready)" and reached: "set (ordered @ u # ready) = {v \<in> ids. deg v = 0}"
    and pre: "\<And>xs v ys w. ordered = xs @ v # ys \<Longrightarrow> (w, v) \<in> set es \<Longrightarrow> w \<in> set xs"
    using inv by (auto simp: kahn_inv_def)
  have d': "?deg v = int (pending es (ordered @ [u]) v)" for v
    using pending_step [OF u(1), of es v] d [of v] by (simp add: relax_deg)
  have "int (count_list ?ts v) \<le> deg v" for v using pending_step [OF u(1), of es v] d [of v] by simp
  from relax_ready [OF this] obtain new where new: "snd (relax ?ts deg ready) = ready @ new" "distinct new"
    "set new = {v \<in> set ?ts. deg v = int (count_list ?ts v)}" by blast
  have fresh: "v \<in> set new \<longleftrightarrow> v \<in> ids \<and> ?deg v = 0 \<and> deg v \<noteq> 0" for v
  proof
    assume "v \<in> set new"
    then have v: "v \<in> set ?ts" "deg v = int (count_list ?ts v)" using new(3) by auto
    then have "v \<in> ids" using ids by (auto simp: adjacency_def)
    moreover have "count_list ?ts v \<noteq> 0" using v(1) by (metis count_list_0_iff)
    ultimately show "v \<in> ids \<and> ?deg v = 0 \<and> deg v \<noteq> 0" using v(2) by (simp add: relax_deg)
  next
    assume v: "v \<in> ids \<and> ?deg v = 0 \<and> deg v \<noteq> 0"
    then have "count_list ?ts v \<noteq> 0" by (simp add: relax_deg)
    then have "v \<in> set ?ts" by (metis count_notin)
    with v show "v \<in> set new" using new(3) by (simp add: relax_deg)
  qed
  have zero: "deg v = 0 \<Longrightarrow> ?deg v = 0" for v
    using pending_step [OF u(1), of es v] d [of v] d' [of v] by simp
  have "set ((ordered @ [u]) @ ready @ new) = {v \<in> ids. ?deg v = 0}"
    using reached fresh zero by auto
  moreover have "distinct ((ordered @ [u]) @ ready @ new)"
    using dist new(2) fresh reached by auto
  moreover have "w \<in> set xs" if "ordered @ [u] = xs @ v # ys" "(w, v) \<in> set es" for xs v ys w
  proof (cases "ys = []")
    case True
    then have "v = u" "xs = ordered" using that(1) by simp_all
    then show ?thesis using d [of u] u(2) that(2) pending_zero [of es ordered u] by simp
  next
    case False
    then obtain ys' y where "ys = ys' @ [y]" by (metis rev_exhaust)
    then have "ordered = xs @ v # ys'" using that(1) by simp
    then show ?thesis using pre that(2) by blast
  qed
  ultimately show ?thesis unfolding kahn_inv_def new(1) using d' by blast
qed

lemma kahn_final:
  assumes "kahn_inv es ids deg ready ordered" and "snd ` set es \<subseteq> ids"
  shows "\<exists>deg'. kahn_inv es ids deg' [] (kahn es deg ready ordered)"
  using assms
proof (induction es deg ready ordered rule: kahn.induct)
  case (2 es deg u ready ordered)
  then show ?case using kahn_inv_step [OF 2(2,3)] by simp
qed auto

lemma kahn_start:
  assumes "distinct ids"
  shows "kahn_inv es (set ids) (in_degree0 es) (filter (\<lambda>i. in_degree0 es i = 0) ids) []"
  using assms by (auto simp: kahn_inv_def in_degree0_def pending_def)

lemma complete_acyclic:
  fixes E :: "('a \<times> 'a) set"
  assumes "\<And>xs v ys u. ordered = xs @ v # ys \<Longrightarrow> (u, v) \<in> E \<Longrightarrow> u \<in> set xs" and "distinct ordered"
    and "snd ` E \<subseteq> set ordered"
  shows "acyclic E"
proof -
  define pos where "pos v = length (takeWhile (\<lambda>x. x \<noteq> v) ordered)" for v
  have "pos u < pos v" if e: "(u, v) \<in> E" for u v
  proof -
    from e assms(3) have "v \<in> set ordered" by auto
    then obtain xs ys where o: "ordered = xs @ v # ys" by (auto simp: in_set_conv_decomp)
    with assms(1) e have "u \<in> set xs" by blast
    then obtain as bs where xs: "xs = as @ u # bs" "u \<notin> set as" by (meson split_list_first)
    have first: "takeWhile (\<lambda>x. x \<noteq> w) (ps @ w # qs) = ps" if "w \<notin> set ps" for w and ps qs :: "'a list"
      using that by (induction ps) auto
    have "pos u = length as" using first [OF xs(2), of "bs @ v # ys"] by (simp add: pos_def o xs(1))
    moreover have "pos v = length xs" using first [of v xs ys] assms(2) by (simp add: pos_def o)
    ultimately show ?thesis by (simp add: xs(1))
  qed
  then have "E \<subseteq> measure pos" by auto
  then show ?thesis using wf_subset [OF wf_measure] wf_acyclic by blast
qed

lemma stuck_cyclic:
  assumes "finite E" and "S \<noteq> {}" and "\<And>v. v \<in> S \<Longrightarrow> \<exists>u \<in> S. (u, v) \<in> E"
  shows "\<not> acyclic E"
  using assms finite_acyclic_wf [OF assms(1)] by (meson all_not_in_conv wf_eq_minimal)

lemma all_edges_endpoints:
  assumes "missing_endpoint d = None"
  shows "fst ` set (all_edges d) \<subseteq> set (node_ids d)" and "snd ` set (all_edges d) \<subseteq> set (node_ids d)"
proof -
  have "we_from e \<in> set (node_ids d) \<and> we_to e \<in> set (node_ids d)" if "e \<in> set (wd_edges d)" for e
    using assms that unfolding missing_endpoint_def find_None_iff by auto
  moreover have "set ts \<subseteq> set (node_ids d)" if "condition_targets (set (node_ids d)) n = Some ts" for n ts
    using that by (auto simp: condition_targets_def branch_targets_def split: if_splits option.splits pyval.splits)
  ultimately show "fst ` set (all_edges d) \<subseteq> set (node_ids d)" "snd ` set (all_edges d) \<subseteq> set (node_ids d)"
    unfolding all_edges_def by (auto split: option.splits) (metis subsetD)
qed

lemma topological_order_inv:
  assumes "distinct (node_ids d)" and "topological_order d = Inr r"
  obtains deg ordered where "kahn_inv (all_edges d) (set (node_ids d)) deg [] ordered"
    and "r = (if length ordered \<noteq> length (wd_nodes d) then None else Some ordered)"
    and "missing_endpoint d = None"
proof -
  from assms(2) have m: "missing_endpoint d = None" by (auto simp: topological_order_def split: option.splits)
  from kahn_final [OF kahn_start [OF assms(1), of "all_edges d"] all_edges_endpoints(2) [OF m]] that m assms(2)
  show thesis by (auto simp: topological_order_def Let_def split: if_splits)
qed

lemma topological_order_spec:
  assumes "distinct (node_ids d)" and "topological_order d = Inr r"
  shows "(r \<noteq> None \<longleftrightarrow> acyclic (set (all_edges d))) \<and>
    (\<forall>order. r = Some order \<longrightarrow> distinct order \<and> set order = set (node_ids d) \<and>
       (\<forall>xs v ys. order = xs @ v # ys \<longrightarrow> (\<forall>u. (u, v) \<in> set (all_edges d) \<longrightarrow> u \<in> set xs)))"
proof -
  obtain deg ordered where inv: "kahn_inv (all_edges d) (set (node_ids d)) deg [] ordered"
    and r: "r = (if length ordered \<noteq> length (wd_nodes d) then None else Some ordered)"
    and m: "missing_endpoint d = None" using topological_order_inv [OF assms] .
  have o: "distinct ordered" "set ordered \<subseteq> set (node_ids d)" "set ordered = {v \<in> set (node_ids d). deg v = 0}"
    and d: "\<And>v. deg v = int (pending (all_edges d) ordered v)"
    and pre: "\<And>xs v ys u. ordered = xs @ v # ys \<Longrightarrow> (u, v) \<in> set (all_edges d) \<Longrightarrow> u \<in> set xs"
    using inv by (auto simp: kahn_inv_def)
  have len: "length ordered = length (wd_nodes d) \<longleftrightarrow> set ordered = set (node_ids d)"
    using o(1,2) assms(1) by (metis card_subset_eq distinct_card finite_set length_map)
  have "acyclic (set (all_edges d))" if "set ordered = set (node_ids d)"
    using complete_acyclic [OF pre o(1)] all_edges_endpoints(2) [OF m] that by simp
  moreover have "\<not> acyclic (set (all_edges d))" if "set ordered \<noteq> set (node_ids d)"
  proof (rule stuck_cyclic [where S = "set (node_ids d) - set ordered"])
    show "set (node_ids d) - set ordered \<noteq> {}" using that o(2) by blast
    fix v assume v: "v \<in> set (node_ids d) - set ordered"
    then have "pending (all_edges d) ordered v \<noteq> 0" using o(3) d [of v] by auto
    then obtain u where "(u, v) \<in> set (all_edges d)" "u \<notin> set ordered" unfolding pending_zero by blast
    then show "\<exists>u \<in> set (node_ids d) - set ordered. (u, v) \<in> set (all_edges d)"
      using all_edges_endpoints(1) [OF m] by force
  qed simp
  ultimately show ?thesis using r len o(1) pre by auto
qed

text \<open>
  C9: \<open>topological_order\<close> (Kahn's algorithm) is correct and complete. On a definition with distinct node
  ids it returns an order exactly when the graph of the edges and the condition branches is acyclic, and
  the order lists every node exactly once, each after all its predecessors.
\<close>

theorem topological_order_correct:
  assumes "distinct (node_ids d)" and "topological_order d = Inr r"
  shows "(r \<noteq> None \<longleftrightarrow> acyclic (set (all_edges d))) \<and>
    (\<forall>order. r = Some order \<longrightarrow> distinct order \<and> set order = set (node_ids d) \<and>
       (\<forall>xs v ys. order = xs @ v # ys \<longrightarrow> (\<forall>u. (u, v) \<in> set (all_edges d) \<longrightarrow> u \<in> set xs)))"
  by (rule topological_order_spec [OF assms])

definition demo_node :: "string \<Rightarrow> node_type \<Rightarrow> workflow_node" where
  "demo_node i t = \<lparr>wn_id = i, wn_type = t, wn_config = []\<rparr>"

definition demo_definition :: workflow_definition where
  "demo_definition = \<lparr>wd_nodes = [demo_node ''c'' OUTPUT, demo_node ''a'' INPUT, demo_node ''b'' LLM],
     wd_edges = [\<lparr>we_from = ''a'', we_to = ''b''\<rparr>, \<lparr>we_from = ''b'', we_to = ''c''\<rparr>], wd_version = 1\<rparr>"

theorem topological_order_correct_witness:
  "topological_order demo_definition = Inr (Some [''a'', ''b'', ''c'']) \<and> acyclic (set (all_edges demo_definition))"
proof -
  have o: "topological_order demo_definition = Inr (Some [''a'', ''b'', ''c''])" by code_simp
  have "distinct (node_ids demo_definition)" by code_simp
  from topological_order_correct [OF this o] o show ?thesis by simp
qed

section \<open>Descendants\<close>

text \<open>
  \<open>_descendants(node_id, adjacency, seen)\<close>. The recursion of the source visits the targets of a node in
  order, each with all that follows from it before the next one; the pending loops of the enclosing
  calls are the rest of the work list, so the elements enter \<open>seen\<close> in the same order.
\<close>

function descend :: "(string \<times> string) list \<Rightarrow> string list \<Rightarrow> string list \<Rightarrow> string list" where
  "descend es [] seen = seen"
| "descend es (t # todo) seen =
     (if t \<in> set seen then descend es todo seen else descend es (adjacency es t @ todo) (seen @ [t]))"
  by pat_completeness auto
termination
proof (relation "inv_image (less_than <*lex*> less_than)
    (\<lambda>(es, todo, seen). (card ((set todo \<union> snd ` set es) - set seen), length todo))")
  fix es :: "(string \<times> string) list" and t todo and seen :: "string list"
  assume "t \<in> set seen"
  then have "(set todo \<union> snd ` set es) - set seen = (set (t # todo) \<union> snd ` set es) - set seen" by auto
  then show "((es, todo, seen), (es, t # todo, seen)) \<in> inv_image (less_than <*lex*> less_than)
      (\<lambda>(es, todo, seen). (card ((set todo \<union> snd ` set es) - set seen), length todo))" by simp
next
  fix es :: "(string \<times> string) list" and t todo and seen :: "string list"
  assume "t \<notin> set seen"
  let ?B = "(set (t # todo) \<union> snd ` set es) - set seen"
  have "set (adjacency es t) \<subseteq> snd ` set es" unfolding adjacency_def by auto
  then have "(set (adjacency es t @ todo) \<union> snd ` set es) - set (seen @ [t]) \<subseteq> ?B - {t}"
    unfolding set_append by force
  then have "card ((set (adjacency es t @ todo) \<union> snd ` set es) - set (seen @ [t])) \<le> card (?B - {t})"
    by (rule card_mono [rotated]) simp
  also have "\<dots> < card ?B" by (rule card_Diff1_less) (use \<open>t \<notin> set seen\<close> in auto)
  finally have "card ((set (adjacency es t @ todo) \<union> snd ` set es) - set (seen @ [t])) < card ?B" .
  then show "((es, adjacency es t @ todo, seen @ [t]), (es, t # todo, seen)) \<in> inv_image (less_than <*lex*> less_than)
      (\<lambda>(es, todo, seen). (card ((set todo \<union> snd ` set es) - set seen), length todo))" by simp
qed (intro wf_inv_image wf_lex_prod wf_less_than)

definition descendants :: "string \<Rightarrow> (string \<times> string) list \<Rightarrow> string list" where
  "descendants node_id es = descend es (adjacency es node_id) []"

lemma in_adjacency: "v \<in> set (adjacency es u) \<longleftrightarrow> (u, v) \<in> set es"
  by (force simp: adjacency_def)

lemma descend_sound:
  "v \<in> set (descend es todo seen) \<Longrightarrow> v \<in> set seen \<or> (\<exists>t \<in> set todo. (t, v) \<in> (set es)\<^sup>*)"
proof (induction es todo seen rule: descend.induct)
  case (2 es t todo seen)
  show ?case
  proof (cases "t \<in> set seen")
    case True
    then show ?thesis using 2 by auto
  next
    case False
    with 2 have "v \<in> set (seen @ [t]) \<or> (\<exists>x \<in> set (adjacency es t @ todo). (x, v) \<in> (set es)\<^sup>*)" by simp
    then show ?thesis by (auto simp: in_adjacency intro: converse_rtrancl_into_rtrancl)
  qed
qed simp

lemma descend_complete:
  assumes "\<forall>x y. x \<in> set seen \<longrightarrow> (x, y) \<in> set es \<longrightarrow> y \<in> set seen \<union> set todo"
  shows "set seen \<union> set todo \<subseteq> set (descend es todo seen) \<and>
    (\<forall>x y. x \<in> set (descend es todo seen) \<longrightarrow> (x, y) \<in> set es \<longrightarrow> y \<in> set (descend es todo seen))"
  using assms
proof (induction es todo seen rule: descend.induct)
  case (1 es seen)
  then show ?case by auto
next
  case (2 es t todo seen)
  show ?case
  proof (cases "t \<in> set seen")
    case True
    with 2(3) have "\<forall>x y. x \<in> set seen \<longrightarrow> (x, y) \<in> set es \<longrightarrow> y \<in> set seen \<union> set todo" by fastforce
    from 2(1) [OF True this] True show ?thesis by auto
  next
    case False
    have "\<forall>x y. x \<in> set (seen @ [t]) \<longrightarrow> (x, y) \<in> set es \<longrightarrow> y \<in> set (seen @ [t]) \<union> set (adjacency es t @ todo)"
      using 2(3) by (auto simp: in_adjacency)
    from 2(2) [OF False this] False show ?thesis by auto
  qed
qed

lemma descendants_trancl: "set (descendants u es) = {v. (u, v) \<in> (set es)\<^sup>+}"
proof -
  let ?D = "set (descendants u es)"
  have c: "set (adjacency es u) \<subseteq> ?D" "\<And>x y. x \<in> ?D \<Longrightarrow> (x, y) \<in> set es \<Longrightarrow> y \<in> ?D"
    using descend_complete [of "[]" es "adjacency es u"] by (auto simp: descendants_def)
  have "v \<in> ?D" if "(u, v) \<in> (set es)\<^sup>+" for v
    using that by (induction rule: trancl_induct) (use c in \<open>auto simp: in_adjacency\<close>)
  moreover have "(u, v) \<in> (set es)\<^sup>+" if "v \<in> ?D" for v
    using descend_sound [of v es "adjacency es u" "[]"] that
    by (auto simp: descendants_def in_adjacency intro: rtrancl_into_trancl2)
  ultimately show ?thesis by blast
qed

section \<open>Summaries and serialization\<close>

lemma py_split_nonspace: "w \<in> set (py_split s) \<Longrightarrow> set w \<inter> Collect is_space = {}"
proof (induction s rule: py_split.induct)
  case (1 s)
  show ?case
  proof (cases "dropWhile is_space s")
    case Nil
    have "py_split s = []" unfolding py_split.simps [of s] by (simp only: Nil list.case)
    then show ?thesis using 1(2) by simp
  next
    case (Cons c cs)
    have "\<not> is_space c" using hd_dropWhile [of is_space s] Cons by simp
    then show ?thesis using 1 Cons by (auto simp: py_split.simps [of s] dest: set_takeWhileD)
  qed
qed

lemma set_join: "set (join sep ws) \<subseteq> set sep \<union> \<Union> (set ` set ws)"
  by (induction sep ws rule: join.induct) auto

text \<open>
  A node summary never exceeds its bound and is a single line: \<open>truncate_summary\<close> returns at most
  \<open>max_chars\<close> characters (none for a bound that is not positive), and the only white space in it is the
  plain blank.
\<close>

theorem truncate_summary_bounded:
  "int (length (truncate_summary s n)) \<le> max 0 n \<and> set (filter is_space (truncate_summary s n)) \<subseteq> {CHR '' ''}"
proof
  show "int (length (truncate_summary s n)) \<le> max 0 n"
    by (auto simp: truncate_summary_def truncation_marker_def Let_def min_def)
  have "set (filter is_space (join '' '' (py_split s))) \<subseteq> {CHR '' ''}"
    using set_join [of "'' ''" "py_split s"] py_split_nonspace [of _ s] by fastforce
  moreover have "filter is_space truncation_marker = []" by code_simp
  then have "x \<in> set truncation_marker \<Longrightarrow> \<not> is_space x" for x by (simp add: filter_empty_conv)
  ultimately show "set (filter is_space (truncate_summary s n)) \<subseteq> {CHR '' ''}"
    by (auto simp: truncate_summary_def Let_def dest!: in_set_takeD)
qed

lemma mapM_map: "(\<And>x. x \<in> set xs \<Longrightarrow> f (g x) = Inr x) \<Longrightarrow> mapM f (map g xs) = Inr xs"
  by (induction xs) auto

lemma parse_node_type_value: "parse_node_type (node_type_value t) = Some t"
  by (cases t) (simp_all add: parse_node_type_def all_node_types_def)

lemma node_roundtrip: "node_from_dict (node_to_dict n) = Inr n"
  by (simp add: node_from_dict_def node_to_dict_def py_item_def py_get_def py_dict_or_empty_def parse_node_type_value)

lemma edge_roundtrip: "edge_from_dict (edge_to_dict e) = Inr e"
  by (simp add: edge_from_dict_def edge_to_dict_def py_item_def)

text \<open>
  C11: serialization round trip. Reading back the dictionary that \<open>WorkflowDefinition.to_dict\<close> writes gives
  the same definition, with its nodes, configurations, edges and version.
\<close>

theorem definition_roundtrip: "definition_from_dict (definition_to_dict d) = Inr d"
proof -
  have n: "mapM (from_mapping node_from_dict) (map (PDict \<circ> node_to_dict) ns) = Inr ns" for ns
    by (rule mapM_map) (simp add: from_mapping_def node_roundtrip)
  have e: "mapM (from_mapping edge_from_dict) (map (PDict \<circ> edge_to_dict) es) = Inr es" for es
    by (rule mapM_map) (simp add: from_mapping_def edge_roundtrip)
  show ?thesis
    by (simp add: definition_from_dict_def definition_to_dict_def iter_or_error_def py_int_of_def n e)
qed

end
