(* ===== verification/WorkflowEngine.thy ===== *)
theory WorkflowEngine
  imports WorkflowGraph "HOL-Library.Sublist"
begin

text \<open>
  Templates, conditions and validation (\<open>app/workflows/engine/validation.py\<close>) and the execution engine
  (\<open>WorkflowEngine\<close> of \<open>app/workflows/engine/executor.py\<close>).

  The regular expressions of the source match in one way only (their character classes do not overlap
  with what follows them), so each is a deterministic scanner. The injected node executors are a
  function from the node type; a run executes a node at most once, so one answer per node and variables
  is all a run can see. Messages are constructors that carry the values the source formats; the Chinese
  fixed text of two summaries is given in English.
\<close>

section \<open>Scanners\<close>

definition is_alnum :: "char \<Rightarrow> bool" where
  "is_alnum c \<longleftrightarrow> (let n = of_char c :: int
     in (48 \<le> n \<and> n \<le> 57) \<or> (65 \<le> n \<and> n \<le> 90) \<or> (97 \<le> n \<and> n \<le> 122))"

definition field_char :: "char \<Rightarrow> bool" where "field_char c \<longleftrightarrow> is_alnum c \<or> c = CHR ''_''"
definition id_char :: "char \<Rightarrow> bool" where "id_char c \<longleftrightarrow> field_char c \<or> c = CHR ''-''"

definition drop_prefix :: "string \<Rightarrow> string \<Rightarrow> string option" where
  "drop_prefix p s = (if take (length p) s = p then Some (drop (length p) s) else None)"

definition close_braces :: "string \<Rightarrow> string option" where
  "close_braces s = drop_prefix ''}}'' (dropWhile is_space s)"

text \<open>\<open>_VARIABLE_RE\<close> at the start of a string: the name and the rest.\<close>

definition match_variable :: "string \<Rightarrow> (string \<times> string) option" where
  "match_variable s =
     (case drop_prefix ''{{'' s of
        None \<Rightarrow> None
      | Some r \<Rightarrow>
          (let r1 = dropWhile is_space r; ident = takeWhile id_char r1; r2 = dropWhile id_char r1
           in if ident = [] then None
              else
                (let fld = (case drop_prefix ''.'' r2 of None \<Rightarrow> [] | Some q \<Rightarrow> takeWhile field_char q);
                     name = (if fld = [] then ident else ident @ ''.'' @ fld);
                     r3 = (if fld = [] then r2 else drop (1 + length fld) r2)
                 in map_option (Pair name) (close_braces r3))))"

text \<open>\<open>_NODE_REFERENCE_RE\<close>.\<close>

definition match_node_reference :: "string \<Rightarrow> (string \<times> string) option" where
  "match_node_reference s =
     (case drop_prefix ''{{'' s of
        None \<Rightarrow> None
      | Some r \<Rightarrow>
          (let r1 = dropWhile is_space r; ident = takeWhile id_char r1; r2 = dropWhile id_char r1
           in if ident = [] then None
              else (case drop_prefix ''.output'' r2 of
                      None \<Rightarrow> None
                    | Some r3 \<Rightarrow> map_option (Pair ident) (close_braces r3))))"

lemma drop_prefix_length: "drop_prefix p s = Some r \<Longrightarrow> length r + length p = length s"
proof -
  assume "drop_prefix p s = Some r"
  then have "take (length p) s = p" "r = drop (length p) s" by (auto simp: drop_prefix_def split: if_splits)
  then have "s = p @ r" by (metis append_take_drop_id)
  then show ?thesis by simp
qed

lemma close_braces_length: "close_braces s = Some r \<Longrightarrow> length r < length s"
  using drop_prefix_length [of "''}}''" "dropWhile is_space s" r] length_dropWhile_le [of is_space s]
  by (simp add: close_braces_def)

lemma match_variable_length: "match_variable s = Some (n, r) \<Longrightarrow> length r < length s"
  by (auto simp: match_variable_def Let_def split: option.splits if_splits
      dest!: close_braces_length drop_prefix_length
      intro: order_less_le_trans [OF _ order_trans [OF length_dropWhile_le length_dropWhile_le]])
    (metis (no_types, lifting) Suc_leD add_leD1 diff_le_self le_trans length_drop length_dropWhile_le less_le_trans not_less)+

lemma match_node_reference_length: "match_node_reference s = Some (n, r) \<Longrightarrow> length r < length s"
proof -
  assume "match_node_reference s = Some (n, r)"
  then obtain r0 r3 where "drop_prefix ''{{'' s = Some r0"
    "drop_prefix ''.output'' (dropWhile id_char (dropWhile is_space r0)) = Some r3" "close_braces r3 = Some r"
    by (auto simp: match_node_reference_def Let_def split: option.splits if_splits)
  then have "length r0 + 2 = length s" "length r3 + 7 = length (dropWhile id_char (dropWhile is_space r0))" "length r < length r3"
    by (auto dest: drop_prefix_length close_braces_length)
  moreover have "length (dropWhile id_char (dropWhile is_space r0)) \<le> length r0"
    using length_dropWhile_le order_trans by blast
  ultimately show ?thesis by simp
qed

section \<open>Errors\<close>

datatype wf_error =
    DuplicateIds "string set"
  | EdgeFromMissing string
  | EdgeToMissing string
  | SelfLoop string
  | NoInputNode
  | NoOutputNode
  | InputOutDegree string int
  | TooManyIncoming string int
  | CyclicDefinition
  | BranchesNotArray string
  | NoBranches string
  | BranchNotObject string
  | BranchTargetMissing string pyval
  | SeveralDefaults string
  | BadBranchCondition string pyval
  | SelfReference string
  | UnknownReference string string
  | LateReference string string
  | UndefinedVariable string
  | UndefinedConditionVariable string
  | InvalidCondition string
  | NoMatchingBranch string
  | BranchForTargetMissing string string
  | MissingOutputTemplate string
  | NoExecutor node_type string
  | PyTypeError
  | PyKeyError string

section \<open>Templates and conditions\<close>

type_synonym variables = "(string, pyval) pydict"

function render_template :: "variables \<Rightarrow> string \<Rightarrow> wf_error + string" where
  "render_template vars [] = Inr []"
| "render_template vars (c # cs) =
     (case match_variable (c # cs) of
        Some (name, rest) \<Rightarrow>
          (case dget vars name of
             None \<Rightarrow> Inl (UndefinedVariable name)
           | Some v \<Rightarrow> map_sum id (\<lambda>t. py_str v @ t) (render_template vars rest))
      | None \<Rightarrow> map_sum id (\<lambda>t. c # t) (render_template vars cs))"
  by pat_completeness auto
termination
  by (relation "measure (length \<circ> snd)") (auto dest: match_variable_length)

function find_references :: "string \<Rightarrow> string list" where
  "find_references [] = []"
| "find_references (c # cs) =
     (case match_node_reference (c # cs) of
        Some (name, rest) \<Rightarrow> name # find_references rest
      | None \<Rightarrow> find_references cs)"
  by pat_completeness auto
termination
  by (relation "measure length") (auto dest: match_node_reference_length)

fun walk_strings :: "pyval \<Rightarrow> string list" where
  "walk_strings (PStr s) = [s]"
| "walk_strings (PDict d) = concat (map (\<lambda>kv. walk_strings (snd kv)) d)"
| "walk_strings (PList xs) = concat (map walk_strings xs)"
| "walk_strings _ = []"

text \<open>
  The three condition forms after the variable. \<open>$\<close> also matches before a final newline.
\<close>

definition at_end :: "string \<Rightarrow> bool" where
  "at_end s \<longleftrightarrow> s = [] \<or> s = [chr_of 10]"

definition skip_spaces1 :: "string \<Rightarrow> string option" where
  "skip_spaces1 s = (case s of c # cs \<Rightarrow> if is_space c then Some (dropWhile is_space cs) else None | [] \<Rightarrow> None)"

definition quoted_end :: "string \<Rightarrow> string option" where
  \<comment> \<open>\<open>'([^']*)'$\<close>\<close>
  "quoted_end s =
     (case drop_prefix [chr_of 39] s of
        None \<Rightarrow> None
      | Some r \<Rightarrow>
          (case drop_prefix [chr_of 39] (dropWhile (\<lambda>c. c \<noteq> chr_of 39) r) of
             None \<Rightarrow> None
           | Some e \<Rightarrow> if at_end e then Some (takeWhile (\<lambda>c. c \<noteq> chr_of 39) r) else None))"

datatype condition_form = Contains string | IsEmpty | Equals string

definition form_tail :: "string \<Rightarrow> condition_form option" where
  "form_tail r =
     (case Option.bind (Option.bind (Option.bind (Option.bind (skip_spaces1 r) (drop_prefix ''contains'')) skip_spaces1) quoted_end) (Some \<circ> Contains) of
        Some f \<Rightarrow> Some f
      | None \<Rightarrow>
          (case Option.bind (Option.bind (Option.bind (skip_spaces1 r) (drop_prefix ''is'')) skip_spaces1) (drop_prefix ''empty'') of
             Some e \<Rightarrow> if at_end e then Some IsEmpty else None
           | None \<Rightarrow>
               map_option Equals (Option.bind (drop_prefix ''=='' (dropWhile is_space r)) (quoted_end \<circ> dropWhile is_space))))"

definition parse_condition :: "string \<Rightarrow> (string \<times> condition_form) option" where
  "parse_condition expr =
     (case match_variable expr of
        None \<Rightarrow> None
      | Some (name, r) \<Rightarrow> map_option (Pair name) (form_tail r))"

definition is_valid_condition :: "string \<Rightarrow> bool" where
  "is_valid_condition expr \<longleftrightarrow> parse_condition expr \<noteq> None"

definition evaluate_condition :: "string \<Rightarrow> variables \<Rightarrow> wf_error + bool" where
  "evaluate_condition expr vars =
     (case parse_condition expr of
        None \<Rightarrow> Inl (InvalidCondition expr)
      | Some (name, form) \<Rightarrow>
          (case dget vars name of
             None \<Rightarrow> Inl (UndefinedConditionVariable name)
           | Some v \<Rightarrow>
               Inr (case form of
                      Contains lit \<Rightarrow> is_infix lit (py_str v)
                    | IsEmpty \<Rightarrow> v = PNone \<or> py_str v = []
                    | Equals lit \<Rightarrow> py_str v = lit)))"

section \<open>Validation\<close>

fun first_error :: "('a \<Rightarrow> 'e option) \<Rightarrow> 'a list \<Rightarrow> 'e option" where
  "first_error f [] = None"
| "first_error f (x # xs) = (case f x of Some e \<Rightarrow> Some e | None \<Rightarrow> first_error f xs)"

definition or_else :: "'e option \<Rightarrow> 'e option \<Rightarrow> 'e option" where
  "or_else a b = (case a of Some e \<Rightarrow> Some e | None \<Rightarrow> b)"

fun validate_branches :: "string set \<Rightarrow> string \<Rightarrow> bool \<Rightarrow> pyval list \<Rightarrow> wf_error option" where
  "validate_branches ids i default_seen [] = None"
| "validate_branches ids i default_seen (b # bs) =
     (if \<not> is_mapping b then Some (BranchNotObject i)
      else
        (let target = py_get (as_dict b) ''target''; condition = py_get (as_dict b) ''condition''
         in case target of
              PStr t \<Rightarrow>
                if t \<notin> ids then Some (BranchTargetMissing i target)
                else (case condition of
                        PNone \<Rightarrow> if default_seen then Some (SeveralDefaults i) else validate_branches ids i True bs
                      | PStr c \<Rightarrow> if is_valid_condition c then validate_branches ids i default_seen bs
                                  else Some (BadBranchCondition i condition)
                      | _ \<Rightarrow> Some (BadBranchCondition i condition))
            | _ \<Rightarrow> Some (BranchTargetMissing i target)))"

definition validate_condition_node :: "string set \<Rightarrow> workflow_node \<Rightarrow> wf_error option" where
  "validate_condition_node ids n =
     (case py_get (wn_config n) ''branches'' of
        PList bs \<Rightarrow> if bs = [] then Some (NoBranches (wn_id n)) else validate_branches ids (wn_id n) False bs
      | _ \<Rightarrow> Some (BranchesNotArray (wn_id n)))"

definition position :: "string list \<Rightarrow> string \<Rightarrow> nat" where
  "position order x = length (takeWhile (\<lambda>y. y \<noteq> x) order)"

definition validate_reference :: "string list \<Rightarrow> string \<Rightarrow> string \<Rightarrow> wf_error option" where
  "validate_reference order i ref =
     (if ref = i then Some (SelfReference i)
      else if ref \<notin> set order then Some (UnknownReference i ref)
      else if position order i \<le> position order ref then Some (LateReference i ref) else None)"

definition validate_template_references :: "string list \<Rightarrow> workflow_node \<Rightarrow> wf_error option" where
  "validate_template_references order n =
     first_error (validate_reference order (wn_id n)) (concat (map find_references (walk_strings (PDict (wn_config n)))))"

fun duplicates :: "string set \<Rightarrow> string list \<Rightarrow> string set" where
  "duplicates seen [] = {}"
| "duplicates seen (i # is) = (if i \<in> seen then {i} else {}) \<union> duplicates (insert i seen) is"

definition validate_edge :: "string set \<Rightarrow> workflow_edge \<Rightarrow> wf_error option" where
  "validate_edge ids e =
     (if we_from e \<notin> ids then Some (EdgeFromMissing (we_from e))
      else if we_to e \<notin> ids then Some (EdgeToMissing (we_to e))
      else if we_from e = we_to e then Some (SelfLoop (we_from e)) else None)"

definition out_degree :: "workflow_definition \<Rightarrow> string \<Rightarrow> int" where
  "out_degree d i = int (length (filter (\<lambda>e. we_from e = i) (wd_edges d)))"

definition validate_definition :: "workflow_definition \<Rightarrow> wf_error option" where
  "validate_definition d =
     (let ids = set (node_ids d); dups = duplicates {} (node_ids d);
          input_nodes = filter (\<lambda>n. wn_type n = INPUT) (wd_nodes d);
          output_nodes = filter (\<lambda>n. wn_type n = OUTPUT) (wd_nodes d);
          condition_nodes = filter (\<lambda>n. wn_type n = CONDITION) (wd_nodes d)
      in or_else (if dups \<noteq> {} then Some (DuplicateIds dups) else None)
        (or_else (first_error (validate_edge ids) (wd_edges d))
        (or_else (if input_nodes = [] then Some NoInputNode else None)
        (or_else (if output_nodes = [] then Some NoOutputNode else None)
        (or_else (first_error (\<lambda>n. if out_degree d (wn_id n) \<noteq> 1
                     then Some (InputOutDegree (wn_id n) (out_degree d (wn_id n))) else None) input_nodes)
        (or_else (first_error (\<lambda>n. if condition_targets ids n = None then Some PyTypeError else None) (wd_nodes d))
        (or_else (first_error (\<lambda>n. if 1 < in_degree0 (all_edges d) (wn_id n)
                     then Some (TooManyIncoming (wn_id n) (in_degree0 (all_edges d) (wn_id n))) else None) (wd_nodes d))
          (case topological_order d of
             Inl (TopoKeyError k) \<Rightarrow> Some (PyKeyError k)
           | Inl TopoTypeError \<Rightarrow> Some PyTypeError
           | Inr None \<Rightarrow> Some CyclicDefinition
           | Inr (Some order) \<Rightarrow>
               or_else (first_error (validate_condition_node ids) condition_nodes)
                 (first_error (validate_template_references order) (wd_nodes d))))))))))"

section \<open>Executing one node\<close>

datatype node_status = NodePending | NodeRunning | NodeCompleted | NodeFailed
datatype run_status = RunCompleted | RunFailed

record node_output =
  no_output :: pyval
  no_error :: "string option"
  no_input_summary :: "string option"
  no_output_summary :: "string option"

text \<open>What a call of a node executor can end in; \<open>CancelledError\<close> is not an \<open>Exception\<close>.\<close>

datatype exec_outcome = Returned node_output | RaisedException string | CancelledError

type_synonym executors = "node_type \<Rightarrow> (workflow_node \<Rightarrow> variables \<Rightarrow> exec_outcome) option"

text \<open>The text after \<open>{node.id}\<close> in an error message: the exception or the error the node reported.\<close>

datatype failure_cause = CauseError wf_error | CauseException string | CauseReported string

datatype node_exit = NodeReturned node_output | NodeRaised failure_cause | NodeCancelled

record node_result =
  nr_node_id :: string
  nr_type :: node_type
  nr_status :: node_status
  nr_started_at :: int
  nr_duration_ms :: real
  nr_input_summary :: "string option"
  nr_output_summary :: "string option"
  nr_error :: "(string \<times> failure_cause) option"

record run_result =
  rr_status :: run_status
  rr_inputs :: variables
  rr_output :: pyval
  rr_node_results :: "node_result list"
  rr_error :: "(string \<times> failure_cause) option"

definition branches_of :: "workflow_node \<Rightarrow> (string, pyval) pydict list" where
  "branches_of n =
     (case py_get (wn_config n) ''branches'' of PList bs \<Rightarrow> map as_dict (filter is_mapping bs) | _ \<Rightarrow> [])"

definition variables_inputs :: "variables \<Rightarrow> variables" where
  "variables_inputs vars =
     map (\<lambda>(k, v). (drop (length ''input.'') k, v)) (filter (\<lambda>(k, _). take (length ''input.'') k = ''input.'') vars)"

definition branch_target :: "(string, pyval) pydict \<Rightarrow> wf_error + string" where
  \<comment> \<open>\<open>str(branch["target"])\<close>\<close>
  "branch_target b = (case dget b ''target'' of None \<Rightarrow> Inl (PyKeyError ''target'') | Some v \<Rightarrow> Inr (py_str v))"

fun matching_branch :: "(string, pyval) pydict list \<Rightarrow> variables \<Rightarrow> wf_error + string option" where
  "matching_branch [] vars = Inr None"
| "matching_branch (b # bs) vars =
     (case py_get b ''condition'' of
        PNone \<Rightarrow> matching_branch bs vars
      | c \<Rightarrow>
          (case evaluate_condition (py_str c) vars of
             Inl e \<Rightarrow> Inl e
           | Inr True \<Rightarrow> map_sum id Some (branch_target b)
           | Inr False \<Rightarrow> matching_branch bs vars))"

definition selected_target :: "workflow_node \<Rightarrow> variables \<Rightarrow> wf_error + string" where
  "selected_target n vars =
     (case matching_branch (branches_of n) vars of
        Inl e \<Rightarrow> Inl e
      | Inr (Some t) \<Rightarrow> Inr t
      | Inr None \<Rightarrow>
          (case find (\<lambda>b. py_get b ''condition'' = PNone) (branches_of n) of
             Some b \<Rightarrow> branch_target b
           | None \<Rightarrow> Inl (NoMatchingBranch (wn_id n))))"

definition branch_for_target :: "workflow_node \<Rightarrow> string \<Rightarrow> wf_error + (string, pyval) pydict" where
  "branch_for_target n target =
     (case find (\<lambda>b. py_get b ''target'' = PStr target) (branches_of n) of
        Some b \<Rightarrow> Inr b
      | None \<Rightarrow> Inl (BranchForTargetMissing (wn_id n) target))"

definition summary :: "string \<Rightarrow> string" where
  "summary s = truncate_summary s summary_max_chars"

definition condition_summary :: "workflow_node \<Rightarrow> string" where
  "condition_summary n =
     (let t = join ''; '' (map (\<lambda>b. py_str (py_get b ''condition''))
                (filter (\<lambda>b. py_get b ''condition'' \<noteq> PNone) (branches_of n)))
      in if t = [] then ''unconditional branch'' else t)"

definition execute_node :: "executors \<Rightarrow> workflow_node \<Rightarrow> variables \<Rightarrow> node_exit" where
  "execute_node execs n vars =
     (if wn_type n = INPUT then
        (let t = json_dumps (PDict (variables_inputs vars))
         in NodeReturned \<lparr>no_output = PStr t, no_error = None, no_input_summary = Some (summary t),
              no_output_summary = Some (summary t)\<rparr>)
      else if wn_type n = CONDITION then
        (case selected_target n vars of
           Inl e \<Rightarrow> NodeRaised (CauseError e)
         | Inr selected \<Rightarrow>
             (case branch_for_target n selected of
                Inl e \<Rightarrow> NodeRaised (CauseError e)
              | Inr b \<Rightarrow>
                  NodeReturned \<lparr>no_output = PStr selected, no_error = None,
                    no_input_summary = Some (summary (condition_summary n)),
                    no_output_summary = Some (summary (''selected branch '' @
                      (case dget b ''id'' of None \<Rightarrow> ''?'' | Some v \<Rightarrow> py_str v) @ '' -> '' @ selected))\<rparr>))
      else if wn_type n = OUTPUT then
        (case py_get (wn_config n) ''output_template'' of
           PStr template \<Rightarrow>
             (case render_template vars template of
                Inl e \<Rightarrow> NodeRaised (CauseError e)
              | Inr rendered \<Rightarrow>
                  NodeReturned \<lparr>no_output = PStr rendered, no_error = None, no_input_summary = Some (summary rendered),
                    no_output_summary = Some (summary rendered)\<rparr>)
         | _ \<Rightarrow> NodeRaised (CauseError (MissingOutputTemplate (wn_id n))))
      else
        (case execs (wn_type n) of
           None \<Rightarrow> NodeRaised (CauseError (NoExecutor (wn_type n) (wn_id n)))
         | Some f \<Rightarrow>
             (case f n vars of
                Returned out \<Rightarrow> NodeReturned out
              | RaisedException msg \<Rightarrow> NodeRaised (CauseException msg)
              | CancelledError \<Rightarrow> NodeCancelled)))"

section \<open>Running a workflow\<close>

definition build_result ::
  "(string \<Rightarrow> int \<times> real) \<Rightarrow> workflow_node \<Rightarrow> node_status \<Rightarrow> pyval \<Rightarrow> (string \<times> failure_cause) option \<Rightarrow>
   string option \<Rightarrow> string option \<Rightarrow> node_result" where
  "build_result clocks n status output err isum osum =
     (let completed = (status = NodeCompleted)
      in \<lparr>nr_node_id = wn_id n, nr_type = wn_type n, nr_status = status,
          nr_started_at = fst (clocks (wn_id n)), nr_duration_ms = snd (clocks (wn_id n)),
          nr_input_summary = (if completed \<and> isum = None then Some (summary (json_dumps (PDict (wn_config n)))) else isum),
          nr_output_summary = (if completed
             then Some (summary (case osum of None \<Rightarrow> py_str output | Some t \<Rightarrow> t)) else osum),
          nr_error = err\<rparr>)"

record engine_state =
  en_variables :: variables
  en_node_results :: "node_result list"
  en_active :: "string list"
  en_output :: pyval

datatype run_exit = Finished run_result | RunRaised wf_error | RunCancelled

definition failed :: "variables \<Rightarrow> node_result list \<Rightarrow> string \<times> failure_cause \<Rightarrow> run_exit" where
  "failed inputs results err = Finished \<lparr>rr_status = RunFailed, rr_inputs = inputs, rr_output = PNone,
     rr_node_results = results, rr_error = Some err\<rparr>"

definition engine_edges :: "workflow_definition \<Rightarrow> (string \<times> string) list" where
  "engine_edges d = map (\<lambda>e. (we_from e, we_to e)) (wd_edges d)
     @ concat (map (\<lambda>n. if wn_type n = CONDITION
                          then map (Pair (wn_id n)) (branch_targets (set (node_ids d)) (map PDict (branches_of n)))
                          else []) (wd_nodes d))"

text \<open>The state after a node has completed with an output: \<open>Inl\<close> is an exception that escapes the loop.\<close>

definition after_node ::
  "(string \<Rightarrow> int \<times> real) \<Rightarrow> (string \<times> string) list \<Rightarrow> workflow_node \<Rightarrow> node_output \<Rightarrow> engine_state \<Rightarrow>
   wf_error + engine_state" where
  "after_node clocks es n out st =
     (let st1 = st\<lparr>en_node_results := en_node_results st @
                    [build_result clocks n NodeCompleted (no_output out) None (no_input_summary out) (no_output_summary out)]\<rparr>;
          st2 = (if wn_type n = OUTPUT then st1\<lparr>en_output := no_output out\<rparr>
                 else if wn_type n \<noteq> CONDITION
                 then st1\<lparr>en_variables := dset (wn_id n @ ''.output'') (PStr (py_str (no_output out))) (en_variables st1)\<rparr>
                 else st1)
      in if wn_type n = CONDITION
         then (case selected_target n (en_variables st2) of
                 Inl e \<Rightarrow> Inl e
               | Inr t \<Rightarrow> Inr (st2\<lparr>en_active := t # descendants t es\<rparr>))
         else Inr st2)"

fun run_nodes ::
  "executors \<Rightarrow> (string \<Rightarrow> int \<times> real) \<Rightarrow> workflow_definition \<Rightarrow> variables \<Rightarrow> string list \<Rightarrow> engine_state \<Rightarrow> run_exit" where
  "run_nodes execs clocks d inputs [] st =
     Finished \<lparr>rr_status = RunCompleted, rr_inputs = inputs, rr_output = en_output st,
       rr_node_results = en_node_results st, rr_error = None\<rparr>"
| "run_nodes execs clocks d inputs (i # rest) st =
     (if i \<notin> set (en_active st) then run_nodes execs clocks d inputs rest st
      else case find (\<lambda>n. wn_id n = i) (wd_nodes d) of
             None \<Rightarrow> RunRaised (PyKeyError i)
           | Some n \<Rightarrow>
               (case execute_node execs n (en_variables st) of
                  NodeCancelled \<Rightarrow> RunCancelled
                | NodeRaised cause \<Rightarrow>
                    failed inputs (en_node_results st @ [build_result clocks n NodeFailed PNone (Some (i, cause)) None None]) (i, cause)
                | NodeReturned out \<Rightarrow>
                    (case no_error out of
                       Some msg \<Rightarrow>
                         failed inputs (en_node_results st @
                           [build_result clocks n NodeFailed PNone (Some (i, CauseReported msg)) (no_input_summary out) None])
                           (i, CauseReported msg)
                     | None \<Rightarrow>
                         (case after_node clocks (engine_edges d) n out st of
                            Inl e \<Rightarrow> RunRaised e
                          | Inr st' \<Rightarrow> run_nodes execs clocks d inputs rest st'))))"

definition engine_run ::
  "executors \<Rightarrow> (string \<Rightarrow> int \<times> real) \<Rightarrow> workflow_definition \<Rightarrow> variables \<Rightarrow> run_exit" where
  "engine_run execs clocks d inputs =
     (case validate_definition d of
        Some e \<Rightarrow> RunRaised e
      | None \<Rightarrow>
          (case topological_order d of
             Inr (Some order) \<Rightarrow>
               run_nodes execs clocks d inputs order
                 \<lparr>en_variables = fold (\<lambda>(k, v). dset (''input.'' @ k) v) inputs [], en_node_results = [],
                  en_active = node_ids d, en_output = PNone\<rparr>
           | Inr None \<Rightarrow> RunRaised CyclicDefinition
           | Inl (TopoKeyError k) \<Rightarrow> RunRaised (PyKeyError k)
           | Inl TopoTypeError \<Rightarrow> RunRaised PyTypeError))"

section \<open>What validation guarantees\<close>

lemma or_else_None [simp]: "or_else a b = None \<longleftrightarrow> a = None \<and> b = None"
  by (simp add: or_else_def split: option.splits)

lemma first_error_None [simp]: "first_error f xs = None \<longleftrightarrow> (\<forall>x \<in> set xs. f x = None)"
  by (induction xs) (auto split: option.splits)

lemma duplicates_empty: "duplicates seen is = {} \<longleftrightarrow> distinct is \<and> set is \<inter> seen = {}"
  by (induction "is" arbitrary: seen) auto

definition is_default :: "pyval \<Rightarrow> bool" where
  "is_default b \<longleftrightarrow> py_get (as_dict b) ''condition'' = PNone"

definition branch_ok :: "string set \<Rightarrow> pyval \<Rightarrow> bool" where
  "branch_ok ids b \<longleftrightarrow> is_mapping b \<and> (\<exists>t \<in> ids. py_get (as_dict b) ''target'' = PStr t) \<and>
     (is_default b \<or> (\<exists>c. py_get (as_dict b) ''condition'' = PStr c \<and> is_valid_condition c))"

lemma validate_branches_None:
  "validate_branches ids i default_seen bs = None \<longleftrightarrow>
     (\<forall>b \<in> set bs. branch_ok ids b) \<and> length (filter is_default bs) \<le> (if default_seen then 0 else 1)"
proof (induction bs arbitrary: default_seen)
  case (Cons b bs)
  show ?case
  proof (cases "branch_ok ids b")
    case True
    then show ?thesis
      by (auto simp: Cons.IH branch_ok_def is_default_def Let_def split: pyval.splits)
  next
    case False
    then show ?thesis
      by (auto simp: branch_ok_def is_default_def Let_def split: pyval.splits)
  qed
qed simp

definition condition_ok :: "string set \<Rightarrow> workflow_node \<Rightarrow> bool" where
  "condition_ok ids n \<longleftrightarrow> (\<exists>bs. py_get (wn_config n) ''branches'' = PList bs \<and> bs \<noteq> [] \<and>
     (\<forall>b \<in> set bs. branch_ok ids b) \<and> length (filter is_default bs) \<le> 1)"

lemma validate_condition_node_None: "validate_condition_node ids n = None \<longleftrightarrow> condition_ok ids n"
  by (auto simp: validate_condition_node_def condition_ok_def validate_branches_None split: pyval.splits)

definition edges_ok :: "workflow_definition \<Rightarrow> bool" where
  "edges_ok d \<longleftrightarrow> (\<forall>e \<in> set (wd_edges d).
     we_from e \<in> set (node_ids d) \<and> we_to e \<in> set (node_ids d) \<and> we_from e \<noteq> we_to e)"

definition graph_ok :: "workflow_definition \<Rightarrow> bool" where
  "graph_ok d \<longleftrightarrow> distinct (node_ids d) \<and> edges_ok d \<and> acyclic (set (all_edges d)) \<and>
     (\<forall>n \<in> set (wd_nodes d). condition_targets (set (node_ids d)) n \<noteq> None \<and> in_degree0 (all_edges d) (wn_id n) \<le> 1 \<and>
        (wn_type n = INPUT \<longrightarrow> out_degree d (wn_id n) = 1)) \<and>
     (\<exists>n \<in> set (wd_nodes d). wn_type n = INPUT) \<and> (\<exists>n \<in> set (wd_nodes d). wn_type n = OUTPUT)"

definition references_ok :: "workflow_definition \<Rightarrow> string list \<Rightarrow> bool" where
  "references_ok d order \<longleftrightarrow> (\<forall>n \<in> set (wd_nodes d). \<forall>t \<in> set (walk_strings (PDict (wn_config n))).
     \<forall>ref \<in> set (find_references t). ref \<in> set order \<and> position order ref < position order (wn_id n))"

lemma validate_edge_None:
  "validate_edge ids e = None \<longleftrightarrow> we_from e \<in> ids \<and> we_to e \<in> ids \<and> we_from e \<noteq> we_to e"
  by (simp add: validate_edge_def)

lemma validate_references_None:
  "(\<forall>n \<in> set (wd_nodes d). validate_template_references order n = None) \<longleftrightarrow> references_ok d order"
proof -
  have "validate_reference order i ref = None \<longleftrightarrow> ref \<in> set order \<and> position order ref < position order i" for i ref
    by (auto simp: validate_reference_def)
  then show ?thesis by (simp add: validate_template_references_def references_ok_def)
qed

lemma edges_ok_endpoint: "edges_ok d \<Longrightarrow> missing_endpoint d = None"
  by (auto simp: edges_ok_def missing_endpoint_def find_None_iff)

lemma topological_order_exists:
  assumes "edges_ok d" and "\<forall>n \<in> set (wd_nodes d). condition_targets (set (node_ids d)) n \<noteq> None"
  obtains r where "topological_order d = Inr r"
  using edges_ok_endpoint [OF assms(1)] assms(2) that by (auto simp: topological_order_def Let_def)

lemma validate_definition_None:
  "validate_definition d = None \<longleftrightarrow> graph_ok d \<and> (\<forall>n \<in> set (wd_nodes d). wn_type n = CONDITION \<longrightarrow> condition_ok (set (node_ids d)) n) \<and>
     (\<exists>order. topological_order d = Inr (Some order) \<and> references_ok d order)"
proof (cases "distinct (node_ids d) \<and> edges_ok d \<and> (\<forall>n \<in> set (wd_nodes d). condition_targets (set (node_ids d)) n \<noteq> None)")
  case True
  then obtain r where r: "topological_order d = Inr r" using topological_order_exists by blast
  have spec: "r \<noteq> None \<longleftrightarrow> acyclic (set (all_edges d))" using topological_order_spec [OF _ r] True by simp
  show ?thesis
  proof (cases r)
    case None
    then show ?thesis using r spec by (simp add: validate_definition_def Let_def graph_ok_def)
  next
    case (Some order)
    then have "acyclic (set (all_edges d))" using spec by simp
    with True Some r show ?thesis
      by (auto simp: validate_definition_def Let_def graph_ok_def validate_edge_None edges_ok_def duplicates_empty
          validate_condition_node_None validate_references_None filter_empty_conv image_iff)
  qed
next
  case False
  then show ?thesis
    by (auto simp: validate_definition_def Let_def graph_ok_def validate_edge_None edges_ok_def duplicates_empty)
qed

text \<open>
  C10: \<open>validate_definition\<close> accepts exactly the well-formed definitions: distinct node ids, edges between
  existing different nodes, an input and an output node, one outgoing edge per input node, at most one
  incoming edge or branch per node, no cycle; every condition node has a non-empty list of branches with
  existing targets, supported conditions and at most one default; and every \<open>{{node.output}}\<close> in a
  configuration refers to a node that comes earlier in the order the engine will use.
\<close>

theorem validation_characterized:
  "validate_definition d = None \<longleftrightarrow> graph_ok d \<and> (\<forall>n \<in> set (wd_nodes d). wn_type n = CONDITION \<longrightarrow> condition_ok (set (node_ids d)) n) \<and>
     (\<exists>order. topological_order d = Inr (Some order) \<and> references_ok d order)"
  by (rule validate_definition_None)

definition good_definition :: workflow_definition where
  "good_definition = \<lparr>wd_nodes = [
      \<lparr>wn_id = ''in'', wn_type = INPUT, wn_config = []\<rparr>,
      \<lparr>wn_id = ''gate'', wn_type = CONDITION, wn_config = [(''branches'', PList [
          PDict [(''condition'', PStr ''{{ input.q }} is empty''), (''target'', PStr ''no'')],
          PDict [(''target'', PStr ''yes'')]])]\<rparr>,
      \<lparr>wn_id = ''no'', wn_type = OUTPUT, wn_config = [(''output_template'', PStr ''nothing asked'')]\<rparr>,
      \<lparr>wn_id = ''yes'', wn_type = OUTPUT, wn_config = [(''output_template'', PStr ''got {{in.output}}'')]\<rparr>],
    wd_edges = [\<lparr>we_from = ''in'', we_to = ''gate''\<rparr>], wd_version = 1\<rparr>"

theorem validation_characterized_witness: "graph_ok good_definition"
proof -
  have "validate_definition good_definition = None" by code_simp
  then show ?thesis using validation_characterized [of good_definition] by simp
qed

section \<open>The edges a run follows\<close>

lemma branches_of_ok:
  assumes "condition_ok ids n"
  obtains bs where "py_get (wn_config n) ''branches'' = PList bs" "branches_of n = map as_dict bs"
    "map PDict (branches_of n) = bs" "\<forall>b \<in> set bs. branch_ok ids b" "dget (wn_config n) ''branches'' = Some (PList bs)"
proof -
  from assms obtain bs where bs: "py_get (wn_config n) ''branches'' = PList bs" "\<forall>b \<in> set bs. branch_ok ids b"
    by (auto simp: condition_ok_def)
  have m: "\<forall>b \<in> set bs. is_mapping b" using bs(2) by (simp add: branch_ok_def)
  have "filter is_mapping bs = bs" using m by (rule filter_True)
  moreover have "PDict (as_dict b) = b" if "is_mapping b" for b using that by (cases b) auto
  ultimately have "branches_of n = map as_dict bs" "map PDict (branches_of n) = bs"
    using bs(1) m by (simp_all add: branches_of_def map_idI)
  moreover have "dget (wn_config n) ''branches'' = Some (PList bs)" using bs(1)
    by (simp add: py_get_def split: option.splits)
  ultimately show thesis using bs that by blast
qed

lemma engine_edges_valid:
  assumes "\<forall>n \<in> set (wd_nodes d). wn_type n = CONDITION \<longrightarrow> condition_ok (set (node_ids d)) n"
  shows "engine_edges d = all_edges d"
proof -
  have "(if wn_type n = CONDITION then map (Pair (wn_id n)) (branch_targets (set (node_ids d)) (map PDict (branches_of n))) else [])
      = (case condition_targets (set (node_ids d)) n of None \<Rightarrow> [] | Some ts \<Rightarrow> map (Pair (wn_id n)) ts)"
    if "n \<in> set (wd_nodes d)" for n
  proof (cases "wn_type n = CONDITION")
    case True
    then have "condition_ok (set (node_ids d)) n" using assms that by blast
    then obtain bs where "map PDict (branches_of n) = bs" "dget (wn_config n) ''branches'' = Some (PList bs)"
      by (rule branches_of_ok)
    then show ?thesis using True by (simp add: condition_targets_def)
  qed (simp add: condition_targets_def)
  then show ?thesis unfolding engine_edges_def all_edges_def by (simp only: cong: map_cong)
qed

lemma branch_target_ok:
  assumes "branch_ok ids b" and "branch_target (as_dict b) = Inr t"
  shows "py_get (as_dict b) ''target'' = PStr t \<and> t \<in> ids"
  using assms by (auto simp: branch_ok_def branch_target_def py_get_def split: option.splits)

lemma matching_branch_in:
  "matching_branch bs vars = Inr (Some t) \<Longrightarrow> \<exists>b \<in> set bs. branch_target b = Inr t"
proof (induction bs)
  case (Cons b bs)
  show ?case
  proof (cases "py_get b ''condition'' = PNone")
    case True
    then show ?thesis using Cons by simp
  next
    case False
    then have "matching_branch (b # bs) vars =
        (case evaluate_condition (py_str (py_get b ''condition'')) vars of Inl e \<Rightarrow> Inl e
         | Inr True \<Rightarrow> map_sum id Some (branch_target b) | Inr False \<Rightarrow> matching_branch bs vars)"
      by (auto split: pyval.splits)
    then show ?thesis using Cons by (cases "branch_target b") (auto split: sum.splits bool.splits)
  qed
qed simp

lemma selected_target_edge:
  assumes "condition_ok (set (node_ids d)) n" and "n \<in> set (wd_nodes d)" and "wn_type n = CONDITION"
    and "selected_target n vars = Inr t"
  shows "(wn_id n, t) \<in> set (all_edges d)"
proof -
  obtain bs where bs: "branches_of n = map as_dict bs" "\<forall>b \<in> set bs. branch_ok (set (node_ids d)) b"
    "dget (wn_config n) ''branches'' = Some (PList bs)" using assms(1) by (rule branches_of_ok)
  have "\<exists>b \<in> set (branches_of n). branch_target b = Inr t"
    using assms(4) matching_branch_in [of "branches_of n" vars t]
    by (auto simp: selected_target_def find_Some_iff split: sum.splits option.splits)
  then obtain b where b: "b \<in> set bs" "branch_target (as_dict b) = Inr t" using bs(1) by auto
  with branch_target_ok bs(2) have t: "py_get (as_dict b) ''target'' = PStr t" "t \<in> set (node_ids d)" by blast+
  have "is_mapping b" using b(1) bs(2) by (simp add: branch_ok_def)
  with t b(1) have "t \<in> set (branch_targets (set (node_ids d)) bs)" by (force simp: branch_targets_def)
  then show ?thesis using assms(2,3) bs(3) unfolding all_edges_def
    by (auto simp: condition_targets_def intro!: bexI [of _ n])
qed

end
