(* ===== verification/WorkflowRun.thy ===== *)
theory WorkflowRun
  imports WorkflowEngine
begin

text \<open>
  What a run of the workflow engine guarantees: the invariant of its loop over the topological order, and
  from it that nodes run at most once and in dependency order, that a run stops at its first failure, that at most one
  branch of a condition is taken, and that no exception escapes from a validated definition.
\<close>

abbreviation ids_of :: "node_result list \<Rightarrow> string list" where "ids_of rs \<equiv> map nr_node_id rs"

text \<open>Dependencies: every predecessor of a node with a result has an earlier result.\<close>

definition dependencies_met :: "(string \<times> string) set \<Rightarrow> node_result list \<Rightarrow> bool" where
  "dependencies_met E rs \<longleftrightarrow> (\<forall>xs r ys. rs = xs @ r # ys \<longrightarrow> (\<forall>u. (u, nr_node_id r) \<in> E \<longrightarrow> u \<in> set (ids_of xs)))"

text \<open>After a completed condition only what one of its targets leads to can follow (within \<open>A\<close> later on).\<close>

definition one_branch :: "(string \<times> string) set \<Rightarrow> node_result list \<Rightarrow> string set \<Rightarrow> bool" where
  "one_branch E rs A \<longleftrightarrow> (\<forall>xs r ys. rs = xs @ r # ys \<longrightarrow> nr_type r = CONDITION \<longrightarrow> nr_status r = NodeCompleted \<longrightarrow>
     (\<exists>t. (nr_node_id r, t) \<in> E \<and> set (ids_of ys) \<union> A \<subseteq> E\<^sup>* `` {t}))"

definition loop_inv :: "(string \<times> string) set \<Rightarrow> string list \<Rightarrow> engine_state \<Rightarrow> bool" where
  "loop_inv E pre st \<longleftrightarrow>
     (\<forall>u v. (u, v) \<in> E \<longrightarrow> u \<in> set (en_active st) \<longrightarrow> v \<in> set (en_active st)) \<and>
     (\<forall>u \<in> set pre. u \<in> set (en_active st) \<longrightarrow> u \<in> set (ids_of (en_node_results st))) \<and>
     (\<forall>u v. (u, v) \<in> E \<longrightarrow> v \<in> set (en_active st) \<longrightarrow> u \<in> set (en_active st) \<or> u \<in> set (ids_of (en_node_results st))) \<and>
     dependencies_met E (en_node_results st) \<and> one_branch E (en_node_results st) (set (en_active st))"

lemma snoc_split: "rs @ [x] = xs @ r # ys \<longleftrightarrow> (ys = [] \<and> xs = rs \<and> r = x) \<or> (\<exists>zs. ys = zs @ [x] \<and> rs = xs @ r # zs)"
  by (cases ys rule: rev_cases) auto

lemma dependencies_met_snoc:
  assumes "dependencies_met E rs" and "\<And>u. (u, nr_node_id x) \<in> E \<Longrightarrow> u \<in> set (ids_of rs)"
  shows "dependencies_met E (rs @ [x])"
  using assms unfolding dependencies_met_def snoc_split by blast

lemma one_branch_snoc:
  assumes "one_branch E rs A" and "nr_node_id x \<in> A" and "A' \<subseteq> A"
    and "nr_type x = CONDITION \<Longrightarrow> nr_status x = NodeCompleted \<Longrightarrow> \<exists>t. (nr_node_id x, t) \<in> E \<and> A' \<subseteq> E\<^sup>* `` {t}"
  shows "one_branch E (rs @ [x]) A'"
  unfolding one_branch_def snoc_split
proof (intro allI impI)
  fix xs r ys
  assume s: "(ys = [] \<and> xs = rs \<and> r = x) \<or> (\<exists>zs. ys = zs @ [x] \<and> rs = xs @ r # zs)"
    and c: "nr_type r = CONDITION" "nr_status r = NodeCompleted"
  from s show "\<exists>t. (nr_node_id r, t) \<in> E \<and> set (ids_of ys) \<union> A' \<subseteq> E\<^sup>* `` {t}"
  proof
    assume "ys = [] \<and> xs = rs \<and> r = x"
    then show ?thesis using assms(4) c by auto
  next
    assume "\<exists>zs. ys = zs @ [x] \<and> rs = xs @ r # zs"
    then obtain zs where z: "ys = zs @ [x]" "rs = xs @ r # zs" by blast
    from assms(1) z(2) c obtain t where "(nr_node_id r, t) \<in> E" "set (ids_of zs) \<union> A \<subseteq> E\<^sup>* `` {t}"
      unfolding one_branch_def by blast
    then show ?thesis using assms(2,3) z(1) by (intro exI [of _ t]) auto
  qed
qed

lemma one_branch_mono: "one_branch E rs A \<Longrightarrow> A' \<subseteq> A \<Longrightarrow> one_branch E rs A'"
  unfolding one_branch_def by (elim all_forward imp_forward ex_forward) auto

lemma loop_inv_skip: "loop_inv E pre st \<Longrightarrow> i \<notin> set (en_active st) \<Longrightarrow> loop_inv E (pre @ [i]) st"
  by (auto simp: loop_inv_def)

lemma loop_inv_pred:
  assumes "loop_inv E pre st" and "i \<in> set (en_active st)" and "\<And>u. (u, i) \<in> E \<Longrightarrow> u \<in> set pre" and "(u, i) \<in> E"
  shows "u \<in> set (ids_of (en_node_results st))"
  using assms unfolding loop_inv_def by blast

lemma loop_inv_same_active:
  assumes "loop_inv E pre st" and "i \<in> set (en_active st)" and "\<And>u. (u, i) \<in> E \<Longrightarrow> u \<in> set pre"
    and "en_node_results st' = en_node_results st @ [x]" and "nr_node_id x = i" and "nr_type x \<noteq> CONDITION"
    and "en_active st' = en_active st"
  shows "loop_inv E (pre @ [i]) st'"
proof -
  have d: "dependencies_met E (en_node_results st')" unfolding assms(4)
    by (rule dependencies_met_snoc) (use assms(1,5) loop_inv_pred [OF assms(1-3)] in \<open>auto simp: loop_inv_def\<close>)
  have o: "one_branch E (en_node_results st') (set (en_active st'))" unfolding assms(4,7)
    by (rule one_branch_snoc) (use assms in \<open>auto simp: loop_inv_def\<close>)
  have "\<forall>u v. (u, v) \<in> E \<longrightarrow> u \<in> set (en_active st) \<longrightarrow> v \<in> set (en_active st)"
    "\<forall>u \<in> set pre. u \<in> set (en_active st) \<longrightarrow> u \<in> set (ids_of (en_node_results st))"
    "\<forall>u v. (u, v) \<in> E \<longrightarrow> v \<in> set (en_active st) \<longrightarrow> u \<in> set (en_active st) \<or> u \<in> set (ids_of (en_node_results st))"
    using assms(1) by (auto simp: loop_inv_def)
  with d o assms(4,5,7) show ?thesis unfolding loop_inv_def by auto
qed

lemma loop_inv_condition:
  assumes "loop_inv E pre st" and "i \<in> set (en_active st)" and "\<And>u. (u, i) \<in> E \<Longrightarrow> u \<in> set pre"
    and "en_node_results st' = en_node_results st @ [x]" and "nr_node_id x = i"
    and "(i, t) \<in> E" and "set (en_active st') = E\<^sup>* `` {t}" and "single_valued (E\<inverse>)" and "set pre \<inter> E\<^sup>+ `` {i} = {}" and "i \<notin> E\<^sup>+ `` {i}"
  shows "loop_inv E (pre @ [i]) st'"
proof -
  have cl: "(u, v) \<in> E \<Longrightarrow> u \<in> set (en_active st) \<Longrightarrow> v \<in> set (en_active st)" for u v
    using assms(1) by (simp add: loop_inv_def)
  have "(i, v) \<in> E\<^sup>* \<Longrightarrow> v \<in> set (en_active st)" for v
    by (induction rule: rtrancl_induct) (use assms(2) cl in blast)+
  then have sub: "set (en_active st') \<subseteq> set (en_active st)" unfolding assms(7)
    using assms(6) by (auto intro: converse_rtrancl_into_rtrancl)
  have under: "v \<in> set (en_active st') \<Longrightarrow> v \<in> E\<^sup>+ `` {i}" for v
    using assms(6) unfolding assms(7) by auto
  have d: "dependencies_met E (en_node_results st')" unfolding assms(4)
    by (rule dependencies_met_snoc) (use assms(1,5) loop_inv_pred [OF assms(1-3)] in \<open>auto simp: loop_inv_def\<close>)
  have o: "one_branch E (en_node_results st') (set (en_active st'))" unfolding assms(4)
    by (rule one_branch_snoc [OF _ _ sub]) (use assms(1,2,5,6,7) in \<open>auto simp: loop_inv_def\<close>)
  have closed: "(u, v) \<in> E \<Longrightarrow> u \<in> set (en_active st') \<Longrightarrow> v \<in> set (en_active st')" for u v
    unfolding assms(7) by (auto intro: rtrancl_into_rtrancl)
  have pred: "u \<in> set (en_active st') \<or> u = i" if "(u, v) \<in> E" "v \<in> set (en_active st')" for u v
  proof -
    from that(2) have "(t, v) \<in> E\<^sup>*" unfolding assms(7) by simp
    then show ?thesis
    proof (cases rule: rtranclE)
      case base
      then show ?thesis using that(1) assms(6,8) by (auto simp: single_valued_def)
    next
      case (step w)
      then have "w = u" using that(1) assms(8) by (auto simp: single_valued_def)
      then show ?thesis using step(1) unfolding assms(7) by simp
    qed
  qed
  have "u \<notin> set (en_active st')" if "u \<in> set (pre @ [i])" for u using under assms(9,10) that by auto
  with closed pred d o assms(4,5) show ?thesis unfolding loop_inv_def by auto
qed

section \<open>Shape of a run\<close>

lemma build_result_fields [simp]:
  "nr_node_id (build_result clocks n st out err isum osum) = wn_id n"
  "nr_type (build_result clocks n st out err isum osum) = wn_type n"
  "nr_status (build_result clocks n st out err isum osum) = st"
  "nr_error (build_result clocks n st out err isum osum) = err"
  by (simp_all add: build_result_def Let_def)

lemma after_node_results:
  "after_node clocks es n out st = Inr st' \<Longrightarrow>
   \<exists>x. en_node_results st' = en_node_results st @ [x] \<and> nr_node_id x = wn_id n \<and> nr_type x = wn_type n \<and>
     nr_status x = NodeCompleted \<and> nr_error x = None"
  by (auto simp: after_node_def Let_def split: if_splits sum.splits)

lemma find_node:
  "find (\<lambda>n. wn_id n = i) (wd_nodes d) = Some n \<Longrightarrow> n \<in> set (wd_nodes d) \<and> wn_id n = i"
  by (auto simp: find_Some_iff)

definition all_completed :: "node_result list \<Rightarrow> bool" where
  "all_completed rs \<longleftrightarrow> (\<forall>x \<in> set rs. nr_status x = NodeCompleted \<and> nr_error x = None)"

definition result_shape :: "run_result \<Rightarrow> bool" where
  "result_shape r \<longleftrightarrow>
     (case rr_error r of
        None \<Rightarrow> rr_status r = RunCompleted \<and> all_completed (rr_node_results r)
      | Some err \<Rightarrow> rr_status r = RunFailed \<and> rr_output r = PNone \<and>
          (\<exists>ys x. rr_node_results r = ys @ [x] \<and> all_completed ys \<and> nr_status x = NodeFailed \<and>
             nr_error x = Some err \<and> nr_node_id x = fst err))"

text \<open>One iteration of the loop.\<close>

lemma run_nodes_cases:
  assumes "run_nodes execs clocks d inputs (i # rest) st = Finished r"
  obtains (skipped) "i \<notin> set (en_active st)" "run_nodes execs clocks d inputs rest st = Finished r"
  | (failed) n x err where "i \<in> set (en_active st)" "n \<in> set (wd_nodes d)" "wn_id n = i" "nr_node_id x = i" "nr_type x = wn_type n"
      "nr_status x = NodeFailed" "nr_error x = Some err" "fst err = i"
      "r = \<lparr>rr_status = RunFailed, rr_inputs = inputs, rr_output = PNone, rr_node_results = en_node_results st @ [x],
            rr_error = Some err\<rparr>"
  | (completed) n out st' where "i \<in> set (en_active st)" "n \<in> set (wd_nodes d)" "wn_id n = i"
      "execute_node execs n (en_variables st) = NodeReturned out" "no_error out = None"
      "after_node clocks (engine_edges d) n out st = Inr st'" "run_nodes execs clocks d inputs rest st' = Finished r"
proof (cases "i \<in> set (en_active st)")
  case False
  then show thesis using assms skipped by simp
next
  case True
  show thesis
  proof (cases "find (\<lambda>n. wn_id n = i) (wd_nodes d)")
    case None
    then show thesis using assms True by simp
  next
    case (Some n)
    then have n: "n \<in> set (wd_nodes d)" "wn_id n = i" using find_node by blast+
    show thesis
    proof (cases "execute_node execs n (en_variables st)")
      case (NodeReturned out)
      show thesis
      proof (cases "no_error out")
        case None
        then show thesis using assms True Some NodeReturned n completed by (auto split: sum.splits)
      next
        case (Some msg)
        let ?x = "build_result clocks n NodeFailed PNone (Some (i, CauseReported msg)) (no_input_summary out) None"
        from assms True \<open>find _ _ = Some n\<close> NodeReturned Some show thesis
          by (intro failed [of n ?x "(i, CauseReported msg)"]) (simp_all add: n failed_def)
      qed
    next
      case (NodeRaised cause)
      let ?x = "build_result clocks n NodeFailed PNone (Some (i, cause)) None None"
      from assms True Some NodeRaised show thesis
        by (intro failed [of n ?x "(i, cause)"]) (simp_all add: n failed_def)
    next
      case NodeCancelled
      then show thesis using assms True Some by simp
    qed
  qed
qed

lemma run_nodes_shape:
  assumes "run_nodes execs clocks d inputs order st = Finished r" and "all_completed (en_node_results st)"
  shows "result_shape r \<and> (\<exists>new. rr_node_results r = en_node_results st @ new \<and> subseq (ids_of new) order)"
  using assms
proof (induction order arbitrary: st)
  case Nil
  then show ?case by (auto simp: result_shape_def)
next
  case (Cons i rest)
  from Cons.prems(1) show ?case
  proof (cases rule: run_nodes_cases)
    case skipped
    then show ?thesis using Cons by (blast intro: list_emb_Cons)
  next
    case (failed n x err)
    then show ?thesis using Cons.prems(2) by (auto simp: result_shape_def)
  next
    case (completed n out st')
    obtain x where x: "en_node_results st' = en_node_results st @ [x]" "nr_node_id x = i" "nr_status x = NodeCompleted" "nr_error x = None"
      using after_node_results [OF completed(6)] completed(3) by blast
    then have "all_completed (en_node_results st')" using Cons.prems(2) by (simp add: all_completed_def)
    from Cons.IH [OF completed(7) this] x show ?thesis by (auto intro: list_emb_Cons2)
  qed
qed

lemma run_nodes_types:
  assumes "run_nodes execs clocks d inputs order st = Finished r"
    and "\<forall>x \<in> set (en_node_results st). \<exists>n \<in> set (wd_nodes d). wn_id n = nr_node_id x \<and> wn_type n = nr_type x"
  shows "\<forall>x \<in> set (rr_node_results r). \<exists>n \<in> set (wd_nodes d). wn_id n = nr_node_id x \<and> wn_type n = nr_type x"
  using assms
proof (induction order arbitrary: st)
  case (Cons i rest)
  from Cons.prems(1) show ?case
  proof (cases rule: run_nodes_cases)
    case skipped
    then show ?thesis using Cons by blast
  next
    case (failed n x err)
    then show ?thesis using Cons.prems(2) by auto
  next
    case (completed n out st')
    obtain x where "en_node_results st' = en_node_results st @ [x]" "nr_node_id x = wn_id n" "nr_type x = wn_type n"
      using after_node_results [OF completed(6)] by blast
    then show ?thesis using Cons.IH [OF completed(7)] Cons.prems(2) completed(2) by fastforce
  qed
qed auto

section \<open>Runs of validated definitions\<close>

lemma single_valued_edges:
  assumes "\<forall>n \<in> set (wd_nodes d). in_degree0 es (wn_id n) \<le> 1" and "snd ` set es \<subseteq> set (node_ids d)"
  shows "single_valued ((set es)\<inverse>)"
proof -
  have "u = w" if e: "(u, v) \<in> set es" "(w, v) \<in> set es" for u v w
  proof -
    have "v \<in> set (node_ids d)" using e(1) assms(2) by force
    then have "length (filter (\<lambda>e. snd e = v) es) \<le> 1" using assms(1) by (auto simp: in_degree0_def)
    moreover have "(u, v) \<in> set (filter (\<lambda>e. snd e = v) es)" "(w, v) \<in> set (filter (\<lambda>e. snd e = v) es)" using e by auto
    ultimately show ?thesis by (cases "filter (\<lambda>e. snd e = v) es") auto
  qed
  then show ?thesis by (auto simp: single_valued_def)
qed

text \<open>What a validated definition gives the loop.\<close>

lemma validatedD:
  assumes "validate_definition d = None"
  obtains order where "topological_order d = Inr (Some order)" and "distinct order" and "set order = set (node_ids d)"
    and "\<forall>xs v ys u. order = xs @ v # ys \<longrightarrow> (u, v) \<in> set (all_edges d) \<longrightarrow> u \<in> set xs"
    and "acyclic (set (all_edges d))" and "single_valued ((set (all_edges d))\<inverse>)" and "engine_edges d = all_edges d"
    and "\<forall>n \<in> set (wd_nodes d). wn_type n = CONDITION \<longrightarrow> condition_ok (set (node_ids d)) n" and "distinct (node_ids d)"
proof -
  from assms obtain order where v: "graph_ok d" "topological_order d = Inr (Some order)"
    "\<forall>n \<in> set (wd_nodes d). wn_type n = CONDITION \<longrightarrow> condition_ok (set (node_ids d)) n"
    unfolding validate_definition_None by blast
  have g: "distinct (node_ids d)" "edges_ok d" "acyclic (set (all_edges d))"
    "\<forall>n \<in> set (wd_nodes d). in_degree0 (all_edges d) (wn_id n) \<le> 1" using v(1) by (simp_all add: graph_ok_def)
  note t = topological_order_spec [OF g(1) v(2)]
  have "single_valued ((set (all_edges d))\<inverse>)"
    by (rule single_valued_edges [OF g(4) all_edges_endpoints(2) [OF edges_ok_endpoint [OF g(2)]]])
  then show thesis using that [OF v(2)] t g engine_edges_valid [OF v(3)] v(3) by blast
qed

lemma after_node_active:
  assumes "after_node clocks es n out st = Inr st'"
  shows "if wn_type n = CONDITION then \<exists>t. selected_target n (en_variables st) = Inr t \<and> en_active st' = t # descendants t es
    else en_active st' = en_active st"
  using assms by (auto simp: after_node_def Let_def split: if_splits sum.splits)

lemma loop_inv_after:
  assumes "after_node clocks (all_edges d) n out st = Inr st'" and "loop_inv (set (all_edges d)) pre st"
    and "wn_id n = i" and "n \<in> set (wd_nodes d)" and "i \<in> set (en_active st)"
    and "\<forall>n \<in> set (wd_nodes d). wn_type n = CONDITION \<longrightarrow> condition_ok (set (node_ids d)) n"
    and "acyclic (set (all_edges d))" and "single_valued ((set (all_edges d))\<inverse>)"
    and "\<And>u. (u, i) \<in> set (all_edges d) \<Longrightarrow> u \<in> set pre" and "set pre \<inter> (set (all_edges d))\<^sup>+ `` {i} = {}"
  shows "loop_inv (set (all_edges d)) (pre @ [i]) st'"
proof -
  obtain x where x: "en_node_results st' = en_node_results st @ [x]" "nr_node_id x = i" "nr_type x = wn_type n"
    using after_node_results [OF assms(1)] assms(3) by blast
  show ?thesis
  proof (cases "wn_type n = CONDITION")
    case True
    then obtain t where t: "selected_target n (en_variables st) = Inr t" "en_active st' = t # descendants t (all_edges d)"
      using after_node_active [OF assms(1)] by auto
    have e: "(i, t) \<in> set (all_edges d)"
      using selected_target_edge [OF _ assms(4) True t(1)] assms(3,4,6) True by blast
    have a: "set (en_active st') = (set (all_edges d))\<^sup>* `` {t}"
      unfolding t(2) by (auto simp: descendants_trancl dest: rtranclD)
    have "i \<notin> (set (all_edges d))\<^sup>+ `` {i}" using assms(7) by (auto simp: acyclic_def)
    from loop_inv_condition [OF assms(2,5,9) x(1,2) e a assms(8,10) this] show ?thesis by blast
  next
    case False
    then have "en_active st' = en_active st" using after_node_active [OF assms(1)] by simp
    with loop_inv_same_active [OF assms(2,5,9) x(1,2)] x(3) False show ?thesis by simp
  qed
qed

text \<open>No node of a topological order reaches an earlier one.\<close>

lemma order_no_back:
  assumes "\<And>xs v ys u. order = xs @ v # ys \<Longrightarrow> (u, v) \<in> E \<Longrightarrow> u \<in> set xs" and "distinct order" and "order = pre @ i # rest"
  shows "set pre \<inter> E\<^sup>+ `` {i} = {}"
proof -
  have earlier: "w \<in> set pre \<Longrightarrow> (u, w) \<in> E \<Longrightarrow> u \<in> set pre" for u w
  proof -
    assume "w \<in> set pre" "(u, w) \<in> E"
    then obtain ps qs where "pre = ps @ w # qs" by (auto simp: in_set_conv_decomp)
    then show "u \<in> set pre" using assms(1) [of ps w "qs @ i # rest" u] assms(3) \<open>(u, w) \<in> E\<close> by auto
  qed
  have "(u, w) \<in> E\<^sup>+ \<Longrightarrow> w \<in> set pre \<Longrightarrow> u \<in> set pre" for u w
    by (induction rule: converse_trancl_induct) (auto intro: earlier)
  moreover have "i \<notin> set pre" using assms(2,3) by auto
  ultimately show ?thesis by auto
qed

lemma run_nodes_inv:
  assumes v: "\<forall>n \<in> set (wd_nodes d). wn_type n = CONDITION \<longrightarrow> condition_ok (set (node_ids d)) n"
      "acyclic (set (all_edges d))" "single_valued ((set (all_edges d))\<inverse>)" "engine_edges d = all_edges d"
    and order: "\<And>xs v ys u. order = xs @ v # ys \<Longrightarrow> (u, v) \<in> set (all_edges d) \<Longrightarrow> u \<in> set xs" "distinct order"
    and "order = pre @ rest" and "loop_inv (set (all_edges d)) pre st"
    and "run_nodes execs clocks d inputs rest st = Finished r"
  shows "dependencies_met (set (all_edges d)) (rr_node_results r) \<and> one_branch (set (all_edges d)) (rr_node_results r) {}"
  using assms(7-)
proof (induction rest arbitrary: pre st)
  case Nil
  then have "r = \<lparr>rr_status = RunCompleted, rr_inputs = inputs, rr_output = en_output st,
      rr_node_results = en_node_results st, rr_error = None\<rparr>" by simp
  then show ?case using Nil.prems(2) one_branch_mono by (auto simp: loop_inv_def)
next
  case (Cons i rest)
  have pred: "\<And>u. (u, i) \<in> set (all_edges d) \<Longrightarrow> u \<in> set pre" using order(1) Cons.prems(1) by blast
  have o: "order = (pre @ [i]) @ rest" using Cons.prems(1) by simp
  from Cons.prems(3) show ?case
  proof (cases rule: run_nodes_cases)
    case skipped
    then show ?thesis using Cons.IH [OF o loop_inv_skip [OF Cons.prems(2)]] by blast
  next
    case (failed n x err)
    have inv: "dependencies_met (set (all_edges d)) (en_node_results st)"
      "one_branch (set (all_edges d)) (en_node_results st) (set (en_active st))"
      using Cons.prems(2) by (simp_all add: loop_inv_def)
    have "dependencies_met (set (all_edges d)) (en_node_results st @ [x])"
      using dependencies_met_snoc [OF inv(1)] loop_inv_pred [OF Cons.prems(2) failed(1) pred] failed(4) by blast
    moreover have "one_branch (set (all_edges d)) (en_node_results st @ [x]) {}"
      by (rule one_branch_snoc [OF inv(2)]) (use failed in auto)
    ultimately show ?thesis by (simp add: failed(9))
  next
    case (completed n out st')
    have "loop_inv (set (all_edges d)) (pre @ [i]) st'"
      by (rule loop_inv_after [OF completed(6) [unfolded v(4)] Cons.prems(2) completed(3,2,1) v(1-3) pred
            order_no_back [OF order Cons.prems(1)]])
    from Cons.IH [OF o this completed(7)] show ?thesis .
  qed
qed

lemma engine_run_start:
  assumes "engine_run execs clocks d inputs = Finished r"
  obtains order st where "validate_definition d = None" "topological_order d = Inr (Some order)"
    "run_nodes execs clocks d inputs order st = Finished r" "en_node_results st = []" "en_active st = node_ids d"
  using assms by (auto simp: engine_run_def split: option.splits sum.splits topo_error.splits)

lemma engine_run_inv:
  assumes "engine_run execs clocks d inputs = Finished r"
  shows "validate_definition d = None \<and> dependencies_met (set (all_edges d)) (rr_node_results r) \<and>
    one_branch (set (all_edges d)) (rr_node_results r) {}"
proof -
  obtain order st where s: "validate_definition d = None" "topological_order d = Inr (Some order)"
    "run_nodes execs clocks d inputs order st = Finished r" "en_node_results st = []" "en_active st = node_ids d"
    using assms by (rule engine_run_start)
  from s(1) obtain order' where v: "topological_order d = Inr (Some order')" "distinct order'" "set order' = set (node_ids d)"
    "\<forall>xs v ys u. order' = xs @ v # ys \<longrightarrow> (u, v) \<in> set (all_edges d) \<longrightarrow> u \<in> set xs"
    "acyclic (set (all_edges d))" "single_valued ((set (all_edges d))\<inverse>)" "engine_edges d = all_edges d"
    "\<forall>n \<in> set (wd_nodes d). wn_type n = CONDITION \<longrightarrow> condition_ok (set (node_ids d)) n"
    "distinct (node_ids d)"
    by (rule validatedD)
  have "graph_ok d" using s(1) unfolding validate_definition_None by blast
  then have ep: "fst ` set (all_edges d) \<subseteq> set (node_ids d)" "snd ` set (all_edges d) \<subseteq> set (node_ids d)"
    using all_edges_endpoints [OF edges_ok_endpoint] by (simp_all add: graph_ok_def)
  have "loop_inv (set (all_edges d)) [] st"
    using ep by (auto simp: loop_inv_def s(4,5) dependencies_met_def one_branch_def)
  from run_nodes_inv [OF v(8,5,6,7) v(4) [rule_format] v(2) _ this] s v(1) show ?thesis by auto
qed

section \<open>Properties of runs\<close>

lemma engine_run_shape: "engine_run execs clocks d inputs = Finished r \<Longrightarrow> result_shape r"
  by (erule engine_run_start) (simp add: run_nodes_shape all_completed_def)

lemma engine_run_types:
  "engine_run execs clocks d inputs = Finished r \<Longrightarrow> x \<in> set (rr_node_results r) \<Longrightarrow> n \<in> set (wd_nodes d) \<Longrightarrow>
   nr_node_id x = wn_id n \<Longrightarrow> nr_type x = wn_type n"
proof (erule engine_run_start)
  fix order st
  assume x: "x \<in> set (rr_node_results r)" "n \<in> set (wd_nodes d)" "nr_node_id x = wn_id n"
    and s: "validate_definition d = None" "run_nodes execs clocks d inputs order st = Finished r" "en_node_results st = []"
  from run_nodes_types [OF s(2)] s(3) x(1) obtain m where m: "m \<in> set (wd_nodes d)" "wn_id m = nr_node_id x" "wn_type m = nr_type x"
    by auto
  have "distinct (node_ids d)" using s(1) unfolding validate_definition_None graph_ok_def by blast
  then have "m = n" using m x by (metis distinct_map inj_onD)
  then show "nr_type x = wn_type n" using m(3) by simp
qed

lemma engine_run_distinct:
  assumes "engine_run execs clocks d inputs = Finished r"
  shows "distinct (ids_of (rr_node_results r))"
proof -
  obtain order st where s: "validate_definition d = None" "topological_order d = Inr (Some order)"
    "run_nodes execs clocks d inputs order st = Finished r" "en_node_results st = []" "en_active st = node_ids d"
    using assms by (rule engine_run_start)
  have "distinct (node_ids d)" using s(1) unfolding validate_definition_None graph_ok_def by blast
  then have "distinct order" using topological_order_spec [OF _ s(2)] by blast
  moreover have "subseq (ids_of (rr_node_results r)) order"
    using run_nodes_shape [OF s(3)] s(4) by (simp add: all_completed_def)
  ultimately show ?thesis by (auto simp: subseq_conv_nths intro: distinct_nthsI)
qed

lemma result_shape_inner:
  assumes "result_shape r" and "rr_node_results r = xs @ x # ys" and "ys \<noteq> []"
  shows "nr_status x = NodeCompleted"
proof (cases "rr_error r")
  case None
  then show ?thesis using assms by (simp add: result_shape_def all_completed_def)
next
  case (Some err)
  then obtain zs z where z: "rr_node_results r = zs @ [z]" "all_completed zs"
    using assms(1) by (auto simp: result_shape_def)
  obtain ys' y where "ys = ys' @ [y]" using assms(3) by (metis rev_exhaust)
  then have "zs = xs @ x # ys'" using z(1) assms(2) by simp
  then show ?thesis using z(2) by (simp add: all_completed_def)
qed

lemma same_split:
  assumes "xs @ x # ys = xs' @ x' # ys'" and "f x = f x'" and "distinct (map f (xs @ x # ys))"
  shows "xs = xs' \<and> x = x' \<and> ys = ys'"
  using assms
proof (induction xs arbitrary: xs')
  case Nil
  then show ?case by (cases xs') auto
next
  case (Cons a xs)
  then show ?case by (cases xs') auto
qed

text \<open>
  C7: nodes run in dependency order, each at most once: in the results of a run no node occurs twice, they
  follow the topological order of the definition, and every predecessor of a node (by an edge or a
  condition branch) has its result before it.
\<close>

theorem run_respects_dependencies:
  assumes "engine_run execs clocks d inputs = Finished r"
  shows "distinct (ids_of (rr_node_results r)) \<and>
    (\<exists>order. topological_order d = Inr (Some order) \<and> subseq (ids_of (rr_node_results r)) order) \<and>
    (\<forall>xs x ys u. rr_node_results r = xs @ x # ys \<longrightarrow> (u, nr_node_id x) \<in> set (all_edges d) \<longrightarrow> u \<in> set (ids_of xs))"
proof -
  obtain order st where s: "validate_definition d = None" "topological_order d = Inr (Some order)"
    "run_nodes execs clocks d inputs order st = Finished r" "en_node_results st = []" "en_active st = node_ids d"
    using assms by (rule engine_run_start)
  have "subseq (ids_of (rr_node_results r)) order"
    using run_nodes_shape [OF s(3)] s(4) by (simp add: all_completed_def)
  with engine_run_distinct [OF assms] s(2) engine_run_inv [OF assms] show ?thesis unfolding dependencies_met_def by blast
qed

definition good_result :: run_result where
  "good_result = (case engine_run (\<lambda>_. None) (\<lambda>_. (0, 0)) good_definition [(''q'', PStr ''hi'')] of Finished r \<Rightarrow> r)"

lemma good_run: "engine_run (\<lambda>_. None) (\<lambda>_. (0, 0)) good_definition [(''q'', PStr ''hi'')] = Finished good_result"
  unfolding good_result_def by code_simp

lemma good_result_ids: "ids_of (rr_node_results good_result) = [''in'', ''gate'', ''yes'']"
  by code_simp

theorem run_respects_dependencies_witness:
  "distinct (ids_of (rr_node_results good_result)) \<and> ids_of (rr_node_results good_result) = [''in'', ''gate'', ''yes'']"
  using run_respects_dependencies [OF good_run] good_result_ids by blast

text \<open>
  A run fails fast and its record says so. A run that ends without an error is COMPLETED and all its
  node results are; a run that ends with an error is FAILED, has no output, its last node result is the
  FAILED one and carries that error, every earlier one is COMPLETED, and no node ran after it.
\<close>

theorem run_fails_fast:
  assumes "engine_run execs clocks d inputs = Finished r"
  shows "case rr_error r of
      None \<Rightarrow> rr_status r = RunCompleted \<and> (\<forall>x \<in> set (rr_node_results r). nr_status x = NodeCompleted \<and> nr_error x = None)
    | Some err \<Rightarrow> rr_status r = RunFailed \<and> rr_output r = PNone \<and>
        (\<exists>ys x. rr_node_results r = ys @ [x] \<and> (\<forall>y \<in> set ys. nr_status y = NodeCompleted \<and> nr_error y = None) \<and>
           nr_status x = NodeFailed \<and> nr_error x = Some err \<and> nr_node_id x = fst err)"
proof -
  obtain order st where "run_nodes execs clocks d inputs order st = Finished r" "en_node_results st = []"
    using assms by (rule engine_run_start)
  then have "result_shape r" using run_nodes_shape [of execs clocks d inputs order st r] by (simp add: all_completed_def)
  then show ?thesis unfolding result_shape_def all_completed_def .
qed

theorem run_fails_fast_witness:
  "rr_error good_result = None \<and> rr_status good_result = RunCompleted"
proof -
  have "rr_error good_result = None" by code_simp
  then show ?thesis using run_fails_fast [OF good_run] by simp
qed

lemma single_branch:
  assumes "single_valued (E\<inverse>)" and "acyclic E" and "(c, t) \<in> E" and "(c, t') \<in> E" and "(t, t') \<in> E\<^sup>*"
  shows "t = t'"
  using assms(5)
proof (cases rule: rtranclE)
  case (step w)
  then have "w = c" using assms(1,4) by (auto simp: single_valued_def)
  then have "(t, t) \<in> E\<^sup>+" using step(1) assms(3) by (metis r_into_trancl rtrancl_into_trancl1)
  then show ?thesis using assms(2) by (simp add: acyclic_def)
qed simp

lemma dependencies_upward:
  assumes "dependencies_met E rs" and "(t, v) \<in> E\<^sup>*" and "v \<in> set (ids_of rs)"
  shows "t \<in> set (ids_of rs)"
  using assms(2,3)
proof (induction rule: converse_rtrancl_induct)
  case (step y z)
  then obtain x where "x \<in> set rs" "nr_node_id x = z" by auto
  then obtain xs ys where "rs = xs @ x # ys" by (meson split_list)
  with assms(1) step(1) \<open>nr_node_id x = z\<close> have "y \<in> set (ids_of xs)" unfolding dependencies_met_def by blast
  then show ?case using \<open>rs = xs @ x # ys\<close> by auto
qed

text \<open>
  C6: at most one branch of a condition runs. If a condition node \<open>c\<close> leads to \<open>t1\<close> and to \<open>t2\<close>, and a run
  has results of nodes under both targets, then \<open>t1\<close> and \<open>t2\<close> are the same node.
\<close>

theorem at_most_one_branch_runs:
  assumes "engine_run execs clocks d inputs = Finished r"
    and "c \<in> set (wd_nodes d)" and "wn_type c = CONDITION"
    and "(wn_id c, t1) \<in> set (all_edges d)" and "(wn_id c, t2) \<in> set (all_edges d)"
    and "(t1, v1) \<in> (set (all_edges d))\<^sup>*" and "v1 \<in> set (ids_of (rr_node_results r))"
    and "(t2, v2) \<in> (set (all_edges d))\<^sup>*" and "v2 \<in> set (ids_of (rr_node_results r))"
  shows "t1 = t2"
proof -
  let ?E = "set (all_edges d)"
  have inv: "validate_definition d = None" "dependencies_met ?E (rr_node_results r)" "one_branch ?E (rr_node_results r) {}"
    using engine_run_inv [OF assms(1)] by blast+
  have sv: "single_valued (?E\<inverse>)" "acyclic ?E" using validatedD [OF inv(1)] by blast+
  have child: "\<exists>xs x ys. rr_node_results r = xs @ x # ys \<and> nr_node_id x = wn_id c \<and> t \<in> set (ids_of ys)"
    if "(wn_id c, t) \<in> ?E" "(t, v) \<in> ?E\<^sup>*" "v \<in> set (ids_of (rr_node_results r))" for t v
  proof -
    have "t \<in> set (ids_of (rr_node_results r))" using dependencies_upward [OF inv(2) that(2,3)] .
    then obtain y where "y \<in> set (rr_node_results r)" and id: "nr_node_id y = t" by auto
    then obtain as bs where ab: "rr_node_results r = as @ y # bs" by (meson split_list)
    with inv(2) id that(1) have "wn_id c \<in> set (ids_of as)" unfolding dependencies_met_def by blast
    then obtain x where x: "x \<in> set as" "nr_node_id x = wn_id c" by auto
    then obtain ps qs where "as = ps @ x # qs" by (meson split_list)
    with ab id x(2) show ?thesis by (intro exI [of _ ps] exI [of _ x] exI [of _ "qs @ y # bs"]) simp
  qed
  have taken: "\<exists>t. (wn_id c, t) \<in> ?E \<and> set (ids_of ys) \<subseteq> ?E\<^sup>* `` {t}"
    if "rr_node_results r = xs @ x # ys" "nr_node_id x = wn_id c" "ys \<noteq> []" for xs x ys
  proof -
    have "nr_type x = CONDITION"
      using engine_run_types [OF assms(1)] that(1,2) assms(2,3) by (metis in_set_conv_decomp)
    moreover have "nr_status x = NodeCompleted" using result_shape_inner [OF engine_run_shape [OF assms(1)] that(1,3)] .
    ultimately have "\<exists>t. (nr_node_id x, t) \<in> ?E \<and> set (ids_of ys) \<union> {} \<subseteq> ?E\<^sup>* `` {t}"
      using inv(3) that(1) unfolding one_branch_def by blast
    then show ?thesis using that(2) by simp
  qed
  obtain xs x ys where 1: "rr_node_results r = xs @ x # ys" "nr_node_id x = wn_id c" "t1 \<in> set (ids_of ys)"
    using child [OF assms(4,6,7)] by blast
  obtain xs' x' ys' where 2: "rr_node_results r = xs' @ x' # ys'" "nr_node_id x' = wn_id c" "t2 \<in> set (ids_of ys')"
    using child [OF assms(5,8,9)] by blast
  have "ys' = ys"
  proof -
    have "xs @ x # ys = xs' @ x' # ys'" "nr_node_id x = nr_node_id x'" using 1 2 by simp_all
    moreover have "distinct (ids_of (xs @ x # ys))" using engine_run_distinct [OF assms(1)] unfolding 1(1) .
    ultimately show ?thesis using same_split by metis
  qed
  moreover from 1(3) have "ys \<noteq> []" by auto
  ultimately obtain t where t: "(wn_id c, t) \<in> ?E" "(t, t1) \<in> ?E\<^sup>*" "(t, t2) \<in> ?E\<^sup>*"
    using taken [OF 1(1,2)] 1(3) 2(3) by blast
  show ?thesis
    using single_branch [OF sv t(1) assms(4) t(2)] single_branch [OF sv t(1) assms(5) t(3)] by simp
qed

text \<open>The branch of the example that is not selected has no result.\<close>

theorem at_most_one_branch_runs_witness: "''no'' \<notin> set (ids_of (rr_node_results good_result))"
proof
  assume no: "''no'' \<in> set (ids_of (rr_node_results good_result))"
  let ?c = "wd_nodes good_definition ! 1"
  have e: "(wn_id ?c, ''no'') \<in> set (all_edges good_definition)" "(wn_id ?c, ''yes'') \<in> set (all_edges good_definition)"
    by code_simp+
  have c: "?c \<in> set (wd_nodes good_definition)" "wn_type ?c = CONDITION" by (simp_all add: good_definition_def)
  have "''yes'' \<in> set (ids_of (rr_node_results good_result))" unfolding good_result_ids by simp
  from at_most_one_branch_runs [OF good_run c e rtrancl.rtrancl_refl no rtrancl.rtrancl_refl this] show False by simp
qed

lemma execute_condition:
  assumes "execute_node execs n vars = NodeReturned out" and "wn_type n = CONDITION"
  obtains t where "selected_target n vars = Inr t"
  using assms by (auto simp: execute_node_def split: sum.splits)

lemma after_node_total:
  assumes "execute_node execs n (en_variables st) = NodeReturned out"
  shows "\<exists>st'. after_node clocks es n out st = Inr st'"
proof (cases "wn_type n = CONDITION")
  case True
  with assms obtain t where "selected_target n (en_variables st) = Inr t" by (rule execute_condition)
  then show ?thesis using True by (simp add: after_node_def Let_def)
next
  case False
  then show ?thesis by (simp add: after_node_def Let_def)
qed

lemma run_nodes_never_raises:
  "set order \<subseteq> set (node_ids d) \<Longrightarrow> run_nodes execs clocks d inputs order st \<noteq> RunRaised e"
proof (induction order arbitrary: st)
  case (Cons i rest)
  have "i \<in> set (node_ids d)" using Cons.prems by simp
  then obtain m where "m \<in> set (wd_nodes d)" "wn_id m = i" by auto
  then have "find (\<lambda>n. wn_id n = i) (wd_nodes d) \<noteq> None" unfolding find_None_iff by blast
  then obtain n where n: "find (\<lambda>n. wn_id n = i) (wd_nodes d) = Some n" by blast
  show ?case
  proof (cases "execute_node execs n (en_variables st)")
    case (NodeReturned out)
    then obtain st' where "after_node clocks (engine_edges d) n out st = Inr st'" using after_node_total by blast
    then show ?thesis using Cons n NodeReturned by (simp add: failed_def split: option.splits)
  qed (use Cons n in \<open>simp_all add: failed_def\<close>)
qed simp

text \<open>
  C8: a run raises exactly when validation rejects the definition, with the error validation names. On an
  accepted definition every error of a node (an unknown variable, a condition with no matching branch,
  an executor that raises or is missing) ends in a result, and nothing escapes but a cancellation.
\<close>

theorem engine_raises_iff_invalid:
  "engine_run execs clocks d inputs = RunRaised e \<longleftrightarrow> validate_definition d = Some e"
proof (cases "validate_definition d")
  case None
  then obtain order where o: "topological_order d = Inr (Some order)" "set order = set (node_ids d)" using validatedD by metis
  then show ?thesis using None run_nodes_never_raises [of order d] by (simp add: engine_run_def)
next
  case (Some err)
  then show ?thesis by (auto simp: engine_run_def)
qed

end
