(* ===== verification/ToolModels.thy ===== *)
theory ToolModels
  imports PyValue "HOL-Library.Char_ord" "HOL-Library.List_Lexorder"
begin

text \<open>
  The data of the tool layer (\<open>app/tools/models.py\<close>) and the canonical JSON text that the tool executor
  and the agent runtime use: \<open>json.dumps(..., sort_keys=True, separators=(",", ":"))\<close>.
\<close>

record tool_context =
  tc_run_id :: string
  tc_step_index :: int
  tc_request_id :: "string option"
  tc_metadata :: "(string, pyval) pydict"

datatype risk_level = LOW | MEDIUM | HIGH

datatype tool_execution_status = SUCCEEDED | INVALID_ARGUMENTS | NOT_FOUND | PERMISSION_DENIED | TIMED_OUT | FAILED

record tool_execution_result =
  te_tool_name :: string
  te_status :: tool_execution_status
  te_output :: string
  te_error_code :: "string option"
  te_error_message :: "string option"
  te_truncated :: bool

definition te_succeeded :: "tool_execution_result \<Rightarrow> bool" where
  "te_succeeded r \<longleftrightarrow> te_status r = SUCCEEDED"

text \<open>The keys of every object in ascending order, no blanks.\<close>

fun dump_json :: "pyval \<Rightarrow> string" where
  "dump_json PNone = ''null''"
| "dump_json (PBool b) = (if b then ''true'' else ''false'')"
| "dump_json (PInt i) = int_digits i"
| "dump_json (PFloat r) = json_float r"
| "dump_json (PStr s) = json_str s"
| "dump_json (PList xs) = ''['' @ join '','' (map dump_json xs) @ '']''"
| "dump_json (PDict d) = ''{'' @ join '','' (map (\<lambda>(k, v). json_str k @ '':'' @ v)
     (sort_key fst (map (\<lambda>kv. (fst kv, dump_json (snd kv))) d))) @ ''}''"

section \<open>What the JSON text of a call determines\<close>

lemma quote_chars: "chr_of 34 = CHR 0x22" "chr_of 92 = CHR 0x5C"
  by code_simp+

lemma of_chr: "0 \<le> n \<Longrightarrow> n < 256 \<Longrightarrow> of_char (chr_of n) = n"
  by (simp add: chr_of_def of_char_of)

lemma of_hex_digit: "0 \<le> n \<Longrightarrow> n < 16 \<Longrightarrow> of_char (hex_digit n) = (if n < 10 then 48 + n else 87 + n)"
  unfolding hex_digit_def by (subst of_chr) auto

lemma hex_digit_inj:
  assumes "hex_digit m = hex_digit n" and "0 \<le> m" "m < 16" "0 \<le> n" "n < 16"
  shows "m = n"
proof -
  have "(if m < 10 then 48 + m else 87 + m) = (if n < 10 then 48 + n else 87 + n)"
    using arg_cong [OF assms(1), of of_char] of_hex_digit [OF assms(2,3)] of_hex_digit [OF assms(4,5)] by metis
  then show ?thesis using assms(2-5) by (auto split: if_splits)
qed

lemma hex_digit_plain:
  assumes "0 \<le> n" "n < 16"
  shows "hex_digit n \<noteq> CHR 0x22"
  using of_hex_digit [OF assms] assms by (auto split: if_splits)

lemma of_char_bounds: "(0 :: int) \<le> of_char c" "of_char c < (256 :: int)"
  using of_char_mod_256 [of c, where 'a = int] by (metis pos_mod_sign zero_less_numeral, metis pos_mod_bound zero_less_numeral)

text \<open>The escape of a character, by its class.\<close>

lemma json_char_cases:
  obtains (plain) "json_char c = [c]" "c \<noteq> CHR 0x22" "c \<noteq> CHR 0x5C"
  | (short) d where "json_char c = [CHR 0x5C, d]" "d \<noteq> CHR ''u''"
  | (hex) "json_char c = CHR 0x5C # ''u00'' @ hex2 (of_char c)" "of_char c < (32 :: int)"
proof (cases "of_char c \<in> {34, 92, 10, 13, 9, 12, 8 :: int}")
  case True
  then have "\<exists>d. json_char c = [CHR 0x5C, d] \<and> d \<noteq> CHR ''u''"
    by (elim insertE) (simp_all add: json_char_def quote_chars)
  then show thesis using short by blast
next
  case False
  then have "json_char c = (if of_char c < (32 :: int) then CHR 0x5C # ''u00'' @ hex2 (of_char c) else [c])"
    by (simp add: json_char_def quote_chars)
  moreover have "c \<noteq> CHR 0x22" "c \<noteq> CHR 0x5C" using False by auto
  ultimately show thesis using plain hex by (cases "of_char c < (32 :: int)") simp_all
qed

text \<open>Within the text of a JSON string every quote is escaped.\<close>

fun quotes_escaped :: "char \<Rightarrow> string \<Rightarrow> bool" where
  "quotes_escaped prev [] = True"
| "quotes_escaped prev (c # cs) = ((c = CHR 0x22 \<longrightarrow> prev = CHR 0x5C) \<and> quotes_escaped c cs)"

lemma quotes_escaped_char: "quotes_escaped p (json_char c @ cs) \<longleftrightarrow> quotes_escaped (last (json_char c)) cs"
proof (cases c rule: json_char_cases)
  case hex
  have "hex_digit (of_char c div 16) \<noteq> CHR 0x22" "hex_digit (of_char c mod 16) \<noteq> CHR 0x22"
    using of_char_bounds [of c] by (intro hex_digit_plain; simp)+
  then show ?thesis using hex by (simp add: hex2_def)
qed auto

lemma quotes_escaped_text: "quotes_escaped p (concat (map json_char s))"
  by (induction s arbitrary: p) (simp_all add: quotes_escaped_char)

lemma quotes_escaped_split: "quotes_escaped p (x @ c # CHR 0x22 # y) \<Longrightarrow> c = CHR 0x5C"
  by (induction x arbitrary: p) auto

text \<open>The escapes form a prefix code.\<close>

lemma json_char_prefix:
  assumes "json_char a @ xs = json_char b @ ys"
  shows "a = b \<and> xs = ys"
proof -
  have short: "a = b" if "json_char a = [CHR 0x5C, d]" "json_char b = [CHR 0x5C, d]" for d
  proof -
    have "of_char a = (of_char b :: int)"
      using that unfolding json_char_def Let_def quote_chars by (auto simp del: of_char_eq_iff split: if_splits)
    then show ?thesis by simp
  qed
  have hex: "a = b" if "hex2 (of_char a) = hex2 (of_char b)"
  proof -
    have "(of_char a :: int) div 16 = of_char b div 16" "(of_char a :: int) mod 16 = of_char b mod 16"
      using that of_char_bounds [of a] of_char_bounds [of b] by (auto simp: hex2_def intro!: hex_digit_inj)
    then have "of_char a = (of_char b :: int)" by (metis mult_div_mod_eq)
    then show ?thesis by simp
  qed
  show ?thesis
    using assms short hex
    by (cases a rule: json_char_cases; cases b rule: json_char_cases) (auto simp: hex2_def)
qed

lemma json_char_nonempty: "json_char c \<noteq> []"
  by (cases c rule: json_char_cases) auto

lemma json_text_inj: "concat (map json_char s) = concat (map json_char t) \<Longrightarrow> s = t"
proof (induction s arbitrary: t)
  case Nil
  then show ?case using json_char_nonempty by (cases t) auto
next
  case (Cons a s)
  then obtain b u where "t = b # u" using Cons.prems using json_char_nonempty by (cases t) auto
  with Cons json_char_prefix [of a "concat (map json_char s)" b "concat (map json_char u)"] show ?case by auto
qed

text \<open>
  A text that ends in a colon and a JSON string determines the string: were one of two such strings longer, the
  opening quote of the other would stand inside it, after the colon and unescaped.
\<close>

lemma json_str_inside:
  assumes "ws @ json_str s = json_str t" and "x @ '':'' = (y @ '':'') @ ws"
  shows "ws = []"
proof (rule ccontr)
  assume "ws \<noteq> []"
  then obtain v where v: "ws = v @ '':''" using assms(2) by (cases ws rule: rev_cases) auto
  show False
  proof (cases v)
    case Nil
    then show False using assms(1) v by (simp add: json_str_def quote_chars)
  next
    case (Cons q u)
    then have "u @ CHR '':'' # CHR 0x22 # concat (map json_char s) = concat (map json_char t)"
      using assms(1) v by (simp add: json_str_def quote_chars)
    then show False using quotes_escaped_split [of "CHR ''x''" u "CHR '':''"] quotes_escaped_text [of "CHR ''x''" t] by (auto simp flip: \<open>u @ _ = _\<close>)
  qed
qed

lemma json_str_suffix:
  assumes "x @ '':'' @ json_str s = y @ '':'' @ json_str t"
  shows "x = y \<and> s = t"
proof -
  have "(x @ '':'') @ json_str s = (y @ '':'') @ json_str t" using assms by simp
  then obtain ws where "x @ '':'' = (y @ '':'') @ ws \<and> ws @ json_str s = json_str t \<or>
      (x @ '':'') @ ws = y @ '':'' \<and> json_str s = ws @ json_str t"
    unfolding append_eq_append_conv2 by blast
  then have "x = y" "json_str s = json_str t"
    using json_str_inside [of ws s t x y] json_str_inside [of ws t s y x] by auto
  then show ?thesis by (simp add: json_str_def json_text_inj)
qed

lemma dump_call_text: "dump_json (PDict [(''name'', PStr k), (''arguments'', PDict c)]) =
    (''{'' @ json_str ''arguments'' @ '':'' @ dump_json (PDict c) @ '','' @ json_str ''name'') @ '':'' @ json_str k @ ''}''"
  by (simp del: dump_json.simps(7) add: dump_json.simps(7) [of "[_, _]"] sort_key_def insort_key_def)

text \<open>The text of a name and arguments tells both apart from every other.\<close>

lemma dump_call_inj:
  assumes "dump_json (PDict [(''name'', PStr n), (''arguments'', PDict a)]) = dump_json (PDict [(''name'', PStr m), (''arguments'', PDict b)])"
  shows "n = m \<and> dump_json (PDict a) = dump_json (PDict b)"
proof -
  from assms have "(''{'' @ json_str ''arguments'' @ '':'' @ dump_json (PDict a) @ '','' @ json_str ''name'') @ '':'' @ json_str n =
      (''{'' @ json_str ''arguments'' @ '':'' @ dump_json (PDict b) @ '','' @ json_str ''name'') @ '':'' @ json_str m"
    unfolding dump_call_text by simp
  from json_str_suffix [OF this] show ?thesis by simp
qed

end
