(* ===== verification/AgentRuntime.thy ===== *)
theory AgentRuntime
  imports ToolModels
begin

text \<open>
  The agent runtime: \<open>app/agents/models.py\<close> and \<open>AgentRuntime\<close> of \<open>app/agents/runtime.py\<close>, a bounded loop
  of model decisions and tool calls.

  What the runtime awaits (the model, the tools, the clocks, the cancel event) is a record of functions
  over a world \<open>'w\<close> that each of them may change. An await of \<open>_await_controlled\<close> ends as
  \<open>asyncio.wait\<close> can end: nothing done in time, the cancel event, the operation with its value or
  exception, or the waiting task being cancelled (by the quota renewal or from outside). The chunks of a
  streamed answer are the finite list of outcomes of its successive \<open>anext\<close> calls.
\<close>

section \<open>Models\<close>

datatype agent_role = RoleUser | RoleAssistant | RoleTool

datatype run_status = COMPLETED | STOPPED | RUN_FAILED | CANCELLED | RUN_TIMED_OUT

datatype stop_reason = DIRECT_ANSWER | MAX_STEPS | DEADLINE_EXCEEDED | EXTERNAL_CANCELLED | MODEL_ERROR
  | INVALID_DECISION | TOKEN_BUDGET_EXCEEDED

datatype event_kind = RUN_STARTED | STEP_STARTED | STEP_COMPLETED | MODEL_DECISION | TOOL_STARTED | TOOL_COMPLETED
  | TOOL_FAILED | ANSWER_DELTA | ANSWER | RUN_STOPPED

record agent_message =
  am_role :: agent_role
  am_content :: string
  am_tool_call_id :: "string option"
  am_tool_name :: "string option"

record tool_call =
  call_id :: string
  call_name :: string
  call_arguments :: "(string, pyval) pydict"

record agent_decision =
  ad_answer :: "string option"
  ad_tool_calls :: "tool_call list"
  ad_token_usage :: "int option"
  ad_usage_complete :: bool

record tool_result =
  res_call_id :: string
  res_name :: string
  res_content :: string
  res_succeeded :: bool
  res_error :: "string option"
  res_truncated :: bool
  res_cached :: bool

record agent_step =
  as_index :: int
  as_decision :: agent_decision
  as_tool_results :: "tool_result list"

record agent_state =
  st_run_id :: string
  st_user_input :: string
  st_messages :: "agent_message list"
  st_steps :: "agent_step list"
  st_token_usage :: int
  st_request_id :: "string option"

record agent_event =
  ev_kind :: event_kind
  ev_run_id :: string
  ev_sequence :: int
  ev_occurred_at :: int
  ev_step_index :: "int option"
  ev_message :: "string option"
  ev_decision :: "agent_decision option"
  ev_tool_call :: "tool_call option"
  ev_tool_result :: "tool_result option"
  ev_status :: "run_status option"
  ev_stop_reason :: "stop_reason option"
  ev_cumulative_token_usage :: "int option"

record agent_run_result =
  ar_run_id :: string
  ar_status :: run_status
  ar_stop_reason :: stop_reason
  ar_answer :: "string option"
  ar_state :: agent_state
  ar_events :: "agent_event list"
  ar_token_usage :: int
  ar_error :: "string option"

section \<open>The environment\<close>

datatype agent_exn = QuotaExceeded | TaskCancelled bool | OtherError string | ValueError string

datatype 'a op_end = OpValue 'a | OpError agent_exn

datatype 'a wait_end = NothingDone | CancelDone | OperationDone "'a op_end" | WaitInterrupted bool

datatype 'a controlled = Val 'a | Halted stop_reason | Exn agent_exn

datatype chunk_item = Chunk string | NotAChunk

datatype stream_spec = StreamUnavailable | StreamNotIterable | AnswerStream "chunk_item wait_end list" "agent_exn option"

record 'w agent_env =
  env_time :: "'w \<Rightarrow> real \<times> 'w"
  env_cancel_set :: "'w \<Rightarrow> bool \<times> 'w"
  env_utcnow :: "'w \<Rightarrow> int \<times> 'w"
  env_uuid :: "'w \<Rightarrow> string \<times> 'w"
  env_decide :: "agent_state \<Rightarrow> real option \<Rightarrow> 'w \<Rightarrow> agent_decision wait_end \<times> 'w"
  env_stream :: "agent_state \<Rightarrow> 'w \<Rightarrow> stream_spec \<times> 'w"
  env_execute :: "string \<Rightarrow> (string, pyval) pydict \<Rightarrow> tool_context \<Rightarrow> real option \<Rightarrow> real option \<Rightarrow> 'w \<Rightarrow>
                  tool_execution_result wait_end \<times> 'w"
  env_tool :: "string \<Rightarrow> (string, pyval) pydict \<Rightarrow> tool_context \<Rightarrow> real option \<Rightarrow> 'w \<Rightarrow> string wait_end \<times> 'w"

record 'w runtime =
  ru_env :: "'w agent_env"
  ru_tools :: "string list"
  ru_has_executor :: bool
  ru_output_max_chars :: int
  ru_has_recorder :: bool

text \<open>The arguments of one run, with the resolved run id and deadline.\<close>

record 'w run_ctx =
  cx_runtime :: "'w runtime"
  cx_run_id :: string
  cx_deadline :: "real option"
  cx_has_cancel :: bool
  cx_token_budget :: "int option"
  cx_stream_answer :: bool
  cx_metadata :: "(string, pyval) pydict"

text \<open>What a run mutates: the agent state, the events, what the recorder has observed, the world.\<close>

record 'w run_state =
  rs_state :: agent_state
  rs_events :: "agent_event list"
  rs_recorded :: "agent_event list"
  rs_world :: 'w

abbreviation cx_env :: "'w run_ctx \<Rightarrow> 'w agent_env" where "cx_env c \<equiv> ru_env (cx_runtime c)"

section \<open>Helpers of the runtime\<close>

definition agent_quota_failure :: string where "agent_quota_failure = ''quota_exceeded''"
definition tool_output_marker :: string where "tool_output_marker = ''...[tool output truncated]''"

definition await_controlled :: "'a wait_end \<Rightarrow> 'a controlled" where
  "await_controlled w =
     (case w of
        NothingDone \<Rightarrow> Halted DEADLINE_EXCEEDED
      | CancelDone \<Rightarrow> Halted EXTERNAL_CANCELLED
      | OperationDone (OpValue v) \<Rightarrow> Val v
      | OperationDone (OpError e) \<Rightarrow> Exn e
      | WaitInterrupted q \<Rightarrow> Exn (TaskCancelled q))"

definition resolve_deadline :: "real \<Rightarrow> real option \<Rightarrow> real option \<Rightarrow> real option" where
  "resolve_deadline now timeout deadline =
     (case timeout of
        None \<Rightarrow> deadline
      | Some t \<Rightarrow> (case deadline of None \<Rightarrow> Some (now + t) | Some d \<Rightarrow> Some (min (now + t) d)))"

definition remaining :: "'w agent_env \<Rightarrow> real option \<Rightarrow> 'w \<Rightarrow> real option \<times> 'w" where
  "remaining env deadline w =
     (case deadline of
        None \<Rightarrow> (None, w)
      | Some d \<Rightarrow> (case env_time env w of (now, w') \<Rightarrow> (Some (max 0 (d - now)), w')))"

definition check_stop :: "'w run_ctx \<Rightarrow> 'w \<Rightarrow> stop_reason option \<times> 'w" where
  "check_stop c w =
     (let cancelled = (if cx_has_cancel c then env_cancel_set (cx_env c) w else (False, w));
          w1 = snd cancelled
      in if fst cancelled then (Some EXTERNAL_CANCELLED, w1)
         else (case cx_deadline c of
                 None \<Rightarrow> (None, w1)
               | Some d \<Rightarrow> (case env_time (cx_env c) w1 of (now, w2) \<Rightarrow>
                   (if d \<le> now then Some DEADLINE_EXCEEDED else None, w2))))"

definition validate_decision :: "agent_decision \<Rightarrow> string option" where
  "validate_decision d =
     (if ad_answer d \<noteq> None \<and> ad_tool_calls d \<noteq> [] then Some ''decision cannot contain both an answer and tool calls''
      else if ad_answer d = None \<and> ad_tool_calls d = [] then Some ''decision must contain an answer or at least one tool call''
      else if (case ad_answer d of None \<Rightarrow> False | Some a \<Rightarrow> blank_text a) then Some ''answer must not be empty''
      else if (case ad_token_usage d of None \<Rightarrow> False | Some t \<Rightarrow> t < 0) then Some ''token_usage must not be negative''
      else None)"

definition status_for :: "stop_reason \<Rightarrow> run_status" where
  "status_for r =
     (if r = DEADLINE_EXCEEDED then RUN_TIMED_OUT
      else if r = EXTERNAL_CANCELLED then CANCELLED
      else if r \<in> {MODEL_ERROR, INVALID_DECISION} then RUN_FAILED
      else STOPPED)"

definition truncate_tool_output :: "int \<Rightarrow> string \<Rightarrow> string \<times> bool" where
  "truncate_tool_output max_chars content =
     (if int (length content) \<le> max_chars then (content, False)
      else
        (let available = max_chars - int (length tool_output_marker)
         in if available \<le> 0 then (take (nat max_chars) tool_output_marker, True)
            else (take (nat available) content @ tool_output_marker, True)))"

definition tool_call_fingerprint :: "tool_call \<Rightarrow> string" where
  "tool_call_fingerprint tc =
     dump_json (PDict [(''name'', PStr (call_name tc)), (''arguments'', PDict (call_arguments tc))])"

definition find_cached_tool_result :: "agent_state \<Rightarrow> tool_call \<Rightarrow> tool_result option" where
  "find_cached_tool_result st tc =
     map_option snd (find (\<lambda>(prev, res). res_succeeded res \<and> tool_call_fingerprint prev = tool_call_fingerprint tc)
       (concat (map (\<lambda>s. zip (ad_tool_calls (as_decision s)) (as_tool_results s)) (st_steps st))))"

definition is_calculator :: "tool_call \<Rightarrow> bool" where "is_calculator tc \<longleftrightarrow> call_name tc = ''calculator''"

definition last_calculator_result :: "agent_state \<Rightarrow> string option" where
  "last_calculator_result st =
     (if st_steps st = [] then None
      else
        (let s = last (st_steps st); calls = ad_tool_calls (as_decision s)
         in if calls = [] then None
            else if list_ex (\<lambda>tc. \<not> is_calculator tc) calls then None
            else if length (as_tool_results s) \<noteq> length calls then None
            else if list_ex (\<lambda>r. \<not> res_succeeded r) (as_tool_results s) then None
            else Some (res_content (last (as_tool_results s)))))"

section \<open>Events\<close>

definition blank_event :: "string \<Rightarrow> event_kind \<Rightarrow> agent_event" where
  "blank_event rid k = \<lparr>ev_kind = k, ev_run_id = rid, ev_sequence = 0, ev_occurred_at = 0, ev_step_index = None,
     ev_message = None, ev_decision = None, ev_tool_call = None, ev_tool_result = None, ev_status = None,
     ev_stop_reason = None, ev_cumulative_token_usage = None\<rparr>"

text \<open>
  \<open>_append_event\<close>: the observer sees every event; the recorder the ones with \<open>include_recorder\<close>. Exceptions
  of either are logged and swallowed.
\<close>

definition append_event :: "'w run_ctx \<Rightarrow> bool \<Rightarrow> agent_event \<Rightarrow> 'w run_state \<Rightarrow> 'w run_state" where
  "append_event c include_recorder e s =
     (case env_utcnow (cx_env c) (rs_world s) of (now, w) \<Rightarrow>
        (let event =
           (if rs_events s = [] then e\<lparr>ev_sequence := 1, ev_occurred_at := now\<rparr>
            else
              (let prev = last (rs_events s)
               in e\<lparr>ev_sequence := ev_sequence prev + 1,
                    ev_occurred_at := (if now < ev_occurred_at prev then ev_occurred_at prev else now)\<rparr>))
         in s\<lparr>rs_events := rs_events s @ [event],
              rs_recorded := (if include_recorder \<and> ru_has_recorder (cx_runtime c) then rs_recorded s @ [event] else rs_recorded s),
              rs_world := w\<rparr>))"

definition include_result_event :: "agent_event \<Rightarrow> bool" where
  "include_result_event e \<longleftrightarrow> ev_kind e \<notin> {STEP_STARTED, STEP_COMPLETED}"

definition steps_list :: "event_kind \<Rightarrow> agent_event list \<Rightarrow> int list" where
  "steps_list k es = List.map_filter (\<lambda>e. if ev_kind e = k then ev_step_index e else None) es"

definition complete_open_steps :: "'w run_ctx \<Rightarrow> 'w run_state \<Rightarrow> 'w run_state" where
  "complete_open_steps c s =
     fold (\<lambda>i. append_event c False ((blank_event (cx_run_id c) STEP_COMPLETED)\<lparr>ev_step_index := Some i\<rparr>))
       (sort (remdups (filter (\<lambda>i. i \<notin> set (steps_list STEP_COMPLETED (rs_events s))) (steps_list STEP_STARTED (rs_events s))))) s"

definition renumber :: "agent_event list \<Rightarrow> agent_event list" where
  "renumber es = map (\<lambda>(i, e). e\<lparr>ev_sequence := i\<rparr>) (zip [1..int (length es)] es)"

definition finish ::
  "'w run_ctx \<Rightarrow> run_status \<Rightarrow> stop_reason \<Rightarrow> string option \<Rightarrow> string option \<Rightarrow> 'w run_state \<Rightarrow> agent_run_result \<times> 'w run_state" where
  "finish c status reason answer err s =
     (let s1 = complete_open_steps c s;
          s2 = (if status = COMPLETED \<and> answer \<noteq> None \<and> \<not> list_ex (\<lambda>e. ev_kind e \<in> {ANSWER, ANSWER_DELTA}) (rs_events s1)
                then append_event c True ((blank_event (cx_run_id c) ANSWER)\<lparr>ev_message := answer\<rparr>) s1 else s1);
          s3 = append_event c True ((blank_event (cx_run_id c) RUN_STOPPED)
                 \<lparr>ev_status := Some status, ev_stop_reason := Some reason, ev_message := err,
                  ev_cumulative_token_usage := Some (st_token_usage (rs_state s2))\<rparr>) s2
      in (\<lparr>ar_run_id = cx_run_id c, ar_status = status, ar_stop_reason = reason, ar_answer = answer,
           ar_state = rs_state s3, ar_events = renumber (filter include_result_event (rs_events s3)),
           ar_token_usage = st_token_usage (rs_state s3), ar_error = err\<rparr>, s3))"

section \<open>How a run ends\<close>

datatype run_end = Ended agent_run_result | Escaped agent_exn

definition end_with ::
  "'w run_ctx \<Rightarrow> run_status \<Rightarrow> stop_reason \<Rightarrow> string option \<Rightarrow> string option \<Rightarrow> 'w run_state \<Rightarrow> run_end \<times> 'w run_state" where
  "end_with c status reason answer err s = (case finish c status reason answer err s of (r, s') \<Rightarrow> (Ended r, s'))"

text \<open>The \<open>except\<close> clauses around the decision and around the streamed answer.\<close>

definition end_exn :: "'w run_ctx \<Rightarrow> agent_exn \<Rightarrow> 'w run_state \<Rightarrow> run_end \<times> 'w run_state" where
  "end_exn c e s =
     (case e of
        TaskCancelled True \<Rightarrow> end_with c RUN_FAILED MODEL_ERROR None (Some agent_quota_failure) s
      | TaskCancelled False \<Rightarrow> end_with c CANCELLED EXTERNAL_CANCELLED None None s
      | QuotaExceeded \<Rightarrow> end_with c RUN_FAILED MODEL_ERROR None (Some agent_quota_failure) s
      | OtherError msg \<Rightarrow> end_with c RUN_FAILED MODEL_ERROR None (Some msg) s
      | ValueError msg \<Rightarrow> end_with c RUN_FAILED MODEL_ERROR None (Some msg) s)"

definition end_stop :: "'w run_ctx \<Rightarrow> stop_reason \<Rightarrow> 'w run_state \<Rightarrow> run_end \<times> 'w run_state" where
  "end_stop c r s = end_with c (status_for r) r None None s"

text \<open>
  The \<open>except\<close> clauses a tool call is under: the ones around \<open>_execute_tool\<close> and the outer ones of the
  run. Any other exception leaves \<open>run\<close>.
\<close>

definition end_tool_exn :: "'w run_ctx \<Rightarrow> agent_exn \<Rightarrow> 'w run_state \<Rightarrow> run_end \<times> 'w run_state" where
  "end_tool_exn c e s =
     (case e of
        TaskCancelled _ \<Rightarrow> end_exn c e s
      | QuotaExceeded \<Rightarrow> end_exn c e s
      | _ \<Rightarrow> (Escaped e, s))"

section \<open>Streaming an answer\<close>

fun consume_chunks ::
  "'w run_ctx \<Rightarrow> int \<Rightarrow> chunk_item wait_end list \<Rightarrow> string list \<Rightarrow> 'w run_state \<Rightarrow> string list controlled \<times> 'w run_state" where
  "consume_chunks c i [] parts s = (Val parts, s)"
| "consume_chunks c i (x # xs) parts s =
     (let s1 = s\<lparr>rs_world := snd (remaining (cx_env c) (cx_deadline c) (rs_world s))\<rparr>
      in case await_controlled x of
           Halted r \<Rightarrow> (Halted r, s1)
         | Exn e \<Rightarrow> (Exn e, s1)
         | Val NotAChunk \<Rightarrow> (Exn (OtherError ''streaming answer returned an invalid chunk''), s1)
         | Val (Chunk t) \<Rightarrow>
             if t = [] then consume_chunks c i xs parts s1
             else consume_chunks c i xs (parts @ [t])
                    (append_event c False ((blank_event (cx_run_id c) ANSWER_DELTA)
                       \<lparr>ev_step_index := Some i, ev_message := Some t\<rparr>) s1))"

definition consume_answer_stream :: "'w run_ctx \<Rightarrow> int \<Rightarrow> 'w run_state \<Rightarrow> string controlled \<times> 'w run_state" where
  "consume_answer_stream c i s =
     (case env_stream (cx_env c) (rs_state s) (rs_world s) of (spec, w) \<Rightarrow>
        (let s0 = s\<lparr>rs_world := w\<rparr>
         in case spec of
              StreamUnavailable \<Rightarrow> (Exn (OtherError ''streaming answer is unavailable''), s0)
            | StreamNotIterable \<Rightarrow> (Exn (OtherError ''streaming answer returned an invalid iterator''), s0)
            | AnswerStream items close_error \<Rightarrow>
                (case consume_chunks c i items [] s0 of (out, s1) \<Rightarrow>
                   (case close_error of
                      Some e \<Rightarrow> (Exn e, s1)
                    | None \<Rightarrow>
                        (case out of
                           Halted r \<Rightarrow> (Halted r, s1)
                         | Exn e \<Rightarrow> (Exn e, s1)
                         | Val parts \<Rightarrow>
                             if parts = [] then (Exn (OtherError ''streaming answer returned no content''), s1)
                             else (Val (concat parts), s1))))))"

section \<open>Tool calls\<close>

definition tool_execution_error :: string where "tool_execution_error = ''tool_execution_failed''"

definition tool_failure_content :: string where
  "tool_failure_content = ''Tool execution failed. [error_code='' @ tool_execution_error @ '']''"

definition execute_tool :: "'w run_ctx \<Rightarrow> int \<Rightarrow> tool_call \<Rightarrow> 'w run_state \<Rightarrow> tool_result controlled \<times> 'w run_state" where
  "execute_tool c i tc s =
     (let env = cx_env c;
          ctx = \<lparr>tc_run_id = cx_run_id c, tc_step_index = i, tc_request_id = st_request_id (rs_state s),
                 tc_metadata = cx_metadata c\<rparr>;
          base = \<lparr>res_call_id = call_id tc, res_name = call_name tc, res_content = [], res_succeeded = False,
                  res_error = None, res_truncated = False, res_cached = False\<rparr>
      in if ru_has_executor (cx_runtime c) then
           (case remaining env (cx_deadline c) (rs_world s) of (timeout_seconds, w1) \<Rightarrow>
            case remaining env (cx_deadline c) w1 of (timeout, w2) \<Rightarrow>
            case env_execute env (call_name tc) (call_arguments tc) ctx timeout_seconds timeout w2 of (out, w3) \<Rightarrow>
              (case await_controlled out of
                 Halted r \<Rightarrow> Halted r
               | Exn e \<Rightarrow> Exn e
               | Val x \<Rightarrow> Val (base\<lparr>res_content := te_output x, res_succeeded := te_succeeded x, res_error := te_error_code x,
                              res_truncated := te_truncated x\<rparr>),
               s\<lparr>rs_world := w3\<rparr>))
         else if call_name tc \<notin> set (ru_tools (cx_runtime c)) then
           (Val (base\<lparr>res_content := ''Requested tool is unavailable.'', res_error := Some ''tool_not_found''\<rparr>), s)
         else
           (case remaining env (cx_deadline c) (rs_world s) of (timeout, w1) \<Rightarrow>
            case env_tool env (call_name tc) (call_arguments tc) ctx timeout w1 of (out, w2) \<Rightarrow>
              (case await_controlled out of
                 Halted r \<Rightarrow> Halted r
               | Exn (TaskCancelled q) \<Rightarrow> Exn (TaskCancelled q)
               | Exn _ \<Rightarrow> Val (base\<lparr>res_content := tool_failure_content, res_error := Some tool_execution_error\<rparr>)
               | Val content \<Rightarrow>
                   (case truncate_tool_output (ru_output_max_chars (cx_runtime c)) content of (safe, was_cut) \<Rightarrow>
                      Val (base\<lparr>res_content := safe, res_succeeded := True, res_truncated := was_cut\<rparr>)),
               s\<lparr>rs_world := w2\<rparr>)))"

text \<open>One call of the inner loop, from \<open>TOOL_STARTED\<close> on: the result, or how the run ends.\<close>

definition call_tool :: "'w run_ctx \<Rightarrow> int \<Rightarrow> tool_call \<Rightarrow> 'w run_state \<Rightarrow> (run_end + tool_result) \<times> 'w run_state" where
  "call_tool c i tc s =
     (let s1 = append_event c True ((blank_event (cx_run_id c) TOOL_STARTED)
                 \<lparr>ev_step_index := Some i, ev_tool_call := Some tc\<rparr>) s
      in case find_cached_tool_result (rs_state s1) tc of
           Some res \<Rightarrow> (Inr (res\<lparr>res_call_id := call_id tc, res_cached := True\<rparr>), s1)
         | None \<Rightarrow>
             (case execute_tool c i tc s1 of
                (Halted r, s2) \<Rightarrow> apfst Inl (end_stop c r s2)
              | (Exn e, s2) \<Rightarrow> apfst Inl (end_tool_exn c e s2)
              | (Val res, s2) \<Rightarrow> (Inr res, s2)))"

definition note_result :: "'w run_ctx \<Rightarrow> int \<Rightarrow> tool_call \<Rightarrow> tool_result \<Rightarrow> 'w run_state \<Rightarrow> 'w run_state" where
  "note_result c i tc res s =
     append_event c True ((blank_event (cx_run_id c) (if res_succeeded res then TOOL_COMPLETED else TOOL_FAILED))
         \<lparr>ev_step_index := Some i, ev_tool_call := Some tc, ev_tool_result := Some res, ev_message := res_error res\<rparr>)
       (s\<lparr>rs_state := (rs_state s)\<lparr>st_messages := st_messages (rs_state s) @
           [\<lparr>am_role = RoleTool, am_content = res_content res, am_tool_call_id = Some (res_call_id res),
             am_tool_name = Some (res_name res)\<rparr>]\<rparr>\<rparr>)"

fun tool_loop ::
  "'w run_ctx \<Rightarrow> int \<Rightarrow> tool_call list \<Rightarrow> tool_result list \<Rightarrow> tool_result option \<Rightarrow> 'w run_state \<Rightarrow>
   (run_end + tool_result list \<times> tool_result option) \<times> 'w run_state" where
  "tool_loop c i [] acc reused s = (Inr (acc, reused), s)"
| "tool_loop c i (tc # tcs) acc reused s =
     (case check_stop c (rs_world s) of
        (Some r, w) \<Rightarrow> apfst Inl (end_stop c r (s\<lparr>rs_world := w\<rparr>))
      | (None, w) \<Rightarrow>
          (case call_tool c i tc (s\<lparr>rs_world := w\<rparr>) of
             (Inl e, s1) \<Rightarrow> (Inl e, s1)
           | (Inr res, s1) \<Rightarrow>
               tool_loop c i tcs (acc @ [res])
                 (if res_cached res \<and> is_calculator tc then Some res else reused)
                 (note_result c i tc res s1)))"

section \<open>One step of the loop\<close>

definition add_step :: "agent_step \<Rightarrow> 'w run_state \<Rightarrow> 'w run_state" where
  "add_step st s = s\<lparr>rs_state := (rs_state s)\<lparr>st_steps := st_steps (rs_state s) @ [st]\<rparr>\<rparr>"

definition step_completed :: "'w run_ctx \<Rightarrow> int \<Rightarrow> 'w run_state \<Rightarrow> 'w run_state" where
  "step_completed c i = append_event c False ((blank_event (cx_run_id c) STEP_COMPLETED)\<lparr>ev_step_index := Some i\<rparr>)"

definition answer_step :: "'w run_ctx \<Rightarrow> int \<Rightarrow> agent_decision \<Rightarrow> string \<Rightarrow> 'w run_state \<Rightarrow> run_end \<times> 'w run_state" where
  "answer_step c i d a s =
     (let streamed = (if cx_stream_answer c then consume_answer_stream c i s else (Val a, s))
      in case streamed of
           (Halted r, s1) \<Rightarrow> end_stop c r s1
         | (Exn e, s1) \<Rightarrow> end_exn c e s1
         | (Val answer, s1) \<Rightarrow>
             (let s2 = s1\<lparr>rs_state := (rs_state s1)\<lparr>st_messages := st_messages (rs_state s1) @
                        [\<lparr>am_role = RoleAssistant, am_content = answer, am_tool_call_id = None, am_tool_name = None\<rparr>]\<rparr>\<rparr>;
                  s3 = (if cx_stream_answer c then s2
                        else append_event c True ((blank_event (cx_run_id c) ANSWER)
                               \<lparr>ev_step_index := Some i, ev_message := Some answer\<rparr>) s2);
                  s4 = step_completed c i (add_step \<lparr>as_index = i, as_decision = d, as_tool_results = []\<rparr> s3)
              in end_with c COMPLETED DIRECT_ANSWER (Some answer) None s4))"

definition tool_step ::
  "'w run_ctx \<Rightarrow> int \<Rightarrow> agent_decision \<Rightarrow> 'w run_state \<Rightarrow> run_end option \<times> 'w run_state" where
  "tool_step c i d s =
     (case tool_loop c i (ad_tool_calls d) [] None s of
        (Inl e, s1) \<Rightarrow> (Some e, s1)
      | (Inr (results, reused), s1) \<Rightarrow>
          (let s2 = step_completed c i (add_step \<lparr>as_index = i, as_decision = d, as_tool_results = results\<rparr> s1)
           in case reused of
                Some res \<Rightarrow>
                  if list_all is_calculator (ad_tool_calls d) \<and> res_succeeded res
                  then apfst Some (end_with c COMPLETED DIRECT_ANSWER (Some (res_content res)) None s2)
                  else (None, s2)
              | None \<Rightarrow> (None, s2)))"

definition over_budget :: "int option \<Rightarrow> int \<Rightarrow> bool" where
  "over_budget budget used = (case budget of None \<Rightarrow> False | Some b \<Rightarrow> b < used)"

definition act_on_decision ::
  "'w run_ctx \<Rightarrow> int \<Rightarrow> agent_decision \<Rightarrow> 'w run_state \<Rightarrow> run_end option \<times> 'w run_state" where
  "act_on_decision c i d s =
     (let usage = st_token_usage (rs_state s) + (case ad_token_usage d of None \<Rightarrow> 0 | Some t \<Rightarrow> t);
          s1 = append_event c True ((blank_event (cx_run_id c) MODEL_DECISION)
                 \<lparr>ev_step_index := Some i, ev_decision := Some d, ev_cumulative_token_usage := Some usage\<rparr>) s
      in case validate_decision d of
           Some reason \<Rightarrow> apfst Some (end_with c RUN_FAILED INVALID_DECISION None (Some reason) s1)
         | None \<Rightarrow>
             (let s2 = s1\<lparr>rs_state := (rs_state s1)\<lparr>st_token_usage := usage\<rparr>\<rparr>
              in if over_budget (cx_token_budget c) usage then
                   apfst Some (end_with c STOPPED TOKEN_BUDGET_EXCEEDED None None
                     (step_completed c i (add_step \<lparr>as_index = i, as_decision = d, as_tool_results = []\<rparr> s2)))
                 else
                   (case ad_answer d of
                      Some a \<Rightarrow> apfst Some (answer_step c i d a s2)
                    | None \<Rightarrow>
                        if cx_token_budget c \<noteq> None \<and> ad_tool_calls d \<noteq> [] \<and> \<not> ad_usage_complete d then
                          apfst Some (end_with c STOPPED TOKEN_BUDGET_EXCEEDED None None
                            (add_step \<lparr>as_index = i, as_decision = d, as_tool_results = []\<rparr> s2))
                        else tool_step c i d s2)))"

definition run_step :: "'w run_ctx \<Rightarrow> 'w run_state \<Rightarrow> run_end option \<times> 'w run_state" where
  "run_step c s =
     (case check_stop c (rs_world s) of
        (Some r, w) \<Rightarrow> apfst Some (end_stop c r (s\<lparr>rs_world := w\<rparr>))
      | (None, w) \<Rightarrow>
          (let s0 = s\<lparr>rs_world := w\<rparr>
           in if (case cx_token_budget c of None \<Rightarrow> False | Some b \<Rightarrow> 0 < b \<and> b \<le> st_token_usage (rs_state s0))
              then apfst Some (end_with c STOPPED TOKEN_BUDGET_EXCEEDED None None s0)
              else
                (let i = int (length (st_steps (rs_state s0))) + 1;
                     s1 = append_event c False ((blank_event (cx_run_id c) STEP_STARTED)\<lparr>ev_step_index := Some i\<rparr>) s0
                 in case remaining (cx_env c) (cx_deadline c) (rs_world s1) of (timeout, w1) \<Rightarrow>
                    case env_decide (cx_env c) (rs_state s1) timeout w1 of (out, w2) \<Rightarrow>
                      (let s2 = s1\<lparr>rs_world := w2\<rparr>
                       in case await_controlled out of
                            Halted r \<Rightarrow> apfst Some (end_stop c r s2)
                          | Exn e \<Rightarrow> apfst Some (end_exn c e s2)
                          | Val d \<Rightarrow> act_on_decision c i d s2))))"

section \<open>The run\<close>

fun run_loop :: "'w run_ctx \<Rightarrow> nat \<Rightarrow> 'w run_state \<Rightarrow> run_end \<times> 'w run_state" where
  "run_loop c 0 s =
     (case last_calculator_result (rs_state s) of
        Some a \<Rightarrow> end_with c COMPLETED DIRECT_ANSWER (Some a) None s
      | None \<Rightarrow> end_with c STOPPED MAX_STEPS None None s)"
| "run_loop c (Suc n) s =
     (case run_step c s of
        (Some e, s1) \<Rightarrow> (e, s1)
      | (None, s1) \<Rightarrow> run_loop c n s1)"

record run_args =
  ra_user_input :: string
  ra_max_steps :: int
  ra_timeout :: "real option"
  ra_deadline :: "real option"
  ra_has_cancel :: bool
  ra_token_budget :: "int option"
  ra_run_id :: "string option"
  ra_request_id :: "string option"
  ra_stream_answer :: bool
  ra_metadata :: "(string, pyval) pydict"

definition run_arguments_error :: "run_args \<Rightarrow> string option" where
  "run_arguments_error a =
     (if blank_text (ra_user_input a) then Some ''user_input must not be empty''
      else if ra_max_steps a < 1 then Some ''max_steps must be greater than zero''
      else if (case ra_timeout a of None \<Rightarrow> False | Some t \<Rightarrow> t < 0) then Some ''timeout must not be negative''
      else if (case ra_token_budget a of None \<Rightarrow> False | Some b \<Rightarrow> b < 0) then Some ''token_budget must not be negative''
      else None)"

definition start_run :: "'w runtime \<Rightarrow> run_args \<Rightarrow> 'w \<Rightarrow> 'w run_ctx \<times> 'w run_state" where
  "start_run rt a w =
     (let idw = (case ra_run_id a of Some r \<Rightarrow> if r = [] then env_uuid (ru_env rt) w else (r, w) | None \<Rightarrow> env_uuid (ru_env rt) w);
          rid = fst idw;
          c0 = \<lparr>cx_runtime = rt, cx_run_id = rid, cx_deadline = None, cx_has_cancel = ra_has_cancel a,
                cx_token_budget = ra_token_budget a, cx_stream_answer = ra_stream_answer a, cx_metadata = ra_metadata a\<rparr>;
          st = \<lparr>st_run_id = rid, st_user_input = ra_user_input a,
                st_messages = [\<lparr>am_role = RoleUser, am_content = ra_user_input a, am_tool_call_id = None, am_tool_name = None\<rparr>],
                st_steps = [], st_token_usage = 0, st_request_id = ra_request_id a\<rparr>;
          s1 = append_event c0 True ((blank_event rid RUN_STARTED)\<lparr>ev_message := Some (ra_user_input a)\<rparr>)
                 \<lparr>rs_state = st, rs_events = [], rs_recorded = [], rs_world = snd idw\<rparr>
      in case env_time (ru_env rt) (rs_world s1) of (now, w1) \<Rightarrow>
           (c0\<lparr>cx_deadline := resolve_deadline now (ra_timeout a) (ra_deadline a)\<rparr>, s1\<lparr>rs_world := w1\<rparr>))"

definition run :: "'w runtime \<Rightarrow> run_args \<Rightarrow> 'w \<Rightarrow> run_end \<times> 'w run_state option" where
  "run rt a w =
     (case run_arguments_error a of
        Some msg \<Rightarrow> (Escaped (ValueError msg), None)
      | None \<Rightarrow>
          (case start_run rt a w of (c, s) \<Rightarrow>
             apsnd Some (run_loop c (nat (ra_max_steps a)) s)))"

end
