(* ===== verification/AgentRuns.thy ===== *)
theory AgentRuns
  imports AgentRuntime
begin

text \<open>
  What a run of the agent runtime guarantees, whatever the model, the tools, the clocks and the cancel
  event do: the event log is numbered without gaps and ends in exactly one terminal event, every step
  that started is completed, the number of steps is bounded, status and stop reason agree, the token
  budget is kept, tool results are cached and bounded, and only a raising tool executor can make \<open>run\<close>
  raise.
\<close>

section \<open>The log\<close>

definition numbered :: "agent_event list \<Rightarrow> bool" where
  "numbered es \<longleftrightarrow> map ev_sequence es = [1..int (length es)]"

definition timely :: "agent_event list \<Rightarrow> bool" where
  "timely es \<longleftrightarrow> sorted (map ev_occurred_at es)"

text \<open>The log while a run goes on: \<open>n\<close> steps started, \<open>m\<close> completed, not stopped.\<close>

definition log_inv :: "int \<Rightarrow> int \<Rightarrow> agent_event list \<Rightarrow> bool" where
  "log_inv n m es \<longleftrightarrow> es \<noteq> [] \<and> numbered es \<and> timely es \<and> ev_kind (hd es) = RUN_STARTED \<and>
     (\<forall>e \<in> set es. ev_kind e \<noteq> RUN_STOPPED) \<and>
     steps_list STEP_STARTED es = [1..n] \<and> steps_list STEP_COMPLETED es = [1..m]"

text \<open>The log of a run that has ended with a status and a reason.\<close>

definition log_final :: "int \<Rightarrow> run_status \<Rightarrow> stop_reason \<Rightarrow> agent_event list \<Rightarrow> bool" where
  "log_final n status reason es \<longleftrightarrow> numbered es \<and> timely es \<and> ev_kind (hd es) = RUN_STARTED \<and>
     (\<exists>pre e. es = pre @ [e] \<and> (\<forall>x \<in> set pre. ev_kind x \<noteq> RUN_STOPPED) \<and> ev_kind e = RUN_STOPPED \<and>
        ev_status e = Some status \<and> ev_stop_reason e = Some reason) \<and>
     steps_list STEP_STARTED es = [1..n] \<and> steps_list STEP_COMPLETED es = [1..n]"

lemma upto_snoc: "0 \<le> n \<Longrightarrow> [1..n + 1] = [1..n] @ [n + 1]" for n :: int
  using upto_rec2 [of 1 "n + 1"] by simp

lemma numbered_last: "numbered es \<Longrightarrow> es \<noteq> [] \<Longrightarrow> ev_sequence (last es) = int (length es)"
proof -
  assume a: "numbered es" "es \<noteq> []"
  then have "ev_sequence (last es) = last [1..int (length es)]" using last_map [OF a(2), of ev_sequence] by (simp add: numbered_def)
  also have "\<dots> = int (length es)" using a(2) upto_rec2 [of 1 "int (length es)"] by (cases es) auto
  finally show ?thesis .
qed

lemma append_event_frame [simp]:
  "rs_state (append_event c b e s) = rs_state s"
  by (simp add: append_event_def Let_def split: prod.splits)

lemma append_event_log:
  "\<exists>x. rs_events (append_event c b e s) = rs_events s @ [x] \<and> ev_kind x = ev_kind e \<and> ev_step_index x = ev_step_index e \<and>
     ev_status x = ev_status e \<and> ev_stop_reason x = ev_stop_reason e \<and>
     (if rs_events s = [] then ev_sequence x = 1 else ev_sequence x = ev_sequence (last (rs_events s)) + 1 \<and>
        ev_occurred_at (last (rs_events s)) \<le> ev_occurred_at x)"
proof (cases "rs_events s = []")
  case True
  then show ?thesis by (simp add: append_event_def Let_def split_def)
next
  case False
  then show ?thesis by (simp add: append_event_def Let_def split_def)
qed

lemma numbered_snoc:
  assumes "numbered es" and "es \<noteq> []" and "ev_sequence x = ev_sequence (last es) + 1"
  shows "numbered (es @ [x])"
  using assms numbered_last [OF assms(1,2)] upto_snoc [of "int (length es)"] by (simp add: numbered_def add.commute)

lemma sorted_snoc_last:
  "sorted (map f es) \<Longrightarrow> es \<noteq> [] \<Longrightarrow> f (last es) \<le> f x \<Longrightarrow> sorted (map f (es @ [x]))" for f :: "'a \<Rightarrow> 'b :: linorder"
proof (induction es)
  case (Cons a es)
  then show ?case by (cases "es = []") (auto intro: order_trans)
qed simp

lemma steps_list_append [simp]: "steps_list k (xs @ ys) = steps_list k xs @ steps_list k ys"
  by (simp add: steps_list_def List.map_filter_def)

lemma steps_list_single:
  "steps_list k [x] = (if ev_kind x = k then (case ev_step_index x of None \<Rightarrow> [] | Some i \<Rightarrow> [i]) else [])"
  by (auto simp: steps_list_def List.map_filter_def split: option.splits)

lemma log_inv_append:
  assumes "log_inv n m (rs_events s)" and "ev_kind e \<noteq> RUN_STOPPED"
    and "ev_kind e = STEP_STARTED \<Longrightarrow> ev_step_index e = Some (n + 1) \<and> 0 \<le> n"
    and "ev_kind e = STEP_COMPLETED \<Longrightarrow> ev_step_index e = Some (m + 1) \<and> 0 \<le> m"
  shows "log_inv (if ev_kind e = STEP_STARTED then n + 1 else n) (if ev_kind e = STEP_COMPLETED then m + 1 else m)
    (rs_events (append_event c b e s))"
proof -
  obtain x where x: "rs_events (append_event c b e s) = rs_events s @ [x]" "ev_kind x = ev_kind e"
    "ev_step_index x = ev_step_index e" "ev_sequence x = ev_sequence (last (rs_events s)) + 1"
    "ev_occurred_at (last (rs_events s)) \<le> ev_occurred_at x"
    using append_event_log [of c b e s] assms(1) by (auto simp: log_inv_def)
  have "numbered (rs_events s @ [x])" "timely (rs_events s @ [x])"
    using numbered_snoc x(4) sorted_snoc_last x(5) assms(1) by (auto simp: log_inv_def timely_def)
  moreover have "steps_list STEP_STARTED (rs_events s @ [x]) = [1..if ev_kind e = STEP_STARTED then n + 1 else n]"
    "steps_list STEP_COMPLETED (rs_events s @ [x]) = [1..if ev_kind e = STEP_COMPLETED then m + 1 else m]"
    using assms x(2,3) upto_snoc by (auto simp: log_inv_def steps_list_single)
  ultimately show ?thesis using assms(1,2) x(1,2) by (auto simp: log_inv_def)
qed

lemma log_inv_other:
  assumes "log_inv n m (rs_events s)" and "ev_kind e \<notin> {RUN_STOPPED, STEP_STARTED, STEP_COMPLETED}"
  shows "log_inv n m (rs_events (append_event c b e s))"
  using log_inv_append [OF assms(1), of e c b] assms(2) by simp

lemma log_inv_started:
  assumes "log_inv n m (rs_events s)" and "0 \<le> n"
  shows "log_inv (n + 1) m (rs_events (append_event c b ((blank_event r STEP_STARTED)\<lparr>ev_step_index := Some (n + 1)\<rparr>) s))"
  using log_inv_append [OF assms(1), of "(blank_event r STEP_STARTED)\<lparr>ev_step_index := Some (n + 1)\<rparr>" c b] assms(2)
  by (simp add: blank_event_def)

lemma log_inv_completed:
  assumes "log_inv n m (rs_events s)" and "0 \<le> m"
  shows "log_inv n (m + 1) (rs_events (append_event c b ((blank_event r STEP_COMPLETED)\<lparr>ev_step_index := Some (m + 1)\<rparr>) s))"
  using log_inv_append [OF assms(1), of "(blank_event r STEP_COMPLETED)\<lparr>ev_step_index := Some (m + 1)\<rparr>" c b] assms(2)
  by (simp add: blank_event_def)

section \<open>Finishing\<close>

text \<open>Between two steps as many have completed as started; within a step one less, or it is completed already.\<close>

definition mid_log :: "int \<Rightarrow> agent_event list \<Rightarrow> bool" where
  "mid_log n es \<longleftrightarrow> 0 \<le> n \<and> (log_inv n n es \<or> (0 < n \<and> log_inv n (n - 1) es))"

lemma open_steps:
  assumes "mid_log n (rs_events s)"
  shows "log_inv n n (rs_events (complete_open_steps c s)) \<and> rs_state (complete_open_steps c s) = rs_state s"
proof (cases "log_inv n n (rs_events s)")
  case True
  then have "filter (\<lambda>i. i \<notin> set (steps_list STEP_COMPLETED (rs_events s))) (steps_list STEP_STARTED (rs_events s)) = []"
    by (simp add: log_inv_def)
  then show ?thesis using True by (simp add: complete_open_steps_def)
next
  case False
  then have n: "0 < n" and l: "log_inv n (n - 1) (rs_events s)" using assms by (auto simp: mid_log_def)
  have "[1..n] = [1..n - 1] @ [n]" using n upto_snoc [of "n - 1"] by simp
  then have "filter (\<lambda>i. i \<notin> set (steps_list STEP_COMPLETED (rs_events s))) (steps_list STEP_STARTED (rs_events s)) = [n]"
    using l by (auto simp: log_inv_def filter_empty_conv)
  then show ?thesis using log_inv_completed [OF l, of c False "cx_run_id c"] n by (simp add: complete_open_steps_def)
qed

lemma log_final_append:
  assumes "log_inv n n (rs_events s)" and "ev_kind e = RUN_STOPPED" and "ev_status e = Some status" and "ev_stop_reason e = Some reason"
  shows "log_final n status reason (rs_events (append_event c b e s))"
proof -
  obtain x where x: "rs_events (append_event c b e s) = rs_events s @ [x]" "ev_kind x = RUN_STOPPED"
    "ev_status x = Some status" "ev_stop_reason x = Some reason" "ev_sequence x = ev_sequence (last (rs_events s)) + 1"
    "ev_occurred_at (last (rs_events s)) \<le> ev_occurred_at x"
    using append_event_log [of c b e s] assms by (auto simp: log_inv_def)
  have "numbered (rs_events s @ [x])" "timely (rs_events s @ [x])"
    using numbered_snoc x(5) sorted_snoc_last x(6) assms(1) by (auto simp: log_inv_def timely_def)
  then show ?thesis using assms(1) x(1-4)
    by (auto simp: log_final_def log_inv_def steps_list_single)
qed

definition answered :: "agent_event list \<Rightarrow> bool" where
  "answered es \<longleftrightarrow> (\<exists>e \<in> set es. ev_kind e \<in> {ANSWER, ANSWER_DELTA})"

text \<open>The result of \<open>_finish\<close>.\<close>

definition finished_ok :: "int \<Rightarrow> run_status \<Rightarrow> stop_reason \<Rightarrow> string option \<Rightarrow> string option \<Rightarrow> agent_state \<Rightarrow> run_end \<times> 'w run_state \<Rightarrow> bool" where
  "finished_ok n status reason answer err st x \<longleftrightarrow>
     (\<exists>r. fst x = Ended r \<and> ar_status r = status \<and> ar_stop_reason r = reason \<and> ar_answer r = answer \<and> ar_error r = err \<and>
        ar_state r = st \<and> rs_state (snd x) = st \<and> ar_token_usage r = st_token_usage st \<and>
        ar_events r = renumber (filter include_result_event (rs_events (snd x))) \<and>
        log_final n status reason (rs_events (snd x)) \<and> (status = COMPLETED \<and> answer \<noteq> None \<longrightarrow> answered (rs_events (snd x))))"

lemma end_with_ok:
  assumes "mid_log n (rs_events s)"
  shows "finished_ok n status reason answer err (rs_state s) (end_with c status reason answer err s)"
proof -
  let ?s1 = "complete_open_steps c s"
  define s2 where "s2 = (if status = COMPLETED \<and> answer \<noteq> None \<and> \<not> list_ex (\<lambda>e. ev_kind e \<in> {ANSWER, ANSWER_DELTA}) (rs_events ?s1)
      then append_event c True ((blank_event (cx_run_id c) ANSWER)\<lparr>ev_message := answer\<rparr>) ?s1 else ?s1)"
  define e where "e = (blank_event (cx_run_id c) RUN_STOPPED)\<lparr>ev_status := Some status, ev_stop_reason := Some reason,
      ev_message := err, ev_cumulative_token_usage := Some (st_token_usage (rs_state s2))\<rparr>"
  have o: "log_inv n n (rs_events ?s1)" "rs_state ?s1 = rs_state s" using open_steps [OF assms] by simp_all
  have l2: "log_inv n n (rs_events s2)" and st: "rs_state s2 = rs_state s"
    using log_inv_other [OF o(1)] o by (auto simp: s2_def blank_event_def)
  have "log_final n status reason (rs_events (append_event c True e s2))"
    by (rule log_final_append [OF l2]) (simp_all add: e_def blank_event_def)
  moreover have "answered (rs_events (append_event c True e s2))" if "status = COMPLETED" "answer \<noteq> None"
  proof -
    have "answered (rs_events s2)"
      using that append_event_log [of c True "(blank_event (cx_run_id c) ANSWER)\<lparr>ev_message := answer\<rparr>" ?s1]
      by (auto simp: s2_def answered_def list_ex_iff blank_event_def)
    then show ?thesis using append_event_log [of c True e s2] by (auto simp: answered_def)
  qed
  moreover have "end_with c status reason answer err s =
      (Ended \<lparr>ar_run_id = cx_run_id c, ar_status = status, ar_stop_reason = reason, ar_answer = answer,
           ar_state = rs_state (append_event c True e s2),
           ar_events = renumber (filter include_result_event (rs_events (append_event c True e s2))),
           ar_token_usage = st_token_usage (rs_state (append_event c True e s2)), ar_error = err\<rparr>, append_event c True e s2)"
    unfolding end_with_def finish_def Let_def s2_def [symmetric] e_def [symmetric] by simp
  ultimately show ?thesis by (auto simp: finished_ok_def st)
qed

section \<open>What a result says\<close>

definition consistent :: "run_status \<Rightarrow> stop_reason \<Rightarrow> string option \<Rightarrow> string option \<Rightarrow> bool" where
  "consistent status reason answer err \<longleftrightarrow>
     (reason = DIRECT_ANSWER \<longleftrightarrow> status = COMPLETED) \<and> (status = COMPLETED \<longleftrightarrow> answer \<noteq> None) \<and>
     (reason \<noteq> DIRECT_ANSWER \<longrightarrow> status = status_for reason) \<and> (status = RUN_FAILED \<longleftrightarrow> err \<noteq> None)"

definition budget_kept :: "'w run_ctx \<Rightarrow> agent_state \<Rightarrow> bool" where
  "budget_kept c st \<longleftrightarrow> (case cx_token_budget c of None \<Rightarrow> True | Some b \<Rightarrow> st_token_usage st \<le> b)"

definition output_bounded :: "'w run_ctx \<Rightarrow> tool_result \<Rightarrow> bool" where
  "output_bounded c res \<longleftrightarrow>
     (\<not> ru_has_executor (cx_runtime c) \<and> 0 \<le> ru_output_max_chars (cx_runtime c) \<and> res_succeeded res \<longrightarrow>
        int (length (res_content res)) \<le> ru_output_max_chars (cx_runtime c))"

text \<open>
  The result of a call in a step, given the steps before it: reused when an earlier step has a succeeded
  result of the same call, and only then.
\<close>

definition result_ok :: "'w run_ctx \<Rightarrow> agent_step list \<Rightarrow> agent_state \<Rightarrow> tool_call \<Rightarrow> tool_result \<Rightarrow> bool" where
  "result_ok c before st tc res \<longleftrightarrow> output_bounded c res \<and> res_call_id res = call_id tc \<and>
     (case find_cached_tool_result (st\<lparr>st_steps := before\<rparr>) tc of
        Some old \<Rightarrow> res = old\<lparr>res_call_id := call_id tc, res_cached := True\<rparr>
      | None \<Rightarrow> \<not> res_cached res \<and> res_name res = call_name tc)"

definition tools_ok :: "'w run_ctx \<Rightarrow> agent_state \<Rightarrow> bool" where
  "tools_ok c st \<longleftrightarrow> (\<forall>xs s ys. st_steps st = xs @ s # ys \<longrightarrow>
     as_tool_results s = [] \<or> list_all2 (result_ok c xs st) (ad_tool_calls (as_decision s)) (as_tool_results s))"

text \<open>The tool executor raised \<open>e\<close> in a call after which the world is \<open>w'\<close>.\<close>

definition executor_raised :: "'w agent_env \<Rightarrow> agent_exn \<Rightarrow> 'w \<Rightarrow> bool" where
  "executor_raised env e w' \<longleftrightarrow> (\<exists>(tc :: tool_call) ctx timeout_seconds timeout w.
     env_execute env (call_name tc) (call_arguments tc) ctx timeout_seconds timeout w = (OperationDone (OpError e), w'))"

definition ended_ok :: "'w run_ctx \<Rightarrow> int \<Rightarrow> run_end \<times> 'w run_state \<Rightarrow> bool" where
  "ended_ok c N x \<longleftrightarrow>
     (case fst x of
        Escaped e \<Rightarrow> ru_has_executor (cx_runtime c) \<and> (\<exists>msg. e = OtherError msg \<or> e = ValueError msg) \<and>
          executor_raised (cx_env c) e (rs_world (snd x))
      | Ended r \<Rightarrow> (\<exists>n. 0 \<le> n \<and> n \<le> N \<and>
          finished_ok n (ar_status r) (ar_stop_reason r) (ar_answer r) (ar_error r) (ar_state r) x) \<and>
          consistent (ar_status r) (ar_stop_reason r) (ar_answer r) (ar_error r) \<and>
          (ar_stop_reason r \<noteq> TOKEN_BUDGET_EXCEEDED \<longrightarrow> budget_kept c (ar_state r)) \<and> tools_ok c (ar_state r))"

lemma result_ok_cong: "result_ok c before (st\<lparr>st_steps := a, st_messages := b, st_token_usage := u\<rparr>) = result_ok c before st"
  by (simp add: result_ok_def find_cached_tool_result_def fun_eq_iff)

lemma result_ok_any: "result_ok c before st tc res \<longleftrightarrow> result_ok c before st' tc res"
  by (simp add: result_ok_def find_cached_tool_result_def)

lemma tools_ok_steps: "st_steps st = st_steps st' \<Longrightarrow> tools_ok c st \<longleftrightarrow> tools_ok c st'"
  unfolding tools_ok_def using result_ok_any [of c _ st _ _ st'] by (simp add: list_all2_conv_all_nth)

lemma ended_end_with:
  assumes "mid_log n (rs_events s)" and "n \<le> N" and "consistent status reason answer err"
    and "reason \<noteq> TOKEN_BUDGET_EXCEEDED \<Longrightarrow> budget_kept c (rs_state s)" and "tools_ok c (rs_state s)"
  shows "ended_ok c N (end_with c status reason answer err s)"
proof -
  have f: "finished_ok n status reason answer err (rs_state s) (end_with c status reason answer err s)"
    by (rule end_with_ok [OF assms(1)])
  then obtain r where r: "fst (end_with c status reason answer err s) = Ended r" "ar_status r = status" "ar_stop_reason r = reason"
    "ar_answer r = answer" "ar_error r = err" "ar_state r = rs_state s"
    by (auto simp: finished_ok_def)
  have "0 \<le> n" using assms(1) by (simp add: mid_log_def)
  then show ?thesis using f r assms(2-5) by (auto simp: ended_ok_def)
qed

lemma status_for_consistent: "r \<in> {DEADLINE_EXCEEDED, EXTERNAL_CANCELLED} \<Longrightarrow> consistent (status_for r) r None None"
  by (auto simp: consistent_def status_for_def)

lemma ended_end_stop:
  assumes "mid_log n (rs_events s)" and "n \<le> N" and "r \<in> {DEADLINE_EXCEEDED, EXTERNAL_CANCELLED}"
    and "budget_kept c (rs_state s)" and "tools_ok c (rs_state s)"
  shows "ended_ok c N (end_stop c r s)"
  unfolding end_stop_def by (rule ended_end_with [OF assms(1,2) status_for_consistent [OF assms(3)]]) (use assms in auto)

lemma ended_end_exn:
  assumes "mid_log n (rs_events s)" and "n \<le> N" and "budget_kept c (rs_state s)" and "tools_ok c (rs_state s)"
  shows "ended_ok c N (end_exn c e s)"
proof -
  have "ended_ok c N (end_with c RUN_FAILED MODEL_ERROR None (Some msg) s)" for msg
    by (rule ended_end_with [OF assms(1,2)]) (use assms in \<open>auto simp: consistent_def status_for_def\<close>)
  moreover have "ended_ok c N (end_with c CANCELLED EXTERNAL_CANCELLED None None s)"
    by (rule ended_end_with [OF assms(1,2)]) (use assms in \<open>auto simp: consistent_def status_for_def\<close>)
  ultimately show ?thesis by (simp add: end_exn_def split: agent_exn.splits bool.splits)
qed

lemma ended_end_tool_exn:
  assumes "mid_log n (rs_events s)" and "n \<le> N" and "budget_kept c (rs_state s)" and "tools_ok c (rs_state s)"
    and "e \<in> {QuotaExceeded, TaskCancelled True, TaskCancelled False} \<or>
      ru_has_executor (cx_runtime c) \<and> executor_raised (cx_env c) e (rs_world s)"
  shows "ended_ok c N (end_tool_exn c e s)"
  using ended_end_exn [OF assms(1-4)] assms(5) by (auto simp: end_tool_exn_def ended_ok_def split: agent_exn.splits)

lemma await_halted: "await_controlled w = Halted r \<Longrightarrow> r \<in> {DEADLINE_EXCEEDED, EXTERNAL_CANCELLED}"
  by (auto simp: await_controlled_def split: wait_end.splits op_end.splits)

lemma await_raises: "await_controlled w = Exn e \<Longrightarrow> w = OperationDone (OpError e) \<or> e \<in> {TaskCancelled True, TaskCancelled False}"
  by (auto simp: await_controlled_def split: wait_end.splits op_end.splits)

lemma check_stop_reason: "check_stop c w = (Some r, w') \<Longrightarrow> r \<in> {DEADLINE_EXCEEDED, EXTERNAL_CANCELLED}"
  by (auto simp: check_stop_def Let_def split: if_splits option.splits prod.splits)

section \<open>Tool calls\<close>

lemma truncate_tool_output_bound:
  "0 \<le> n \<Longrightarrow> int (length (fst (truncate_tool_output n content))) \<le> n"
  by (auto simp: truncate_tool_output_def tool_output_marker_def Let_def min_def)

lemma execute_tool_ok:
  assumes "execute_tool c i tc s = (out, s')"
  shows "rs_events s' = rs_events s \<and> rs_state s' = rs_state s \<and>
    (case out of
       Halted r \<Rightarrow> r \<in> {DEADLINE_EXCEEDED, EXTERNAL_CANCELLED}
     | Exn e \<Rightarrow> e \<in> {QuotaExceeded, TaskCancelled True, TaskCancelled False} \<or>
         ru_has_executor (cx_runtime c) \<and> executor_raised (cx_env c) e (rs_world s')
     | Val res \<Rightarrow> \<not> res_cached res \<and> res_call_id res = call_id tc \<and> res_name res = call_name tc \<and> output_bounded c res)"
proof (cases "ru_has_executor (cx_runtime c)")
  case True
  define ctx where "ctx = \<lparr>tc_run_id = cx_run_id c, tc_step_index = i, tc_request_id = st_request_id (rs_state s),
      tc_metadata = cx_metadata c\<rparr>"
  obtain t1 w1 where t1: "remaining (cx_env c) (cx_deadline c) (rs_world s) = (t1, w1)" by (meson surj_pair)
  obtain t2 w2 where t2: "remaining (cx_env c) (cx_deadline c) w1 = (t2, w2)" by (meson surj_pair)
  obtain o2 w3 where x: "env_execute (cx_env c) (call_name tc) (call_arguments tc) ctx t1 t2 w2 = (o2, w3)" by (meson surj_pair)
  from assms True t1 t2 x have s': "s' = s\<lparr>rs_world := w3\<rparr>" by (simp add: execute_tool_def Let_def ctx_def)
  show ?thesis
  proof (cases "await_controlled o2")
    case (Exn e)
    with assms True t1 t2 x have "out = Exn e" by (simp add: execute_tool_def Let_def ctx_def)
    moreover have "e \<in> {QuotaExceeded, TaskCancelled True, TaskCancelled False} \<or> executor_raised (cx_env c) e w3"
      using await_raises [OF Exn] x unfolding executor_raised_def by blast
    ultimately show ?thesis using True s' by auto
  next
    case (Halted r)
    with assms True t1 t2 x s' await_halted [OF Halted] show ?thesis by (auto simp: execute_tool_def Let_def ctx_def)
  next
    case (Val y)
    with assms True t1 t2 x s' show ?thesis by (auto simp: execute_tool_def Let_def ctx_def output_bounded_def)
  qed
next
  case False
  show ?thesis
  proof (cases "call_name tc \<in> set (ru_tools (cx_runtime c))")
    case True
    obtain timeout w1 where r: "remaining (cx_env c) (cx_deadline c) (rs_world s) = (timeout, w1)" by (meson surj_pair)
    define ctx where "ctx = \<lparr>tc_run_id = cx_run_id c, tc_step_index = i, tc_request_id = st_request_id (rs_state s),
        tc_metadata = cx_metadata c\<rparr>"
    obtain o2 w2 where t: "env_tool (cx_env c) (call_name tc) (call_arguments tc) ctx timeout w1 = (o2, w2)"
      by (meson surj_pair)
    from assms False True r t have s': "s' = s\<lparr>rs_world := w2\<rparr>" by (simp add: execute_tool_def Let_def ctx_def)
    show ?thesis
    proof (cases "await_controlled o2")
      case (Val content)
      with assms False True r t s' truncate_tool_output_bound [of "ru_output_max_chars (cx_runtime c)" content] show ?thesis
        by (auto simp: execute_tool_def Let_def ctx_def output_bounded_def split: prod.splits)
    next
      case (Halted r)
      with assms False True \<open>remaining _ _ _ = _\<close> t s' await_halted [OF Halted] show ?thesis
        by (auto simp: execute_tool_def Let_def ctx_def)
    next
      case (Exn e)
      with assms False True r t s' show ?thesis
        by (cases e) (auto simp: execute_tool_def Let_def ctx_def output_bounded_def)
    qed
  next
    case False
    then show ?thesis using assms \<open>\<not> ru_has_executor _\<close> by (auto simp: execute_tool_def Let_def output_bounded_def)
  qed
qed

definition in_step :: "'w run_ctx \<Rightarrow> int \<Rightarrow> 'w run_state \<Rightarrow> bool" where
  "in_step c n s \<longleftrightarrow> 0 < n \<and> log_inv n (n - 1) (rs_events s) \<and> budget_kept c (rs_state s) \<and> tools_ok c (rs_state s)"

lemma in_step_mid: "in_step c n s \<Longrightarrow> mid_log n (rs_events s)"
  by (simp add: in_step_def mid_log_def)

lemma in_step_world [simp]: "in_step c n (s\<lparr>rs_world := w\<rparr>) = in_step c n s"
  by (simp add: in_step_def)

lemma in_step_event:
  assumes "in_step c n s" and "ev_kind e \<notin> {RUN_STOPPED, STEP_STARTED, STEP_COMPLETED}"
  shows "in_step c n (append_event c b e s)"
  using assms log_inv_other [of n "n - 1" s e c b] by (simp add: in_step_def)

lemma in_step_messages:
  "in_step c n (s\<lparr>rs_state := (rs_state s)\<lparr>st_messages := ms\<rparr>\<rparr>) = in_step c n s"
  using tools_ok_steps [of "(rs_state s)\<lparr>st_messages := ms\<rparr>" "rs_state s" c]
  by (simp add: in_step_def budget_kept_def split: option.splits)

lemma in_step_stop:
  assumes "in_step c n s" and "n \<le> N" and "r \<in> {DEADLINE_EXCEEDED, EXTERNAL_CANCELLED}"
  shows "ended_ok c N (end_stop c r s)"
  using ended_end_stop [OF in_step_mid [OF assms(1)] assms(2,3)] assms(1) by (simp add: in_step_def)

lemma in_step_exn:
  assumes "in_step c n s" and "n \<le> N"
  shows "ended_ok c N (end_exn c e s)"
  using ended_end_exn [OF in_step_mid [OF assms(1)] assms(2)] assms(1) by (simp add: in_step_def)

text \<open>
  What a reused result must be, without reference to how it is found: the succeeded result of an earlier step to a call
  of the same name and with arguments of the same canonical JSON text.
\<close>

definition same_call :: "tool_call \<Rightarrow> tool_call \<Rightarrow> bool" where
  "same_call a b \<longleftrightarrow> call_name a = call_name b \<and> dump_json (PDict (call_arguments a)) = dump_json (PDict (call_arguments b))"

definition earlier_success :: "agent_step list \<Rightarrow> tool_call \<Rightarrow> tool_result \<Rightarrow> bool" where
  "earlier_success before tc old \<longleftrightarrow> (\<exists>prev \<in> set before. \<exists>call.
     (call, old) \<in> set (zip (ad_tool_calls (as_decision prev)) (as_tool_results prev)) \<and> res_succeeded old \<and> same_call call tc)"

lemma fingerprint_iff: "tool_call_fingerprint a = tool_call_fingerprint b \<longleftrightarrow> same_call a b"
proof
  show "tool_call_fingerprint a = tool_call_fingerprint b \<Longrightarrow> same_call a b"
    unfolding tool_call_fingerprint_def same_call_def by (rule dump_call_inj)
  show "same_call a b \<Longrightarrow> tool_call_fingerprint a = tool_call_fingerprint b"
    unfolding tool_call_fingerprint_def same_call_def dump_call_text by simp
qed

lemma find_cached_Some: "find_cached_tool_result st tc = Some old \<Longrightarrow> earlier_success (st_steps st) tc old"
  by (force simp: find_cached_tool_result_def earlier_success_def find_Some_iff fingerprint_iff dest: nth_mem)

lemma find_cached_None: "find_cached_tool_result st tc = None \<Longrightarrow> \<not> earlier_success (st_steps st) tc old"
  by (auto simp: find_cached_tool_result_def earlier_success_def find_None_iff fingerprint_iff)

text \<open>Every result in the steps is bounded, so a reused one is.\<close>

lemma find_cached_bounded:
  assumes "tools_ok c st" and "find_cached_tool_result st tc = Some old"
  shows "output_bounded c old"
proof -
  from assms(2) obtain st' tc' where s: "st' \<in> set (st_steps st)" "(tc', old) \<in> set (zip (ad_tool_calls (as_decision st')) (as_tool_results st'))"
    by (auto simp: find_cached_tool_result_def find_Some_iff dest!: nth_mem)
  obtain xs ys where d: "st_steps st = xs @ st' # ys" using s(1) by (meson split_list)
  have "as_tool_results st' \<noteq> []" using s(2) by (auto dest: set_zip_rightD)
  then have l: "list_all2 (result_ok c xs st) (ad_tool_calls (as_decision st')) (as_tool_results st')"
    using assms(1) d unfolding tools_ok_def by blast
  from s(2) obtain k where "k < length (as_tool_results st')" "k < length (ad_tool_calls (as_decision st'))"
    "as_tool_results st' ! k = old" by (auto simp: set_zip)
  then have "result_ok c xs st (ad_tool_calls (as_decision st') ! k) old" using l by (auto simp: list_all2_conv_all_nth)
  then show ?thesis by (simp add: result_ok_def)
qed

lemma call_tool_ok:
  assumes "in_step c n s" and "n \<le> N" and "call_tool c i tc s = (out, s')"
  shows "case out of
      Inl e \<Rightarrow> ended_ok c N (e, s')
    | Inr res \<Rightarrow> in_step c n s' \<and> rs_state s' = rs_state s \<and> result_ok c (st_steps (rs_state s)) (rs_state s) tc res"
proof -
  define s1 where "s1 = append_event c True ((blank_event (cx_run_id c) TOOL_STARTED)
      \<lparr>ev_step_index := Some i, ev_tool_call := Some tc\<rparr>) s"
  have i1: "in_step c n s1" and st: "rs_state s1 = rs_state s"
    using in_step_event [OF assms(1)] by (simp_all add: s1_def blank_event_def)
  show ?thesis
  proof (cases "find_cached_tool_result (rs_state s1) tc")
    case (Some old)
    have "output_bounded c old" by (rule find_cached_bounded [OF _ Some]) (use i1 in \<open>simp add: in_step_def\<close>)
    then have "result_ok c (st_steps (rs_state s)) (rs_state s) tc (old\<lparr>res_call_id := call_id tc, res_cached := True\<rparr>)"
      using Some by (simp add: result_ok_def st output_bounded_def)
    moreover have "out = Inr (old\<lparr>res_call_id := call_id tc, res_cached := True\<rparr>)" "s' = s1"
      using assms(3) Some unfolding call_tool_def Let_def s1_def [symmetric] by simp_all
    ultimately show ?thesis using i1 st by simp
  next
    case None
    obtain o2 s2 where x: "execute_tool c i tc s1 = (o2, s2)" by (meson surj_pair)
    note ok = execute_tool_ok [OF x]
    have i2: "in_step c n s2" "rs_state s2 = rs_state s" using ok i1 st by (simp_all add: in_step_def)
    have eq: "(out, s') = (case o2 of Halted r \<Rightarrow> apfst Inl (end_stop c r s2) | Exn e \<Rightarrow> apfst Inl (end_tool_exn c e s2)
        | Val res \<Rightarrow> (Inr res, s2))"
      using assms(3) None x unfolding call_tool_def Let_def s1_def [symmetric] by (simp split: controlled.splits)
    show ?thesis
    proof (cases o2)
      case (Val res)
      then show ?thesis using eq ok i2 None by (simp add: result_ok_def st)
    next
      case (Halted r)
      have "ended_ok c N (end_stop c r s2)" by (rule in_step_stop [OF i2(1) assms(2)]) (use ok Halted in simp)
      then show ?thesis using eq Halted by (cases "end_stop c r s2") simp
    next
      case (Exn e)
      have "ended_ok c N (end_tool_exn c e s2)"
        using ended_end_tool_exn [OF in_step_mid [OF i2(1)] assms(2)] i2(1) ok Exn by (simp add: in_step_def)
      then show ?thesis using eq Exn by (cases "end_tool_exn c e s2") simp
    qed
  qed
qed

lemma note_result_ok:
  "in_step c n s \<Longrightarrow> in_step c n (note_result c i tc res s) \<and>
     st_steps (rs_state (note_result c i tc res s)) = st_steps (rs_state s) \<and>
     st_token_usage (rs_state (note_result c i tc res s)) = st_token_usage (rs_state s)"
  unfolding note_result_def by (auto intro!: in_step_event simp: in_step_messages blank_event_def)

lemma tool_loop_ok:
  assumes "in_step c n s" and "n \<le> N" and "tool_loop c i tcs acc reused s = (out, s')"
  shows "case out of
      Inl e \<Rightarrow> ended_ok c N (e, s')
    | Inr (results, reused') \<Rightarrow> in_step c n s' \<and> st_steps (rs_state s') = st_steps (rs_state s) \<and>
        (\<exists>new. results = acc @ new \<and> list_all2 (result_ok c (st_steps (rs_state s)) (rs_state s)) tcs new)"
  using assms(1,3)
proof (induction tcs arbitrary: acc reused s)
  case Nil
  then show ?case by auto
next
  case (Cons tc tcs)
  obtain stop w where k: "check_stop c (rs_world s) = (stop, w)" by (meson surj_pair)
  show ?case
  proof (cases stop)
    case (Some r)
    have "ended_ok c N (end_stop c r (s\<lparr>rs_world := w\<rparr>))"
      by (rule in_step_stop [OF _ assms(2) check_stop_reason]) (use Cons.prems k Some in auto)
    then show ?thesis using Cons.prems(2) k Some by (cases "end_stop c r (s\<lparr>rs_world := w\<rparr>)") auto
  next
    case None
    obtain o2 s1 where x: "call_tool c i tc (s\<lparr>rs_world := w\<rparr>) = (o2, s1)" by (meson surj_pair)
    have ok: "case o2 of Inl e \<Rightarrow> ended_ok c N (e, s1)
        | Inr res \<Rightarrow> in_step c n s1 \<and> rs_state s1 = rs_state s \<and> result_ok c (st_steps (rs_state s)) (rs_state s) tc res"
      using call_tool_ok [OF _ assms(2) x] Cons.prems(1) by (simp split: sum.splits)
    show ?thesis
    proof (cases o2)
      case (Inl e)
      then show ?thesis using Cons.prems(2) k None x ok by auto
    next
      case (Inr res)
      let ?s2 = "note_result c i tc res s1"
      have n: "in_step c n ?s2" "st_steps (rs_state ?s2) = st_steps (rs_state s)"
        using note_result_ok [of c n s1] ok Inr by simp_all
      have "tool_loop c i tcs (acc @ [res]) (if res_cached res \<and> is_calculator tc then Some res else reused) ?s2 = (out, s')"
        using Cons.prems(2) k None x Inr by simp
      from Cons.IH [OF n(1) this] show ?thesis using ok Inr n(2)
        by (auto split: sum.splits simp: list_all2_conv_all_nth result_ok_any [of c _ "rs_state ?s2" _ _ "rs_state s"] nth_Cons
            intro!: exI [of _ "res # _"] split: nat.splits)
    qed
  qed
qed

section \<open>Steps\<close>

lemma tools_ok_add:
  assumes "tools_ok c st" and "as_tool_results x = [] \<or> list_all2 (result_ok c (st_steps st) st) (ad_tool_calls (as_decision x)) (as_tool_results x)"
  shows "tools_ok c (st\<lparr>st_steps := st_steps st @ [x]\<rparr>)"
  unfolding tools_ok_def
proof (intro allI impI)
  fix xs s ys
  assume "st_steps (st\<lparr>st_steps := st_steps st @ [x]\<rparr>) = xs @ s # ys"
  then have e: "st_steps st @ [x] = xs @ s # ys" by simp
  have any: "list_all2 (result_ok c xs st) a b \<longleftrightarrow> list_all2 (result_ok c xs (st\<lparr>st_steps := st_steps st @ [x]\<rparr>)) a b" for a b
    by (simp add: list_all2_conv_all_nth result_ok_any [of c xs st _ _ "st\<lparr>st_steps := st_steps st @ [x]\<rparr>"])
  show "as_tool_results s = [] \<or> list_all2 (result_ok c xs (st\<lparr>st_steps := st_steps st @ [x]\<rparr>)) (ad_tool_calls (as_decision s)) (as_tool_results s)"
  proof (cases ys rule: rev_cases)
    case Nil
    then have "xs = st_steps st" "s = x" using e by simp_all
    then show ?thesis using assms(2) any by blast
  next
    case (snoc zs z)
    then have "st_steps st = xs @ s # zs" using e by simp
    then show ?thesis using assms(1) any unfolding tools_ok_def by blast
  qed
qed

text \<open>Between two steps.\<close>

definition at_head :: "'w run_ctx \<Rightarrow> int \<Rightarrow> 'w run_state \<Rightarrow> bool" where
  "at_head c n s \<longleftrightarrow> 0 \<le> n \<and> log_inv n n (rs_events s) \<and> int (length (st_steps (rs_state s))) = n \<and>
     budget_kept c (rs_state s) \<and> tools_ok c (rs_state s)"

lemma add_step_completed:
  assumes "in_step c n s" and "as_tool_results x = [] \<or>
      list_all2 (result_ok c (st_steps (rs_state s)) (rs_state s)) (ad_tool_calls (as_decision x)) (as_tool_results x)"
  shows "log_inv n n (rs_events (step_completed c n (add_step x s))) \<and>
    rs_state (step_completed c n (add_step x s)) = (rs_state s)\<lparr>st_steps := st_steps (rs_state s) @ [x]\<rparr> \<and>
    tools_ok c (rs_state (step_completed c n (add_step x s))) \<and>
    (budget_kept c (rs_state s) \<longrightarrow> budget_kept c (rs_state (step_completed c n (add_step x s))))"
proof -
  have "log_inv n (n - 1) (rs_events (add_step x s))" "0 \<le> n - 1" using assms(1) by (simp_all add: in_step_def add_step_def)
  from log_inv_completed [OF this] have "log_inv n n (rs_events (step_completed c n (add_step x s)))"
    by (simp add: step_completed_def)
  moreover have "rs_state (step_completed c n (add_step x s)) = (rs_state s)\<lparr>st_steps := st_steps (rs_state s) @ [x]\<rparr>"
    by (simp add: step_completed_def add_step_def)
  ultimately show ?thesis using tools_ok_add [OF _ assms(2)] assms(1)
    by (simp add: in_step_def budget_kept_def split: option.splits)
qed

lemma log_mid: "0 \<le> n \<Longrightarrow> log_inv n n es \<Longrightarrow> mid_log n es"
  by (simp add: mid_log_def)

lemma completed_ends:
  assumes "in_step c n s" and "n \<le> N" and "as_tool_results x = [] \<or>
      list_all2 (result_ok c (st_steps (rs_state s)) (rs_state s)) (ad_tool_calls (as_decision x)) (as_tool_results x)"
    and "consistent status reason answer err"
  shows "ended_ok c N (end_with c status reason answer err (step_completed c n (add_step x s)))"
proof -
  note a = add_step_completed [OF assms(1,3)]
  have "0 \<le> n" using assms(1) by (simp add: in_step_def)
  show ?thesis
    by (rule ended_end_with [OF log_mid [OF \<open>0 \<le> n\<close>] assms(2,4)]) (use a assms(1) in \<open>auto simp: in_step_def\<close>)
qed

lemma consume_chunks_ok:
  "in_step c n s \<Longrightarrow> consume_chunks c i items parts s = (out, s') \<Longrightarrow>
   in_step c n s' \<and> rs_state s' = rs_state s \<and> (\<forall>r. out = Halted r \<longrightarrow> r \<in> {DEADLINE_EXCEEDED, EXTERNAL_CANCELLED})"
proof (induction items arbitrary: parts s)
  case (Cons x xs)
  let ?s1 = "s\<lparr>rs_world := snd (remaining (cx_env c) (cx_deadline c) (rs_world s))\<rparr>"
  have i1: "in_step c n ?s1" using Cons.prems(1) by simp
  show ?case
  proof (cases "await_controlled x")
    case (Val y)
    show ?thesis
    proof (cases y)
      case (Chunk t)
      let ?s2 = "append_event c False ((blank_event (cx_run_id c) ANSWER_DELTA)
          \<lparr>ev_step_index := Some i, ev_message := Some t\<rparr>) ?s1"
      have "in_step c n ?s2" by (rule in_step_event [OF i1]) (simp add: blank_event_def)
      from Cons.IH [OF this] Cons.IH [OF i1] Cons.prems(2) Val Chunk show ?thesis
        by (auto simp: Let_def split: if_splits)
    next
      case NotAChunk
      then show ?thesis using Cons.prems Val by (auto simp: Let_def)
    qed
  next
    case (Halted r)
    then show ?thesis using Cons.prems await_halted [OF Halted] by (auto simp: Let_def)
  next
    case (Exn e)
    then show ?thesis using Cons.prems by (auto simp: Let_def)
  qed
qed auto

lemma consume_answer_stream_ok:
  assumes "in_step c n s" and "consume_answer_stream c i s = (out, s')"
  shows "in_step c n s' \<and> rs_state s' = rs_state s \<and> (\<forall>r. out = Halted r \<longrightarrow> r \<in> {DEADLINE_EXCEEDED, EXTERNAL_CANCELLED})"
proof -
  obtain spec w where e: "env_stream (cx_env c) (rs_state s) (rs_world s) = (spec, w)" by (meson surj_pair)
  show ?thesis
  proof (cases spec)
    case (AnswerStream items close_error)
    obtain o1 s1 where k: "consume_chunks c i items [] (s\<lparr>rs_world := w\<rparr>) = (o1, s1)" by (meson surj_pair)
    have ok: "in_step c n s1 \<and> rs_state s1 = rs_state s \<and> (\<forall>r. o1 = Halted r \<longrightarrow> r \<in> {DEADLINE_EXCEEDED, EXTERNAL_CANCELLED})"
      using consume_chunks_ok [OF _ k] assms(1) by simp
    have "s' = s1 \<and> (\<forall>r. out = Halted r \<longrightarrow> o1 = Halted r)"
      using assms(2) e AnswerStream k by (auto simp: consume_answer_stream_def Let_def split: option.splits controlled.splits if_splits)
    then show ?thesis using ok by blast
  qed (use assms e in \<open>auto simp: consume_answer_stream_def Let_def\<close>)
qed

lemma answer_step_ok:
  assumes "in_step c n s" and "n \<le> N"
  shows "ended_ok c N (answer_step c n d a s)"
proof -
  obtain out s1 where x: "(if cx_stream_answer c then consume_answer_stream c n s else (Val a, s)) = (out, s1)" by (meson surj_pair)
  have ok: "in_step c n s1 \<and> (\<forall>r. out = Halted r \<longrightarrow> r \<in> {DEADLINE_EXCEEDED, EXTERNAL_CANCELLED})"
    using x consume_answer_stream_ok [OF assms(1)] assms(1) by (auto split: if_splits)
  show ?thesis
  proof (cases out)
    case (Halted r)
    have "ended_ok c N (end_stop c r s1)" by (rule in_step_stop [OF _ assms(2)]) (use ok Halted in auto)
    then show ?thesis using Halted x by (simp add: answer_step_def Let_def)
  next
    case (Exn e)
    have "ended_ok c N (end_exn c e s1)" by (rule in_step_exn [OF _ assms(2)]) (use ok in auto)
    then show ?thesis using Exn x by (simp add: answer_step_def Let_def)
  next
    case (Val answer)
    define s2 where "s2 = s1\<lparr>rs_state := (rs_state s1)\<lparr>st_messages := st_messages (rs_state s1) @
        [\<lparr>am_role = RoleAssistant, am_content = answer, am_tool_call_id = None, am_tool_name = None\<rparr>]\<rparr>\<rparr>"
    define s3 where "s3 = (if cx_stream_answer c then s2 else append_event c True ((blank_event (cx_run_id c) ANSWER)
        \<lparr>ev_step_index := Some n, ev_message := Some answer\<rparr>) s2)"
    have "in_step c n s2" using ok by (simp add: s2_def in_step_messages)
    then have i3: "in_step c n s3" using in_step_event [of c n s2] by (simp add: s3_def blank_event_def)
    have "answer_step c n d a s = end_with c COMPLETED DIRECT_ANSWER (Some answer) None
        (step_completed c n (add_step \<lparr>as_index = n, as_decision = d, as_tool_results = []\<rparr> s3))"
      using x Val by (simp add: answer_step_def Let_def s3_def s2_def)
    then show ?thesis using completed_ends [OF i3 assms(2)] by (simp add: consistent_def)
  qed
qed

lemma at_head_next:
  assumes "in_step c n s" and "int (length (st_steps (rs_state s))) = n - 1" and "as_tool_results x = [] \<or>
      list_all2 (result_ok c (st_steps (rs_state s)) (rs_state s)) (ad_tool_calls (as_decision x)) (as_tool_results x)"
  shows "at_head c n (step_completed c n (add_step x s))"
  using add_step_completed [OF assms(1,3)] assms(1,2) by (auto simp: at_head_def in_step_def)

lemma tool_step_ok:
  assumes "in_step c n s" and "n \<le> N" and "int (length (st_steps (rs_state s))) = n - 1" and "tool_step c n d s = (out, s')"
  shows "case out of Some e \<Rightarrow> ended_ok c N (e, s') | None \<Rightarrow> at_head c n s'"
proof -
  obtain o1 s1 where x: "tool_loop c n (ad_tool_calls d) [] None s = (o1, s1)" by (meson surj_pair)
  note ok = tool_loop_ok [OF assms(1,2) x]
  show ?thesis
  proof (cases o1)
    case (Inl e)
    then show ?thesis using assms(4) x ok by (auto simp: tool_step_def)
  next
    case (Inr y)
    then obtain results reused where y: "o1 = Inr (results, reused)" by (cases y) auto
    let ?x = "\<lparr>as_index = n, as_decision = d, as_tool_results = results\<rparr>"
    let ?s2 = "step_completed c n (add_step ?x s1)"
    from ok y have i1: "in_step c n s1" "st_steps (rs_state s1) = st_steps (rs_state s)"
      and r: "list_all2 (result_ok c (st_steps (rs_state s)) (rs_state s)) (ad_tool_calls d) results" by auto
    have r1: "list_all2 (result_ok c (st_steps (rs_state s1)) (rs_state s1)) (ad_tool_calls d) results"
      using r unfolding i1(2) by (simp add: list_all2_conv_all_nth result_ok_any [of c _ "rs_state s1" _ _ "rs_state s"])
    have h: "at_head c n ?s2" by (rule at_head_next [OF i1(1)]) (use assms(3) i1(2) r1 in simp_all)
    have e: "ended_ok c N (end_with c COMPLETED DIRECT_ANSWER (Some a) None ?s2)" for a
      by (rule completed_ends [OF i1(1) assms(2)]) (use r1 in \<open>simp_all add: consistent_def\<close>)
    show ?thesis
    proof (cases "\<exists>res. reused = Some res \<and> list_all is_calculator (ad_tool_calls d) \<and> res_succeeded res")
      case True
      then obtain res where "reused = Some res" "list_all is_calculator (ad_tool_calls d)" "res_succeeded res" by blast
      then have "(out, s') = apfst Some (end_with c COMPLETED DIRECT_ANSWER (Some (res_content res)) None ?s2)"
        using assms(4) x y by (simp add: tool_step_def Let_def)
      then show ?thesis using e [of "res_content res"]
        by (cases "end_with c COMPLETED DIRECT_ANSWER (Some (res_content res)) None ?s2") simp
    next
      case False
      then have "out = None" "s' = ?s2"
        using assms(4) x y by (auto simp: tool_step_def Let_def split: option.splits if_splits)
      then show ?thesis using h by simp
    qed
  qed
qed

lemma apfst_Some_ok: "ended_ok c N x \<Longrightarrow> apfst Some x = (out, s') \<Longrightarrow> case out of Some e \<Rightarrow> ended_ok c N (e, s') | None \<Rightarrow> P"
  by (cases x) auto

lemma act_on_decision_ok:
  assumes "in_step c n s" and "n \<le> N" and "int (length (st_steps (rs_state s))) = n - 1" and "act_on_decision c n d s = (out, s')"
  shows "case out of Some e \<Rightarrow> ended_ok c N (e, s') | None \<Rightarrow> at_head c n s'"
proof -
  define usage where "usage = st_token_usage (rs_state s) + (case ad_token_usage d of None \<Rightarrow> 0 | Some t \<Rightarrow> t)"
  define s1 where "s1 = append_event c True ((blank_event (cx_run_id c) MODEL_DECISION)
      \<lparr>ev_step_index := Some n, ev_decision := Some d, ev_cumulative_token_usage := Some usage\<rparr>) s"
  define s2 where "s2 = s1\<lparr>rs_state := (rs_state s1)\<lparr>st_token_usage := usage\<rparr>\<rparr>"
  let ?x = "\<lparr>as_index = n, as_decision = d, as_tool_results = []\<rparr>"
  note unf = assms(4) [unfolded act_on_decision_def Let_def usage_def [symmetric] s1_def [symmetric] s2_def [symmetric]]
  have i1: "in_step c n s1" unfolding s1_def by (rule in_step_event [OF assms(1)]) (simp add: blank_event_def)
  have st1: "rs_state s1 = rs_state s" by (simp add: s1_def)
  have l2: "0 < n" "log_inv n (n - 1) (rs_events s2)" "tools_ok c (rs_state s2)"
    using i1 tools_ok_steps [of "rs_state s2" "rs_state s1" c] by (simp_all add: in_step_def s2_def)
  have mid2: "mid_log n (rs_events s2)" using l2 by (simp add: mid_log_def)
  have add: "log_inv n (n - 1) (rs_events (add_step ?x s2))" "tools_ok c (rs_state (add_step ?x s2))"
    "log_inv n n (rs_events (step_completed c n (add_step ?x s2)))" "tools_ok c (rs_state (step_completed c n (add_step ?x s2)))"
    using l2 tools_ok_add [OF l2(3), of ?x] log_inv_completed [of n "n - 1" "add_step ?x s2" c False "cx_run_id c"]
    by (simp_all add: add_step_def step_completed_def)
  show ?thesis
  proof (cases "validate_decision d")
    case (Some reason)
    have "ended_ok c N (end_with c RUN_FAILED INVALID_DECISION None (Some reason) s1)"
      by (rule ended_end_with [OF in_step_mid [OF i1] assms(2)]) (use i1 in \<open>auto simp: in_step_def consistent_def status_for_def\<close>)
    then show ?thesis using unf Some by (intro apfst_Some_ok) simp_all
  next
    case None
    show ?thesis
    proof (cases "over_budget (cx_token_budget c) usage")
      case True
      have "ended_ok c N (end_with c STOPPED TOKEN_BUDGET_EXCEEDED None None (step_completed c n (add_step ?x s2)))"
        by (rule ended_end_with [OF log_mid assms(2)]) (use add l2(1) in \<open>auto simp: consistent_def status_for_def\<close>)
      then show ?thesis using unf None True by (intro apfst_Some_ok) simp_all
    next
      case False
      then have i2: "in_step c n s2" using l2
        by (auto simp: in_step_def budget_kept_def over_budget_def s2_def split: option.splits)
      show ?thesis
      proof (cases "ad_answer d")
        case (Some a)
        then show ?thesis using unf None False answer_step_ok [OF i2 assms(2), of d a] by (intro apfst_Some_ok) simp_all
      next
        case no: None
        show ?thesis
        proof (cases "cx_token_budget c \<noteq> None \<and> ad_tool_calls d \<noteq> [] \<and> \<not> ad_usage_complete d")
          case True
          have "mid_log n (rs_events (add_step ?x s2))" using add(1) l2(1) by (simp add: mid_log_def)
          then have "ended_ok c N (end_with c STOPPED TOKEN_BUDGET_EXCEEDED None None (add_step ?x s2))"
            by (rule ended_end_with [OF _ assms(2)]) (use add in \<open>auto simp: consistent_def status_for_def\<close>)
          then show ?thesis using unf None False no True by (intro apfst_Some_ok) simp_all
        next
          case out: False
          have "tool_step c n d s2 = (out, s')" using unf None False no out by (auto split: if_splits)
          then show ?thesis using tool_step_ok [OF i2 assms(2)] assms(3) by (simp add: s2_def st1)
        qed
      qed
    qed
  qed
qed

lemma run_step_ok:
  assumes "at_head c n s" and "n + 1 \<le> N" and "run_step c s = (out, s')"
  shows "case out of Some e \<Rightarrow> ended_ok c N (e, s') | None \<Rightarrow> at_head c (n + 1) s'"
proof -
  have h: "0 \<le> n" "log_inv n n (rs_events s)" "int (length (st_steps (rs_state s))) = n" "budget_kept c (rs_state s)"
    "tools_ok c (rs_state s)" "n \<le> N" using assms(1,2) by (auto simp: at_head_def)
  note mid = log_mid [OF h(1,2)]
  obtain stop w where k: "check_stop c (rs_world s) = (stop, w)" by (meson surj_pair)
  show ?thesis
  proof (cases stop)
    case (Some r)
    have "ended_ok c N (end_stop c r (s\<lparr>rs_world := w\<rparr>))"
      by (rule ended_end_stop [OF _ h(6) check_stop_reason]) (use mid h k Some in auto)
    then show ?thesis using assms(3) k Some by (intro apfst_Some_ok) (simp_all add: run_step_def)
  next
    case None
    define full where "full = (case cx_token_budget c of None \<Rightarrow> False | Some b \<Rightarrow> 0 < b \<and> b \<le> st_token_usage (rs_state (s\<lparr>rs_world := w\<rparr>)))"
    let ?s1 = "append_event c False ((blank_event (cx_run_id c) STEP_STARTED)\<lparr>ev_step_index := Some (n + 1)\<rparr>) (s\<lparr>rs_world := w\<rparr>)"
    have i1: "in_step c (n + 1) ?s1"
      using log_inv_started [of n n "s\<lparr>rs_world := w\<rparr>" c False "cx_run_id c"] h by (simp add: in_step_def)
    show ?thesis
    proof (cases full)
      case True
      have "ended_ok c N (end_with c STOPPED TOKEN_BUDGET_EXCEEDED None None (s\<lparr>rs_world := w\<rparr>))"
        by (rule ended_end_with [OF _ h(6)]) (use mid h in \<open>auto simp: consistent_def status_for_def\<close>)
      then show ?thesis using assms(3) k None True
        by (intro apfst_Some_ok) (simp_all add: run_step_def Let_def full_def)
    next
      case False
      obtain timeout w1 where t: "remaining (cx_env c) (cx_deadline c) (rs_world ?s1) = (timeout, w1)" by (meson surj_pair)
      obtain o2 w2 where d: "env_decide (cx_env c) (rs_state ?s1) timeout w1 = (o2, w2)" by (meson surj_pair)
      let ?s2 = "?s1\<lparr>rs_world := w2\<rparr>"
      have i2: "in_step c (n + 1) ?s2" using i1 by simp
      have eq: "(out, s') = (case await_controlled o2 of Halted r \<Rightarrow> apfst Some (end_stop c r ?s2)
          | Exn e \<Rightarrow> apfst Some (end_exn c e ?s2) | Val d \<Rightarrow> act_on_decision c (n + 1) d ?s2)"
        using assms(3) k None False t d h(3) by (simp add: run_step_def Let_def full_def)
      show ?thesis
      proof (cases "await_controlled o2")
        case (Val d)
        have "int (length (st_steps (rs_state ?s2))) = n + 1 - 1" using h(3) by simp
        from act_on_decision_ok [OF i2 assms(2) this] eq Val show ?thesis by simp
      next
        case (Halted r)
        have "ended_ok c N (end_stop c r ?s2)" by (rule in_step_stop [OF i2 assms(2) await_halted [OF Halted]])
        then show ?thesis using eq Halted by (intro apfst_Some_ok) simp_all
      next
        case (Exn e)
        have "ended_ok c N (end_exn c e ?s2)" by (rule in_step_exn [OF i2 assms(2)])
        then show ?thesis using eq Exn by (intro apfst_Some_ok) simp_all
      qed
    qed
  qed
qed

lemma run_loop_ok:
  assumes "at_head c n s" and "n + int k \<le> N"
  shows "ended_ok c N (run_loop c k s)"
  using assms
proof (induction k arbitrary: n s)
  case 0
  then have h: "0 \<le> n" "log_inv n n (rs_events s)" "budget_kept c (rs_state s)" "tools_ok c (rs_state s)" "n \<le> N"
    by (auto simp: at_head_def)
  have "ended_ok c N (end_with c COMPLETED DIRECT_ANSWER (Some a) None s)" for a
    by (rule ended_end_with [OF log_mid [OF h(1,2)] h(5)]) (use h in \<open>auto simp: consistent_def\<close>)
  moreover have "ended_ok c N (end_with c STOPPED MAX_STEPS None None s)"
    by (rule ended_end_with [OF log_mid [OF h(1,2)] h(5)]) (use h in \<open>auto simp: consistent_def status_for_def\<close>)
  ultimately show ?case by (simp split: option.splits)
next
  case (Suc k)
  obtain out s1 where x: "run_step c s = (out, s1)" by (meson surj_pair)
  have "n + 1 \<le> N" using Suc.prems(2) by simp
  from run_step_ok [OF Suc.prems(1) this x] x Suc.IH [of "n + 1" s1] Suc.prems(2) show ?case
    by (auto split: option.splits)
qed

lemma start_run_ok:
  assumes "start_run rt a w = (c, s)" and "run_arguments_error a = None"
  shows "at_head c 0 s \<and> cx_runtime c = rt \<and> cx_token_budget c = ra_token_budget a \<and> st_user_input (rs_state s) = ra_user_input a"
proof -
  define idw where "idw = (case ra_run_id a of Some r \<Rightarrow> if r = [] then env_uuid (ru_env rt) w else (r, w) | None \<Rightarrow> env_uuid (ru_env rt) w)"
  define c0 where "c0 = \<lparr>cx_runtime = rt, cx_run_id = fst idw, cx_deadline = None, cx_has_cancel = ra_has_cancel a,
      cx_token_budget = ra_token_budget a, cx_stream_answer = ra_stream_answer a, cx_metadata = ra_metadata a\<rparr>"
  define st where "st = \<lparr>st_run_id = fst idw, st_user_input = ra_user_input a,
      st_messages = [\<lparr>am_role = RoleUser, am_content = ra_user_input a, am_tool_call_id = None, am_tool_name = None\<rparr>],
      st_steps = [], st_token_usage = 0, st_request_id = ra_request_id a\<rparr>"
  define s1 where "s1 = append_event c0 True ((blank_event (fst idw) RUN_STARTED)\<lparr>ev_message := Some (ra_user_input a)\<rparr>)
      \<lparr>rs_state = st, rs_events = [], rs_recorded = [], rs_world = snd idw\<rparr>"
  obtain now w1 where t: "env_time (ru_env rt) (rs_world s1) = (now, w1)" by fastforce
  have c: "c = c0\<lparr>cx_deadline := resolve_deadline now (ra_timeout a) (ra_deadline a)\<rparr>" and s: "s = s1\<lparr>rs_world := w1\<rparr>"
    using assms(1) t unfolding start_run_def Let_def idw_def [symmetric] c0_def [symmetric] st_def [symmetric] s1_def [symmetric]
    by simp_all
  have st1: "rs_state s = st" by (simp add: s s1_def)
  have "log_inv 0 0 (rs_events s)"
    by (simp add: s s1_def append_event_def blank_event_def log_inv_def numbered_def timely_def steps_list_def List.map_filter_def
        Let_def split: prod.splits)
  moreover have "budget_kept c (rs_state s)"
    using assms(2) by (auto simp: st1 c c0_def st_def budget_kept_def run_arguments_error_def split: option.splits if_splits)
  ultimately show ?thesis by (simp add: st1 c c0_def st_def at_head_def tools_ok_def)
qed

lemma run_ok:
  assumes "run rt a w = (e, Some s)"
  obtains c where "ended_ok c (ra_max_steps a) (e, s)" and "cx_runtime c = rt" and "cx_token_budget c = ra_token_budget a"
proof -
  from assms have ok: "run_arguments_error a = None" by (auto simp: run_def split: option.splits)
  obtain c s0 where st: "start_run rt a w = (c, s0)" by (meson surj_pair)
  have "1 \<le> ra_max_steps a" using ok by (auto simp: run_arguments_error_def split: if_splits)
  moreover have "run_loop c (nat (ra_max_steps a)) s0 = (e, s)"
    using assms ok st by (cases "run_loop c (nat (ra_max_steps a)) s0") (simp add: run_def)
  ultimately show thesis
    using that [of c] run_loop_ok [of c 0 s0 "nat (ra_max_steps a)" "ra_max_steps a"] start_run_ok [OF st ok] by simp
qed

section \<open>Properties of runs\<close>

lemma run_Ended:
  assumes "run rt a w = (Ended r, Some s)"
  obtains c n where "cx_runtime c = rt" "cx_token_budget c = ra_token_budget a" "0 \<le> n" "n \<le> ra_max_steps a"
    "ar_events r = renumber (filter include_result_event (rs_events s))" "log_final n (ar_status r) (ar_stop_reason r) (rs_events s)"
    "ar_status r = COMPLETED \<Longrightarrow> answered (rs_events s)" "ar_token_usage r = st_token_usage (ar_state r)"
    "consistent (ar_status r) (ar_stop_reason r) (ar_answer r) (ar_error r)"
    "ar_stop_reason r \<noteq> TOKEN_BUDGET_EXCEEDED \<Longrightarrow> budget_kept c (ar_state r)" "tools_ok c (ar_state r)"
proof -
  obtain c where ok: "ended_ok c (ra_max_steps a) (Ended r, s)" and c: "cx_runtime c = rt" "cx_token_budget c = ra_token_budget a"
    using assms by (rule run_ok)
  from ok obtain n where n: "0 \<le> n" "n \<le> ra_max_steps a"
    and f: "finished_ok n (ar_status r) (ar_stop_reason r) (ar_answer r) (ar_error r) (ar_state r) (Ended r, s)"
    and k: "consistent (ar_status r) (ar_stop_reason r) (ar_answer r) (ar_error r)"
      "ar_stop_reason r \<noteq> TOKEN_BUDGET_EXCEEDED \<Longrightarrow> budget_kept c (ar_state r)" "tools_ok c (ar_state r)"
    unfolding ended_ok_def by auto
  from f have g: "ar_events r = renumber (filter include_result_event (rs_events s))"
    "log_final n (ar_status r) (ar_stop_reason r) (rs_events s)" "ar_token_usage r = st_token_usage (ar_state r)"
    "ar_status r = COMPLETED \<and> ar_answer r \<noteq> None \<longrightarrow> answered (rs_events s)" by (simp_all add: finished_ok_def)
  show thesis by (rule that [OF c n g(1,2) _ g(3) k]) (use g(4) k(1) in \<open>auto simp: consistent_def\<close>)
qed

lemma renumber_numbered: "numbered (renumber es)"
proof -
  have "length [1..int (length es)] = length es" by simp
  moreover have "map ev_sequence (map (\<lambda>(i, e). e\<lparr>ev_sequence := i\<rparr>) (zip is es)) = is" if "length is = length es" for "is"
    using that by (induction "is" es rule: list_induct2) auto
  ultimately show ?thesis by (simp add: numbered_def renumber_def del: map_map)
qed

text \<open>
  C12: the trace of a run is well formed, whatever the model, the tools, the clocks and cancellation do. Its
  events are numbered 1, 2, 3, ... with times that never go back; the first is \<open>RUN_STARTED\<close>; the last,
  and only the last, is \<open>RUN_STOPPED\<close> and it carries the status and the stop reason of the result; and
  the steps that started are exactly the steps that completed, numbered from 1 to a number of at most
  \<open>max_steps\<close>. The events of the result are numbered without gaps as well.
\<close>

theorem agent_trace_well_formed:
  assumes "run rt a w = (Ended r, Some s)"
  shows "map ev_sequence (rs_events s) = [1..int (length (rs_events s))] \<and> sorted (map ev_occurred_at (rs_events s)) \<and>
    ev_kind (hd (rs_events s)) = RUN_STARTED \<and>
    (\<exists>pre e. rs_events s = pre @ [e] \<and> (\<forall>x \<in> set pre. ev_kind x \<noteq> RUN_STOPPED) \<and> ev_kind e = RUN_STOPPED \<and>
       ev_status e = Some (ar_status r) \<and> ev_stop_reason e = Some (ar_stop_reason r)) \<and>
    (\<exists>n \<le> ra_max_steps a. steps_list STEP_STARTED (rs_events s) = [1..n] \<and> steps_list STEP_COMPLETED (rs_events s) = [1..n]) \<and>
    map ev_sequence (ar_events r) = [1..int (length (ar_events r))]"
  using assms
proof (rule run_Ended)
  fix n
  assume "n \<le> ra_max_steps a" "ar_events r = renumber (filter include_result_event (rs_events s))"
    "log_final n (ar_status r) (ar_stop_reason r) (rs_events s)"
  then show ?thesis using renumber_numbered [of "filter include_result_event (rs_events s)"]
    by (auto simp: log_final_def numbered_def timely_def)
qed

text \<open>A run with one tool call followed by an answer; the world counts the decisions.\<close>

definition demo_env :: "nat agent_env" where
  "demo_env = \<lparr>env_time = (\<lambda>w. (0, w)), env_cancel_set = (\<lambda>w. (False, w)), env_utcnow = (\<lambda>w. (7, w)),
     env_uuid = (\<lambda>w. (''run'', w)),
     env_decide = (\<lambda>st timeout w. (OperationDone (OpValue
        (if w = 0 then \<lparr>ad_answer = None, ad_tool_calls = [\<lparr>call_id = ''c1'', call_name = ''echo'', call_arguments = []\<rparr>],
                        ad_token_usage = Some 5, ad_usage_complete = True\<rparr>
         else \<lparr>ad_answer = Some ''done'', ad_tool_calls = [], ad_token_usage = Some 3, ad_usage_complete = True\<rparr>)), w + 1)),
     env_stream = (\<lambda>st w. (StreamUnavailable, w)),
     env_execute = (\<lambda>n args ctx t u w. (OperationDone (OpError (ValueError ''timeout'')), w)),
     env_tool = (\<lambda>n args ctx t w. (OperationDone (OpValue ''hello tool''), w))\<rparr>"

definition demo_runtime :: "bool \<Rightarrow> nat runtime" where
  "demo_runtime executor = \<lparr>ru_env = demo_env, ru_tools = [''echo''], ru_has_executor = executor, ru_output_max_chars = 5,
     ru_has_recorder = True\<rparr>"

definition demo_args :: run_args where
  "demo_args = \<lparr>ra_user_input = ''hi'', ra_max_steps = 3, ra_timeout = None, ra_deadline = None, ra_has_cancel = False,
     ra_token_budget = Some 20, ra_run_id = Some ''r1'', ra_request_id = None, ra_stream_answer = False, ra_metadata = []\<rparr>"

lemma run_ends:
  assumes "run_arguments_error a = None" and "\<not> ru_has_executor rt"
  shows "\<exists>r s. run rt a w = (Ended r, Some s)"
proof -
  obtain c s0 where st: "start_run rt a w = (c, s0)" by (meson surj_pair)
  obtain e s where l: "run_loop c (nat (ra_max_steps a)) s0 = (e, s)" by (meson surj_pair)
  then have r: "run rt a w = (e, Some s)" using assms(1) st by (simp add: run_def)
  then obtain c' where "ended_ok c' (ra_max_steps a) (e, s)" "cx_runtime c' = rt" by (rule run_ok)
  then show ?thesis using r assms(2) by (cases e) (simp_all add: ended_ok_def)
qed

lemma demo_args_valid: "run_arguments_error demo_args = None"
  by (simp add: run_arguments_error_def demo_args_def blank_text_def is_space_def)

lemma demo_run: "\<exists>r s. run (demo_runtime False) demo_args 0 = (Ended r, Some s)"
  by (rule run_ends [OF demo_args_valid]) (simp add: demo_runtime_def)

theorem agent_trace_well_formed_witness:
  "\<exists>r s. run (demo_runtime False) demo_args 0 = (Ended r, Some s) \<and> ev_kind (last (rs_events s)) = RUN_STOPPED \<and>
     (\<exists>n \<le> 3. steps_list STEP_COMPLETED (rs_events s) = [1..n])"
proof -
  obtain r s where d: "run (demo_runtime False) demo_args 0 = (Ended r, Some s)" using demo_run by blast
  have "ra_max_steps demo_args = 3" by (simp add: demo_args_def)
  with d agent_trace_well_formed [OF d] show ?thesis by (metis last_snoc)
qed

text \<open>
  C13: the outcome of a run is consistent. COMPLETED goes with the reason \<open>DIRECT_ANSWER\<close> and with an
  answer, and then the trace has an answer event; every other reason has the status \<open>_status_for\<close> gives
  it and no answer; and an error text is there exactly when the status is FAILED.
\<close>

theorem agent_outcome_consistent:
  assumes "run rt a w = (Ended r, Some s)"
  shows "(ar_stop_reason r = DIRECT_ANSWER \<longleftrightarrow> ar_status r = COMPLETED) \<and> (ar_status r = COMPLETED \<longleftrightarrow> ar_answer r \<noteq> None) \<and>
    (ar_stop_reason r \<noteq> DIRECT_ANSWER \<longrightarrow> ar_status r = status_for (ar_stop_reason r)) \<and>
    (ar_status r = RUN_FAILED \<longleftrightarrow> ar_error r \<noteq> None) \<and>
    (ar_status r = COMPLETED \<longrightarrow> (\<exists>e \<in> set (rs_events s). ev_kind e \<in> {ANSWER, ANSWER_DELTA}))"
  using assms by (rule run_Ended) (simp add: consistent_def answered_def)

theorem agent_outcome_consistent_witness:
  "\<exists>r s. run (demo_runtime False) demo_args 0 = (Ended r, Some s) \<and> (ar_status r = COMPLETED \<longleftrightarrow> ar_answer r \<noteq> None)"
proof -
  obtain r s where d: "run (demo_runtime False) demo_args 0 = (Ended r, Some s)" using demo_run by blast
  from d agent_outcome_consistent [OF d] show ?thesis by metis
qed

text \<open>
  C14: the token budget is kept. A run with a budget that ends for any reason other than
  \<open>TOKEN_BUDGET_EXCEEDED\<close> has used at most the budget.
\<close>

theorem agent_token_budget_kept:
  assumes "run rt a w = (Ended r, Some s)" and "ra_token_budget a = Some b" and "ar_stop_reason r \<noteq> TOKEN_BUDGET_EXCEEDED"
  shows "ar_token_usage r \<le> b"
  using assms(1) by (rule run_Ended) (use assms(2,3) in \<open>simp add: budget_kept_def\<close>)

theorem agent_token_budget_kept_witness:
  "\<exists>r s. run (demo_runtime False) demo_args 0 = (Ended r, Some s) \<and> (ar_token_usage r \<le> 20 \<or> ar_stop_reason r = TOKEN_BUDGET_EXCEEDED)"
proof -
  have "ra_token_budget demo_args = Some 20" by (simp add: demo_args_def)
  moreover obtain r s where d: "run (demo_runtime False) demo_args 0 = (Ended r, Some s)" using demo_run by blast
  ultimately show ?thesis using agent_token_budget_kept [OF d] by blast
qed

lemma result_ok_sound:
  assumes "result_ok c before st tc res"
  shows "res_call_id res = call_id tc \<and> (res_cached res \<longleftrightarrow> (\<exists>old. earlier_success before tc old)) \<and>
    (res_cached res \<longrightarrow> (\<exists>old. earlier_success before tc old \<and> res = old\<lparr>res_call_id := call_id tc, res_cached := True\<rparr>)) \<and>
    (\<not> res_cached res \<longrightarrow> res_name res = call_name tc) \<and>
    (\<not> ru_has_executor (cx_runtime c) \<and> 0 \<le> ru_output_max_chars (cx_runtime c) \<and> res_succeeded res \<longrightarrow>
       int (length (res_content res)) \<le> ru_output_max_chars (cx_runtime c))"
  using assms find_cached_Some [of "st\<lparr>st_steps := before\<rparr>" tc] find_cached_None [of "st\<lparr>st_steps := before\<rparr>" tc]
  by (cases "find_cached_tool_result (st\<lparr>st_steps := before\<rparr>) tc") (auto simp: result_ok_def output_bounded_def)

text \<open>
  C15: tool results are reused soundly and stay within the output limit. In the steps of a finished run,
  a step that has tool results has one per call, with the id of its own call. A result is marked as cached exactly when an
  earlier step holds a succeeded result of a call with the same name and with arguments of the same canonical JSON text, and
  then it is a copy of such a result in everything but the id and the mark; a result that is not cached is one of the tool
  named in the call. Without a tool executor and with a nonnegative \<open>tool_output_max_chars\<close>, the content of every
  succeeded result is at most that long.
\<close>

theorem agent_tool_results_sound:
  assumes "run rt a w = (Ended r, Some s)" and "st_steps (ar_state r) = before @ step # after"
    and "as_tool_results step \<noteq> []"
  shows "length (as_tool_results step) = length (ad_tool_calls (as_decision step)) \<and>
    (\<forall>k < length (as_tool_results step).
       let tc = ad_tool_calls (as_decision step) ! k; res = as_tool_results step ! k
       in res_call_id res = call_id tc \<and>
          (res_cached res \<longleftrightarrow> (\<exists>old. earlier_success before tc old)) \<and>
          (res_cached res \<longrightarrow> (\<exists>old. earlier_success before tc old \<and> res = old\<lparr>res_call_id := call_id tc, res_cached := True\<rparr>)) \<and>
          (\<not> res_cached res \<longrightarrow> res_name res = call_name tc) \<and>
          (\<not> ru_has_executor rt \<and> 0 \<le> ru_output_max_chars rt \<and> res_succeeded res \<longrightarrow>
             int (length (res_content res)) \<le> ru_output_max_chars rt))"
  using assms(1)
proof (rule run_Ended)
  fix c :: "'a run_ctx"
  assume c: "cx_runtime c = rt" and t: "tools_ok c (ar_state r)"
  from t assms(2,3) have l: "list_all2 (result_ok c before (ar_state r)) (ad_tool_calls (as_decision step)) (as_tool_results step)"
    unfolding tools_ok_def by blast
  then show ?thesis using result_ok_sound [of c before "ar_state r"] c
    unfolding list_all2_conv_all_nth Let_def by auto
qed

text \<open>A run of one step with one tool call.\<close>

definition demo_call :: tool_call where
  "demo_call = \<lparr>call_id = ''c1'', call_name = ''echo'', call_arguments = []\<rparr>"

lemma demo_env_simps:
  "env_time demo_env w = (0, w)" "env_utcnow demo_env w = (7, w)"
  "env_tool demo_env n args ctx t w = (OperationDone (OpValue ''hello tool''), w)"
  "env_decide demo_env st t 0 = (OperationDone (OpValue \<lparr>ad_answer = None, ad_tool_calls = [demo_call],
                        ad_token_usage = Some 5, ad_usage_complete = True\<rparr>), 1)"
  by (simp_all add: demo_env_def demo_call_def)

lemma demo_world:
  assumes "cx_env c = demo_env"
  shows "rs_world (append_event c b e s) = rs_world s"
  using assms by (simp add: append_event_def demo_env_simps Let_def)

lemma end_with_state: "\<exists>r s'. end_with c st re a e s = (Ended r, s') \<and> ar_state r = rs_state s"
proof -
  have f: "rs_state (fold (\<lambda>i. append_event c False (g i)) xs s) = rs_state s" for g and xs :: "int list" and s
    by (induction xs arbitrary: s) simp_all
  show ?thesis by (simp add: end_with_def finish_def Let_def complete_open_steps_def f)
qed

lemma demo_execute:
  assumes "cx_runtime c = demo_runtime False" and "cx_deadline c = None"
  shows "\<exists>res s'. execute_tool c i demo_call s = (Val res, s') \<and> rs_state s' = rs_state s"
  using assms by (simp add: execute_tool_def demo_runtime_def remaining_def demo_call_def demo_env_simps await_controlled_def Let_def split_def)

lemma demo_tool_loop:
  assumes "cx_runtime c = demo_runtime False" and "cx_deadline c = None" and "\<not> cx_has_cancel c" and "st_steps (rs_state s) = []"
  shows "\<exists>res s'. tool_loop c i [demo_call] [] None s = (Inr ([res], None), s') \<and> st_steps (rs_state s') = []"
proof -
  define s1 where "s1 = append_event c True ((blank_event (cx_run_id c) TOOL_STARTED)
                 \<lparr>ev_step_index := Some i, ev_tool_call := Some demo_call\<rparr>) s"
  have "find_cached_tool_result (rs_state s1) demo_call = None" using assms(4) by (simp add: s1_def find_cached_tool_result_def)
  moreover obtain res s' where "execute_tool c i demo_call s1 = (Val res, s')" "rs_state s' = rs_state s1"
    using demo_execute [OF assms(1,2)] by blast
  ultimately have "call_tool c i demo_call s = (Inr res, s')" "rs_state s' = rs_state s"
    by (simp_all add: call_tool_def Let_def flip: s1_def) (simp add: s1_def)
  moreover have "check_stop c w = (None, w)" for w using assms(2,3) by (simp add: check_stop_def)
  ultimately show ?thesis using assms(4) by (simp add: note_result_def is_calculator_def demo_call_def)
qed

lemma demo_tool_run:
  "\<exists>r s step. run (demo_runtime False) (demo_args\<lparr>ra_max_steps := 1\<rparr>) 0 = (Ended r, Some s) \<and> st_steps (ar_state r) = [step] \<and> 
    ad_tool_calls (as_decision step) = [demo_call] \<and> length (as_tool_results step) = 1"
proof -
  obtain c s0 where st: "start_run (demo_runtime False) (demo_args\<lparr>ra_max_steps := 1\<rparr>) 0 = (c, s0)" by (meson surj_pair)
  then have c: "cx_runtime c = demo_runtime False" "cx_deadline c = None" "\<not> cx_has_cancel c" "cx_token_budget c = Some 20"
    and s0: "st_steps (rs_state s0) = []" "rs_world s0 = 0" "st_token_usage (rs_state s0) = 0"
    by (auto simp: start_run_def demo_args_def demo_runtime_def demo_env_simps Let_def resolve_deadline_def demo_world)
  have stop: "check_stop c w = (None, w)" for w using c by (simp add: check_stop_def)
  have env: "cx_env c = demo_env" using c by (simp add: demo_runtime_def)
  define d where "d = \<lparr>ad_answer = None, ad_tool_calls = [demo_call], ad_token_usage = Some 5, ad_usage_complete = True\<rparr>"
  define s1 where "s1 = append_event c False ((blank_event (cx_run_id c) STEP_STARTED)\<lparr>ev_step_index := Some 1\<rparr>) s0"
  have s1: "rs_world s1 = 0" "rs_state s1 = rs_state s0" using s0 env by (simp_all add: s1_def demo_world)
  have w0: "s0\<lparr>rs_world := rs_world s0\<rparr> = s0" by (cases s0) simp
  have "run_step c s0 = act_on_decision c 1 d (s1\<lparr>rs_world := 1\<rparr>)"
    using s1 s0(1,3) c(2-4) by (simp add: run_step_def stop w0 Let_def remaining_def env demo_env_simps await_controlled_def d_def flip: s1_def)
  moreover define s2 where "s2 = append_event c True ((blank_event (cx_run_id c) MODEL_DECISION)
                 \<lparr>ev_step_index := Some 1, ev_decision := Some d, ev_cumulative_token_usage := Some 5\<rparr>) (s1\<lparr>rs_world := 1\<rparr>)"
  define s3 where "s3 = s2\<lparr>rs_state := (rs_state s2)\<lparr>st_token_usage := 5\<rparr>\<rparr>"
  have "act_on_decision c 1 d (s1\<lparr>rs_world := 1\<rparr>) = tool_step c 1 d s3"
    using s1 s0 c unfolding s3_def s2_def by (simp add: act_on_decision_def Let_def validate_decision_def d_def over_budget_def)
  moreover obtain res s' where "tool_loop c 1 [demo_call] [] None s3 = (Inr ([res], None), s')" "st_steps (rs_state s') = []"
    using demo_tool_loop [OF c(1-3), of s3 1] s0 s1 by (auto simp: s3_def s2_def)
  ultimately have r: "run_step c s0 = (None, step_completed c 1 (add_step \<lparr>as_index = 1, as_decision = d, as_tool_results = [res]\<rparr> s'))"
    and s': "st_steps (rs_state s') = []"
    by (simp_all add: tool_step_def d_def)
  define s4 where "s4 = step_completed c 1 (add_step \<lparr>as_index = 1, as_decision = d, as_tool_results = [res]\<rparr> s')"
  have s4: "st_steps (rs_state s4) = [\<lparr>as_index = 1, as_decision = d, as_tool_results = [res]\<rparr>]"
    using s' by (simp add: s4_def step_completed_def add_step_def)
  have "last_calculator_result (rs_state s4) = None"
    using s4 by (simp add: last_calculator_result_def d_def is_calculator_def demo_call_def)
  then have "run_loop c 1 s0 = end_with c STOPPED MAX_STEPS None None s4"
    using r by (simp flip: s4_def)
  then obtain r s where "run_loop c 1 s0 = (Ended r, s)" "ar_state r = rs_state s4" using end_with_state by metis
  moreover have "run_arguments_error (demo_args\<lparr>ra_max_steps := 1\<rparr>) = None"
    by (simp add: run_arguments_error_def demo_args_def blank_text_def is_space_def)
  ultimately show ?thesis using st s4 by (simp add: run_def d_def demo_args_def)
qed

theorem agent_tool_results_sound_witness:
  "\<exists>r s step. run (demo_runtime False) (demo_args\<lparr>ra_max_steps := 1\<rparr>) 0 = (Ended r, Some s) \<and>
     st_steps (ar_state r) = [step] \<and> length (as_tool_results step) = 1 \<and>
     res_call_id (as_tool_results step ! 0) = ''c1'' \<and> \<not> res_cached (as_tool_results step ! 0)"
proof -
  obtain r s step where d: "run (demo_runtime False) (demo_args\<lparr>ra_max_steps := 1\<rparr>) 0 = (Ended r, Some s)"
    and st: "st_steps (ar_state r) = [step]" and c: "ad_tool_calls (as_decision step) = [demo_call]"
    and l: "length (as_tool_results step) = 1" using demo_tool_run by blast
  have "\<not> earlier_success [] demo_call old" for old by (simp add: earlier_success_def)
  moreover from st have eq: "st_steps (ar_state r) = [] @ step # []" by simp
  moreover from l have ne: "as_tool_results step \<noteq> []" by auto
  ultimately have "res_call_id (as_tool_results step ! 0) = ''c1''" "\<not> res_cached (as_tool_results step ! 0)"
    using agent_tool_results_sound [OF d eq ne] c l by (simp_all add: Let_def demo_call_def)
  with d st l show ?thesis by blast
qed

text \<open>
  C16: only a tool executor can make a run raise. When the arguments of \<open>run\<close> are valid and the runtime
  works on plain tools, \<open>run\<close> returns a result whatever the model, the tools, the stream, the clocks and
  cancellation do. An exception escapes only with a tool executor, and only one that the executor itself raised, in the
  call of a tool that was the last thing the run did, and that is neither a quota error nor a cancellation.
\<close>

theorem agent_run_returns:
  assumes "run_arguments_error a = None"
  shows "(\<not> ru_has_executor rt \<longrightarrow> (\<exists>r s. run rt a w = (Ended r, Some s))) \<and>
    (\<forall>e s. run rt a w = (Escaped e, s) \<longrightarrow> ru_has_executor rt \<and> e \<noteq> QuotaExceeded \<and> (\<forall>q. e \<noteq> TaskCancelled q) \<and>
       (\<exists>s' (tc :: tool_call) ctx timeout_seconds timeout w1. s = Some s' \<and>
          env_execute (ru_env rt) (call_name tc) (call_arguments tc) ctx timeout_seconds timeout w1 =
            (OperationDone (OpError e), rs_world s')))"
proof (intro conjI [OF impI] allI impI)
  show "\<not> ru_has_executor rt \<Longrightarrow> \<exists>r s. run rt a w = (Ended r, Some s)" by (rule run_ends [OF assms])
next
  fix e s
  assume e: "run rt a w = (Escaped e, s)"
  moreover have "snd (run rt a w) \<noteq> None" using assms by (simp add: run_def split_def)
  ultimately obtain s' where s': "s = Some s'" by (cases s) simp_all
  with e have "run rt a w = (Escaped e, Some s')" by simp
  then obtain c where "ended_ok c (ra_max_steps a) (Escaped e, s')" "cx_runtime c = rt" by (rule run_ok)
  then show "ru_has_executor rt \<and> e \<noteq> QuotaExceeded \<and> (\<forall>q. e \<noteq> TaskCancelled q) \<and>
      (\<exists>s' (tc :: tool_call) ctx timeout_seconds timeout w1. s = Some s' \<and>
         env_execute (ru_env rt) (call_name tc) (call_arguments tc) ctx timeout_seconds timeout w1 = (OperationDone (OpError e), rs_world s'))"
    using s' unfolding ended_ok_def executor_raised_def by auto
qed

theorem agent_run_returns_witness: "\<exists>r s. run (demo_runtime False) demo_args 0 = (Ended r, Some s)"
  using agent_run_returns [OF demo_args_valid, of "demo_runtime False" 0] by (simp add: demo_runtime_def)

end
