(* ===== verification/AgentStream.thy ===== *)
theory AgentStream
  imports AgentRuns
begin

text \<open>
  The event stream of an agent run: \<open>AgentEventStream\<close> (\<open>app/agents/stream.py\<close>), and its producer and
  consumer in \<open>app/api/agent.py\<close>, the function \<open>produce\<close> of \<open>stream_agent_run\<close> and the loop of
  \<open>_stream_events\<close>.

  The queue is first-in first-out and the consumer only waits on it, so what the consumer sends is a
  function of what the producer puts into the queue. A client that disconnects only cuts it short.
\<close>

section \<open>The queue\<close>

datatype stream_item = EventItem agent_event | StreamClosed | SetupError string

record event_stream =
  es_queue :: "stream_item list"
  es_run_started :: bool
  es_terminal :: bool
  es_run_id :: "string option"
  es_last_sequence :: "int option"

definition new_stream :: event_stream where
  "new_stream = \<lparr>es_queue = [], es_run_started = False, es_terminal = False, es_run_id = None, es_last_sequence = None\<rparr>"

definition put_nowait :: "stream_item \<Rightarrow> event_stream \<Rightarrow> event_stream" where
  "put_nowait x s = s\<lparr>es_queue := es_queue s @ [x]\<rparr>"

definition observe :: "agent_event \<Rightarrow> event_stream \<Rightarrow> event_stream" where
  "observe e s =
     (let s1 = (if ev_kind e = RUN_STARTED then s\<lparr>es_run_started := True, es_run_id := Some (ev_run_id e)\<rparr>
                else if ev_kind e = RUN_STOPPED then s\<lparr>es_terminal := True\<rparr> else s);
          s2 = s1\<lparr>es_last_sequence := Some (case es_last_sequence s1 of None \<Rightarrow> ev_sequence e | Some n \<Rightarrow> max n (ev_sequence e))\<rparr>
      in put_nowait (EventItem e) s2)"

definition close :: "event_stream \<Rightarrow> event_stream" where
  "close s = put_nowait StreamClosed s"

definition fail_setup :: "event_stream \<Rightarrow> event_stream" where
  "fail_setup s = close (if \<not> es_terminal s then put_nowait (SetupError ''stream_setup_failed'') s else s)"

definition fail_unexpected :: "int \<Rightarrow> event_stream \<Rightarrow> string + event_stream" where
  "fail_unexpected now s =
     (if es_terminal s then Inr (close s)
      else if \<not> es_run_started s then Inr (fail_setup s)
      else
        (case es_run_id s of
           None \<Rightarrow> Inl ''run_started event did not include a run id''
         | Some rid \<Rightarrow>
             (let n = (case es_last_sequence s of None \<Rightarrow> 1 | Some m \<Rightarrow> m + 1)
              in Inr (close (observe ((blank_event rid RUN_STOPPED)
                   \<lparr>ev_sequence := n, ev_occurred_at := now, ev_status := Some RUN_FAILED, ev_stop_reason := Some MODEL_ERROR\<rparr>) s)))))"

definition receive :: "event_stream \<Rightarrow> (stream_item \<times> event_stream) option" where
  \<comment> \<open>\<open>None\<close> while the queue is empty\<close>
  "receive s = (case es_queue s of [] \<Rightarrow> None | x # xs \<Rightarrow> Some (x, s\<lparr>es_queue := xs\<rparr>))"

section \<open>Producer and consumer\<close>

text \<open>How the body of \<open>produce\<close> ends after the run's events: normally, with an exception, or cancelled.\<close>

datatype body_end = BodyReturned | BodyRaised | BodyCancelled

definition produce :: "agent_event list \<Rightarrow> body_end \<Rightarrow> int \<Rightarrow> string + event_stream" where
  "produce events outcome now =
     (let s = fold observe events new_stream
      in case (if outcome = BodyRaised then fail_unexpected now s else Inr s) of
           Inl e \<Rightarrow> Inl e
         | Inr s1 \<Rightarrow> Inr (if \<not> es_terminal s1 then close s1 else s1))"

datatype sse = SseEvent agent_event | SseError string

fun stream_events :: "stream_item list \<Rightarrow> sse list" where
  "stream_events [] = []"
| "stream_events (StreamClosed # xs) = []"
| "stream_events (SetupError code # xs) = [SseError code]"
| "stream_events (EventItem e # xs) = SseEvent e # (if ev_kind e = RUN_STOPPED then [] else stream_events xs)"

fun terminal :: "sse \<Rightarrow> bool" where
  "terminal (SseEvent e) = (ev_kind e = RUN_STOPPED)"
| "terminal (SseError _) = True"

section \<open>What the client receives\<close>

lemma observe_simps:
  "es_queue (observe e s) = es_queue s @ [EventItem e]"
  "es_run_started (observe e s) = (es_run_started s \<or> ev_kind e = RUN_STARTED)"
  "es_terminal (observe e s) = (es_terminal s \<or> ev_kind e = RUN_STOPPED)"
  "es_run_id (observe e s) = (if ev_kind e = RUN_STARTED then Some (ev_run_id e) else es_run_id s)"
  "es_last_sequence (observe e s) = Some (case es_last_sequence s of None \<Rightarrow> ev_sequence e | Some n \<Rightarrow> max n (ev_sequence e))"
  by (auto simp: observe_def put_nowait_def Let_def)

lemma observe_all:
  "es_queue (fold observe es s) = es_queue s @ map EventItem es"
  "es_run_started (fold observe es s) = (es_run_started s \<or> (\<exists>e \<in> set es. ev_kind e = RUN_STARTED))"
  "es_terminal (fold observe es s) = (es_terminal s \<or> (\<exists>e \<in> set es. ev_kind e = RUN_STOPPED))"
  by (induction es arbitrary: s) (auto simp: observe_simps)

lemma observe_run_id: "es_run_started s \<longrightarrow> es_run_id s \<noteq> None \<Longrightarrow> es_run_started (fold observe es s) \<longrightarrow> es_run_id (fold observe es s) \<noteq> None"
  by (induction es arbitrary: s) (auto simp: observe_simps)

lemma observe_sequence:
  "es_last_sequence (fold observe es s) = (case es_last_sequence s of
     None \<Rightarrow> (if es = [] then None else Some (Max (ev_sequence ` set es)))
   | Some n \<Rightarrow> Some (Max (insert n (ev_sequence ` set es))))"
proof (induction es arbitrary: s)
  case (Cons e es)
  show ?case unfolding fold_simps comp_apply Cons.IH
    by (cases "es = []") (auto simp: observe_simps max.assoc split: option.splits)
qed (auto split: option.splits)

lemma stream_events_running: "\<forall>e \<in> set es. ev_kind e \<noteq> RUN_STOPPED \<Longrightarrow> stream_events (map EventItem es @ q) = map SseEvent es @ stream_events q"
  by (induction es) auto

lemma stream_events_stopped:
  "\<forall>e \<in> set es. ev_kind e \<noteq> RUN_STOPPED \<Longrightarrow> ev_kind x = RUN_STOPPED \<Longrightarrow>
   stream_events (map EventItem (es @ [x]) @ q) = map SseEvent (es @ [x])"
  using stream_events_running [of es "EventItem x # q"] by simp

lemma stream_output:
  assumes "\<forall>e \<in> set (butlast es). ev_kind e \<noteq> RUN_STOPPED"
  shows "\<exists>s rest. produce es outcome now = Inr s \<and> stream_events (es_queue s) = map SseEvent es @ rest \<and>
    (if (\<exists>e \<in> set es. ev_kind e = RUN_STOPPED) \<or> outcome \<noteq> BodyRaised then rest = []
     else if \<exists>e \<in> set es. ev_kind e = RUN_STARTED then
       \<exists>x. rest = [SseEvent x] \<and> ev_kind x = RUN_STOPPED \<and> ev_status x = Some RUN_FAILED \<and> (\<forall>e \<in> set es. ev_sequence e < ev_sequence x)
     else rest = [SseError ''stream_setup_failed''])"
proof (cases "\<exists>e \<in> set es. ev_kind e = RUN_STOPPED")
  case True
  then have ne: "es \<noteq> []" by auto
  then have es: "es = butlast es @ [last es]" by simp
  have x: "ev_kind (last es) = RUN_STOPPED" using True assms es by (metis UnE set_append empty_iff empty_set set_ConsD)
  have q: "stream_events (map EventItem es @ xs) = map SseEvent es" for xs
    using stream_events_stopped [OF assms x, of xs] es by simp
  have "es_terminal (fold observe es new_stream)" using True by (simp add: observe_all)
  then show ?thesis using True q q [of "[]"]
    by (simp add: produce_def fail_unexpected_def close_def put_nowait_def observe_all new_stream_def Let_def)
next
  case False
  let ?s = "fold observe es new_stream"
  have q: "stream_events (map EventItem es @ xs) = map SseEvent es @ stream_events xs" for xs
    using stream_events_running [of es xs] False by blast
  have s: "es_queue ?s = map EventItem es" "\<not> es_terminal ?s" "es_run_started ?s \<longleftrightarrow> (\<exists>e \<in> set es. ev_kind e = RUN_STARTED)"
    using False by (simp_all add: observe_all new_stream_def)
  show ?thesis
  proof (cases "outcome = BodyRaised \<and> es_run_started ?s")
    case True
    then obtain rid where rid: "es_run_id ?s = Some rid" using observe_run_id [of new_stream es] by (auto simp: new_stream_def)
    have "es \<noteq> []" using True s(3) by auto
    then have n: "es_last_sequence ?s = Some (Max (ev_sequence ` set es))" by (simp add: observe_sequence new_stream_def)
    have m: "\<forall>e \<in> set es. ev_sequence e < Max (ev_sequence ` set es) + 1" using Max_ge [of "ev_sequence ` set es"] by (simp add: less_add_one order_le_less_trans zle_add1_eq_le)
    show ?thesis using False True s rid n m q
      by (simp add: produce_def fail_unexpected_def close_def put_nowait_def observe_simps blank_event_def)
  next
    case no: False
    then show ?thesis using False s q q [of "[]"]
      by (cases "outcome = BodyRaised") (simp_all add: produce_def fail_unexpected_def fail_setup_def close_def put_nowait_def Let_def)
  qed
qed

text \<open>
  C22: a streamed agent run reaches the client as its events in order, with exactly one terminal item, the
  last. Whether the run is streamed to its end or the producer fails after any number of its events, the
  client receives these events unchanged and then, when no \<open>RUN_STOPPED\<close> was among them, one terminal
  item: a synthetic \<open>RUN_STOPPED\<close> with status failed and the next sequence number when the run had
  started, a setup error when it had not. Nothing follows a terminal item, and closing the stream more
  than once adds nothing.
\<close>

theorem stream_has_one_terminal:
  assumes "run rt a w = (Ended r, Some st)" and "k < length (rs_events st) \<longrightarrow> outcome = BodyRaised"
  shows "\<exists>s out. produce (take k (rs_events st)) outcome now = Inr s \<and> stream_events (es_queue s) = out \<and>
    out \<noteq> [] \<and> terminal (last out) \<and> (\<forall>x \<in> set (butlast out). \<not> terminal x) \<and>
    (\<exists>rest. out = map SseEvent (take k (rs_events st)) @ rest \<and>
       (k \<ge> length (rs_events st) \<longrightarrow> rest = []) \<and> (k = 0 \<longrightarrow> rest = [SseError ''stream_setup_failed'']) \<and>
       (0 < k \<and> k < length (rs_events st) \<longrightarrow> (\<exists>x. rest = [SseEvent x] \<and> ev_sequence x > int k \<and> ev_status x = Some RUN_FAILED)))"
  using assms(1)
proof (rule run_Ended)
  fix n
  let ?L = "rs_events st" and ?es = "take k (rs_events st)"
  assume l: "log_final n (ar_status r) (ar_stop_reason r) ?L"
  then obtain pre x where pre: "?L = pre @ [x]" "\<forall>e \<in> set pre. ev_kind e \<noteq> RUN_STOPPED" "ev_kind x = RUN_STOPPED"
    by (auto simp: log_final_def)
  have hd: "ev_kind (hd ?L) = RUN_STARTED" and num: "numbered ?L" using l by (simp_all add: log_final_def)
  show ?thesis
  proof (cases "length ?L \<le> k")
    case True
    then have es: "?es = pre @ [x]" using pre by simp
    obtain s where s: "produce (pre @ [x]) outcome now = Inr s" "stream_events (es_queue s) = map SseEvent (pre @ [x])"
      using stream_output [of "pre @ [x]" outcome now] pre(2,3) by auto
    have "\<forall>y \<in> set (butlast (map SseEvent (pre @ [x]))). \<not> terminal y" using pre(2) by (auto simp: butlast_append)
    with True pre s show ?thesis unfolding es by simp
  next
    case False
    then have b: "outcome = BodyRaised" using assms(2) by simp
    have sub: "set ?es \<subseteq> set pre" using False pre(1) by (simp add: set_take_subset)
    then have no: "\<forall>e \<in> set ?es. ev_kind e \<noteq> RUN_STOPPED" using pre(2) by blast
    then have "\<forall>e \<in> set (butlast ?es). ev_kind e \<noteq> RUN_STOPPED" by (meson in_set_butlastD)
    from stream_output [OF this, of outcome now] no b obtain s rest where
      s: "produce ?es outcome now = Inr s" "stream_events (es_queue s) = map SseEvent ?es @ rest" and
      rest: "if \<exists>e \<in> set ?es. ev_kind e = RUN_STARTED then
         \<exists>x. rest = [SseEvent x] \<and> ev_kind x = RUN_STOPPED \<and> ev_status x = Some RUN_FAILED \<and> (\<forall>e \<in> set ?es. ev_sequence e < ev_sequence x)
       else rest = [SseError ''stream_setup_failed'']" by auto
    show ?thesis
    proof (cases "k = 0")
      case True
      with rest s False show ?thesis by auto
    next
      case k: False
      have "?L \<noteq> []" using False by auto
      with k False have h: "hd ?L \<in> set ?es" "?L ! (k - 1) \<in> set ?es"
        using nth_mem [of 0 ?es] nth_mem [of "k - 1" ?es] hd_conv_nth [OF \<open>?L \<noteq> []\<close>] by auto
      with rest hd obtain y where y: "rest = [SseEvent y]" "ev_kind y = RUN_STOPPED" "ev_status y = Some RUN_FAILED"
        "\<forall>e \<in> set ?es. ev_sequence e < ev_sequence y" by (auto split: if_splits)
      have "map ev_sequence ?L ! (k - 1) = [1..int (length ?L)] ! (k - 1)" using num by (simp add: numbered_def)
      then have "ev_sequence (?L ! (k - 1)) = int k" using False k by (simp add: nth_upto)
      with y h(2) have "ev_sequence y > int k" by fastforce
      with y s False k no show ?thesis by (auto simp: butlast_append)
    qed
  qed
qed

theorem stream_has_one_terminal_witness:
  "\<exists>r st s. run (demo_runtime False) demo_args 0 = (Ended r, Some st) \<and> produce (take 1 (rs_events st)) BodyRaised 5 = Inr s \<and>
     terminal (last (stream_events (es_queue s)))"
proof -
  obtain r st where d: "run (demo_runtime False) demo_args 0 = (Ended r, Some st)" using demo_run by blast
  from stream_has_one_terminal [OF d, of 1 BodyRaised 5] d show ?thesis by auto
qed

end
