(* ===== verification/ToolSchema.thy ===== *)
theory ToolSchema
  imports ToolModels
begin

text \<open>
  The JSON schema subset that the tool executor checks arguments and outputs with: \<open>_validate_schema\<close>,
  \<open>_validate_object\<close>, \<open>_validate_string\<close>, \<open>_validate_number\<close>, \<open>_matches_type\<close>, \<open>_schema_allows_property\<close>,
  \<open>_schema_required_keys\<close> and \<open>_schema_fallback\<close> of \<open>app/tools/executor.py\<close>.

  A schema is a dictionary of values. Its numbers are compared by value, as Python compares them: booleans
  are the integers 0 and 1, and a float is the decimal number that its \<open>repr\<close> spells.
\<close>

section \<open>Numbers and equality\<close>

datatype number = Num int int | PosInf | NegInf | NaN

definition digits_value :: "string \<Rightarrow> int" where
  "digits_value = foldl (\<lambda>n c. 10 * n + (of_char c - 48)) 0"

definition signed_digits :: "string \<Rightarrow> int" where
  "signed_digits s = (case s of [] \<Rightarrow> 0 | c # cs \<Rightarrow>
     if c = CHR ''-'' then - digits_value cs else if c = CHR ''+'' then digits_value cs else digits_value s)"

text \<open>A mantissa \<open>m\<close> and an exponent \<open>e\<close> with the value \<open>m * 10 ^ e\<close>.\<close>

definition float_number :: "string \<Rightarrow> number" where
  "float_number r =
     (if r = ''nan'' then NaN else if r = ''inf'' then PosInf else if r = ''-inf'' then NegInf
      else
        (let mant = takeWhile (\<lambda>c. c \<noteq> CHR ''e'') r;
             ex = drop 1 (dropWhile (\<lambda>c. c \<noteq> CHR ''e'') r);
             ip = takeWhile (\<lambda>c. c \<noteq> CHR ''.'') mant;
             fp = drop 1 (dropWhile (\<lambda>c. c \<noteq> CHR ''.'') mant)
         in Num (signed_digits (ip @ fp)) (signed_digits ex - int (length fp))))"

fun py_number :: "pyval \<Rightarrow> number option" where
  "py_number (PBool b) = Some (Num (if b then 1 else 0) 0)"
| "py_number (PInt i) = Some (Num i 0)"
| "py_number (PFloat r) = Some (float_number r)"
| "py_number _ = None"

fun number_less :: "number \<Rightarrow> number \<Rightarrow> bool" where
  "number_less (Num m e) (Num n f) = (m * 10 ^ nat (e - min e f) < n * 10 ^ nat (f - min e f))"
| "number_less NegInf (Num _ _) = True"
| "number_less NegInf PosInf = True"
| "number_less (Num _ _) PosInf = True"
| "number_less _ _ = False"

fun number_eq :: "number \<Rightarrow> number \<Rightarrow> bool" where
  "number_eq (Num m e) (Num n f) = (m * 10 ^ nat (e - min e f) = n * 10 ^ nat (f - min e f))"
| "number_eq PosInf PosInf = True"
| "number_eq NegInf NegInf = True"
| "number_eq _ _ = False"

lemma size_PList_mem [termination_simp]: "x \<in> set xs \<Longrightarrow> size x < Suc (size_list size xs)"
  by (induction xs) auto

lemma size_PDict_mem: "(k, v) \<in> set d \<Longrightarrow> size v < Suc (size_list (size_prod (\<lambda>x. 0) size) d)"
  by (induction d) auto

lemma size_PDict_mem' [termination_simp]: "kv \<in> set d \<Longrightarrow> size (snd kv) < Suc (size_list (size_prod (\<lambda>x. 0) size) d)"
  using size_PDict_mem [of "fst kv" "snd kv" d] by simp

lemma size_PDict_dget: "dget d k = Some v \<Longrightarrow> size v < size (PDict d)"
  by (drule map_of_SomeD, drule size_PDict_mem) simp

lemma size_PList_zip [termination_simp]: "(x, y) \<in> set (zip xs ys) \<Longrightarrow> size x < Suc (size_list size xs)"
  by (rule size_PList_mem) (erule set_zip_leftD)

text \<open>\<open>a == b\<close>.\<close>

fun py_eq :: "pyval \<Rightarrow> pyval \<Rightarrow> bool" where
  "py_eq PNone w = (w = PNone)"
| "py_eq (PStr s) w = (w = PStr s)"
| "py_eq (PList xs) w =
     (case w of PList ys \<Rightarrow> length xs = length ys \<and> list_all (\<lambda>(x, y). py_eq x y) (zip xs ys) | _ \<Rightarrow> False)"
| "py_eq (PDict d) w =
     (case w of PDict d' \<Rightarrow>
        length d = length d' \<and> list_all (\<lambda>kv. case dget d' (fst kv) of None \<Rightarrow> False | Some y \<Rightarrow> py_eq (snd kv) y) d
      | _ \<Rightarrow> False)"
| "py_eq v w = (case (py_number v, py_number w) of (Some a, Some b) \<Rightarrow> number_eq a b | _ \<Rightarrow> False)"

section \<open>Validation\<close>

fun as_int :: "pyval \<Rightarrow> int option" where
  \<comment> \<open>\<open>isinstance(v, int)\<close>, which booleans are too\<close>
  "as_int (PInt i) = Some i"
| "as_int (PBool b) = Some (if b then 1 else 0)"
| "as_int _ = None"

definition validate_string :: "string \<Rightarrow> (string, pyval) pydict \<Rightarrow> bool" where
  "validate_string s schema =
     ((case as_int (py_get schema ''minLength'') of None \<Rightarrow> True | Some m \<Rightarrow> \<not> int (length s) < m) \<and>
      (case as_int (py_get schema ''maxLength'') of None \<Rightarrow> True | Some m \<Rightarrow> \<not> m < int (length s)))"

definition validate_number :: "number \<Rightarrow> (string, pyval) pydict \<Rightarrow> bool" where
  "validate_number x schema =
     ((case py_number (py_get schema ''minimum'') of None \<Rightarrow> True | Some m \<Rightarrow> \<not> number_less x m) \<and>
      (case py_number (py_get schema ''maximum'') of None \<Rightarrow> True | Some m \<Rightarrow> \<not> number_less m x))"

definition matches_type :: "pyval \<Rightarrow> string \<Rightarrow> bool" where
  "matches_type v t =
     (if t = ''object'' then is_mapping v
      else if t = ''array'' then (case v of PList _ \<Rightarrow> True | _ \<Rightarrow> False)
      else if t = ''string'' then (case v of PStr _ \<Rightarrow> True | _ \<Rightarrow> False)
      else if t = ''integer'' then (case v of PInt _ \<Rightarrow> True | _ \<Rightarrow> False)
      else if t = ''number'' then (case v of PInt _ \<Rightarrow> True | PFloat _ \<Rightarrow> True | _ \<Rightarrow> False)
      else if t = ''boolean'' then (case v of PBool _ \<Rightarrow> True | _ \<Rightarrow> False)
      else if t = ''null'' then v = PNone
      else False)"

text \<open>\<open>schema.get(k, default)\<close>.\<close>

definition py_get_or :: "(string, pyval) pydict \<Rightarrow> string \<Rightarrow> pyval \<Rightarrow> pyval" where
  "py_get_or d k v = (case dget d k of None \<Rightarrow> v | Some x \<Rightarrow> x)"

definition keys_ok :: "(string, pyval) pydict \<Rightarrow> (string, pyval) pydict \<Rightarrow> (string, pyval) pydict \<Rightarrow> bool" where
  \<comment> \<open>the first part of \<open>_validate_object\<close>, once \<open>properties\<close> is known to be a mapping\<close>
  "keys_ok value properties schema =
     ((case py_get_or schema ''required'' (PList []) of
         PList names \<Rightarrow> list_all (\<lambda>n. case n of PStr s \<Rightarrow> s \<in> fst ` set value | _ \<Rightarrow> False) names
       | _ \<Rightarrow> False) \<and>
      (py_get_or schema ''additionalProperties'' (PBool True) = PBool False \<longrightarrow>
         list_all (\<lambda>kv. fst kv \<in> fst ` set properties) value))"

lemma size_py_get: "py_get d k = v \<Longrightarrow> v \<noteq> PNone \<Longrightarrow> size v < size (PDict d)"
  by (auto simp: py_get_def dest: size_PDict_dget split: option.splits)

lemma size_py_get_or: "py_get_or d k x = v \<Longrightarrow> v \<noteq> x \<Longrightarrow> size v < size (PDict d)"
  by (auto simp: py_get_or_def dest: size_PDict_dget split: option.splits)

function validate_schema :: "pyval \<Rightarrow> (string, pyval) pydict \<Rightarrow> bool"
  and validate_object :: "(string, pyval) pydict \<Rightarrow> (string, pyval) pydict \<Rightarrow> bool" where
  "validate_schema value schema =
     ((case py_get schema ''type'' of PStr t \<Rightarrow> matches_type value t | _ \<Rightarrow> True) \<and>
      (case py_get schema ''enum'' of PList es \<Rightarrow> list_ex (\<lambda>e. py_eq value e) es | _ \<Rightarrow> True) \<and>
      (case py_get schema ''anyOf'' of
         PList options \<Rightarrow> list_ex (\<lambda>opt. case opt of PDict s \<Rightarrow> validate_schema value s | _ \<Rightarrow> False) options
       | _ \<Rightarrow> True) \<and>
      (case value of
         PDict d \<Rightarrow> validate_object d schema
       | PStr s \<Rightarrow> validate_string s schema
       | PInt i \<Rightarrow> validate_number (Num i 0) schema
       | PFloat r \<Rightarrow> validate_number (float_number r) schema
       | PList xs \<Rightarrow>
           (case py_get schema ''items'' of
              PDict item_schema \<Rightarrow> list_all (\<lambda>x. validate_schema x item_schema) xs
            | _ \<Rightarrow> True)
       | _ \<Rightarrow> True))"
| "validate_object value schema =
     (case py_get_or schema ''properties'' (PDict []) of
        PDict properties \<Rightarrow>
          keys_ok value properties schema \<and>
          list_all (\<lambda>kv. case dget properties (fst kv) of
              None \<Rightarrow> True
            | Some PNone \<Rightarrow> True
            | Some (PDict item_schema) \<Rightarrow> validate_schema (snd kv) item_schema
            | Some _ \<Rightarrow> False) value
      | _ \<Rightarrow> False)"
  by pat_completeness auto
termination
proof (relation "measure (case_sum (\<lambda>(v, s). 2 * size (PDict s) + 1) (\<lambda>(v, s). 2 * size (PDict s)))")
  fix sch options s opt and v :: pyval
  assume "py_get sch ''anyOf'' = PList options" "opt \<in> set options" "opt = PDict s"
  then show "(Inl (v, s), Inl (v, sch)) \<in> measure (case_sum (\<lambda>(v, s). 2 * size (PDict s) + 1) (\<lambda>(v, s). 2 * size (PDict s)))"
    using size_py_get [of sch "''anyOf''" "PList options"] size_PList_mem [of opt options] by simp
next
  fix v x :: pyval and sch its
  assume "py_get sch ''items'' = PDict its"
  then show "(Inl (x, its), Inl (v, sch)) \<in> measure (case_sum (\<lambda>(v, s). 2 * size (PDict s) + 1) (\<lambda>(v, s). 2 * size (PDict s)))"
    using size_py_get [of sch "''items''" "PDict its"] by simp
next
  fix v :: "(string, pyval) pydict" and sch properties its and kv :: "string \<times> pyval" and opt
  assume "py_get_or sch ''properties'' (PDict []) = PDict properties"
    and "dget properties (fst kv) = Some opt" "opt = PDict its"
  then show "(Inl (snd kv, its), Inr (v, sch)) \<in> measure (case_sum (\<lambda>(v, s). 2 * size (PDict s) + 1) (\<lambda>(v, s). 2 * size (PDict s)))"
    using size_py_get_or [of sch "''properties''" "PDict []" "PDict properties"] size_PDict_dget [of properties "fst kv" opt]
    by (cases properties) simp_all
qed auto

declare validate_schema.simps [simp del] validate_object.simps [simp del]

section \<open>What a schema asks for\<close>

definition schema_allows_property :: "(string, pyval) pydict \<Rightarrow> string \<Rightarrow> bool" where
  "schema_allows_property schema name =
     (case py_get schema ''properties'' of
        PDict properties \<Rightarrow>
          (case dget properties name of
             Some (PDict property_schema) \<Rightarrow> validate_schema (PBool True) property_schema
           | Some _ \<Rightarrow> False
           | None \<Rightarrow> py_get_or schema ''additionalProperties'' (PBool True) \<noteq> PBool False)
      | _ \<Rightarrow> py_get_or schema ''additionalProperties'' (PBool True) \<noteq> PBool False)"

fun str_names :: "pyval list \<Rightarrow> string list" where
  "str_names [] = []"
| "str_names (PStr s # ns) = s # str_names ns"
| "str_names (_ # ns) = str_names ns"

definition schema_required_keys :: "(string, pyval) pydict \<Rightarrow> string list" where
  \<comment> \<open>a frozenset in the code; its order does not matter, every use sorts keys or tests membership\<close>
  "schema_required_keys schema =
     (case py_get_or schema ''required'' (PList []) of PList names \<Rightarrow> remdups (str_names names) | _ \<Rightarrow> [])"

function schema_fallback :: "bool \<Rightarrow> (string, pyval) pydict \<Rightarrow> pyval" where
  "schema_fallback trunc schema =
     (let t = py_get schema ''type''
      in if t = PStr ''object'' then
           (let properties = (case py_get_or schema ''properties'' (PDict []) of PDict p \<Rightarrow> p | _ \<Rightarrow> []);
                result = map (\<lambda>name. (name,
                   case dget properties name of
                     Some (PDict property_schema) \<Rightarrow> schema_fallback False property_schema
                   | _ \<Rightarrow> PStr [])) (schema_required_keys schema)
            in PDict (if trunc \<and> schema_allows_property schema ''truncated''
                      then dset ''truncated'' (PBool True) result else result))
         else if t = PStr ''array'' then PList []
         else if t = PStr ''boolean'' then PBool False
         else if t = PStr ''number'' \<or> t = PStr ''integer'' then PInt 0
         else if t = PStr ''null'' then PNone
         else PStr [])"
  by pat_completeness auto
termination
proof (relation "measure (\<lambda>(_, s). size (PDict s))")
  fix trunc :: bool and sch t properties name opt ps
  assume "properties = (case py_get_or sch ''properties'' (PDict []) of PDict p \<Rightarrow> p | _ \<Rightarrow> [])"
    and d: "dget properties name = Some opt" "opt = PDict ps"
  moreover from this have "py_get_or sch ''properties'' (PDict []) = PDict properties" "properties \<noteq> []"
    by (auto split: pyval.splits)
  ultimately show "((False, ps), trunc, sch) \<in> measure (\<lambda>(_, s). size (PDict s))"
    using size_py_get_or [of sch "''properties''" "PDict []" "PDict properties"] size_PDict_dget [OF d(1)] by simp
qed simp

declare schema_fallback.simps [simp del]

end
