(* ===== verification/ToolOutput.thy ===== *)
theory ToolOutput
  imports ToolSchema
begin

text \<open>
  How the tool executor turns what a tool returned into bounded text: \<open>_serialize_output\<close>,
  \<open>_serialize_and_truncate_output\<close> and the functions it shortens a structured value with
  (\<open>app/tools/executor.py\<close>).

  The loop that shortens a value until it fits is a \<open>partial_function\<close>: \<open>None\<close> is a loop that does not
  return (that never ends, or raises). On values whose dictionaries have distinct keys, which is what
  \<open>json.loads\<close> builds, it always returns.
\<close>

section \<open>Plain text\<close>

definition output_truncation_marker :: string where
  "output_truncation_marker = ''...[tool output truncated]''"

definition truncate_output :: "string \<Rightarrow> int \<Rightarrow> string \<times> bool" where
  "truncate_output output max_chars =
     (if int (length output) \<le> max_chars then (output, False)
      else if max_chars \<le> int (length output_truncation_marker)
      then (take (nat max_chars) output_truncation_marker, True)
      else (take (nat (max_chars - int (length output_truncation_marker))) output @ output_truncation_marker, True))"

text \<open>
  What a tool returned: a JSON-like value; another object, which \<open>json.dumps(..., default=str)\<close>
  writes as the string \<open>str\<close> gives; or a value (a container or not) on which \<open>json.dumps\<close> raises \<open>TypeError\<close>,
  \<open>ValueError\<close> or \<open>OverflowError\<close> (keys that cannot be sorted, a reference cycle, an integer of too many digits), with
  what \<open>str\<close> gives for it: a text, or nothing when \<open>str\<close> raises as well.
\<close>

datatype raw_output = RawValue pyval | RawObject string | RawUndumpable "string option"

text \<open>\<open>None\<close>: the \<open>str(value)\<close> of the \<open>except\<close> clause raises.\<close>

fun serialize_output :: "raw_output \<Rightarrow> string option" where
  "serialize_output (RawValue (PStr s)) = Some s"
| "serialize_output (RawValue v) = Some (dump_json v)"
| "serialize_output (RawObject text) = Some (json_str text)"
| "serialize_output (RawUndumpable str_value) = str_value"

text \<open>\<open>json.loads(json.dumps(value, sort_keys=True))\<close>.\<close>

fun normalize_structured_output :: "pyval \<Rightarrow> pyval" where
  "normalize_structured_output (PList xs) = PList (map normalize_structured_output xs)"
| "normalize_structured_output (PDict d) =
     PDict (sort_key fst (map (\<lambda>kv. (fst kv, normalize_structured_output (snd kv))) d))"
| "normalize_structured_output v = v"

section \<open>Shortening the longest string\<close>

datatype path_part = Key string | Index nat

definition protected_identifier_keys :: "string list" where
  "protected_identifier_keys = [''document_id'', ''chunk_id'', ''call_id'', ''id'']"

text \<open>\<open>max(candidates, key=len, default=None)\<close>: the first of the longest.\<close>

fun longest :: "('p \<times> string) list \<Rightarrow> ('p \<times> string) option" where
  "longest [] = None"
| "longest (x # xs) =
     (case longest xs of
        None \<Rightarrow> Some x
      | Some y \<Rightarrow> if length (snd x) < length (snd y) then Some y else Some x)"

fun protected_part :: "path_part \<Rightarrow> bool" where
  "protected_part (Key k) = (k \<in> set protected_identifier_keys)"
| "protected_part (Index _) = False"

fun find_longest_string :: "pyval \<Rightarrow> path_part list \<Rightarrow> (path_part list \<times> string) option" where
  "find_longest_string (PStr s) path = (if path \<noteq> [] \<and> protected_part (last path) then None else Some (path, s))"
| "find_longest_string (PDict d) path =
     longest (List.map_filter (\<lambda>x. x) (map (\<lambda>kv. find_longest_string (snd kv) (path @ [Key (fst kv)])) d))"
| "find_longest_string (PList xs) path =
     longest (List.map_filter (\<lambda>x. x) (map (\<lambda>(x, i). find_longest_string x (path @ [Index i])) (zip xs [0..<length xs])))"
| "find_longest_string _ path = None"

text \<open>\<open>None\<close> where an index or key is missing and Python raises.\<close>

fun set_json_path :: "pyval \<Rightarrow> path_part list \<Rightarrow> string \<Rightarrow> pyval option" where
  "set_json_path v [] replacement = Some v"
| "set_json_path v [leaf] replacement =
     (case (v, leaf) of
        (PDict d, Key k) \<Rightarrow> Some (PDict (dset k (PStr replacement) d))
      | (PList xs, Index i) \<Rightarrow> if i < length xs then Some (PList (xs[i := PStr replacement])) else None
      | _ \<Rightarrow> Some v)"
| "set_json_path v (part # next_part # parts) replacement =
     (case (v, part) of
        (PDict d, Key k) \<Rightarrow>
          (case dget d k of
             None \<Rightarrow> None
           | Some x \<Rightarrow> map_option (\<lambda>y. PDict (dset k y d)) (set_json_path x (next_part # parts) replacement))
      | (PList xs, Index i) \<Rightarrow>
          (if i < length xs
           then map_option (\<lambda>y. PList (xs[i := y])) (set_json_path (xs ! i) (next_part # parts) replacement)
           else None)
      | _ \<Rightarrow> Some v)"

text \<open>The ellipsis U+2026 lies outside the modelled code points; U+0085 stands for it (its place in Windows-1252).\<close>

definition ellipsis :: char where "ellipsis = CHR 0x85"

definition shortened :: "string \<Rightarrow> int \<Rightarrow> string" where
  \<comment> \<open>the \<open>replacement\<close> of \<open>_truncate_longest_string\<close>, from the serialized length less \<open>max_chars\<close>\<close>
  "shortened current over =
     (let excess = max over 1;
          reduction = max excess (max (int (length current) div 4) 1);
          new_length = max (int (length current) - reduction) 0;
          replacement = (if new_length \<noteq> 0 then take (nat (max (new_length - 1) 0)) current @ [ellipsis] else [])
      in if replacement = current then take (nat (max (int (length current) - 1) 0)) current else replacement)"

definition truncate_longest_string :: "pyval \<Rightarrow> int \<Rightarrow> pyval option option" where
  \<comment> \<open>\<open>Some (Some v)\<close>: changed to \<open>v\<close>; \<open>Some None\<close>: nothing to shorten; \<open>None\<close>: raises\<close>
  "truncate_longest_string v max_chars =
     (case find_longest_string v [] of
        None \<Rightarrow> Some None
      | Some (path, current) \<Rightarrow>
          if current = [] then Some None
          else map_option Some (set_json_path v path (shortened current (int (length (dump_json v)) - max_chars))))"

section \<open>Removing entries\<close>

text \<open>\<open>any(f(x) for x in xs)\<close> where \<open>f\<close> changes its argument and says so: the first change.\<close>

fun first_change :: "('a \<Rightarrow> 'a option) \<Rightarrow> 'a list \<Rightarrow> 'a list option" where
  "first_change f [] = None"
| "first_change f (x # xs) = (case f x of Some y \<Rightarrow> Some (y # xs) | None \<Rightarrow> map_option (Cons x) (first_change f xs))"

lemma first_change_cong [fundef_cong]:
  "xs = ys \<Longrightarrow> (\<And>x. x \<in> set ys \<Longrightarrow> f x = g x) \<Longrightarrow> first_change f xs = first_change g ys"
  by (induction xs arbitrary: ys) (auto split: option.splits)

definition is_truncation_marker :: "pyval \<Rightarrow> bool" where
  "is_truncation_marker v \<longleftrightarrow> py_eq v (PDict [(''truncated'', PBool True)])"

fun remove_one_list_item :: "bool \<Rightarrow> pyval \<Rightarrow> pyval option" where
  "remove_one_list_item at_root (PList xs) =
     (let last_index = int (length xs) - 1;
          i = (if at_root \<and> 0 \<le> last_index \<and> is_truncation_marker (xs ! nat last_index) then last_index - 1 else last_index)
      in if 0 \<le> i then Some (PList (take (nat i) xs @ drop (nat i + 1) xs)) else None)"
| "remove_one_list_item at_root (PDict d) =
     map_option PDict (first_change (\<lambda>kv. map_option (Pair (fst kv)) (remove_one_list_item False (snd kv))) d)"
| "remove_one_list_item at_root _ = None"

fun remove_one_mapping_entry :: "bool \<Rightarrow> string list \<Rightarrow> pyval \<Rightarrow> pyval option" where
  "remove_one_mapping_entry at_root protected_keys (PDict d) =
     (case find (\<lambda>k. \<not> (at_root \<and> (k = ''truncated'' \<or> k \<in> set protected_keys))) (rev (map fst d)) of
        Some k \<Rightarrow> Some (PDict (ddel k d))
      | None \<Rightarrow>
          map_option PDict
            (first_change (\<lambda>kv. map_option (Pair (fst kv)) (remove_one_mapping_entry False protected_keys (snd kv))) d))"
| "remove_one_mapping_entry at_root protected_keys (PList xs) =
     map_option PList (first_change (\<lambda>x. remove_one_mapping_entry False protected_keys x) xs)"
| "remove_one_mapping_entry at_root protected_keys _ = None"

partial_function (option) shrink_loop :: "int \<Rightarrow> string list \<Rightarrow> pyval \<Rightarrow> pyval option" where
  "shrink_loop max_chars protected_keys v =
     (if int (length (dump_json v)) \<le> max_chars then Some v
      else
        (case truncate_longest_string v max_chars of
           None \<Rightarrow> None
         | Some (Some w) \<Rightarrow> shrink_loop max_chars protected_keys w
         | Some None \<Rightarrow>
             (case remove_one_list_item True v of
                Some w \<Rightarrow> shrink_loop max_chars protected_keys w
              | None \<Rightarrow>
                  (case remove_one_mapping_entry True protected_keys v of
                     Some w \<Rightarrow> shrink_loop max_chars protected_keys w
                   | None \<Rightarrow> Some v))))"

declare shrink_loop.simps [code]

section \<open>Structured output\<close>

datatype output_error = StructuredOutputLimitError | StrRaised

definition is_structured :: "raw_output \<Rightarrow> bool" where
  "is_structured raw = (case raw of RawValue (PDict _) \<Rightarrow> True | RawValue (PList _) \<Rightarrow> True | _ \<Rightarrow> False)"

definition mark_truncated :: "(string, pyval) pydict \<Rightarrow> pyval \<Rightarrow> pyval" where
  "mark_truncated schema v =
     (case v of
        PDict d \<Rightarrow> if schema_allows_property schema ''truncated'' then PDict (dset ''truncated'' (PBool True) d) else v
      | _ \<Rightarrow> v)"

definition fits :: "int \<Rightarrow> (string, pyval) pydict \<Rightarrow> pyval \<Rightarrow> bool" where
  "fits max_chars schema v \<longleftrightarrow> int (length (dump_json v)) \<le> max_chars \<and> validate_schema v schema"

text \<open>The outer \<open>None\<close> is a call that does not return.\<close>

definition structured_output :: "pyval \<Rightarrow> int \<Rightarrow> (string, pyval) pydict \<Rightarrow> (output_error + string \<times> bool) option" where
  "structured_output v max_chars schema =
     (let normalized = normalize_structured_output v
      in if int (length (dump_json normalized)) \<le> max_chars then Some (Inr (dump_json normalized, False))
         else
           (case shrink_loop max_chars (schema_required_keys schema) (mark_truncated schema normalized) of
              None \<Rightarrow> None
            | Some w \<Rightarrow>
                Some (if fits max_chars schema w then Inr (dump_json w, True)
                      else if fits max_chars schema (schema_fallback True schema)
                      then Inr (dump_json (schema_fallback True schema), True)
                      else if fits max_chars schema (schema_fallback False schema)
                      then Inr (dump_json (schema_fallback False schema), True)
                      else Inl StructuredOutputLimitError)))"

text \<open>Both ways to plain text: a value that is no container, and one \<open>_normalize_structured_output\<close> raises on.\<close>

definition plain_output :: "raw_output \<Rightarrow> int \<Rightarrow> output_error + string \<times> bool" where
  "plain_output raw max_chars =
     (case serialize_output raw of None \<Rightarrow> Inl StrRaised | Some output \<Rightarrow> Inr (truncate_output output max_chars))"

definition serialize_and_truncate_output ::
  "raw_output \<Rightarrow> int \<Rightarrow> (string, pyval) pydict \<Rightarrow> (output_error + string \<times> bool) option" where
  "serialize_and_truncate_output raw max_chars schema =
     (case raw of
        RawValue v \<Rightarrow>
          if is_structured raw then structured_output v max_chars schema
          else Some (plain_output raw max_chars)
      | _ \<Rightarrow> Some (plain_output raw max_chars))"

section \<open>The loop returns\<close>

text \<open>Distinct keys at every level, as Python dictionaries have.\<close>

fun pv_wf :: "pyval \<Rightarrow> bool" where
  "pv_wf (PList xs) = list_all pv_wf xs"
| "pv_wf (PDict d) = (distinct (map fst d) \<and> list_all (\<lambda>kv. pv_wf (snd kv)) d)"
| "pv_wf _ = True"

text \<open>The weight of a value: its nodes and the characters of its strings.\<close>

fun weight :: "pyval \<Rightarrow> nat" where
  "weight (PStr s) = Suc (length s)"
| "weight (PList xs) = Suc (sum_list (map weight xs))"
| "weight (PDict d) = Suc (sum_list (map (\<lambda>kv. weight (snd kv)) d))"
| "weight _ = 1"

lemma weight_pos [simp]: "0 < weight v"
  by (cases v) simp_all

fun path_at :: "pyval \<Rightarrow> path_part list \<Rightarrow> pyval option" where
  "path_at v [] = Some v"
| "path_at (PDict d) (Key k # ps) = (case dget d k of None \<Rightarrow> None | Some x \<Rightarrow> path_at x ps)"
| "path_at (PList xs) (Index i # ps) = (if i < length xs then path_at (xs ! i) ps else None)"
| "path_at _ _ = None"

lemma longest_mem: "longest xs = Some x \<Longrightarrow> x \<in> set xs"
  by (induction xs arbitrary: x) (auto split: option.splits if_splits)

lemma set_map_filter_id: "x \<in> set (List.map_filter (\<lambda>x. x) ys) \<longleftrightarrow> Some x \<in> set ys"
  by (force simp: List.map_filter_def)

lemma find_longest_path:
  assumes "find_longest_string v path = Some (q, s)" and "pv_wf v"
  shows "\<exists>r. q = path @ r \<and> path_at v r = Some (PStr s) \<and> (q \<noteq> [] \<longrightarrow> \<not> protected_part (last q))"
  using assms
proof (induction v path arbitrary: q s rule: find_longest_string.induct)
  case (1 t path)
  then show ?case by (auto split: if_splits)
next
  case (2 d path)
  then obtain kv where kv: "kv \<in> set d" "find_longest_string (snd kv) (path @ [Key (fst kv)]) = Some (q, s)"
    by (auto dest!: longest_mem simp: set_map_filter_id)
  then obtain r where r: "q = (path @ [Key (fst kv)]) @ r" "path_at (snd kv) r = Some (PStr s)" "q \<noteq> [] \<longrightarrow> \<not> protected_part (last q)"
    using 2(1) [OF kv] 2(3) kv(1) by (auto simp: list_all_iff)
  have "dget d (fst kv) = Some (snd kv)" using 2 kv(1) by simp
  with r show ?case by (intro exI [of _ "Key (fst kv) # r"]) simp
next
  case (3 xs path)
  then obtain x i where x: "(x, i) \<in> set (zip xs [0..<length xs])" "find_longest_string x (path @ [Index i]) = Some (q, s)"
    by (auto dest!: longest_mem simp: set_map_filter_id)
  then have i: "i < length xs" "xs ! i = x" by (auto simp: set_zip)
  from x(1) 3(3) have "pv_wf x" by (auto simp: list_all_iff dest: set_zip_leftD)
  then obtain r where r: "q = (path @ [Index i]) @ r" "path_at x r = Some (PStr s)" "q \<noteq> [] \<longrightarrow> \<not> protected_part (last q)"
    using 3(1) [OF x(1) refl x(2)] by auto
  with i show ?case by (intro exI [of _ "Index i # r"]) simp
qed simp_all

lemma sum_weight_update:
  assumes "i < length xs"
  shows "sum_list (map weight (xs[i := y])) + weight (xs ! i) = sum_list (map weight xs) + weight y"
  using assms
proof (induction xs arbitrary: i)
  case (Cons x xs)
  then show ?case by (cases i) auto
qed simp

lemma sum_weight_dset:
  assumes "dget d k = Some x"
  shows "sum_list (map (\<lambda>kv. weight (snd kv)) (dset k y d)) + weight x = sum_list (map (\<lambda>kv. weight (snd kv)) d) + weight y"
  using assms by (induction d) (auto split: if_splits)

lemma list_all_dset: "list_all (\<lambda>kv. P (snd kv)) d \<Longrightarrow> P y \<Longrightarrow> list_all (\<lambda>kv. P (snd kv)) (dset k y d)"
  by (induction d) auto

lemma list_all_ddel: "list_all (\<lambda>kv. P (snd kv)) d \<Longrightarrow> list_all (\<lambda>kv. P (snd kv)) (ddel k d)"
  by (induction d) auto

lemma list_all_update: "list_all P xs \<Longrightarrow> P y \<Longrightarrow> list_all P (xs[i := y])"
  by (induction xs arbitrary: i) (auto split: nat.splits)

lemma list_all_dget: "list_all (\<lambda>kv. P (snd kv)) d \<Longrightarrow> dget d k = Some x \<Longrightarrow> P x"
  by (drule map_of_SomeD) (auto simp: list_all_iff)

lemma set_json_path_weight:
  assumes "path_at v r = Some (PStr s)" and "r \<noteq> []" and "pv_wf v"
  shows "\<exists>w. set_json_path v r t = Some w \<and> pv_wf w \<and> weight w + length s = weight v + length t"
  using assms
proof (induction v r t rule: set_json_path.induct)
  case (2 v leaf t)
  show ?case
  proof (cases v)
    case (PDict d)
    with 2 obtain k where k: "leaf = Key k" "dget d k = Some (PStr s)" by (cases leaf) (auto split: option.splits)
    with PDict 2 sum_weight_dset [OF k(2), of "PStr t"] show ?thesis by (simp add: distinct_update list_all_dset)
  next
    case (PList xs)
    with 2 obtain i where i: "leaf = Index i" "i < length xs" "xs ! i = PStr s" by (cases leaf) (auto split: if_splits)
    with PList 2 sum_weight_update [OF i(2), of "PStr t"] show ?thesis by (simp add: list_all_update)
  qed (use 2 in simp_all)
next
  case (3 v part next_part parts t)
  show ?case
  proof (cases v)
    case (PDict d)
    with 3 obtain k x where k: "part = Key k" "dget d k = Some x" "path_at x (next_part # parts) = Some (PStr s)"
      by (cases part) (auto split: option.splits)
    have "pv_wf x" using PDict 3(4,5) k list_all_dget [of pv_wf d k x] by simp
    with 3(2) [OF _ _ _ _ k(3)] PDict k obtain w where "set_json_path x (next_part # parts) t = Some w" "pv_wf w"
      "weight w + length s = weight x + length t" by auto
    with PDict k 3(5) sum_weight_dset [of d k x w] show ?thesis by (simp add: distinct_update list_all_dset)
  next
    case (PList xs)
    with 3 obtain i where i: "part = Index i" "i < length xs" "path_at (xs ! i) (next_part # parts) = Some (PStr s)"
      by (cases part) (auto split: if_splits)
    have "pv_wf (xs ! i)" using PList 3(5) i by (simp add: list_all_length)
    with 3(1) [OF _ _ _ _ i(3)] PList i obtain w where "set_json_path (xs ! i) (next_part # parts) t = Some w" "pv_wf w"
      "weight w + length s = weight (xs ! i) + length t" by auto
    with PList i 3(5) sum_weight_update [of i xs w] show ?thesis by (simp add: list_all_update)
  qed (use 3 in simp_all)
qed simp

lemma shortened_shorter: "s \<noteq> [] \<Longrightarrow> length (shortened s over) < length s"
proof -
  assume s: "s \<noteq> []"
  define n where "n = max (int (length s) - max (max over 1) (max (int (length s) div 4) 1)) 0"
  have n: "0 \<le> n" "n < int (length s)" using s unfolding n_def by (auto simp: max_def)
  define r where "r = (if n \<noteq> 0 then take (nat (max (n - 1) 0)) s @ [ellipsis] else [])"
  have "length r < length s" using n s by (auto simp: r_def min_def)
  then have "shortened s over = r" unfolding shortened_def Let_def n_def [symmetric] r_def [symmetric] by auto
  with \<open>length r < length s\<close> show ?thesis by simp
qed

lemma truncate_longest_string_lighter:
  assumes "pv_wf v" and "\<forall>s. v \<noteq> PStr s"
  shows "case truncate_longest_string v m of
      None \<Rightarrow> False | Some None \<Rightarrow> True | Some (Some w) \<Rightarrow> pv_wf w \<and> weight w < weight v"
proof (cases "find_longest_string v []")
  case (Some ps)
  obtain path s where ps: "ps = (path, s)" by fastforce
  then have "path_at v path = Some (PStr s)" using find_longest_path [OF Some [unfolded ps] assms(1)] by simp
  moreover from this have "path \<noteq> []" using assms(2) by auto
  ultimately obtain w where "set_json_path v path (shortened s (int (length (dump_json v)) - m)) = Some w" "pv_wf w"
    "weight w + length s = weight v + length (shortened s (int (length (dump_json v)) - m))"
    using set_json_path_weight assms(1) by blast
  then show ?thesis using Some ps shortened_shorter [of s "int (length (dump_json v)) - m"]
    by (auto simp: truncate_longest_string_def)
qed (simp add: truncate_longest_string_def)

lemma first_change_split:
  "first_change f xs = Some ys \<Longrightarrow> \<exists>as x y bs. xs = as @ x # bs \<and> ys = as @ y # bs \<and> f x = Some y"
proof (induction xs arbitrary: ys)
  case (Cons x xs)
  show ?case
  proof (cases "f x")
    case None
    with Cons.prems obtain zs where zs: "first_change f xs = Some zs" "ys = x # zs" by auto
    from Cons.IH [OF zs(1)] obtain as a b bs where "xs = as @ a # bs" "zs = as @ b # bs" "f a = Some b" by blast
    with zs(2) show ?thesis by (intro exI [of _ "x # as"]) auto
  next
    case (Some y)
    with Cons.prems show ?thesis by (intro exI [of _ "[]"]) auto
  qed
qed simp

lemma remove_item_shape:
  assumes "remove_one_list_item b (PList xs) = Some w"
  shows "\<exists>i < length xs. w = PList (take i xs @ drop (i + 1) xs)"
proof -
  define j where "j = (let last_index = int (length xs) - 1 in
     if b \<and> 0 \<le> last_index \<and> is_truncation_marker (xs ! nat last_index) then last_index - 1 else last_index)"
  have "0 \<le> j" "w = PList (take (nat j) xs @ drop (nat j + 1) xs)"
    using assms unfolding remove_one_list_item.simps Let_def j_def by (metis option.distinct(1) option.inject)+
  moreover have "j < int (length xs)" by (simp add: j_def Let_def)
  ultimately show ?thesis by (metis nat_less_iff)
qed

lemma remove_one_list_item_lighter:
  "remove_one_list_item b v = Some w \<Longrightarrow> pv_wf v \<Longrightarrow> pv_wf w \<and> weight w < weight v"
proof (induction b v arbitrary: w rule: remove_one_list_item.induct)
  case (1 b xs)
  from remove_item_shape [OF 1(1)] obtain i where i: "i < length xs" "w = PList (take i xs @ drop (i + 1) xs)" by blast
  have "sum_list (map weight xs) = sum_list (map weight (take i xs @ xs ! i # drop (i + 1) xs))"
    using i(1) by (simp only: id_take_nth_drop [symmetric] Suc_eq_plus1 [symmetric])
  with i 1(2) weight_pos [of "xs ! i"] show ?case by (auto simp: list_all_iff dest: in_set_takeD in_set_dropD)
next
  case (2 b d)
  then obtain e where e: "first_change (\<lambda>kv. map_option (Pair (fst kv)) (remove_one_list_item False (snd kv))) d = Some e" "w = PDict e"
    by auto
  then obtain as kv y bs where d: "d = as @ kv # bs" "e = as @ (fst kv, y) # bs" "remove_one_list_item False (snd kv) = Some y"
    by (auto dest!: first_change_split)
  with 2(1) [of kv y] 2(3) e(2) show ?case by simp
qed simp_all

lemma find_mem: "find P xs = Some x \<Longrightarrow> x \<in> set xs"
  by (induction xs) (auto split: if_splits)

lemma sum_weight_ddel:
  "k \<in> fst ` set d \<Longrightarrow> sum_list (map (\<lambda>kv. weight (snd kv)) (ddel k d)) < sum_list (map (\<lambda>kv. weight (snd kv)) d)"
proof (induction d)
  case (Cons kv d)
  have le: "sum_list (map (\<lambda>kv. weight (snd kv)) (ddel k d)) \<le> sum_list (map (\<lambda>kv. weight (snd kv)) d)"
    by (induction d) auto
  with Cons weight_pos [of "snd kv"] show ?case by (auto simp del: weight_pos) 
qed simp

lemma remove_one_mapping_entry_lighter:
  "remove_one_mapping_entry b ks v = Some w \<Longrightarrow> pv_wf v \<Longrightarrow> pv_wf w \<and> weight w < weight v"
proof (induction b ks v arbitrary: w rule: remove_one_mapping_entry.induct)
  case (1 b ks d)
  let ?P = "\<lambda>k. \<not> (b \<and> (k = ''truncated'' \<or> k \<in> set ks))"
  show ?case
  proof (cases "find ?P (rev (map fst d))")
    case None
    with 1(2) obtain e where e: "first_change (\<lambda>kv. map_option (Pair (fst kv)) (remove_one_mapping_entry False ks (snd kv))) d = Some e" "w = PDict e"
      by auto
    then obtain as kv y bs where d: "d = as @ kv # bs" "e = as @ (fst kv, y) # bs" "remove_one_mapping_entry False ks (snd kv) = Some y"
      by (auto dest!: first_change_split)
    with 1(1) [OF None, of kv y] 1(3) e(2) show ?thesis by simp
  next
    case (Some k)
    then have "k \<in> fst ` set d" by (auto dest: find_mem)
    with Some 1 sum_weight_ddel [of k d] show ?thesis
      using list_all_ddel [of pv_wf d k] by (auto simp: distinct_delete)
  qed
next
  case (2 b ks xs)
  then obtain ys where e: "first_change (\<lambda>x. remove_one_mapping_entry False ks x) xs = Some ys" "w = PList ys" by auto
  then obtain as x y bs where d: "xs = as @ x # bs" "ys = as @ y # bs" "remove_one_mapping_entry False ks x = Some y"
    by (auto dest!: first_change_split)
  with 2(1) [of x y] 2(3) e(2) show ?case by simp
qed simp_all

text \<open>
  A relation that every step of the loop keeps holds between the value the loop starts with and the one
  it returns; and it returns, with a value that fits or that nothing can be taken from.
\<close>

definition irreducible :: "string list \<Rightarrow> int \<Rightarrow> pyval \<Rightarrow> bool" where
  "irreducible ks m v \<longleftrightarrow> truncate_longest_string v m = Some None \<and> remove_one_list_item True v = None \<and>
     remove_one_mapping_entry True ks v = None"

fun container :: "pyval \<Rightarrow> bool" where
  "container (PList _) = True"
| "container (PDict _) = True"
| "container _ = False"

lemma container_not_str: "container v \<Longrightarrow> \<forall>s. v \<noteq> PStr s"
  by (cases v) simp_all

lemma set_json_path_container: "set_json_path v r t = Some w \<Longrightarrow> container v \<Longrightarrow> container w"
  by (induction v r t arbitrary: w rule: set_json_path.induct)
     (auto split: pyval.splits path_part.splits option.splits if_splits)

lemma steps_container:
  assumes "container v"
  shows "truncate_longest_string v m = Some (Some w) \<Longrightarrow> container w"
    and "remove_one_list_item b v = Some w \<Longrightarrow> container w"
    and "remove_one_mapping_entry b ks v = Some w \<Longrightarrow> container w"
  using assms
  by (auto simp: truncate_longest_string_def split: option.splits if_splits dest: set_json_path_container)
     (cases v; auto simp: Let_def split: if_splits option.splits)+

lemma shrink_loop_spec:
  assumes "pv_wf v" and "container v"
    and step: "\<And>x y. pv_wf x \<Longrightarrow> container x \<Longrightarrow>
      truncate_longest_string x m = Some (Some y) \<or> remove_one_list_item True x = Some y \<or>
      remove_one_mapping_entry True ks x = Some y \<Longrightarrow> R x y"
    and refl: "\<And>x. R x x" and trans: "\<And>x y z. R x y \<Longrightarrow> R y z \<Longrightarrow> R x z"
  shows "\<exists>w. shrink_loop m ks v = Some w \<and> R v w \<and> (int (length (dump_json w)) \<le> m \<or> irreducible ks m w)"
  using assms(1,2)
proof (induction v rule: measure_induct_rule [of weight])
  case (less v)
  note tr = truncate_longest_string_lighter [OF less.prems(1) container_not_str [OF less.prems(2)], of m]
  have next_step: "\<exists>w. shrink_loop m ks y = Some w \<and> R v w \<and> (int (length (dump_json w)) \<le> m \<or> irreducible ks m w)"
    if y: "truncate_longest_string v m = Some (Some y) \<or> remove_one_list_item True v = Some y \<or>
      remove_one_mapping_entry True ks v = Some y" for y
  proof -
    have "pv_wf y \<and> weight y < weight v"
      using y tr remove_one_list_item_lighter [OF _ less.prems(1)] remove_one_mapping_entry_lighter [OF _ less.prems(1)] by fastforce
    moreover have "container y" using y steps_container [OF less.prems(2)] by blast
    ultimately show ?thesis using less.IH [of y] step [OF less.prems y] trans by blast
  qed
  show ?case
  proof (cases "int (length (dump_json v)) \<le> m")
    case True
    then show ?thesis using refl by (subst shrink_loop.simps) simp
  next
    case big: False
    show ?thesis
    proof (cases "truncate_longest_string v m")
      case None
      with tr show ?thesis by simp
    next
      case (Some c)
      show ?thesis
      proof (cases c)
        case None
        with Some big refl next_step show ?thesis
          by (subst shrink_loop.simps) (auto simp: irreducible_def split: option.splits)
      next
        case (Some y)
        with \<open>truncate_longest_string v m = Some c\<close> big next_step show ?thesis
          by (subst shrink_loop.simps) simp
      qed
    qed
  qed
qed

section \<open>Identifiers\<close>

definition own_identifier :: "string \<Rightarrow> pyval \<Rightarrow> string set" where
  "own_identifier k v = (if k \<in> set protected_identifier_keys then (case v of PStr s \<Rightarrow> {s} | _ \<Rightarrow> {}) else {})"

text \<open>The strings under the protected keys, at every level.\<close>

fun identifiers :: "pyval \<Rightarrow> string set" where
  "identifiers (PList xs) = (\<Union>x \<in> set xs. identifiers x)"
| "identifiers (PDict d) = (\<Union>kv \<in> set d. own_identifier (fst kv) (snd kv) \<union> identifiers (snd kv))"
| "identifiers _ = {}"

lemma own_identifier_container: "container v \<Longrightarrow> own_identifier k v = {}"
  by (cases v) (simp_all add: own_identifier_def)

lemma identifiers_dset:
  "own_identifier k y \<union> identifiers y \<subseteq> I \<Longrightarrow> identifiers (PDict d) \<subseteq> I \<Longrightarrow> identifiers (PDict (dset k y d)) \<subseteq> I"
  by (induction d) auto

lemma identifiers_dget: "dget d k = Some x \<Longrightarrow> identifiers x \<subseteq> identifiers (PDict d)"
  using map_of_SomeD [of d k x] by (auto intro!: bexI [of _ "(k, x)"])

lemma path_container: "path_at v (p # ps) = Some x \<Longrightarrow> container v"
  by (cases v) auto

lemma set_json_path_identifiers:
  assumes "set_json_path v r t = Some w" and "path_at v r = Some (PStr s)" and "r \<noteq> []" and "\<not> protected_part (last r)"
  shows "identifiers w \<subseteq> identifiers v"
  using assms
proof (induction v r t arbitrary: w rule: set_json_path.induct)
  case (2 v leaf t)
  show ?case
  proof (cases v)
    case (PDict d)
    with 2 obtain k where k: "leaf = Key k" by (cases leaf) auto
    with PDict 2 show ?thesis using identifiers_dset [of k "PStr t" "identifiers v" d] by (auto simp: own_identifier_def)
  next
    case (PList xs)
    with 2 obtain i where "leaf = Index i" "i < length xs" by (cases leaf) (auto split: if_splits)
    with PList 2 show ?thesis by (auto dest!: set_update_subset_insert [THEN subsetD])
  qed (use 2 in simp_all)
next
  case (3 v part next_part parts t)
  show ?case
  proof (cases v)
    case (PDict d)
    with 3(4) obtain k x where k: "part = Key k" "dget d k = Some x" "path_at x (next_part # parts) = Some (PStr s)"
      by (cases part) (auto split: option.splits)
    with 3(3) PDict obtain y where y: "set_json_path x (next_part # parts) t = Some y" "w = PDict (dset k y d)" by auto
    have "identifiers y \<subseteq> identifiers x" using 3(2) [OF _ _ _ _ y(1) k(3)] PDict k 3(6) by auto
    moreover have "container y" using set_json_path_container [OF y(1)] path_container [OF k(3)] by simp
    ultimately show ?thesis
      using y(2) PDict identifiers_dset [of k y "identifiers v" d] identifiers_dget [OF k(2)] own_identifier_container by blast
  next
    case (PList xs)
    with 3(4) obtain i where i: "part = Index i" "i < length xs" "path_at (xs ! i) (next_part # parts) = Some (PStr s)"
      by (cases part) (auto split: if_splits)
    with 3(3) PList obtain y where y: "set_json_path (xs ! i) (next_part # parts) t = Some y" "w = PList (xs[i := y])" by auto
    have "identifiers y \<subseteq> identifiers (xs ! i)" using 3(1) [OF _ _ _ _ y(1) i(3)] PList i 3(6) by auto
    with y(2) PList i(2) show ?thesis by (auto dest!: set_update_subset_insert [THEN subsetD]) (use nth_mem in blast)
  qed (use 3 in simp_all)
qed simp

lemma truncate_longest_string_identifiers:
  assumes "truncate_longest_string v m = Some (Some w)" and "pv_wf v" and "container v"
  shows "identifiers w \<subseteq> identifiers v"
proof -
  from assms(1) obtain path s t where f: "find_longest_string v [] = Some (path, s)" and w: "set_json_path v path t = Some w"
    by (auto simp: truncate_longest_string_def split: option.splits if_splits prod.splits)
  from find_longest_path [OF f assms(2)] have "path_at v path = Some (PStr s)" "path \<noteq> [] \<longrightarrow> \<not> protected_part (last path)" by auto
  moreover from this have "path \<noteq> []" using container_not_str [OF assms(3)] by auto
  ultimately show ?thesis using set_json_path_identifiers [OF w] by blast
qed

lemma remove_one_list_item_identifiers: "remove_one_list_item b v = Some w \<Longrightarrow> identifiers w \<subseteq> identifiers v"
proof (induction b v arbitrary: w rule: remove_one_list_item.induct)
  case (1 b xs)
  from remove_item_shape [OF this] obtain i where "w = PList (take i xs @ drop (i + 1) xs)" by blast
  moreover have "set (take i xs @ drop (i + 1) xs) \<subseteq> set xs" using set_take_subset [of i xs] set_drop_subset [of "i + 1" xs] by auto
  ultimately show ?case by auto
next
  case (2 b d)
  then obtain as kv y bs where d: "d = as @ kv # bs" "w = PDict (as @ (fst kv, y) # bs)" "remove_one_list_item False (snd kv) = Some y"
    by (auto dest!: first_change_split)
  moreover have "container y" using d(3) by (cases "snd kv") (auto simp: Let_def split: if_splits)
  ultimately show ?case using 2(1) [of kv y] by (auto simp: own_identifier_container)
qed simp_all

lemma identifiers_ddel: "identifiers (PDict (ddel k d)) \<subseteq> identifiers (PDict d)"
  by (induction d) auto

lemma remove_one_mapping_entry_identifiers: "remove_one_mapping_entry b ks v = Some w \<Longrightarrow> identifiers w \<subseteq> identifiers v"
proof (induction b ks v arbitrary: w rule: remove_one_mapping_entry.induct)
  case (1 b ks d)
  let ?P = "\<lambda>k. \<not> (b \<and> (k = ''truncated'' \<or> k \<in> set ks))"
  show ?case
  proof (cases "find ?P (rev (map fst d))")
    case None
    with 1(2) obtain as kv y bs where d: "d = as @ kv # bs" "w = PDict (as @ (fst kv, y) # bs)"
      "remove_one_mapping_entry False ks (snd kv) = Some y" by (auto dest!: first_change_split)
    moreover have "container y" using d(3) by (cases "snd kv") (auto split: option.splits)
    ultimately show ?thesis using 1(1) [OF None, of kv y] by (auto simp: own_identifier_container)
  next
    case (Some k)
    with 1(2) show ?thesis using identifiers_ddel [of k d] by auto
  qed
next
  case (2 b ks xs)
  then obtain as x y bs where d: "xs = as @ x # bs" "w = PList (as @ y # bs)" "remove_one_mapping_entry False ks x = Some y"
    by (auto dest!: first_change_split)
  with 2(1) [of x y] show ?case by auto
qed simp_all

lemma shrink_loop_identifiers:
  assumes "pv_wf v" and "container v"
  shows "\<exists>w. shrink_loop m ks v = Some w \<and> identifiers w \<subseteq> identifiers v \<and>
    (int (length (dump_json w)) \<le> m \<or> irreducible ks m w)"
  by (rule shrink_loop_spec [OF assms])
     (use truncate_longest_string_identifiers remove_one_list_item_identifiers remove_one_mapping_entry_identifiers in blast)+

section \<open>What the executor's output text is\<close>

lemma insort_key_map: "(\<And>x. f (h x) = g x) \<Longrightarrow> insort_key f (h x) (map h ys) = map h (insort_key g x ys)"
  by (induction ys) auto

lemma sort_key_map: "(\<And>x. f (h x) = g x) \<Longrightarrow> sort_key f (map h xs) = map h (sort_key g xs)"
  by (induction xs) (simp_all add: insort_key_map)

lemma dump_json_normalize: "dump_json (normalize_structured_output v) = dump_json v"
proof (induction v rule: normalize_structured_output.induct)
  case (1 xs)
  then show ?case by (simp cong: map_cong)
next
  case (2 d)
  let ?n = "\<lambda>kv. (fst kv, normalize_structured_output (snd kv))" and ?g = "\<lambda>kv. (fst kv, dump_json (snd kv))"
  have "sort_key fst (map ?g (sort_key fst (map ?n d))) = sort_key fst (map (?g \<circ> ?n) d)"
    by (simp add: sort_key_map [of fst _ fst] sort_key_id_if_sorted)
  also have "map (?g \<circ> ?n) d = map ?g d" using 2 by simp
  finally show ?case by simp
qed simp_all

lemma normalize_wf: "pv_wf v \<Longrightarrow> pv_wf (normalize_structured_output v)"
proof (induction v rule: normalize_structured_output.induct)
  case (2 d)
  have "map fst (map (\<lambda>kv. (fst kv, normalize_structured_output (snd kv))) d) = map fst d" by simp
  with 2 show ?case by (auto simp: list_all_iff distinct_map inj_on_def)
qed (auto simp: list_all_iff)

lemma normalize_container: "container v \<Longrightarrow> container (normalize_structured_output v)"
  by (cases v) simp_all

lemma normalize_own: "own_identifier k (normalize_structured_output v) = own_identifier k v"
  by (cases v) (simp_all add: own_identifier_def)

lemma normalize_identifiers: "identifiers (normalize_structured_output v) = identifiers v"
  by (induction v rule: normalize_structured_output.induct) (simp_all add: normalize_own)

lemma mark_truncated_ok:
  assumes "pv_wf v" and "container v"
  shows "pv_wf (mark_truncated schema v)" and "container (mark_truncated schema v)" and "identifiers (mark_truncated schema v) \<subseteq> identifiers v"
proof -
  have "identifiers (PDict (dset ''truncated'' (PBool True) d)) \<subseteq> identifiers (PDict d)" for d
    by (rule identifiers_dset) (simp_all add: own_identifier_def protected_identifier_keys_def)
  then show "identifiers (mark_truncated schema v) \<subseteq> identifiers v" by (auto simp: mark_truncated_def split: pyval.splits)
  show "pv_wf (mark_truncated schema v)" and "container (mark_truncated schema v)"
    using assms by (auto simp: mark_truncated_def distinct_update list_all_dset split: pyval.splits)
qed

lemma schema_fallback_str: "schema_fallback b schema = PStr s \<Longrightarrow> s = []"
  by (subst (asm) schema_fallback.simps) (auto simp: Let_def split: if_splits)

lemma schema_fallback_identifiers: "identifiers (schema_fallback b schema) \<subseteq> {[]}"
proof (induction b schema rule: schema_fallback.induct)
  case (1 b schema)
  define properties where "properties = (case py_get_or schema ''properties'' (PDict []) of PDict p \<Rightarrow> p | _ \<Rightarrow> [])"
  define f where "f = (\<lambda>name. case dget properties name of
     Some (PDict property_schema) \<Rightarrow> schema_fallback False property_schema | _ \<Rightarrow> PStr [])"
  show ?case
  proof (cases "py_get schema ''type'' = PStr ''object''")
    case True
    have f: "own_identifier k (f n) \<union> identifiers (f n) \<subseteq> {[]}" if "n \<in> set (schema_required_keys schema)" for k n
      using 1 [OF refl True properties_def that] schema_fallback_str
      by (auto simp: f_def own_identifier_def split: option.splits pyval.splits)
    then have "identifiers (PDict (map (\<lambda>n. (n, f n)) (schema_required_keys schema))) \<subseteq> {[]}" by auto
    moreover from this have "identifiers (PDict (dset ''truncated'' (PBool True) (map (\<lambda>n. (n, f n)) (schema_required_keys schema)))) \<subseteq> {[]}"
      by (rule identifiers_dset [rotated]) (simp add: own_identifier_def)
    ultimately show ?thesis using True
      by (subst schema_fallback.simps) (auto simp: Let_def f_def properties_def)
  next
    case False
    then show ?thesis by (subst schema_fallback.simps) (simp add: Let_def)
  qed
qed

lemma truncate_output_bounded:
  assumes "truncate_output s m = (out, t)" and "0 \<le> m"
  shows "int (length out) \<le> m"
  using assms by (auto simp: truncate_output_def split: if_splits)

lemma structured_output_spec:
  assumes "pv_wf v" and "container v"
  shows "\<exists>r. structured_output v m schema = Some r \<and>
    (\<forall>out t. r = Inr (out, t) \<longrightarrow> int (length out) \<le> m \<and> (t \<longleftrightarrow> m < int (length (dump_json v))) \<and>
       (\<not> t \<longrightarrow> out = dump_json v) \<and>
       (t \<longrightarrow> (\<exists>w. out = dump_json w \<and> validate_schema w schema \<and> identifiers w \<subseteq> identifiers v \<union> {[]})))"
proof (cases "int (length (dump_json v)) \<le> m")
  case True
  then show ?thesis by (simp add: structured_output_def Let_def dump_json_normalize)
next
  case False
  let ?n = "normalize_structured_output v"
  let ?u = "mark_truncated schema ?n"
  note n = normalize_wf [OF assms(1)] normalize_container [OF assms(2)]
  obtain w where w: "shrink_loop m (schema_required_keys schema) ?u = Some w" "identifiers w \<subseteq> identifiers ?u"
    using shrink_loop_identifiers [OF mark_truncated_ok(1,2) [OF n]] by blast
  have "identifiers w \<subseteq> identifiers v"
    using w(2) mark_truncated_ok(3) [OF n, of schema] normalize_identifiers by blast
  then have i: "identifiers w \<subseteq> identifiers v \<union> {[]}" by blast
  have j: "identifiers (schema_fallback b schema) \<subseteq> identifiers v \<union> {[]}" for b using schema_fallback_identifiers by blast
  show ?thesis using False w(1) i j
    by (auto simp: structured_output_def Let_def dump_json_normalize fits_def)
qed

text \<open>
  C20: the loop that shortens a structured tool output always ends. On every list or dictionary with distinct
  keys it returns, whatever the limit and the protected keys, with a value that fits the limit or that
  has nothing left to shorten or to remove.
\<close>

theorem shrink_loop_terminates:
  assumes "pv_wf v" and "container v"
  shows "\<exists>w. shrink_loop max_chars protected_keys v = Some w \<and>
    (int (length (dump_json w)) \<le> max_chars \<or> irreducible protected_keys max_chars w)"
  using shrink_loop_identifiers [OF assms] by blast

definition demo_output :: pyval where
  "demo_output = PDict [(''id'', PStr ''d1''), (''text'', PStr ''hello hello''), (''xs'', PList [PInt 1, PInt 2])]"

lemma demo_output_ok: "pv_wf demo_output" "container demo_output"
  by (simp_all add: demo_output_def)

theorem shrink_loop_terminates_witness:
  "\<exists>w. shrink_loop 20 [''id''] demo_output = Some w \<and> (int (length (dump_json w)) \<le> 20 \<or> irreducible [''id''] 20 w)"
  by (rule shrink_loop_terminates [OF demo_output_ok])

text \<open>
  C19: a structured output that was shortened is still of the tool's output type. When the executor cuts a
  list or dictionary, the text it hands on is the JSON of a value that the output schema accepts, within
  the limit, and every identifier in it (\<open>document_id\<close>, \<open>chunk_id\<close>, \<open>call_id\<close>, \<open>id\<close>) is one the tool
  returned or empty, never a cut one; an output that fits is the JSON of what the tool returned. An error
  is raised only when not even the emptiest value of the schema fits.
\<close>

theorem structured_output_typed:
  assumes "pv_wf v" and "container v"
  shows "\<exists>r. structured_output v max_chars schema = Some r \<and>
    (case r of
       Inl _ \<Rightarrow> max_chars < int (length (dump_json v)) \<and> \<not> fits max_chars schema (schema_fallback False schema)
     | Inr (out, truncated) \<Rightarrow>
         int (length out) \<le> max_chars \<and> (truncated \<longleftrightarrow> max_chars < int (length (dump_json v))) \<and>
         (if truncated then \<exists>w. out = dump_json w \<and> validate_schema w schema \<and> identifiers w \<subseteq> identifiers v \<union> {[]}
          else out = dump_json v))"
proof -
  obtain r where r: "structured_output v max_chars schema = Some r"
    "\<forall>out t. r = Inr (out, t) \<longrightarrow> int (length out) \<le> max_chars \<and> (t \<longleftrightarrow> max_chars < int (length (dump_json v))) \<and>
       (\<not> t \<longrightarrow> out = dump_json v) \<and>
       (t \<longrightarrow> (\<exists>w. out = dump_json w \<and> validate_schema w schema \<and> identifiers w \<subseteq> identifiers v \<union> {[]}))"
    using structured_output_spec [OF assms] by blast
  show ?thesis
  proof (cases r)
    case (Inl e)
    with r(1) have "max_chars < int (length (dump_json v))" "\<not> fits max_chars schema (schema_fallback False schema)"
      by (auto simp: structured_output_def Let_def dump_json_normalize split: if_splits option.splits)
    with r(1) Inl show ?thesis by simp
  next
    case (Inr p)
    obtain out t where "p = (out, t)" by fastforce
    with Inr r show ?thesis by auto
  qed
qed

definition demo_shortened :: pyval where
  "demo_shortened = PDict [(''id'', PStr ''d1''), (''text'', PStr []), (''truncated'', PBool True)]"

theorem structured_output_typed_witness:
  "structured_output demo_output 40 [(''type'', PStr ''object'')] = Some (Inr (dump_json demo_shortened, True)) \<and>
   (\<exists>w. dump_json demo_shortened = dump_json w \<and> validate_schema w [(''type'', PStr ''object'')] \<and>
      identifiers w \<subseteq> identifiers demo_output \<union> {[]})"
proof -
  have e: "structured_output demo_output 40 [(''type'', PStr ''object'')] = Some (Inr (dump_json demo_shortened, True))"
    by code_simp
  with structured_output_typed [OF demo_output_ok, of 40 "[(''type'', PStr ''object'')]"] show ?thesis by simp
qed

end
