(* ===== verification/ToolExecutor.thy ===== *)
theory ToolExecutor
  imports ToolOutput
begin

text \<open>
  The tool registry (\<open>app/tools/registry.py\<close>, \<open>ToolDescriptor\<close> of \<open>app/tools/models.py\<close>) and the tool
  executor (\<open>ToolExecutor\<close> of \<open>app/tools/executor.py\<close>): lookup, permission check, argument validation, the
  awaited tool call and the bounded output.

  A tool's own \<open>execute\<close> is a parameter: a function of the tool, its arguments, the context, the timeout
  and a world \<open>'w\<close>, which says how \<open>asyncio.wait_for\<close> ends. Tracing and metrics around the call are
  left out: they neither change the result nor swallow an exception.
\<close>

section \<open>Tools and descriptors\<close>

record tool =
  tl_name :: string
  tl_description :: string
  tl_input_schema :: pyval
  tl_output_schema :: "pyval option"
  tl_risk_level :: "string option"
  tl_required_permissions :: "string list"

record tool_descriptor =
  td_name :: string
  td_description :: string
  td_input_schema :: "(string, pyval) pydict"
  td_output_schema :: "(string, pyval) pydict"
  td_risk_level :: risk_level
  td_required_permissions :: "string list"

datatype registry_error = DuplicateToolError string | ToolNotFoundError string | ToolValueError string | ToolTypeError string

definition risk_level_of :: "string \<Rightarrow> risk_level option" where
  "risk_level_of s =
     (if s = ''low'' then Some LOW else if s = ''medium'' then Some MEDIUM else if s = ''high'' then Some HIGH else None)"

text \<open>\<open>_describe\<close> with \<open>ToolDescriptor.__post_init__\<close>.\<close>

definition describe :: "tool \<Rightarrow> registry_error + tool_descriptor" where
  "describe t =
     (case (case tl_risk_level t of None \<Rightarrow> Some LOW | Some r \<Rightarrow> risk_level_of r) of
        None \<Rightarrow> Inl (ToolValueError ''not a valid RiskLevel'')
      | Some risk \<Rightarrow>
          if blank_text (tl_name t) then Inl (ToolValueError ''tool name must not be empty'')
          else if blank_text (tl_description t) then Inl (ToolValueError ''tool description must not be empty'')
          else
            (case tl_input_schema t of
               PDict input \<Rightarrow>
                 (case (case tl_output_schema t of None \<Rightarrow> PDict [(''type'', PStr ''string'')] | Some v \<Rightarrow> v) of
                    PDict output \<Rightarrow>
                      Inr \<lparr>td_name = tl_name t, td_description = tl_description t, td_input_schema = input,
                           td_output_schema = output, td_risk_level = risk,
                           td_required_permissions = tl_required_permissions t\<rparr>
                  | _ \<Rightarrow> Inl (ToolTypeError ''output_schema must be a mapping''))
             | _ \<Rightarrow> Inl (ToolTypeError ''input_schema must be a mapping'')))"

definition to_model_schema :: "tool_descriptor \<Rightarrow> pyval" where
  "to_model_schema d =
     PDict [(''type'', PStr ''function''),
            (''function'', PDict [(''name'', PStr (td_name d)), (''description'', PStr (td_description d)),
                                  (''parameters'', PDict (td_input_schema d))])]"

section \<open>The registry\<close>

type_synonym tool_registry = "(string, tool) pydict"

definition register :: "tool_registry \<Rightarrow> tool \<Rightarrow> registry_error + tool_registry \<times> tool_descriptor" where
  "register reg t =
     (case describe t of
        Inl e \<Rightarrow> Inl e
      | Inr d \<Rightarrow>
          if td_name d \<in> fst ` set reg then Inl (DuplicateToolError (''tool already registered: '' @ td_name d))
          else Inr (dset (td_name d) t reg, d))"

fun register_all :: "tool_registry \<Rightarrow> tool list \<Rightarrow> registry_error + tool_registry" where
  "register_all reg [] = Inr reg"
| "register_all reg (t # ts) = (case register reg t of Inl e \<Rightarrow> Inl e | Inr (reg', _) \<Rightarrow> register_all reg' ts)"

definition new_registry :: "tool list \<Rightarrow> registry_error + tool_registry" where
  "new_registry = register_all []"

definition get_tool :: "tool_registry \<Rightarrow> string \<Rightarrow> tool option" where
  "get_tool reg name = dget reg name"

definition get_descriptor :: "tool_registry \<Rightarrow> string \<Rightarrow> registry_error + tool_descriptor option" where
  "get_descriptor reg name =
     (case get_tool reg name of None \<Rightarrow> Inr None | Some t \<Rightarrow> map_sum id Some (describe t))"

definition resolve :: "tool_registry \<Rightarrow> string \<Rightarrow> registry_error + tool" where
  "resolve reg name =
     (case get_tool reg name of None \<Rightarrow> Inl (ToolNotFoundError (''tool is not registered: '' @ name)) | Some t \<Rightarrow> Inr t)"

definition list_tools :: "tool_registry \<Rightarrow> tool list" where
  "list_tools reg = dvalues reg"

fun all_right :: "('e + 'a) list \<Rightarrow> 'e + 'a list" where
  "all_right [] = Inr []"
| "all_right (x # xs) = (case x of Inl e \<Rightarrow> Inl e | Inr a \<Rightarrow> map_sum id (Cons a) (all_right xs))"

definition list_descriptors :: "tool_registry \<Rightarrow> registry_error + tool_descriptor list" where
  "list_descriptors reg = all_right (map describe (list_tools reg))"

definition export_schemas :: "tool_registry \<Rightarrow> registry_error + pyval list" where
  "export_schemas reg = map_sum id (map to_model_schema) (list_descriptors reg)"

section \<open>The executor\<close>

datatype pyfloat = Finite real | Infinite bool | NotANumber

record tool_executor =
  ex_registry :: tool_registry
  ex_default_timeout_seconds :: pyfloat
  ex_output_max_chars :: int
  ex_max_risk_level :: risk_level
  ex_granted_permissions :: "string list"

fun non_positive :: "pyfloat \<Rightarrow> bool" where
  \<comment> \<open>\<open>x <= 0\<close>; \<open>Infinite True\<close> is minus infinity\<close>
  "non_positive (Finite r) = (r \<le> 0)"
| "non_positive (Infinite neg) = neg"
| "non_positive NotANumber = False"

definition new_executor ::
  "tool_registry \<Rightarrow> pyfloat \<Rightarrow> int \<Rightarrow> risk_level \<Rightarrow> string list \<Rightarrow> string + tool_executor" where
  "new_executor reg default_timeout max_chars risk granted =
     (if non_positive default_timeout then Inl ''default_timeout_seconds must be greater than zero''
      else if max_chars < 1 then Inl ''output_max_chars must be greater than zero''
      else Inr \<lparr>ex_registry = reg, ex_default_timeout_seconds = default_timeout, ex_output_max_chars = max_chars,
                ex_max_risk_level = risk, ex_granted_permissions = granted\<rparr>)"

fun risk_rank :: "risk_level \<Rightarrow> int" where
  "risk_rank LOW = 0"
| "risk_rank MEDIUM = 1"
| "risk_rank HIGH = 2"

definition is_permitted :: "tool_executor \<Rightarrow> risk_level \<Rightarrow> string list \<Rightarrow> bool" where
  "is_permitted ex risk required \<longleftrightarrow>
     risk_rank risk \<le> risk_rank (ex_max_risk_level ex) \<and> set required \<subseteq> set (ex_granted_permissions ex)"

definition resolve_timeout :: "tool_executor \<Rightarrow> pyfloat option \<Rightarrow> real option" where
  \<comment> \<open>\<open>None\<close>: \<open>ValueError\<close>\<close>
  "resolve_timeout ex timeout_seconds =
     (case (case timeout_seconds of None \<Rightarrow> ex_default_timeout_seconds ex | Some t \<Rightarrow> t) of
        Finite t \<Rightarrow> if t \<le> 0 then None else Some t
      | _ \<Rightarrow> None)"

definition failure :: "string \<Rightarrow> tool_execution_status \<Rightarrow> string \<Rightarrow> string \<Rightarrow> tool_execution_result" where
  "failure name status code msg =
     \<lparr>te_tool_name = name, te_status = status, te_output = msg, te_error_code = Some code, te_error_message = Some msg,
      te_truncated = False\<rparr>"

datatype tool_end = ToolReturned raw_output | ToolTimeout | ToolException | ToolCancelled

datatype execute_end = ExecuteResult tool_execution_result | ExecuteValueError string | ExecuteRegistryError registry_error
  | ExecuteRaised | ExecuteCancelled | ExecuteNoReturn

definition invalid_arguments :: "string \<Rightarrow> tool_execution_result" where
  "invalid_arguments name = failure name INVALID_ARGUMENTS ''invalid_tool_arguments'' ''Invalid tool arguments.''"

definition finish_output :: "tool_executor \<Rightarrow> string \<Rightarrow> (string, pyval) pydict \<Rightarrow> raw_output \<Rightarrow> execute_end" where
  "finish_output ex name output_schema raw =
     (case serialize_and_truncate_output raw (ex_output_max_chars ex) output_schema of
        None \<Rightarrow> ExecuteNoReturn
      | Some (Inl StructuredOutputLimitError) \<Rightarrow>
          ExecuteResult (failure name FAILED ''tool_output_too_large''
            (fst (truncate_output ''Tool output exceeds the configured limit.'' (ex_output_max_chars ex))))
      | Some (Inl StrRaised) \<Rightarrow> ExecuteRaised
      | Some (Inr (out, trunc)) \<Rightarrow>
          ExecuteResult \<lparr>te_tool_name = name, te_status = SUCCEEDED, te_output = out, te_error_code = None,
             te_error_message = None, te_truncated = trunc\<rparr>)"

text \<open>\<open>_execute\<close>.\<close>

definition execute_checked ::
  "tool_executor \<Rightarrow> (tool \<Rightarrow> (string, pyval) pydict \<Rightarrow> tool_context \<Rightarrow> real \<Rightarrow> 'w \<Rightarrow> tool_end \<times> 'w) \<Rightarrow>
   string \<Rightarrow> pyval \<Rightarrow> tool_context \<Rightarrow> pyfloat option \<Rightarrow> 'w \<Rightarrow> execute_end \<times> 'w" where
  "execute_checked ex run_tool name arguments ctx timeout_seconds w =
     (case resolve_timeout ex timeout_seconds of
        None \<Rightarrow> (ExecuteValueError ''timeout_seconds must be a finite positive number'', w)
      | Some timeout \<Rightarrow>
          (case get_tool (ex_registry ex) name of
             None \<Rightarrow> (ExecuteResult (failure name NOT_FOUND ''tool_not_found'' ''Requested tool is unavailable.''), w)
           | Some t \<Rightarrow>
               (case describe t of
                  Inl e \<Rightarrow> (ExecuteRegistryError e, w)
                | Inr d \<Rightarrow>
                    if \<not> is_permitted ex (td_risk_level d) (td_required_permissions d) then
                      (ExecuteResult (failure name PERMISSION_DENIED ''tool_permission_denied'' ''Tool execution is not permitted.''), w)
                    else
                      (case arguments of
                         PDict args \<Rightarrow>
                           if \<not> validate_schema arguments (td_input_schema d) then (ExecuteResult (invalid_arguments name), w)
                           else
                             (case run_tool t args ctx timeout w of
                                (ToolTimeout, w') \<Rightarrow> (ExecuteResult (failure name TIMED_OUT ''tool_timeout'' ''Tool execution timed out.''), w')
                              | (ToolException, w') \<Rightarrow>
                                  (ExecuteResult (failure name FAILED ''tool_execution_failed'' ''Tool execution failed.''), w')
                              | (ToolCancelled, w') \<Rightarrow> (ExecuteCancelled, w')
                              | (ToolReturned raw, w') \<Rightarrow> (finish_output ex name (td_output_schema d) raw, w'))
                       | _ \<Rightarrow> (ExecuteResult (invalid_arguments name), w)))))"

text \<open>\<open>execute\<close> describes the tool for its span before anything else.\<close>

definition execute ::
  "tool_executor \<Rightarrow> (tool \<Rightarrow> (string, pyval) pydict \<Rightarrow> tool_context \<Rightarrow> real \<Rightarrow> 'w \<Rightarrow> tool_end \<times> 'w) \<Rightarrow>
   string \<Rightarrow> pyval \<Rightarrow> tool_context \<Rightarrow> pyfloat option \<Rightarrow> 'w \<Rightarrow> execute_end \<times> 'w" where
  "execute ex run_tool name arguments ctx timeout_seconds w =
     (case get_descriptor (ex_registry ex) name of
        Inl e \<Rightarrow> (ExecuteRegistryError e, w)
      | Inr _ \<Rightarrow> execute_checked ex run_tool name arguments ctx timeout_seconds w)"

section \<open>Registries built by \<open>register\<close>\<close>

definition registry_ok :: "tool_registry \<Rightarrow> bool" where
  "registry_ok reg \<longleftrightarrow> dict_wf reg \<and> (\<forall>(n, t) \<in> set reg. \<exists>d. describe t = Inr d \<and> td_name d = n)"

lemma registry_ok_Nil [simp]: "registry_ok []"
  by (simp add: registry_ok_def)

lemma describe_name: "describe t = Inr d \<Longrightarrow> td_name d = tl_name t"
  by (auto simp: describe_def split: option.splits if_splits pyval.splits)

lemma register_ok [inv_intros]: "registry_ok reg \<Longrightarrow> register reg t = Inr (reg', d) \<Longrightarrow> registry_ok reg'"
  by (auto simp: registry_ok_def register_def dset_absent map_of_eq_None_iff dict_wf_def split: sum.splits if_splits)

lemma register_all_ok: "registry_ok reg \<Longrightarrow> register_all reg ts = Inr reg' \<Longrightarrow> registry_ok reg'"
  by (induction ts arbitrary: reg) (auto split: sum.splits intro: register_ok)

lemma new_registry_ok: "new_registry ts = Inr reg \<Longrightarrow> registry_ok reg"
  using register_all_ok [of "[]" ts reg] by (simp add: new_registry_def)

lemma registry_get: "registry_ok reg \<Longrightarrow> get_tool reg n = Some t \<Longrightarrow> \<exists>d. describe t = Inr d \<and> td_name d = n"
  by (auto simp: registry_ok_def get_tool_def dest: map_of_SomeD)

lemma register_all_shape: "register_all reg ts = Inr reg' \<Longrightarrow> reg' = reg @ map (\<lambda>t. (tl_name t, t)) ts"
proof (induction ts arbitrary: reg)
  case (Cons t ts)
  from Cons.prems obtain reg1 d where r: "register reg t = Inr (reg1, d)" "register_all reg1 ts = Inr reg'"
    by (auto split: sum.splits)
  then have "reg1 = reg @ [(tl_name t, t)]"
    by (auto simp: register_def dset_absent map_of_eq_None_iff dest: describe_name split: sum.splits if_splits)
  with Cons.IH [OF r(2)] show ?case by simp
qed simp

text \<open>
  Registering tools is all or nothing per tool and keeps the order. A registry built from a list of
  tools holds exactly these tools, in the order given and under their own names, which are distinct;
  each can be found by its name, and the exported model schemas name them in that order.
\<close>

theorem registry_holds_tools:
  assumes "new_registry ts = Inr reg"
  shows "list_tools reg = ts \<and> distinct (map tl_name ts) \<and> (\<forall>t \<in> set ts. resolve reg (tl_name t) = Inr t) \<and>
    (\<exists>ds. list_descriptors reg = Inr ds \<and> map td_name ds = map tl_name ts \<and> export_schemas reg = Inr (map to_model_schema ds))"
proof -
  have r: "reg = map (\<lambda>t. (tl_name t, t)) ts"
    using register_all_shape [of "[]" ts reg] assms by (simp add: new_registry_def)
  have ok: "registry_ok reg" using assms by (rule new_registry_ok)
  then have d: "distinct (map tl_name ts)" by (simp add: registry_ok_def dict_wf_def r comp_def)
  have t: "list_tools reg = ts" by (simp add: list_tools_def r comp_def)
  have "resolve reg (tl_name t) = Inr t" if "t \<in> set ts" for t
  proof -
    have "(tl_name t, t) \<in> set reg" using that by (auto simp: r)
    then have "dget reg (tl_name t) = Some t" using ok by (simp add: registry_ok_def dict_wf_def)
    then show ?thesis by (simp add: resolve_def get_tool_def)
  qed
  moreover have "\<forall>t \<in> set us. \<exists>d. describe t = Inr d \<Longrightarrow> \<exists>ds. all_right (map describe us) = Inr ds \<and> map td_name ds = map tl_name us" for us
    by (induction us) (auto dest: describe_name)
  moreover have "\<forall>t \<in> set ts. \<exists>d. describe t = Inr d" using ok by (auto simp: registry_ok_def r)
  ultimately have "\<exists>ds. all_right (map describe ts) = Inr ds \<and> map td_name ds = map tl_name ts"
    and "\<forall>t \<in> set ts. resolve reg (tl_name t) = Inr t" by blast+
  then show ?thesis using d t by (auto simp: list_descriptors_def export_schemas_def)
qed

definition demo_tool :: tool where
  "demo_tool = \<lparr>tl_name = ''echo'', tl_description = ''echoes'',
     tl_input_schema = PDict [(''type'', PStr ''object''), (''required'', PList [PStr ''q'']),
        (''properties'', PDict [(''q'', PDict [(''type'', PStr ''string''), (''maxLength'', PInt 3)])])],
     tl_output_schema = None, tl_risk_level = Some ''medium'', tl_required_permissions = [''net'']\<rparr>"

lemma demo_registry: "new_registry [demo_tool] = Inr [(''echo'', demo_tool)]"
  by (simp add: new_registry_def register_def describe_def demo_tool_def risk_level_of_def blank_text_def is_space_def)

theorem registry_holds_tools_witness: "resolve [(''echo'', demo_tool)] ''echo'' = Inr demo_tool"
  using registry_holds_tools [OF demo_registry] by (simp add: demo_tool_def)

section \<open>Every execution ends in a safe result\<close>

definition safe_messages :: "int \<Rightarrow> string set" where
  "safe_messages max_chars = {''Requested tool is unavailable.'', ''Tool execution is not permitted.'', ''Invalid tool arguments.'',
     ''Tool execution timed out.'', ''Tool execution failed.'', fst (truncate_output ''Tool output exceeds the configured limit.'' max_chars)}"

text \<open>What \<open>execute\<close> promises of its result, whatever the tool does.\<close>

definition exec_ok :: "int \<Rightarrow> tool_execution_result \<Rightarrow> bool" where
  "exec_ok max_chars r \<longleftrightarrow>
     (te_succeeded r \<longleftrightarrow> te_error_code r = None) \<and> (te_error_code r = None \<longleftrightarrow> te_error_message r = None) \<and>
     (te_succeeded r \<longrightarrow> int (length (te_output r)) \<le> max_chars) \<and>
     (\<not> te_succeeded r \<longrightarrow> te_output r \<in> safe_messages max_chars \<and> te_error_message r = Some (te_output r))"

lemma failure_ok: "status \<noteq> SUCCEEDED \<Longrightarrow> msg \<in> safe_messages m \<Longrightarrow> exec_ok m (failure n status code msg)"
  by (simp add: exec_ok_def failure_def te_succeeded_def)

text \<open>
  The keys of a dictionary are distinct, and \<open>str\<close> gives a text for what \<open>json.dumps\<close> rejects.
\<close>

definition raw_wf :: "raw_output \<Rightarrow> bool" where
  "raw_wf raw = (case raw of RawValue v \<Rightarrow> pv_wf v | RawObject _ \<Rightarrow> True | RawUndumpable str_value \<Rightarrow> str_value \<noteq> None)"

lemma serialize_bounded:
  assumes "raw_wf raw" and "0 \<le> m"
  shows "\<exists>x. serialize_and_truncate_output raw m schema = Some x \<and> x \<noteq> Inl StrRaised \<and>
    (\<forall>out t. x = Inr (out, t) \<longrightarrow> int (length out) \<le> m)"
proof (cases "is_structured raw")
  case True
  then obtain v where v: "raw = RawValue v" "container v"
    by (auto simp: is_structured_def split: raw_output.splits pyval.splits)
  with assms(1) have "pv_wf v" by (simp add: raw_wf_def)
  moreover have "structured_output v m schema \<noteq> Some (Inl StrRaised)"
    by (auto simp: structured_output_def Let_def split: option.splits if_splits)
  ultimately show ?thesis using v True structured_output_spec [of v m schema] by (auto simp: serialize_and_truncate_output_def)
next
  case False
  then have "serialize_and_truncate_output raw m schema = Some (plain_output raw m)"
    by (cases raw) (simp_all add: serialize_and_truncate_output_def)
  moreover have "serialize_output raw \<noteq> None" using assms(1)
    by (cases raw rule: serialize_output.cases) (simp_all add: raw_wf_def)
  ultimately show ?thesis using truncate_output_bounded [OF _ assms(2)] by (auto simp: plain_output_def)
qed

lemma finish_output_ok:
  assumes "raw_wf raw" and "1 \<le> ex_output_max_chars ex"
  shows "\<exists>r. finish_output ex n schema raw = ExecuteResult r \<and> exec_ok (ex_output_max_chars ex) r"
proof -
  let ?m = "ex_output_max_chars ex"
  obtain x where x: "serialize_and_truncate_output raw ?m schema = Some x" "x \<noteq> Inl StrRaised"
      "\<forall>out t. x = Inr (out, t) \<longrightarrow> int (length out) \<le> ?m"
    using serialize_bounded [OF assms(1), of ?m schema] assms(2) by auto
  show ?thesis
  proof (cases x)
    case (Inl e)
    with x(1,2) show ?thesis by (cases e) (auto simp: finish_output_def safe_messages_def intro: failure_ok)
  next
    case (Inr p)
    obtain out t where "p = (out, t)" by fastforce
    with Inr x show ?thesis by (auto simp: finish_output_def exec_ok_def te_succeeded_def)
  qed
qed

lemma execute_checked_ok:
  assumes "registry_ok (ex_registry ex)" and "1 \<le> ex_output_max_chars ex"
    and "resolve_timeout ex timeout_seconds = Some timeout"
    and "\<forall>t args w raw w'. run_tool t args ctx timeout w = (ToolReturned raw, w') \<longrightarrow> raw_wf raw"
  shows "(\<exists>r w'. execute_checked ex run_tool name arguments ctx timeout_seconds w = (ExecuteResult r, w') \<and>
            te_tool_name r = name \<and> exec_ok (ex_output_max_chars ex) r) \<or>
    (\<exists>t args w'. get_tool (ex_registry ex) name = Some t \<and> arguments = PDict args \<and>
       run_tool t args ctx timeout w = (ToolCancelled, w') \<and>
       execute_checked ex run_tool name arguments ctx timeout_seconds w = (ExecuteCancelled, w'))"
proof (cases "get_tool (ex_registry ex) name")
  case None
  then show ?thesis using assms(3)
    by (auto simp: execute_checked_def safe_messages_def failure_def exec_ok_def te_succeeded_def)
next
  case (Some t)
  then obtain d where d: "describe t = Inr d" using registry_get [OF assms(1)] by blast
  show ?thesis
  proof (cases "is_permitted ex (td_risk_level d) (td_required_permissions d) \<and> is_mapping arguments \<and>
      validate_schema arguments (td_input_schema d)")
    case False
    then show ?thesis using assms(3) Some d
      by (cases arguments)
         (auto simp: execute_checked_def invalid_arguments_def safe_messages_def failure_def exec_ok_def te_succeeded_def)
  next
    case True
    then obtain args where a: "arguments = PDict args" by (cases arguments) auto
    obtain e w' where r: "run_tool t args ctx timeout w = (e, w')" by fastforce
    have x: "execute_checked ex run_tool name arguments ctx timeout_seconds w =
      (case e of ToolTimeout \<Rightarrow> (ExecuteResult (failure name TIMED_OUT ''tool_timeout'' ''Tool execution timed out.''), w')
       | ToolException \<Rightarrow> (ExecuteResult (failure name FAILED ''tool_execution_failed'' ''Tool execution failed.''), w')
       | ToolCancelled \<Rightarrow> (ExecuteCancelled, w')
       | ToolReturned raw \<Rightarrow> (finish_output ex name (td_output_schema d) raw, w'))"
      using True a r assms(3) Some d by (simp add: execute_checked_def split: tool_end.splits)
    show ?thesis
    proof (cases e)
      case (ToolReturned raw)
      with r assms(4) have "raw_wf raw" by blast
      moreover have "te_tool_name r' = name" if "finish_output ex name (td_output_schema d) raw = ExecuteResult r'" for r'
        using that by (auto simp: finish_output_def failure_def split: option.splits sum.splits output_error.splits prod.splits)
      ultimately show ?thesis using x ToolReturned finish_output_ok [OF _ assms(2), of raw name "td_output_schema d"] by force
    qed (use x r a Some in \<open>auto simp: failure_def safe_messages_def exec_ok_def te_succeeded_def\<close>)
  qed
qed

lemma execute_described:
  "registry_ok (ex_registry ex) \<Longrightarrow>
     execute ex run_tool name arguments ctx timeout_seconds w = execute_checked ex run_tool name arguments ctx timeout_seconds w"
  using registry_get [of "ex_registry ex" name]
  by (cases "get_tool (ex_registry ex) name") (auto simp: execute_def get_descriptor_def)

text \<open>
  C17: a tool call ends in a normalized result. With an executor that its constructor accepts, over a registry built by
  \<open>register\<close>, and with a positive finite timeout, \<open>execute\<close> either returns a result or is cancelled while it awaits the
  tool. That holds for a tool that raises, times out or returns any object, a value that \<open>json.dumps\<close> rejects
  included, as long as \<open>str\<close> does not raise on that one. The result succeeded exactly when it has no error code; a
  successful output is within the limit; and the text of a failure is one of the fixed messages, so nothing of an
  exception leaks into it.
\<close>

theorem execute_returns_safe_result:
  assumes "new_registry ts = Inr reg" and "new_executor reg default_timeout max_chars risk granted = Inr ex"
    and "resolve_timeout ex timeout_seconds = Some timeout"
    and "\<forall>t args w raw w'. run_tool t args ctx timeout w = (ToolReturned raw, w') \<longrightarrow> raw_wf raw"
  shows "(\<exists>r w'. execute ex run_tool name arguments ctx timeout_seconds w = (ExecuteResult r, w') \<and>
            te_tool_name r = name \<and> exec_ok max_chars r) \<or>
    (\<exists>t args w'. get_tool reg name = Some t \<and> arguments = PDict args \<and> run_tool t args ctx timeout w = (ToolCancelled, w') \<and>
       execute ex run_tool name arguments ctx timeout_seconds w = (ExecuteCancelled, w'))"
proof -
  have ex: "ex_registry ex = reg" "ex_output_max_chars ex = max_chars" "1 \<le> max_chars"
    using assms(2) by (auto simp: new_executor_def split: if_splits)
  have ok: "registry_ok (ex_registry ex)" using new_registry_ok [OF assms(1)] by (simp add: ex)
  note x = execute_described [OF ok, of run_tool name arguments ctx timeout_seconds w]
  show ?thesis using execute_checked_ok [of ex timeout_seconds timeout run_tool ctx name arguments w] ok assms(3,4) ex unfolding x by simp
qed

text \<open>
  C18: a tool runs only when it may. Whatever a call does to the world it does through the tool's own
  \<open>execute\<close>, and that is awaited only for a registered tool whose risk level is within the executor's
  maximum and whose permissions are all granted, with arguments that its input schema accepts, and with
  the resolved positive timeout.
\<close>

theorem execute_runs_only_permitted:
  assumes "execute ex run_tool name arguments ctx timeout_seconds w = (e, w')" and "w' \<noteq> w"
  shows "\<exists>t d args timeout out. get_tool (ex_registry ex) name = Some t \<and> describe t = Inr d \<and>
    risk_rank (td_risk_level d) \<le> risk_rank (ex_max_risk_level ex) \<and>
    set (td_required_permissions d) \<subseteq> set (ex_granted_permissions ex) \<and>
    arguments = PDict args \<and> validate_schema arguments (td_input_schema d) \<and>
    0 < timeout \<and> resolve_timeout ex timeout_seconds = Some timeout \<and> run_tool t args ctx timeout w = (out, w')"
proof -
  from assms have x: "execute_checked ex run_tool name arguments ctx timeout_seconds w = (e, w')" "w' \<noteq> w"
    by (auto simp: execute_def split: sum.splits)
  obtain timeout where t: "resolve_timeout ex timeout_seconds = Some timeout"
    using x by (cases "resolve_timeout ex timeout_seconds") (auto simp: execute_checked_def)
  then have "0 < timeout" by (auto simp: resolve_timeout_def split: option.splits pyfloat.splits if_splits)
  obtain tl where tl: "get_tool (ex_registry ex) name = Some tl"
    using x t by (cases "get_tool (ex_registry ex) name") (auto simp: execute_checked_def)
  obtain d where d: "describe tl = Inr d" using x t tl by (cases "describe tl") (auto simp: execute_checked_def)
  have p: "is_permitted ex (td_risk_level d) (td_required_permissions d)"
    using x t tl d by (auto simp: execute_checked_def split: if_splits)
  obtain args where a: "arguments = PDict args"
    using x t tl d p by (cases arguments) (auto simp: execute_checked_def)
  have v: "validate_schema arguments (td_input_schema d)"
    using x t tl d p a by (auto simp: execute_checked_def split: if_splits)
  obtain out w1 where r: "run_tool tl args ctx timeout w = (out, w1)" by fastforce
  with x(1) t tl d p a v have "w1 = w'" by (cases out) (auto simp: execute_checked_def)
  with t tl d p a v r \<open>0 < timeout\<close> show ?thesis unfolding is_permitted_def by blast
qed

text \<open>A tool that counts its calls in the world.\<close>

definition demo_executor :: tool_executor where
  "demo_executor = \<lparr>ex_registry = [(''echo'', demo_tool)], ex_default_timeout_seconds = Finite 10, ex_output_max_chars = 8,
     ex_max_risk_level = HIGH, ex_granted_permissions = [''net'', ''disk'']\<rparr>"

definition demo_tool_call :: "tool \<Rightarrow> (string, pyval) pydict \<Rightarrow> tool_context \<Rightarrow> real \<Rightarrow> nat \<Rightarrow> tool_end \<times> nat" where
  "demo_tool_call t args ctx timeout n = (ToolReturned (RawValue (PStr ''a long answer'')), Suc n)"

definition demo_tool_context :: tool_context where
  "demo_tool_context = \<lparr>tc_run_id = ''r'', tc_step_index = 1, tc_request_id = None, tc_metadata = []\<rparr>"

lemma demo_timeout: "resolve_timeout demo_executor None = Some 10"
  by (simp add: resolve_timeout_def demo_executor_def)

theorem execute_returns_safe_result_witness:
  "\<exists>r w'. execute demo_executor demo_tool_call ''echo'' (PDict [(''q'', PStr ''hi'')]) demo_tool_context None 0 = (ExecuteResult r, w') \<and>
     exec_ok 8 r"
proof -
  have reg: "new_registry [demo_tool] = Inr [(''echo'', demo_tool)]"
    and m: "new_executor [(''echo'', demo_tool)] (Finite 10) 8 HIGH [''net'', ''disk''] = Inr demo_executor"
    using demo_registry by (simp_all add: demo_executor_def new_executor_def)
  have "\<forall>t args w raw w'. demo_tool_call t args demo_tool_context 10 w = (ToolReturned raw, w') \<longrightarrow> raw_wf raw"
    by (simp add: demo_tool_call_def raw_wf_def)
  then have "(\<exists>r w'. execute demo_executor demo_tool_call ''echo'' (PDict [(''q'', PStr ''hi'')]) demo_tool_context None 0 = (ExecuteResult r, w') \<and>
      te_tool_name r = ''echo'' \<and> exec_ok 8 r) \<or> (\<exists>t args w'. get_tool [(''echo'', demo_tool)] ''echo'' = Some t \<and>
      PDict [(''q'', PStr ''hi'')] = PDict args \<and> demo_tool_call t args demo_tool_context 10 0 = (ToolCancelled, w') \<and>
      execute demo_executor demo_tool_call ''echo'' (PDict [(''q'', PStr ''hi'')]) demo_tool_context None 0 = (ExecuteCancelled, w'))"
    using execute_returns_safe_result [OF reg m demo_timeout, of demo_tool_call demo_tool_context "''echo''" "PDict [(''q'', PStr ''hi'')]" 0]
    by simp
  then show ?thesis by (auto simp: demo_tool_call_def)
qed

lemma demo_execute_world:
  "snd (execute demo_executor demo_tool_call ''echo'' (PDict [(''q'', PStr ''hi'')]) demo_tool_context None 0) = 1"
  by code_simp

theorem execute_runs_only_permitted_witness:
  "\<exists>t d args timeout out. get_tool (ex_registry demo_executor) ''echo'' = Some t \<and> describe t = Inr d \<and>
     risk_rank (td_risk_level d) \<le> 2 \<and> PDict [(''q'', PStr ''hi'')] = PDict args \<and>
     demo_tool_call t args demo_tool_context timeout 0 = (out, 1)"
proof -
  obtain e where "execute demo_executor demo_tool_call ''echo'' (PDict [(''q'', PStr ''hi'')]) demo_tool_context None 0 = (e, 1)"
    using demo_execute_world by (metis prod.collapse)
  from execute_runs_only_permitted [OF this] show ?thesis by (force simp: demo_executor_def)
qed

text \<open>
  An output that neither \<open>json.dumps\<close> nor \<open>str\<close> accepts, such as an integer of more digits than the interpreter
  converts, makes \<open>execute\<close> raise: only the structured limit error is caught around the serialization.
\<close>

lemma unprintable_output_raises:
  "finish_output ex name schema (RawUndumpable None) = ExecuteRaised"
  by (simp add: finish_output_def serialize_and_truncate_output_def plain_output_def)

end
