(* ===== verification/MultiAgent.thy ===== *)
theory MultiAgent
  imports AgentRuntime
begin

text \<open>
  Multi-agent orchestration: \<open>app/multi_agent/models.py\<close> and \<open>Orchestrator\<close> of
  \<open>app/multi_agent/orchestrator.py\<close>.

  The subtasks run concurrently, so how one pass of the loop of \<open>_execute_dag\<close> goes depends on what the
  event loop does meanwhile. That is the \<open>tick\<close> of the pass: whether the cancel event is set, the time
  elapsed, the order in which \<open>list(pending)\<close> gives the set out, and the subtasks that \<open>asyncio.wait\<close>
  reports done, in order, with how their bodies ended. The body of a subtask (the agent service, the
  chat service or the placeholder) and \<open>str.format\<close> are parameters; events go to observers that may
  only log, and are left out here.
\<close>

section \<open>Models\<close>

datatype ma_role = RESEARCH | WRITER | REVIEWER | CUSTOM

datatype task_status = TaskPending | TaskRunning | TaskCompleted | TaskFailed | TaskCancelledStatus | TaskSkipped

datatype orch_status = OrchRunning | OrchCompleted | OrchFailed | OrchCancelled | OrchTimedOut | OrchBudgetExceeded

datatype failure_policy = FailFast | Skip | RetryOnce

record agent_config =
  ac_role :: ma_role
  ac_name :: string
  ac_system_prompt :: string
  ac_model :: "string option"
  ac_max_steps :: int
  ac_timeout :: "real option"
  ac_token_budget :: "int option"

record subtask =
  tk_id :: string
  tk_description :: string
  tk_agent_role :: ma_role
  tk_agent_id :: "string option"
  tk_depends_on :: "string list"
  tk_input_template :: string
  tk_priority :: int

record subtask_result =
  sr_task_id :: string
  sr_status :: task_status
  sr_output :: string
  sr_error :: "string option"
  sr_agent_role :: ma_role
  sr_token_usage :: int
  sr_steps_taken :: int
  sr_tool_calls :: "string list"

record shared_context =
  sc_user_input :: string
  sc_task_results :: "(string, subtask_result) pydict"

fun role_value :: "ma_role \<Rightarrow> string" where
  "role_value RESEARCH = ''research''"
| "role_value WRITER = ''writer''"
| "role_value REVIEWER = ''reviewer''"
| "role_value CUSTOM = ''custom''"

definition newline :: char where "newline = CHR 0x0A"

definition prev_result_part :: "shared_context \<Rightarrow> string \<Rightarrow> string option" where
  "prev_result_part sc tid =
     (case dget (sc_task_results sc) tid of
        None \<Rightarrow> None
      | Some r \<Rightarrow>
          if sr_status r = TaskCompleted then Some (''['' @ tid @ '']: '' @ sr_output r)
          else if sr_status r = TaskFailed
          then Some (''['' @ tid @ '']: FAILED - '' @ (case sr_error r of None \<Rightarrow> ''None'' | Some e \<Rightarrow> e))
          else None)"

definition get_prev_results :: "shared_context \<Rightarrow> string list \<Rightarrow> string" where
  "get_prev_results sc task_ids = join [newline, newline] (List.map_filter (prev_result_part sc) task_ids)"

record orch_config =
  oc_max_concurrency :: int
  oc_failure_policy :: failure_policy
  oc_total_timeout :: "real option"
  oc_total_timeout_text :: string
  oc_total_token_budget :: "int option"
  oc_agent_configs :: "(ma_role, agent_config) pydict"

record orch_state =
  os_status :: orch_status
  os_shared_context :: shared_context
  os_results :: "(string, subtask_result) pydict"
  os_total_token_usage :: int
  os_error :: "string option"
  os_error_code :: "string option"

definition is_terminal :: "orch_state \<Rightarrow> bool" where
  "is_terminal s \<longleftrightarrow> os_status s \<in> {OrchCompleted, OrchFailed, OrchCancelled, OrchTimedOut, OrchBudgetExceeded}"

record orch_result =
  or_run_id :: string
  or_status :: orch_status
  or_final_output :: string
  or_subtask_results :: "subtask_result list"
  or_total_token_usage :: int
  or_error :: "string option"
  or_error_code :: "string option"

section \<open>One subtask\<close>

definition default_agent_configs :: "(ma_role, agent_config) pydict" where
  "default_agent_configs =
     [(RESEARCH, \<lparr>ac_role = RESEARCH, ac_name = ''Research Agent'',
        ac_system_prompt = ''You are a research agent. Your job is to search for information, '' @
          ''gather facts, and provide comprehensive findings. Use available '' @
          ''tools (RAG, knowledge search) when appropriate. Be thorough but concise.'',
        ac_model = None, ac_max_steps = 5, ac_timeout = None, ac_token_budget = None\<rparr>),
      (WRITER, \<lparr>ac_role = WRITER, ac_name = ''Writer Agent'',
        ac_system_prompt = ''You are a writer agent. Your job is to generate well-structured '' @
          ''text based on the provided context and requirements. Focus on '' @ ''clarity, coherence, and completeness.'',
        ac_model = None, ac_max_steps = 3, ac_timeout = None, ac_token_budget = None\<rparr>),
      (REVIEWER, \<lparr>ac_role = REVIEWER, ac_name = ''Reviewer Agent'',
        ac_system_prompt = ''You are a reviewer agent. Your job is to check the quality of '' @
          ''provided content, verify sources, and validate consistency. '' @ ''Provide specific, actionable feedback.'',
        ac_model = None, ac_max_steps = 3, ac_timeout = None, ac_token_budget = None\<rparr>)]"

text \<open>\<open>template.format(prev_results=...)\<close>: the text, a missing name, or another exception.\<close>

datatype format_end = Formatted string | FormatKeyError | FormatError string

record agent_outcome =
  ao_answer :: "string option"
  ao_status :: run_status
  ao_stop_reason :: stop_reason
  ao_steps :: "agent_decision list"
  ao_token_usage :: int
  ao_prompt_tokens :: "int option"
  ao_completion_tokens :: "int option"

text \<open>
  How the body of a subtask ends. \<open>BodyEscapes\<close> is an exception outside the \<open>try\<close> of \<open>_execute_single_task\<close> or in its
  \<open>except\<close> clauses, which the \<open>result()\<close> of the task raises again: a cancellation while it waits for the semaphore, or an observer
  that raises there.
\<close>

datatype escape = EscapedCancelled | EscapedError string

datatype body_end = AgentEnded agent_outcome | ChatAnswered string "int option" "int option" | Placeholder
  | BodyError string | BodyCancelledExn | BodyEscapes escape

datatype task_end = TaskReturned subtask_result | TaskRaised escape

fun stop_reason_value :: "stop_reason \<Rightarrow> string" where
  "stop_reason_value DIRECT_ANSWER = ''direct_answer''"
| "stop_reason_value MAX_STEPS = ''max_steps''"
| "stop_reason_value DEADLINE_EXCEEDED = ''deadline_exceeded''"
| "stop_reason_value EXTERNAL_CANCELLED = ''external_cancelled''"
| "stop_reason_value MODEL_ERROR = ''model_error''"
| "stop_reason_value INVALID_DECISION = ''invalid_decision''"
| "stop_reason_value TOKEN_BUDGET_EXCEEDED = ''token_budget_exceeded''"

definition blank_result :: "subtask \<Rightarrow> subtask_result" where
  "blank_result t = \<lparr>sr_task_id = tk_id t, sr_status = TaskPending, sr_output = [], sr_error = None,
     sr_agent_role = tk_agent_role t, sr_token_usage = 0, sr_steps_taken = 0, sr_tool_calls = []\<rparr>"

definition agent_config_for :: "orch_config \<Rightarrow> ma_role \<Rightarrow> agent_config option" where
  "agent_config_for cfg role =
     (case dget (oc_agent_configs cfg) role of Some c \<Rightarrow> Some c | None \<Rightarrow> dget default_agent_configs role)"

text \<open>The text a subtask is given; \<open>Inl\<close> when formatting raises something other than \<open>KeyError\<close>.\<close>

definition task_input :: "(string \<Rightarrow> string \<Rightarrow> format_end) \<Rightarrow> shared_context \<Rightarrow> subtask \<Rightarrow> string + string" where
  "task_input fmt sc t =
     (if tk_input_template t \<noteq> [] \<and> tk_depends_on t \<noteq> [] then
        (let prev = get_prev_results sc (tk_depends_on t)
         in case fmt (tk_input_template t) prev of
              Formatted s \<Rightarrow> Inr s
            | FormatKeyError \<Rightarrow> Inr (tk_description t @ [newline, newline] @ ''Previous results:'' @ [newline] @ prev)
            | FormatError e \<Rightarrow> Inl e)
      else Inr (tk_description t))"

definition apply_agent_outcome :: "agent_outcome \<Rightarrow> subtask_result \<Rightarrow> subtask_result" where
  "apply_agent_outcome o1 r =
     (let r1 = r\<lparr>sr_output := (case ao_answer o1 of None \<Rightarrow> [] | Some a \<Rightarrow> a),
                 sr_steps_taken := int (length (ao_steps o1)),
                 sr_tool_calls := concat (map (\<lambda>d. map call_name (ad_tool_calls d)) (ao_steps o1)),
                 sr_token_usage := (case (ao_prompt_tokens o1, ao_completion_tokens o1) of
                    (Some p, Some c) \<Rightarrow> p + c | _ \<Rightarrow> ao_token_usage o1)\<rparr>
      in if ao_status o1 = COMPLETED then r1\<lparr>sr_status := TaskCompleted\<rparr>
         else if ao_status o1 = CANCELLED
         then r1\<lparr>sr_status := TaskCancelledStatus, sr_error := Some ''Subtask cancelled externally''\<rparr>
         else r1\<lparr>sr_status := TaskFailed,
                 sr_error := Some (''Subtask agent ended with '' @ stop_reason_value (ao_stop_reason o1))\<rparr>)"

definition execute_single_task ::
  "(string \<Rightarrow> string \<Rightarrow> format_end) \<Rightarrow> orch_config \<Rightarrow> shared_context \<Rightarrow> subtask \<Rightarrow> body_end \<Rightarrow> task_end" where
  "execute_single_task fmt cfg sc t body =
     (case agent_config_for cfg (tk_agent_role t) of
        None \<Rightarrow> TaskReturned ((blank_result t)\<lparr>sr_status := TaskFailed,
                  sr_error := Some (''No agent config for role '' @ role_value (tk_agent_role t))\<rparr>)
      | Some _ \<Rightarrow>
          (case task_input fmt sc t of
             Inl e \<Rightarrow> TaskRaised (EscapedError e)
           | Inr _ \<Rightarrow>
               (case body of
                  AgentEnded out \<Rightarrow> TaskReturned (apply_agent_outcome out (blank_result t))
                | ChatAnswered content p c \<Rightarrow>
                    TaskReturned ((blank_result t)\<lparr>sr_output := content, sr_token_usage := py_or p 0 + py_or c 0, sr_steps_taken := 1,
                                    sr_status := TaskCompleted\<rparr>)
                | Placeholder \<Rightarrow>
                    TaskReturned ((blank_result t)\<lparr>sr_output := ''['' @ role_value (tk_agent_role t) @ ''] Completed: '' @ tk_description t,
                                    sr_status := TaskCompleted\<rparr>)
                | BodyError e \<Rightarrow> TaskReturned ((blank_result t)\<lparr>sr_status := TaskFailed, sr_error := Some e\<rparr>)
                | BodyCancelledExn \<Rightarrow>
                    TaskReturned ((blank_result t)\<lparr>sr_status := TaskCancelledStatus, sr_error := Some ''Task cancelled''\<rparr>)
                | BodyEscapes e \<Rightarrow> TaskRaised e)))"

section \<open>The loop over the dependency graph\<close>

record dag_state =
  ds_state :: orch_state
  ds_pending :: "string list"
  ds_in_progress :: "string list"
  ds_completed :: "string list"
  ds_failed :: "string list"

text \<open>\<open>ti_interrupted\<close>: the task that runs the loop is cancelled while it awaits \<open>asyncio.wait\<close>.\<close>

record tick =
  ti_cancelled :: bool
  ti_interrupted :: bool
  ti_elapsed :: real
  ti_order :: "string list"
  ti_done :: "(string \<times> body_end) list"

datatype loop_end = Going dag_state | Stopped dag_state | Raised escape dag_state

definition set_end :: "orch_status \<Rightarrow> string \<Rightarrow> string \<Rightarrow> dag_state \<Rightarrow> dag_state" where
  "set_end status err code s =
     s\<lparr>ds_state := (ds_state s)\<lparr>os_status := status, os_error := Some err, os_error_code := Some code\<rparr>\<rparr>"

type_synonym task_map = "(string, subtask) pydict"

definition deps_of :: "task_map \<Rightarrow> string \<Rightarrow> string list" where
  "deps_of tm i = (case dget tm i of None \<Rightarrow> [] | Some t \<Rightarrow> tk_depends_on t)"

text \<open>The scan of \<open>list(pending)\<close>: tasks of which a dependency failed are skipped, the others are ready.\<close>

fun find_ready :: "orch_config \<Rightarrow> task_map \<Rightarrow> string list \<Rightarrow> string list \<Rightarrow> dag_state \<Rightarrow> string list \<times> dag_state" where
  "find_ready cfg tm [] ready s = (ready, s)"
| "find_ready cfg tm (i # is) ready s =
     (if i \<in> set (ds_pending s) \<and> set (deps_of tm i) \<subseteq> set (ds_completed s) then
        (if set (deps_of tm i) \<inter> set (ds_failed s) \<noteq> {} \<and> oc_failure_policy cfg = FailFast then
           find_ready cfg tm is ready
             (s\<lparr>ds_state := (ds_state s)\<lparr>os_results := dset i
                  \<lparr>sr_task_id = i, sr_status = TaskSkipped, sr_output = [], sr_error = Some ''Skipped due to dependency failure'',
                   sr_agent_role = CUSTOM, sr_token_usage = 0, sr_steps_taken = 0, sr_tool_calls = []\<rparr> (os_results (ds_state s))\<rparr>,
                ds_pending := removeAll i (ds_pending s)\<rparr>)
         else find_ready cfg tm is (ready @ [i]) s)
      else find_ready cfg tm is ready s)"

fun start_ready :: "int \<Rightarrow> string list \<Rightarrow> dag_state \<Rightarrow> dag_state" where
  "start_ready concurrency [] s = s"
| "start_ready concurrency (i # is) s =
     (if concurrency \<le> int (length (ds_in_progress s)) then s
      else start_ready concurrency is
             (s\<lparr>ds_pending := removeAll i (ds_pending s), ds_in_progress := ds_in_progress s @ [i]\<rparr>))"

definition put_result :: "string \<Rightarrow> subtask_result \<Rightarrow> dag_state \<Rightarrow> dag_state" where
  "put_result i r s = s\<lparr>ds_state := (ds_state s)\<lparr>os_results := dset i r (os_results (ds_state s))\<rparr>\<rparr>"

definition none_or :: "string option \<Rightarrow> string" where
  "none_or e = (case e of None \<Rightarrow> ''None'' | Some x \<Rightarrow> x)"

fun process_done ::
  "(string \<Rightarrow> string \<Rightarrow> format_end) \<Rightarrow> orch_config \<Rightarrow> task_map \<Rightarrow> (string \<times> body_end) list \<Rightarrow> dag_state \<Rightarrow> loop_end" where
  "process_done fmt cfg tm [] s = Going s"
| "process_done fmt cfg tm ((i, body) # ds) s =
     (case dget tm i of
        None \<Rightarrow> process_done fmt cfg tm ds s
      | Some t \<Rightarrow>
          if i \<notin> set (ds_in_progress s) then process_done fmt cfg tm ds s
          else
            (case execute_single_task fmt cfg (os_shared_context (ds_state s)) t body of
               TaskRaised e \<Rightarrow> Raised e s
             | TaskReturned r \<Rightarrow>
                 (let s1 = put_result i r s;
                      s2 = s1\<lparr>ds_in_progress := removeAll i (ds_in_progress s1)\<rparr>
                  in if sr_status r = TaskCompleted then
                       process_done fmt cfg tm ds
                         (s2\<lparr>ds_completed := List.insert i (ds_completed s2),
                             ds_state := (ds_state s2)\<lparr>os_total_token_usage := os_total_token_usage (ds_state s2) + sr_token_usage r\<rparr>\<rparr>)
                     else if sr_status r = TaskCancelledStatus then
                       Stopped (set_end OrchCancelled ''Orchestration cancelled externally'' ''cancelled'' s1)
                     else if sr_status r = TaskFailed then
                       (let s3 = s2\<lparr>ds_failed := List.insert i (ds_failed s2)\<rparr>
                        in if oc_failure_policy cfg = FailFast
                           then Stopped (set_end OrchFailed (''Task '' @ i @ '' failed: '' @ none_or (sr_error r)) ''subtask_failed''
                                  (s1\<lparr>ds_failed := List.insert i (ds_failed s1)\<rparr>))
                           else process_done fmt cfg tm ds s3)
                     else process_done fmt cfg tm ds s2)))"

text \<open>The guards at the head of a pass: cancelled, timed out, over budget.\<close>

definition pass_guard :: "orch_config \<Rightarrow> tick \<Rightarrow> dag_state \<Rightarrow> dag_state option" where
  "pass_guard cfg t s =
     (if ti_cancelled t then Some (set_end OrchCancelled ''Orchestration cancelled externally'' ''cancelled'' s)
      else if (case oc_total_timeout cfg of None \<Rightarrow> False | Some limit \<Rightarrow> limit \<le> ti_elapsed t)
      then Some (set_end OrchTimedOut (''Global timeout exceeded ('' @ oc_total_timeout_text cfg @ ''s)'') ''timeout'' s)
      else if (case oc_total_token_budget cfg of None \<Rightarrow> False | Some b \<Rightarrow> b \<le> os_total_token_usage (ds_state s))
      then Some (set_end OrchBudgetExceeded
             (''Token budget exceeded ('' @ (case oc_total_token_budget cfg of None \<Rightarrow> [] | Some b \<Rightarrow> int_digits b) @ '')'') ''budget_exceeded'' s)
      else None)"

text \<open>The statements after the loop.\<close>

definition conclude :: "orch_config \<Rightarrow> dag_state \<Rightarrow> dag_state" where
  "conclude cfg s =
     (if ds_failed s = [] \<or> oc_failure_policy cfg = Skip
      then s\<lparr>ds_state := (ds_state s)\<lparr>os_status := OrchCompleted\<rparr>\<rparr>
      else s\<lparr>ds_state := (ds_state s)\<lparr>os_status := OrchFailed, os_error_code := Some ''subtask_failed''\<rparr>\<rparr>)"

definition dag_pass ::
  "(string \<Rightarrow> string \<Rightarrow> format_end) \<Rightarrow> orch_config \<Rightarrow> task_map \<Rightarrow> int \<Rightarrow> tick \<Rightarrow> dag_state \<Rightarrow> loop_end" where
  "dag_pass fmt cfg tm concurrency t s =
     (case pass_guard cfg t s of
        Some s' \<Rightarrow> Stopped s'
      | None \<Rightarrow>
          (case find_ready cfg tm (ti_order t) [] s of (ready, s1) \<Rightarrow>
             (let s2 = start_ready concurrency ready s1
              in if ds_in_progress s2 \<noteq> [] then
                   (if ti_interrupted t then Raised EscapedCancelled s2 else process_done fmt cfg tm (ti_done t) s2)
                 else if ds_pending s2 \<noteq> [] then
                   Stopped (set_end OrchFailed ''Deadlock: pending tasks with unsatisfied dependencies'' ''dependency_deadlock'' s2)
                 else Stopped (conclude cfg s2))))"

text \<open>\<open>None\<close>: the ticks are used up while the loop still waits.\<close>

fun execute_dag ::
  "(string \<Rightarrow> string \<Rightarrow> format_end) \<Rightarrow> orch_config \<Rightarrow> task_map \<Rightarrow> int \<Rightarrow> tick list \<Rightarrow> dag_state \<Rightarrow> loop_end option" where
  "execute_dag fmt cfg tm concurrency ticks s =
     (if ds_pending s = [] \<and> ds_in_progress s = [] then Some (Stopped (conclude cfg s))
      else
        (case ticks of
           [] \<Rightarrow> None
         | t # ts \<Rightarrow>
             (case dag_pass fmt cfg tm concurrency t s of
                Going s' \<Rightarrow> execute_dag fmt cfg tm concurrency ts s'
              | e \<Rightarrow> Some e)))"

declare execute_dag.simps [simp del]

definition task_map_of :: "subtask list \<Rightarrow> task_map" where
  "task_map_of ts = fold (\<lambda>t m. dset (tk_id t) t m) ts []"

definition start_state :: "string \<Rightarrow> subtask list \<Rightarrow> dag_state" where
  "start_state user_input ts =
     \<lparr>ds_state = \<lparr>os_status = OrchRunning, os_shared_context = \<lparr>sc_user_input = user_input, sc_task_results = []\<rparr>,
        os_results = [], os_total_token_usage = 0, os_error = None, os_error_code = None\<rparr>,
      ds_pending = map fst (task_map_of ts), ds_in_progress = [], ds_completed = [], ds_failed = []\<rparr>"

definition final_output :: "subtask list \<Rightarrow> orch_state \<Rightarrow> string" where
  "final_output ts s =
     (if os_status s = OrchCompleted then
        (case find (\<lambda>t. case dget (os_results s) (tk_id t) of None \<Rightarrow> False | Some r \<Rightarrow> sr_status r = TaskCompleted) (rev ts) of
           None \<Rightarrow> []
         | Some t \<Rightarrow> (case dget (os_results s) (tk_id t) of None \<Rightarrow> [] | Some r \<Rightarrow> sr_output r))
      else [])"

fun loop_state :: "loop_end \<Rightarrow> orch_state" where
  "loop_state (Going s) = ds_state s"
| "loop_state (Stopped s) = ds_state s"
| "loop_state (Raised EscapedCancelled s) =
     (ds_state s)\<lparr>os_status := OrchCancelled, os_error := Some ''Orchestration cancelled externally'', os_error_code := Some ''cancelled''\<rparr>"
| "loop_state (Raised (EscapedError e) s) =
     (ds_state s)\<lparr>os_status := OrchFailed, os_error := Some e, os_error_code := Some ''internal_error''\<rparr>"

lemma loop_state_raised [simp]:
  "os_results (loop_state (Raised e s)) = os_results (ds_state s)"
  "os_total_token_usage (loop_state (Raised e s)) = os_total_token_usage (ds_state s)"
  "os_status (loop_state (Raised e s)) \<noteq> OrchRunning" "os_status (loop_state (Raised e s)) \<noteq> OrchCompleted"
  "os_error_code (loop_state (Raised e s)) \<noteq> Some ''dependency_deadlock''"
  by (cases e; simp)+

text \<open>\<open>Inl\<close>: \<open>asyncio.Semaphore\<close> refuses a negative value. \<open>Inr None\<close>: still running when the ticks end.\<close>

definition orchestrate ::
  "(string \<Rightarrow> string \<Rightarrow> format_end) \<Rightarrow> orch_config \<Rightarrow> string \<Rightarrow> subtask list \<Rightarrow> string \<Rightarrow> tick list \<Rightarrow> string + orch_result option" where
  "orchestrate fmt cfg user_input ts run_id ticks =
     (let concurrency = min (oc_max_concurrency cfg) (int (length ts))
      in if concurrency < 0 then Inl ''Semaphore initial value must be >= 0''
         else Inr (map_option (\<lambda>e. let s = loop_state e in
                \<lparr>or_run_id = run_id, or_status = os_status s, or_final_output = final_output ts s,
                 or_subtask_results = dvalues (os_results s), or_total_token_usage = os_total_token_usage s,
                 or_error = os_error s, or_error_code = os_error_code s\<rparr>)
              (execute_dag fmt cfg (task_map_of ts) concurrency ticks (start_state user_input ts))))"

end
