(* ===== verification/MultiAgentRuns.thy ===== *)
theory MultiAgentRuns
  imports MultiAgent
begin

text \<open>
  What an orchestration guarantees, however its subtasks interleave and end: no subtask runs before its
  dependencies are complete, the token total is exact, the loop ends, and a run that reports success has
  run everything.
\<close>

section \<open>The invariant of the loop\<close>

definition completed_tokens :: "(string, subtask_result) pydict \<Rightarrow> int" where
  "completed_tokens rs = sum_list (map (\<lambda>r. if sr_status r = TaskCompleted then sr_token_usage r else 0) (dvalues rs))"

definition dag_inv :: "task_map \<Rightarrow> dag_state \<Rightarrow> bool" where
  "dag_inv tm s \<longleftrightarrow>
     distinct (ds_pending s @ ds_in_progress s) \<and>
     fst ` set tm = set (ds_pending s) \<union> set (ds_in_progress s) \<union> set (ds_completed s) \<union> set (ds_failed s) \<and>
     (set (ds_completed s) \<union> set (ds_failed s)) \<inter> (set (ds_pending s) \<union> set (ds_in_progress s)) = {} \<and>
     set (ds_completed s) \<inter> set (ds_failed s) = {} \<and>
     (\<forall>i \<in> set (ds_in_progress s) \<union> set (ds_completed s) \<union> set (ds_failed s). set (deps_of tm i) \<subseteq> set (ds_completed s)) \<and>
     dict_wf (os_results (ds_state s)) \<and> fst ` set (os_results (ds_state s)) = set (ds_completed s) \<union> set (ds_failed s) \<and>
     (\<forall>i \<in> set (ds_completed s). \<exists>r. dget (os_results (ds_state s)) i = Some r \<and> sr_status r = TaskCompleted) \<and>
     (\<forall>i \<in> set (ds_failed s). \<exists>r. dget (os_results (ds_state s)) i = Some r \<and> sr_status r = TaskFailed) \<and>
     os_total_token_usage (ds_state s) = completed_tokens (os_results (ds_state s)) \<and>
     (\<forall>(i, t) \<in> set tm. tk_id t = i) \<and> (\<forall>i r. dget (os_results (ds_state s)) i = Some r \<longrightarrow> sr_task_id r = i) \<and>
     sc_task_results (os_shared_context (ds_state s)) = [] \<and> os_status (ds_state s) = OrchRunning"

text \<open>What still holds when the loop has been left.\<close>

definition dag_final :: "task_map \<Rightarrow> dag_state \<Rightarrow> bool" where
  "dag_final tm s \<longleftrightarrow> dict_wf (os_results (ds_state s)) \<and>
     (\<forall>i r. dget (os_results (ds_state s)) i = Some r \<longrightarrow> sr_task_id r = i \<and> i \<in> fst ` set tm \<and> sr_status r \<noteq> TaskSkipped \<and>
        (\<forall>j \<in> set (deps_of tm i). \<exists>r'. dget (os_results (ds_state s)) j = Some r' \<and> sr_status r' = TaskCompleted)) \<and>
     os_total_token_usage (ds_state s) = completed_tokens (os_results (ds_state s))"

lemma dag_final_get:
  assumes "dag_final tm s" and "dget (os_results (ds_state s)) i = Some r"
  shows "sr_task_id r = i"
    and "j \<in> set (deps_of tm i) \<Longrightarrow> \<exists>r'. dget (os_results (ds_state s)) j = Some r' \<and> sr_status r' = TaskCompleted"
  using assms unfolding dag_final_def by blast+

lemma find_ready_ok:
  assumes "dag_inv tm s" and "set ready \<subseteq> {i \<in> set (ds_pending s). set (deps_of tm i) \<subseteq> set (ds_completed s)}"
    and "find_ready cfg tm is ready s = (ready', s')"
  shows "s' = s \<and> set ready' \<subseteq> {i \<in> set (ds_pending s). set (deps_of tm i) \<subseteq> set (ds_completed s)} \<and>
    (distinct (ready @ is) \<longrightarrow> distinct ready')"
  using assms(2,3)
proof (induction "is" arbitrary: ready)
  case (Cons i "is")
  have "set (deps_of tm i) \<inter> set (ds_failed s) = {}" if "set (deps_of tm i) \<subseteq> set (ds_completed s)"
    using that assms(1) by (auto simp: dag_inv_def)
  with Cons.prems Cons.IH [of "if i \<in> set (ds_pending s) \<and> set (deps_of tm i) \<subseteq> set (ds_completed s) then ready @ [i] else ready"]
  show ?case by (auto split: if_splits)
qed simp

lemma start_one:
  assumes "dag_inv tm s" and "i \<in> set (ds_pending s)" and "set (deps_of tm i) \<subseteq> set (ds_completed s)"
  shows "dag_inv tm (s\<lparr>ds_pending := removeAll i (ds_pending s), ds_in_progress := ds_in_progress s @ [i]\<rparr>)"
  using assms unfolding dag_inv_def by (auto simp: distinct_removeAll)

lemma start_ready_ok:
  assumes "dag_inv tm s" and "distinct ready" and "set ready \<subseteq> {i \<in> set (ds_pending s). set (deps_of tm i) \<subseteq> set (ds_completed s)}"
  shows "dag_inv tm (start_ready c ready s) \<and> ds_completed (start_ready c ready s) = ds_completed s \<and>
    ds_failed (start_ready c ready s) = ds_failed s \<and> ds_state (start_ready c ready s) = ds_state s \<and>
    length (ds_pending (start_ready c ready s)) + length (ds_in_progress (start_ready c ready s)) =
      length (ds_pending s) + length (ds_in_progress s) \<and>
    (int (length (ds_in_progress s)) \<le> c \<longrightarrow> int (length (ds_in_progress (start_ready c ready s))) \<le> c)"
  using assms
proof (induction ready arbitrary: s)
  case (Cons i "is")
  let ?s = "s\<lparr>ds_pending := removeAll i (ds_pending s), ds_in_progress := ds_in_progress s @ [i]\<rparr>"
  show ?case
  proof (cases "c \<le> int (length (ds_in_progress s))")
    case True
    with Cons.prems show ?thesis by simp
  next
    case False
    have i: "i \<in> set (ds_pending s)" "set (deps_of tm i) \<subseteq> set (ds_completed s)" using Cons.prems by auto
    have inv: "dag_inv tm ?s" by (rule start_one [OF Cons.prems(1) i])
    have "distinct (ds_pending s)" using Cons.prems(1) by (simp add: dag_inv_def)
    then have len: "length (removeAll i (ds_pending s)) = length (ds_pending s) - 1" using i(1) by (simp add: distinct_remove1_removeAll [symmetric] length_remove1)
    have pos: "0 < length (ds_pending s)" using i(1) by (cases "ds_pending s") auto
    have sub: "set is \<subseteq> {i \<in> set (ds_pending ?s). set (deps_of tm i) \<subseteq> set (ds_completed ?s)}" using Cons.prems by auto
    from Cons.IH [OF inv _ sub] Cons.prems(2) False len pos show ?thesis by auto
  qed
qed simp

lemma completed_tokens_new: "dget rs i = None \<Longrightarrow> completed_tokens (dset i r rs) = completed_tokens rs + (if sr_status r = TaskCompleted then sr_token_usage r else 0)"
  by (simp add: completed_tokens_def dset_absent)

text \<open>A subtask that is in progress gets its result.\<close>

lemma settle_ok:
  assumes inv: "dag_inv tm s" and i: "i \<in> set (ds_in_progress s)" and id: "sr_task_id r = i"
  shows "sr_status r = TaskCompleted \<Longrightarrow>
      dag_inv tm (s\<lparr>ds_state := (ds_state s)\<lparr>os_results := dset i r (os_results (ds_state s)),
          os_total_token_usage := os_total_token_usage (ds_state s) + sr_token_usage r\<rparr>,
        ds_in_progress := removeAll i (ds_in_progress s), ds_completed := List.insert i (ds_completed s)\<rparr>)"
    and "sr_status r = TaskFailed \<Longrightarrow>
      dag_inv tm (s\<lparr>ds_state := (ds_state s)\<lparr>os_results := dset i r (os_results (ds_state s))\<rparr>,
        ds_in_progress := removeAll i (ds_in_progress s), ds_failed := List.insert i (ds_failed s)\<rparr>)"
proof -
  have new: "dget (os_results (ds_state s)) i = None" using inv i by (auto simp: dag_inv_def map_of_eq_None_iff)
  have k: "fst ` set (dset i r (os_results (ds_state s))) = insert i (fst ` set (os_results (ds_state s)))"
    using new by (simp add: dset_absent)
  show "dag_inv tm (s\<lparr>ds_state := (ds_state s)\<lparr>os_results := dset i r (os_results (ds_state s)),
          os_total_token_usage := os_total_token_usage (ds_state s) + sr_token_usage r\<rparr>,
        ds_in_progress := removeAll i (ds_in_progress s), ds_completed := List.insert i (ds_completed s)\<rparr>)"
    if "sr_status r = TaskCompleted"
    using inv i that new id unfolding dag_inv_def by (auto simp: k distinct_removeAll completed_tokens_new)
  show "dag_inv tm (s\<lparr>ds_state := (ds_state s)\<lparr>os_results := dset i r (os_results (ds_state s))\<rparr>,
        ds_in_progress := removeAll i (ds_in_progress s), ds_failed := List.insert i (ds_failed s)\<rparr>)"
    if "sr_status r = TaskFailed"
    using inv i that new id unfolding dag_inv_def by (auto simp: k distinct_removeAll completed_tokens_new)
qed

lemma dag_inv_deps:
  "dag_inv tm s \<Longrightarrow> i \<in> set (ds_in_progress s) \<union> set (ds_completed s) \<union> set (ds_failed s) \<Longrightarrow> j \<in> set (deps_of tm i) \<Longrightarrow>
   \<exists>r. dget (os_results (ds_state s)) j = Some r \<and> sr_status r = TaskCompleted"
  unfolding dag_inv_def by (meson subsetD)

lemma dag_inv_not_failed:
  assumes "dag_inv tm s" and "i \<in> set (ds_completed s) \<union> set (ds_failed s)" and "j \<in> set (deps_of tm i)"
  shows "j \<notin> set (ds_failed s)"
proof -
  have "set (deps_of tm i) \<subseteq> set (ds_completed s)" and "set (ds_completed s) \<inter> set (ds_failed s) = {}"
    using assms(1,2) unfolding dag_inv_def by blast+
  with assms(3) show ?thesis by blast
qed

lemma dag_inv_results:
  assumes "dag_inv tm s"
  shows "i \<in> set (ds_completed s) \<Longrightarrow> \<exists>r. dget (os_results (ds_state s)) i = Some r \<and> sr_status r = TaskCompleted"
    and "i \<in> set (ds_failed s) \<Longrightarrow> \<exists>r. dget (os_results (ds_state s)) i = Some r \<and> sr_status r = TaskFailed"
  using assms unfolding dag_inv_def by blast+

lemma execute_single_status:
  "execute_single_task fmt cfg sc t body = TaskReturned r \<Longrightarrow> sr_status r \<in> {TaskCompleted, TaskFailed, TaskCancelledStatus}"
  by (auto simp: execute_single_task_def blank_result_def apply_agent_outcome_def Let_def
      split: option.splits sum.splits body_end.splits if_splits)

lemma execute_single_id: "execute_single_task fmt cfg sc t body = TaskReturned r \<Longrightarrow> sr_task_id r = tk_id t"
  by (auto simp: execute_single_task_def blank_result_def apply_agent_outcome_def Let_def
      split: option.splits sum.splits body_end.splits if_splits)

lemma inv_final: "dag_inv tm s \<Longrightarrow> dag_final tm s"
  unfolding dag_final_def
proof (intro conjI allI impI)
  fix i r
  assume inv: "dag_inv tm s" and r: "dget (os_results (ds_state s)) i = Some r"
  then show "sr_task_id r = i" by (simp add: dag_inv_def)
  from inv r have "i \<in> fst ` set (os_results (ds_state s))" by (metis domIff dom_map_of_conv_image_fst option.distinct(1))
  with inv have i: "i \<in> set (ds_completed s) \<union> set (ds_failed s)" by (simp add: dag_inv_def)
  with inv show "i \<in> fst ` set tm" by (auto simp: dag_inv_def)
  from i inv r show "sr_status r \<noteq> TaskSkipped" by (force simp: dag_inv_def)
  from i dag_inv_deps [OF inv, of i] show "\<forall>j \<in> set (deps_of tm i). \<exists>r'. dget (os_results (ds_state s)) j = Some r' \<and> sr_status r' = TaskCompleted"
    by blast
qed (simp_all add: dag_inv_def)

lemma final_set_end [simp]: "dag_final tm (set_end st e c s) = dag_final tm s"
  by (simp add: dag_final_def set_end_def)

lemma final_conclude [simp]: "dag_final tm (conclude cfg s) = dag_final tm s"
  by (simp add: dag_final_def conclude_def)

lemma final_put:
  assumes inv: "dag_inv tm s" and i: "i \<in> set (ds_in_progress s)" and id: "sr_task_id r = i"
    and st: "sr_status r = TaskFailed \<or> sr_status r = TaskCancelledStatus"
    and s': "os_results (ds_state s') = dset i r (os_results (ds_state s))" "os_total_token_usage (ds_state s') = os_total_token_usage (ds_state s)"
  shows "dag_final tm s'"
proof -
  have new: "dget (os_results (ds_state s)) i = None" using inv i by (auto simp: dag_inv_def map_of_eq_None_iff)
  have f: "dag_final tm s" by (rule inv_final [OF inv])
  have d: "\<forall>j \<in> set (deps_of tm i). \<exists>r'. dget (os_results (ds_state s)) j = Some r' \<and> sr_status r' = TaskCompleted"
    using dag_inv_deps [OF inv, of i] i by blast
  have i': "i \<in> fst ` set tm" using inv i by (auto simp: dag_inv_def)
  show ?thesis unfolding dag_final_def s'
  proof (intro conjI allI impI)
    fix k rk assume k: "dget (dset i r (os_results (ds_state s))) k = Some rk"
    show "sr_task_id rk = k" using k f id by (auto simp: dag_final_def split: if_splits)
    show "k \<in> fst ` set tm" using k f i' by (auto simp: dag_final_def split: if_splits)
    show "sr_status rk \<noteq> TaskSkipped" using k f st by (auto simp: dag_final_def split: if_splits)
    have "\<forall>j \<in> set (deps_of tm k). \<exists>r'. dget (os_results (ds_state s)) j = Some r' \<and> sr_status r' = TaskCompleted"
      using k f d by (auto simp: dag_final_def split: if_splits)
    with new show "\<forall>j \<in> set (deps_of tm k). \<exists>r'. dget (dset i r (os_results (ds_state s))) j = Some r' \<and> sr_status r' = TaskCompleted"
      by fastforce
  next
    show "dict_wf (dset i r (os_results (ds_state s)))" using f by (simp add: dag_final_def)
    show "os_total_token_usage (ds_state s) = completed_tokens (dset i r (os_results (ds_state s)))"
      using inv st by (auto simp: dag_inv_def completed_tokens_new [OF new])
  qed
qed

text \<open>How the processing of finished subtasks goes on from a state of the loop.\<close>

definition processed :: "task_map \<Rightarrow> (string \<times> body_end) list \<Rightarrow> dag_state \<Rightarrow> loop_end \<Rightarrow> bool" where
  "processed tm ds s e =
     (case e of
        Going s' \<Rightarrow> dag_inv tm s' \<and> ds_pending s' = ds_pending s \<and> length (ds_in_progress s') \<le> length (ds_in_progress s) \<and>
          ((\<exists>i \<in> set (ds_in_progress s). i \<in> fst ` set ds) \<longrightarrow> length (ds_in_progress s') < length (ds_in_progress s))
      | Stopped s' \<Rightarrow> dag_final tm s' \<and> os_status (ds_state s') \<in> {OrchCancelled, OrchFailed}
      | Raised err s' \<Rightarrow> dag_final tm s')"

lemma processed_skip:
  assumes "processed tm ds s e" and "i \<notin> set (ds_in_progress s)"
  shows "processed tm ((i, b) # ds) s e"
  using assms by (auto simp: processed_def split: loop_end.splits)

lemma processed_step:
  assumes "processed tm ds s1 e" and "ds_pending s1 = ds_pending s" and "ds_in_progress s1 = removeAll i (ds_in_progress s)"
    and "i \<in> set (ds_in_progress s)"
  shows "processed tm ((i, b) # ds) s e"
proof -
  have "length (removeAll i (ds_in_progress s)) < length (ds_in_progress s)" using assms(4) by (rule length_removeAll_less)
  with assms show ?thesis by (auto simp: processed_def split: loop_end.splits)
qed

lemma process_done_ok:
  assumes "dag_inv tm s"
  shows "processed tm ds s (process_done fmt cfg tm ds s)"
  using assms
proof (induction ds arbitrary: s)
  case Nil
  then show ?case by (simp add: processed_def)
next
  case (Cons d ds)
  obtain i b where d: "d = (i, b)" by fastforce
  show ?case
  proof (cases "i \<in> set (ds_in_progress s)")
    case False
    then have "process_done fmt cfg tm (d # ds) s = process_done fmt cfg tm ds s" using d by (auto split: option.splits)
    with processed_skip [OF Cons.IH [OF Cons.prems] False] d show ?thesis by simp
  next
    case True
    then obtain t where t: "dget tm i = Some t"
      using Cons.prems by (auto simp: dag_inv_def) (metis (no_types, lifting) UnCI domD dom_map_of_conv_image_fst)
    show ?thesis
    proof (cases "execute_single_task fmt cfg (os_shared_context (ds_state s)) t b")
      case (TaskRaised e)
      then show ?thesis using True t d inv_final [OF Cons.prems] by (simp add: processed_def)
    next
      case r: (TaskReturned r)
      have "tk_id t = i" using Cons.prems map_of_SomeD [OF t] by (auto simp: dag_inv_def)
      then have id: "sr_task_id r = i" using execute_single_id [OF r] by simp
      consider "sr_status r = TaskCompleted" | "sr_status r = TaskFailed" | "sr_status r = TaskCancelledStatus"
        using execute_single_status [OF r] by auto
      then show ?thesis
      proof cases
        case 1
        let ?s = "s\<lparr>ds_in_progress := removeAll i (ds_in_progress s), ds_completed := List.insert i (ds_completed s),
          ds_state := (ds_state s)\<lparr>os_results := dset i r (os_results (ds_state s)),
            os_total_token_usage := os_total_token_usage (ds_state s) + sr_token_usage r\<rparr>\<rparr>"
        have "dag_inv tm ?s" using settle_ok(1) [OF Cons.prems True id 1] by (cases s) simp
        moreover have "process_done fmt cfg tm (d # ds) s = process_done fmt cfg tm ds ?s"
          using d t True r 1 by (simp add: put_result_def)
        ultimately show ?thesis using processed_step [of tm ds ?s _ s i b] Cons.IH True d by simp
      next
        case 2
        let ?s = "s\<lparr>ds_state := (ds_state s)\<lparr>os_results := dset i r (os_results (ds_state s))\<rparr>,
          ds_in_progress := removeAll i (ds_in_progress s), ds_failed := List.insert i (ds_failed s)\<rparr>"
        have "dag_inv tm ?s" by (rule settle_ok(2) [OF Cons.prems True id 2])
        then have p: "processed tm (d # ds) s (process_done fmt cfg tm ds ?s)"
          using processed_step [of tm ds ?s _ s i b] Cons.IH True d by simp
        have "dag_final tm (s\<lparr>ds_state := (ds_state s)\<lparr>os_results := dset i r (os_results (ds_state s))\<rparr>, ds_failed := List.insert i (ds_failed s)\<rparr>)"
          by (rule final_put [OF Cons.prems True id]) (use 2 in simp_all)
        with p d t True r 2 show ?thesis
          by (cases "oc_failure_policy cfg = FailFast") (simp_all add: processed_def put_result_def set_end_def dag_final_def)
      next
        case 3
        have "dag_final tm (put_result i r s)"
          by (rule final_put [OF Cons.prems True id]) (use 3 in \<open>simp_all add: put_result_def\<close>)
        then have "processed tm (d # ds) s (Stopped (set_end OrchCancelled ''Orchestration cancelled externally'' ''cancelled'' (put_result i r s)))"
          by (simp add: processed_def) (simp add: set_end_def)
        with d t True r 3 show ?thesis by (simp add: Let_def)
      qed
    qed
  qed
qed

section \<open>Passes and runs\<close>

text \<open>
  What the event loop promises of a tick: \<open>list(pending)\<close> lists the pending subtasks once each, and
  \<open>asyncio.wait\<close> returns with at least one of the subtasks in progress.
\<close>

definition tick_ok :: "orch_config \<Rightarrow> task_map \<Rightarrow> int \<Rightarrow> tick \<Rightarrow> dag_state \<Rightarrow> bool" where
  "tick_ok cfg tm c t s \<longleftrightarrow> set (ti_order t) = set (ds_pending s) \<and> distinct (ti_order t) \<and>
     (case find_ready cfg tm (ti_order t) [] s of (ready, s1) \<Rightarrow>
        let s2 = start_ready c ready s1
        in ds_in_progress s2 = [] \<or> ti_interrupted t \<or> (\<exists>i \<in> set (ds_in_progress s2). i \<in> fst ` set (ti_done t)))"

fun ticks_ok ::
  "(string \<Rightarrow> string \<Rightarrow> format_end) \<Rightarrow> orch_config \<Rightarrow> task_map \<Rightarrow> int \<Rightarrow> tick list \<Rightarrow> dag_state \<Rightarrow> bool" where
  "ticks_ok fmt cfg tm c [] s = True"
| "ticks_ok fmt cfg tm c (t # ts) s =
     (tick_ok cfg tm c t s \<and> (case dag_pass fmt cfg tm c t s of Going s' \<Rightarrow> ticks_ok fmt cfg tm c ts s' | _ \<Rightarrow> True))"

text \<open>What a pass does to a state of the loop.\<close>

definition passed :: "orch_config \<Rightarrow> task_map \<Rightarrow> int \<Rightarrow> dag_state \<Rightarrow> loop_end \<Rightarrow> bool" where
  "passed cfg tm c s e =
     (case e of
        Going s' \<Rightarrow> dag_inv tm s' \<and> int (length (ds_in_progress s')) \<le> c \<and>
          length (ds_pending s') + length (ds_in_progress s') < length (ds_pending s) + length (ds_in_progress s)
      | Stopped s' \<Rightarrow> dag_final tm s' \<and> os_status (ds_state s') \<noteq> OrchRunning \<and> os_status (ds_state s') \<noteq> OrchCompleted
      | Raised err s' \<Rightarrow> dag_final tm s')"

lemma dag_pass_ok:
  assumes inv: "dag_inv tm s" and t: "tick_ok cfg tm c t s" and c: "int (length (ds_in_progress s)) \<le> c"
    and ne: "ds_pending s \<noteq> [] \<or> ds_in_progress s \<noteq> []"
  shows "passed cfg tm c s (dag_pass fmt cfg tm c t s)"
proof (cases "pass_guard cfg t s")
  case (Some s')
  then have "dag_final tm s' \<and> os_status (ds_state s') \<in> {OrchCancelled, OrchTimedOut, OrchBudgetExceeded}"
    using inv_final [OF inv] by (auto simp: pass_guard_def set_end_def dag_final_def split: if_splits)
  with Some show ?thesis by (auto simp: dag_pass_def passed_def)
next
  case None
  obtain ready s1 where fr: "find_ready cfg tm (ti_order t) [] s = (ready, s1)" by fastforce
  have r: "s1 = s" "set ready \<subseteq> {i \<in> set (ds_pending s). set (deps_of tm i) \<subseteq> set (ds_completed s)}" "distinct ready"
    using find_ready_ok [OF inv _ fr] t by (auto simp: tick_ok_def)
  define s2 where "s2 = start_ready c ready s"
  have s2: "dag_inv tm s2" "length (ds_pending s2) + length (ds_in_progress s2) = length (ds_pending s) + length (ds_in_progress s)"
    "int (length (ds_in_progress s2)) \<le> c"
    using start_ready_ok [OF inv r(3,2), of c] c by (simp_all add: s2_def)
  show ?thesis
  proof (cases "ds_in_progress s2 = []")
    case True
    then have "ds_pending s2 \<noteq> []" using s2(2) ne by auto
    then have "dag_pass fmt cfg tm c t s =
        Stopped (set_end OrchFailed ''Deadlock: pending tasks with unsatisfied dependencies'' ''dependency_deadlock'' s2)"
      using None fr r(1) True by (simp add: dag_pass_def s2_def [symmetric])
    with inv_final [OF s2(1)] show ?thesis by (simp add: passed_def set_end_def dag_final_def)
  next
    case False
    have e: "dag_pass fmt cfg tm c t s = (if ti_interrupted t then Raised EscapedCancelled s2 else process_done fmt cfg tm (ti_done t) s2)"
      using None fr r(1) False by (simp add: dag_pass_def s2_def [symmetric])
    have "ti_interrupted t \<or> (\<exists>i \<in> set (ds_in_progress s2). i \<in> fst ` set (ti_done t))" using t fr r(1) False by (simp add: tick_ok_def s2_def Let_def)
    with process_done_ok [OF s2(1), of "ti_done t" fmt cfg] s2(2,3) inv_final [OF s2(1)] show ?thesis
      unfolding e by (cases "ti_interrupted t") (auto simp: passed_def processed_def split: loop_end.splits)
  qed
qed

lemma task_map_keys: "fst ` set (task_map_of ts) = tk_id ` set ts" "dict_wf (task_map_of ts)"
proof -
  have "fst ` set (fold (\<lambda>t m. dset (tk_id t) t m) ts m) = fst ` set m \<union> tk_id ` set ts \<and>
      (dict_wf m \<longrightarrow> dict_wf (fold (\<lambda>t m. dset (tk_id t) t m) ts m))" for m
    by (induction ts arbitrary: m) (auto simp: dom_update)
  from this [of "[]"] show "fst ` set (task_map_of ts) = tk_id ` set ts" "dict_wf (task_map_of ts)"
    by (simp_all add: task_map_of_def)
qed

lemma task_map_ids: "(i, t) \<in> set (task_map_of ts) \<Longrightarrow> tk_id t = i"
proof -
  have "\<forall>(i, t) \<in> set m. tk_id t = i \<Longrightarrow> \<forall>(i, t) \<in> set (fold (\<lambda>t m. dset (tk_id t) t m) ts m). tk_id t = i" for m
  proof (induction ts arbitrary: m)
    case (Cons u ts)
    have "\<forall>(i, t) \<in> set (dset (tk_id u) u m). tk_id t = i" using Cons.prems by (induction m) auto
    with Cons.IH show ?case by simp
  qed simp
  from this [of "[]"] show "(i, t) \<in> set (task_map_of ts) \<Longrightarrow> tk_id t = i" by (auto simp: task_map_of_def)
qed

lemma start_inv: "dag_inv (task_map_of ts) (start_state u ts)"
  using task_map_keys(2) [of ts] task_map_ids [of _ _ ts] by (auto simp: dag_inv_def start_state_def dict_wf_def completed_tokens_def)

text \<open>How a run that has ended looks.\<close>

definition orch_run_ok :: "orch_config \<Rightarrow> task_map \<Rightarrow> loop_end \<Rightarrow> bool" where
  "orch_run_ok cfg tm e =
     (case e of
        Going _ \<Rightarrow> False
      | Stopped s \<Rightarrow> dag_final tm s \<and> os_status (ds_state s) \<noteq> OrchRunning \<and>
          (os_status (ds_state s) = OrchCompleted \<longrightarrow> (\<exists>s0. dag_inv tm s0 \<and> ds_pending s0 = [] \<and> ds_in_progress s0 = [] \<and>
             (ds_failed s0 = [] \<or> oc_failure_policy cfg = Skip) \<and> os_results (ds_state s0) = os_results (ds_state s)))
      | Raised err s \<Rightarrow> dag_final tm s)"

lemma execute_dag_ok:
  assumes "dag_inv tm s" and "ticks_ok fmt cfg tm c ticks s" and "int (length (ds_in_progress s)) \<le> c"
  shows "(case execute_dag fmt cfg tm c ticks s of
       None \<Rightarrow> length ticks < length (ds_pending s) + length (ds_in_progress s)
     | Some e \<Rightarrow> orch_run_ok cfg tm e)"
  using assms
proof (induction ticks arbitrary: s)
  have fin: "orch_run_ok cfg tm (Stopped (conclude cfg s))" if "dag_inv tm s" "ds_pending s = []" "ds_in_progress s = []" for s
    using that inv_final [OF that(1)] by (auto simp: orch_run_ok_def conclude_def dag_final_def intro!: exI [of _ s])
  {
    case Nil
    then show ?case using fin by (subst execute_dag.simps) auto
  next
    case (Cons t ts)
    show ?case
    proof (cases "ds_pending s = [] \<and> ds_in_progress s = []")
      case True
      then show ?thesis using fin [OF Cons.prems(1)] by (subst execute_dag.simps) simp
    next
      case False
      then have p: "passed cfg tm c s (dag_pass fmt cfg tm c t s)"
        using dag_pass_ok [OF Cons.prems(1) _ Cons.prems(3)] Cons.prems(2) by auto
      show ?thesis
      proof (cases "dag_pass fmt cfg tm c t s")
        case (Going s')
        with p have s': "dag_inv tm s'" "int (length (ds_in_progress s')) \<le> c"
          "length (ds_pending s') + length (ds_in_progress s') < length (ds_pending s) + length (ds_in_progress s)"
          by (simp_all add: passed_def)
        have "ticks_ok fmt cfg tm c ts s'" using Cons.prems(2) Going by simp
        from Cons.IH [OF s'(1) this s'(2)] s'(3) False Going show ?thesis
          by (subst execute_dag.simps) (auto split: option.splits)
      qed (use p False in \<open>subst execute_dag.simps, auto simp: passed_def orch_run_ok_def\<close>)+
    qed
  }
qed

section \<open>Properties of orchestrations\<close>

text \<open>
  C23: an orchestration respects its plan. However the subtasks interleave and end, when it returns: every
  result belongs to a subtask all of whose dependencies have completed results; the token total is the
  sum over the completed subtasks; the status is final; and if it is COMPLETED, every subtask of the plan
  has a result, which is completed or, under the policy SKIP, failed with no other subtask depending on
  it (with such a dependent the run ends as a deadlock, so SKIP never runs past a failed dependency).
\<close>

theorem orchestration_respects_plan:
  assumes "orchestrate fmt cfg u ts rid ticks = Inr (Some res)"
    and "ticks_ok fmt cfg (task_map_of ts) (min (oc_max_concurrency cfg) (int (length ts))) ticks (start_state u ts)"
  shows "or_status res \<noteq> OrchRunning \<and>
    (\<forall>r \<in> set (or_subtask_results res). \<forall>j \<in> set (deps_of (task_map_of ts) (sr_task_id r)).
       \<exists>r' \<in> set (or_subtask_results res). sr_task_id r' = j \<and> sr_status r' = TaskCompleted) \<and>
    or_total_token_usage res = sum_list (map (\<lambda>r. if sr_status r = TaskCompleted then sr_token_usage r else 0) (or_subtask_results res)) \<and>
    (or_status res = OrchCompleted \<longrightarrow> (\<forall>t \<in> set ts. \<exists>r \<in> set (or_subtask_results res). sr_task_id r = tk_id t \<and>
       (sr_status r = TaskCompleted \<or> oc_failure_policy cfg = Skip \<and> sr_status r = TaskFailed \<and>
          (\<forall>t' \<in> set ts. tk_id t \<notin> set (deps_of (task_map_of ts) (tk_id t'))))))"
proof -
  let ?tm = "task_map_of ts" and ?c = "min (oc_max_concurrency cfg) (int (length ts))"
  from assms(1) obtain e where c: "0 \<le> ?c" and e: "execute_dag fmt cfg ?tm ?c ticks (start_state u ts) = Some e"
    and res: "or_status res = os_status (loop_state e)" "or_subtask_results res = dvalues (os_results (loop_state e))"
      "or_total_token_usage res = os_total_token_usage (loop_state e)"
    by (auto simp: orchestrate_def Let_def split: if_splits)
  have "orch_run_ok cfg ?tm e"
    using execute_dag_ok [OF start_inv assms(2)] c e by (simp add: start_state_def)
  then obtain s where f: "dag_final ?tm s" and st: "os_status (loop_state e) \<noteq> OrchRunning"
    and ls: "os_results (loop_state e) = os_results (ds_state s)" "os_total_token_usage (loop_state e) = os_total_token_usage (ds_state s)"
    and ok: "os_status (loop_state e) = OrchCompleted \<Longrightarrow> \<exists>s0. dag_inv ?tm s0 \<and> ds_pending s0 = [] \<and> ds_in_progress s0 = [] \<and>
             (ds_failed s0 = [] \<or> oc_failure_policy cfg = Skip) \<and> os_results (ds_state s0) = os_results (ds_state s)"
    by (cases e) (auto simp: orch_run_ok_def)
  let ?R = "os_results (ds_state s)"
  have mem: "dget ?R i = Some r \<Longrightarrow> r \<in> set (dvalues ?R)" for i r by (rule dget_in_dvalues)
  have get: "\<exists>i. dget ?R i = Some r" if "r \<in> set (dvalues ?R)" for r
    using that f by (auto simp: dag_final_def dict_wf_def)
  have deps: "\<exists>r' \<in> set (dvalues ?R). sr_task_id r' = j \<and> sr_status r' = TaskCompleted"
    if r: "r \<in> set (dvalues ?R)" and j: "j \<in> set (deps_of ?tm (sr_task_id r))" for r j
  proof -
    obtain i where i: "dget ?R i = Some r" using get [OF r] by blast
    with dag_final_get(1) [OF f i] j obtain r' where r': "dget ?R j = Some r'" "sr_status r' = TaskCompleted"
      using dag_final_get(2) [OF f i] by blast
    with dag_final_get(1) [OF f r'(1)] mem show ?thesis by blast
  qed
  have all: "\<exists>r \<in> set (dvalues ?R). sr_task_id r = tk_id t \<and> (sr_status r = TaskCompleted \<or> oc_failure_policy cfg = Skip \<and>
      sr_status r = TaskFailed \<and> (\<forall>t' \<in> set ts. tk_id t \<notin> set (deps_of ?tm (tk_id t'))))"
    if comp: "os_status (loop_state e) = OrchCompleted" and t: "t \<in> set ts" for t
  proof -
    obtain s0 where s0: "dag_inv ?tm s0" "ds_pending s0 = []" "ds_in_progress s0 = []" "ds_failed s0 = [] \<or> oc_failure_policy cfg = Skip"
      and R: "os_results (ds_state s0) = ?R" using ok [OF comp] by blast
    have keys: "tk_id ` set ts = set (ds_completed s0) \<union> set (ds_failed s0)"
      using s0(1-3) task_map_keys(1) [of ts] by (simp add: dag_inv_def)
    have nodep: "tk_id t' \<notin> set (ds_failed s0)" if "tk_id t' \<in> set (deps_of ?tm (tk_id u))" "u \<in> set ts" for t' u
    proof -
      have "tk_id u \<in> set (ds_completed s0) \<union> set (ds_failed s0)" using keys that(2) by blast
      then show ?thesis by (rule dag_inv_not_failed [OF s0(1) _ that(1)])
    qed
    note id = dag_final_get(1) [OF f]
    from keys t consider "tk_id t \<in> set (ds_completed s0)" | "tk_id t \<in> set (ds_failed s0)" by blast
    then show ?thesis
    proof cases
      case 1
      with dag_inv_results(1) [OF s0(1)] R obtain r where "dget ?R (tk_id t) = Some r" "sr_status r = TaskCompleted" by metis
      with id mem show ?thesis by blast
    next
      case 2
      with dag_inv_results(2) [OF s0(1)] R obtain r where "dget ?R (tk_id t) = Some r" "sr_status r = TaskFailed" by metis
      moreover have "oc_failure_policy cfg = Skip" using 2 s0(4) by auto
      ultimately show ?thesis using id mem nodep 2 by blast
    qed
  qed
  have tok: "os_total_token_usage (ds_state s) = completed_tokens ?R" using f by (simp add: dag_final_def)
  show ?thesis unfolding res ls
  proof (intro conjI ballI impI)
    show "os_total_token_usage (ds_state s) = sum_list (map (\<lambda>r. if sr_status r = TaskCompleted then sr_token_usage r else 0) (dvalues ?R))"
      using tok by (simp only: completed_tokens_def)
  qed (use st deps all in blast)+
qed

text \<open>
  C24: an orchestration ends. With a non-negative concurrency limit it has returned after at most as many
  passes of its loop as there are subtasks, whatever the dependencies (cyclic ones included) and however
  the subtasks end, provided only that \<open>asyncio.wait\<close> reports at least one finished subtask each time or is interrupted.
\<close>

theorem orchestration_terminates:
  assumes "0 \<le> oc_max_concurrency cfg" and "length ts \<le> length ticks"
    and "ticks_ok fmt cfg (task_map_of ts) (min (oc_max_concurrency cfg) (int (length ts))) ticks (start_state u ts)"
  shows "\<exists>res. orchestrate fmt cfg u ts rid ticks = Inr (Some res) \<and> or_status res \<noteq> OrchRunning"
proof -
  let ?tm = "task_map_of ts" and ?c = "min (oc_max_concurrency cfg) (int (length ts))"
  have "card (fst ` set ?tm) \<le> length ts" unfolding task_map_keys(1) by (rule le_trans [OF card_image_le]) (simp_all add: card_length)
  then have len: "length ?tm \<le> length ts"
    using task_map_keys(2) [of ts] distinct_card [of "map fst ?tm"] by (simp add: dict_wf_def)
  have c: "int (length (ds_in_progress (start_state u ts))) \<le> ?c" using assms(1) by (simp add: start_state_def)
  note d = execute_dag_ok [OF start_inv assms(3) c]
  then obtain e where e: "execute_dag fmt cfg ?tm ?c ticks (start_state u ts) = Some e"
    using len assms(2) by (cases "execute_dag fmt cfg ?tm ?c ticks (start_state u ts)") (simp_all add: start_state_def)
  with d have "os_status (loop_state e) \<noteq> OrchRunning" by (cases e) (auto simp: orch_run_ok_def)
  with e assms(1) show ?thesis by (simp add: orchestrate_def Let_def)
qed

section \<open>Results of dependencies\<close>

lemma prev_results_empty: "sc_task_results sc = [] \<Longrightarrow> get_prev_results sc ids = []"
  by (simp add: get_prev_results_def prev_result_part_def List.map_filter_def)

lemma execute_single_no_results:
  assumes "sc_task_results sc = []"
  shows "execute_single_task fmt cfg sc t b = execute_single_task (\<lambda>tpl prev. fmt tpl []) cfg sc t b"
proof -
  have e: "task_input fmt sc t = task_input (\<lambda>tpl prev. fmt tpl []) sc t"
    by (simp add: task_input_def Let_def prev_results_empty [OF assms])
  show ?thesis unfolding execute_single_task_def e ..
qed

lemma find_ready_context: "os_shared_context (ds_state (snd (find_ready cfg tm is ready s))) = os_shared_context (ds_state s)"
  by (induction "is" arbitrary: ready s) simp_all

lemma start_ready_context: "os_shared_context (ds_state (start_ready c ready s)) = os_shared_context (ds_state s)"
  by (induction ready arbitrary: s) simp_all

lemma process_done_context:
  "process_done fmt cfg tm ds s = Going s' \<Longrightarrow> os_shared_context (ds_state s') = os_shared_context (ds_state s)"
proof (induction ds arbitrary: s)
  case (Cons d ds)
  obtain i b where d: "d = (i, b)" by fastforce
  show ?case using Cons.prems unfolding d
    by (auto simp: Let_def put_result_def dest!: Cons.IH split: option.splits task_end.splits if_splits)
qed simp

lemma process_done_no_results:
  assumes "sc_task_results (os_shared_context (ds_state s)) = []"
  shows "process_done fmt cfg tm ds s = process_done (\<lambda>tpl prev. fmt tpl []) cfg tm ds s"
  using assms
proof (induction ds arbitrary: s)
  case (Cons d ds)
  obtain i b where d: "d = (i, b)" by fastforce
  from Cons.prems have x: "execute_single_task fmt cfg (os_shared_context (ds_state s)) t b =
      execute_single_task (\<lambda>tpl prev. fmt tpl []) cfg (os_shared_context (ds_state s)) t b" for t
    by (rule execute_single_no_results)
  show ?case unfolding d process_done.simps x
    by (simp add: Cons.IH Cons.prems Let_def put_result_def split: option.split task_end.split)
qed simp

text \<open>
  Subtasks never see the results of their dependencies. The loop stores results in the state but not in
  the shared context that \<open>get_prev_results\<close> reads, so every input template is formatted with empty
  previous results: an orchestration goes the same way whatever \<open>format\<close> would do with them.
\<close>

theorem dependency_results_never_passed_on:
  "orchestrate fmt cfg u ts rid ticks = orchestrate (\<lambda>tpl prev. fmt tpl []) cfg u ts rid ticks"
proof -
  have pass: "dag_pass fmt cfg tm c t s = dag_pass (\<lambda>tpl prev. fmt tpl []) cfg tm c t s \<and>
      (\<forall>s'. dag_pass fmt cfg tm c t s = Going s' \<longrightarrow> sc_task_results (os_shared_context (ds_state s')) = [])"
    if e: "sc_task_results (os_shared_context (ds_state s)) = []" for tm c t s
  proof (cases "pass_guard cfg t s")
    case None
    obtain ready s1 where fr: "find_ready cfg tm (ti_order t) [] s = (ready, s1)" by fastforce
    then have "os_shared_context (ds_state s1) = os_shared_context (ds_state s)"
      using find_ready_context [of cfg tm "ti_order t" "[]" s] by simp
    then have "sc_task_results (os_shared_context (ds_state (start_ready c ready s1))) = []" using e by (simp add: start_ready_context)
    with process_done_no_results [OF this, of fmt cfg tm "ti_done t"]
    show ?thesis using None fr by (auto simp: dag_pass_def Let_def dest: process_done_context)
  qed (simp add: dag_pass_def)
  have loop: "execute_dag fmt cfg tm c tks s = execute_dag (\<lambda>tpl prev. fmt tpl []) cfg tm c tks s"
    if "sc_task_results (os_shared_context (ds_state s)) = []" for tm c tks s
    using that
  proof (induction tks arbitrary: s)
    case Nil
    then show ?case by (simp add: execute_dag.simps)
  next
    case (Cons t tks)
    have p: "dag_pass fmt cfg tm c t s = dag_pass (\<lambda>tpl prev. fmt tpl []) cfg tm c t s" using pass [OF Cons.prems] by blast
    show ?case
    proof (cases "dag_pass fmt cfg tm c t s")
      case (Going s')
      then have "sc_task_results (os_shared_context (ds_state s')) = []" using pass [OF Cons.prems] by blast
      from Cons.IH [OF this] Going p show ?thesis
        by (subst (1 2) execute_dag.simps) simp
    qed (use p in \<open>subst (1 2) execute_dag.simps, simp\<close>)+
  qed
  have "sc_task_results (os_shared_context (ds_state (start_state u ts))) = []" by (simp add: start_state_def)
  then show ?thesis unfolding orchestrate_def Let_def by (simp only: loop)
qed

text \<open>A plan of two subtasks, the second of which depends on the first, and the ticks of its run.\<close>

definition demo_plan :: "subtask list" where
  "demo_plan =
     [\<lparr>tk_id = ''a'', tk_description = ''find'', tk_agent_role = RESEARCH, tk_agent_id = None, tk_depends_on = [],
       tk_input_template = [], tk_priority = 0\<rparr>,
      \<lparr>tk_id = ''b'', tk_description = ''write'', tk_agent_role = WRITER, tk_agent_id = None, tk_depends_on = [''a''],
       tk_input_template = [], tk_priority = 0\<rparr>]"

definition demo_role_config :: "ma_role \<Rightarrow> agent_config" where
  "demo_role_config r = \<lparr>ac_role = r, ac_name = ''n'', ac_system_prompt = ''p'', ac_model = None, ac_max_steps = 3, ac_timeout = None,
     ac_token_budget = None\<rparr>"

definition demo_orch_config :: orch_config where
  "demo_orch_config = \<lparr>oc_max_concurrency = 3, oc_failure_policy = FailFast, oc_total_timeout = None, oc_total_timeout_text = [], oc_total_token_budget = Some 100,
     oc_agent_configs = [(RESEARCH, demo_role_config RESEARCH), (WRITER, demo_role_config WRITER)]\<rparr>"

definition demo_ticks :: "tick list" where
  "demo_ticks =
     [\<lparr>ti_cancelled = False, ti_interrupted = False, ti_elapsed = 0, ti_order = [''b'', ''a''], ti_done = [(''a'', ChatAnswered ''facts'' (Some 4) (Some 3))]\<rparr>,
      \<lparr>ti_cancelled = False, ti_interrupted = False, ti_elapsed = 1, ti_order = [''b''], ti_done = [(''b'', ChatAnswered ''text'' (Some 5) None)]\<rparr>]"

definition demo_format :: "string \<Rightarrow> string \<Rightarrow> format_end" where
  "demo_format tpl prev = Formatted (tpl @ prev)"

lemma demo_orch_ticks:
  "ticks_ok demo_format demo_orch_config (task_map_of demo_plan)
     (min (oc_max_concurrency demo_orch_config) (int (length demo_plan))) demo_ticks (start_state ''go'' demo_plan)"
  by code_simp

theorem orchestration_terminates_witness:
  "\<exists>res. orchestrate demo_format demo_orch_config ''go'' demo_plan ''r'' demo_ticks = Inr (Some res) \<and> or_status res \<noteq> OrchRunning"
  by (rule orchestration_terminates [OF _ _ demo_orch_ticks]) (simp_all add: demo_orch_config_def demo_plan_def demo_ticks_def)

lemma demo_orch:
  "map_sum id (map_option (\<lambda>res. (or_status res, or_final_output res, or_total_token_usage res)))
     (orchestrate demo_format demo_orch_config ''go'' demo_plan ''r'' demo_ticks) = Inr (Some (OrchCompleted, ''text'', 12))"
  by code_simp

theorem orchestration_respects_plan_witness:
  "\<exists>res. orchestrate demo_format demo_orch_config ''go'' demo_plan ''r'' demo_ticks = Inr (Some res) \<and> or_status res = OrchCompleted \<and>
     (\<forall>t \<in> set demo_plan. \<exists>r \<in> set (or_subtask_results res). sr_task_id r = tk_id t \<and> sr_status r = TaskCompleted)"
proof -
  from demo_orch obtain res where res: "orchestrate demo_format demo_orch_config ''go'' demo_plan ''r'' demo_ticks = Inr (Some res)"
    "or_status res = OrchCompleted"
    by (cases "orchestrate demo_format demo_orch_config ''go'' demo_plan ''r'' demo_ticks") auto
  have "oc_failure_policy demo_orch_config \<noteq> Skip" by (simp add: demo_orch_config_def)
  with orchestration_respects_plan [OF res(1) demo_orch_ticks] res show ?thesis by blast
qed

end
