(* ===== verification/MultiAgentPlan.thy ===== *)
theory MultiAgentPlan
  imports MultiAgentRuns ToolSchema
begin

text \<open>
  Plans drawn on the canvas: \<open>from_dag\<close> and \<open>_validate_acyclic\<close> of \<open>app/multi_agent/decision_factory.py\<close>,
  which turn a JSON graph into the subtasks of an orchestration, and what an orchestration of such a plan
  guarantees.

  The nodes' ids are keys of a Python dictionary: \<open>hash_key\<close> gives equal keys (1, 1.0 and True) one
  representative and refuses what Python cannot hash. The order in which a set of dependencies is
  visited is a parameter. \<open>visit\<close> has a bound on its recursion; \<open>validate_acyclic\<close> starts it with one
  more than the number of nodes, which is never used up.
\<close>

section \<open>Depth-first search for a cycle\<close>

datatype 'k dfs_end = Visited "'k set" "'k set" | CycleFound | OutOfFuel

fun visit_each :: "('k \<Rightarrow> 'k set \<Rightarrow> 'k set \<Rightarrow> 'k dfs_end) \<Rightarrow> 'k list \<Rightarrow> 'k set \<Rightarrow> 'k set \<Rightarrow> 'k dfs_end" where
  "visit_each f [] visited in_stack = Visited visited in_stack"
| "visit_each f (d # ds) visited in_stack =
     (case f d visited in_stack of Visited v s \<Rightarrow> visit_each f ds v s | e \<Rightarrow> e)"

fun visit :: "('k \<Rightarrow> 'k list) \<Rightarrow> nat \<Rightarrow> 'k \<Rightarrow> 'k set \<Rightarrow> 'k set \<Rightarrow> 'k dfs_end" where
  "visit deps 0 node visited in_stack = OutOfFuel"
| "visit deps (Suc n) node visited in_stack =
     (if node \<in> in_stack then CycleFound
      else if node \<in> visited then Visited visited in_stack
      else
        (case visit_each (visit deps n) (deps node) visited (insert node in_stack) of
           Visited v s \<Rightarrow> Visited (insert node v) (s - {node})
         | e \<Rightarrow> e))"

definition depends_get :: "('k list \<Rightarrow> 'k list) \<Rightarrow> ('k, 'k list) pydict \<Rightarrow> 'k \<Rightarrow> 'k list" where
  \<comment> \<open>\<open>depends_map.get(node, set())\<close>, in the order it is iterated\<close>
  "depends_get order m k = order (case dget m k of None \<Rightarrow> [] | Some ds \<Rightarrow> ds)"

definition validate_acyclic :: "('k list \<Rightarrow> 'k list) \<Rightarrow> ('k, 'k list) pydict \<Rightarrow> 'k dfs_end" where
  "validate_acyclic order m = visit_each (visit (depends_get order m) (Suc (length m))) (map fst m) {} {}"

text \<open>The reference: the graph of dependencies, from a node to what it depends on.\<close>

definition dep_rel :: "('k \<Rightarrow> 'k list) \<Rightarrow> ('k \<times> 'k) set" where
  "dep_rel deps = {(n, d). d \<in> set (deps n)}"

text \<open>What has been visited is closed under dependencies, off the stack and on no cycle.\<close>

definition dfs_inv :: "('k \<Rightarrow> 'k list) \<Rightarrow> 'k set \<Rightarrow> 'k set \<Rightarrow> bool" where
  "dfs_inv deps v s \<longleftrightarrow> (\<forall>x \<in> v. set (deps x) \<subseteq> v) \<and> v \<inter> s = {} \<and> (\<forall>x \<in> v. (x, x) \<notin> (dep_rel deps)\<^sup>+)"

definition visit_ok :: "('k \<Rightarrow> 'k list) \<Rightarrow> 'k set \<Rightarrow> 'k set \<Rightarrow> 'k set \<Rightarrow> 'k dfs_end \<Rightarrow> bool" where
  "visit_ok deps goal v s e =
     (case e of
        Visited v' s' \<Rightarrow> s' = s \<and> dfs_inv deps v' s \<and> v \<subseteq> v' \<and> goal \<subseteq> v'
      | CycleFound \<Rightarrow> \<exists>x. (x, x) \<in> (dep_rel deps)\<^sup>+
      | OutOfFuel \<Rightarrow> False)"

lemma visit_each_ok:
  assumes "\<forall>d \<in> set ds. \<forall>w. dfs_inv deps w s \<longrightarrow> visit_ok deps {d} w s (f d w s)" and "dfs_inv deps v s"
  shows "visit_ok deps (set ds) v s (visit_each f ds v s)"
  using assms
proof (induction ds arbitrary: v)
  case Nil
  then show ?case by (simp add: visit_ok_def)
next
  case (Cons d ds)
  from Cons.prems have d: "visit_ok deps {d} v s (f d v s)" by simp
  show ?case
  proof (cases "f d v s")
    case (Visited v' s')
    with d have "s' = s" "dfs_inv deps v' s" "v \<subseteq> v'" "d \<in> v'" by (simp_all add: visit_ok_def)
    moreover from this have "visit_ok deps (set ds) v' s (visit_each f ds v' s)" using Cons.IH [of v'] Cons.prems(1) by simp
    ultimately show ?thesis using Visited by (cases "visit_each f ds v' s") (auto simp: visit_ok_def)
  qed (use d in \<open>simp_all add: visit_ok_def\<close>)
qed

lemma closed_trancl:
  assumes "(x, y) \<in> (dep_rel deps)\<^sup>+" and "\<forall>z \<in> v. set (deps z) \<subseteq> v" and "x \<in> v"
  shows "y \<in> v"
  using assms by (induction rule: trancl_induct) (auto simp: dep_rel_def)

lemma dfs_inv_insert:
  assumes "dfs_inv deps v (insert x s)" and "set (deps x) \<subseteq> v" and "x \<notin> s"
  shows "dfs_inv deps (insert x v) s"
proof -
  have "(x, x) \<notin> (dep_rel deps)\<^sup>+"
  proof
    assume "(x, x) \<in> (dep_rel deps)\<^sup>+"
    then obtain d where d: "d \<in> set (deps x)" "d = x \<or> (d, x) \<in> (dep_rel deps)\<^sup>+"
      by (auto simp: dep_rel_def elim: converse_tranclE)
    with assms(1,2) closed_trancl [of d x deps v] have "x \<in> v" by (auto simp: dfs_inv_def)
    with assms(1) show False by (simp add: dfs_inv_def)
  qed
  with assms show ?thesis by (auto simp: dfs_inv_def)
qed

lemma visit_correct:
  assumes "finite keys" and "\<forall>k \<in> keys. set (deps k) \<subseteq> keys"
    and "node \<in> keys" and "s \<subseteq> keys" and "card (keys - s) < n"
    and "dfs_inv deps v s" and "\<forall>x \<in> s. (x, node) \<in> (dep_rel deps)\<^sup>+"
  shows "visit_ok deps {node} v s (visit deps n node v s)"
  using assms(3-)
proof (induction n arbitrary: node s v)
  case 0
  then show ?case by simp
next
  case (Suc n)
  consider "node \<in> s" | "node \<notin> s" "node \<in> v" | "node \<notin> s" "node \<notin> v" by blast
  then show ?case
  proof cases
    case 1
    with Suc.prems(5) show ?thesis by (auto simp: visit_ok_def)
  next
    case 2
    with Suc.prems(4) show ?thesis by (simp add: visit_ok_def)
  next
    case 3
    have fuel: "card (keys - insert node s) < n"
    proof -
      have "keys - insert node s \<subset> keys - s" using Suc.prems(1) 3(1) by auto
      from psubset_card_mono [OF _ this] assms(1) Suc.prems(3) show ?thesis by simp
    qed
    have inv: "dfs_inv deps v (insert node s)" using Suc.prems(4) 3 by (auto simp: dfs_inv_def)
    have "\<forall>d \<in> set (deps node). \<forall>w. dfs_inv deps w (insert node s) \<longrightarrow>
        visit_ok deps {d} w (insert node s) (visit deps n d w (insert node s))"
    proof (intro ballI allI impI)
      fix d w assume d: "d \<in> set (deps node)" and w: "dfs_inv deps w (insert node s)"
      have "(node, d) \<in> dep_rel deps" using d by (simp add: dep_rel_def)
      then have "\<forall>x \<in> insert node s. (x, d) \<in> (dep_rel deps)\<^sup>+" using Suc.prems(5) by (auto intro: trancl_into_trancl)
      moreover have "d \<in> keys" "insert node s \<subseteq> keys" using d assms(2) Suc.prems(1,2) by auto
      ultimately show "visit_ok deps {d} w (insert node s) (visit deps n d w (insert node s))"
        using Suc.IH fuel w by blast
    qed
    from visit_each_ok [where f = "visit deps n" and s = "insert node s", OF this inv] dfs_inv_insert [of deps _ node s] 3
    show ?thesis by (cases "visit_each (visit deps n) (deps node) v (insert node s)") (auto simp: visit_ok_def)
  qed
qed

lemma validate_acyclic_correct:
  assumes "\<forall>xs. set (order xs) = set xs" and "dict_wf m" and "\<forall>(k, ds) \<in> set m. set ds \<subseteq> fst ` set m"
  shows "validate_acyclic order m \<noteq> OutOfFuel"
    and "validate_acyclic order m = CycleFound \<longleftrightarrow> \<not> acyclic (dep_rel (depends_get order m))"
proof -
  let ?deps = "depends_get order m" and ?keys = "fst ` set m"
  have closed: "\<forall>k \<in> ?keys. set (?deps k) \<subseteq> ?keys"
  proof
    fix k assume "k \<in> ?keys"
    then obtain ds where "dget m k = Some ds" by (metis domD dom_map_of_conv_image_fst)
    with assms(1,3) map_of_SomeD [OF this] show "set (?deps k) \<subseteq> ?keys" by (auto simp: depends_get_def)
  qed
  have "card ?keys < Suc (length m)" using card_length [of "map fst m"] by simp
  then have "\<forall>k \<in> set (map fst m). \<forall>w. dfs_inv ?deps w {} \<longrightarrow> visit_ok ?deps {k} w {} (visit ?deps (Suc (length m)) k w {})"
    using visit_correct [OF _ closed, of _ "{}"] by (simp del: visit.simps)
  from visit_each_ok [where f = "visit ?deps (Suc (length m))" and s = "{}", OF this, of "{}"]
  have ok: "visit_ok ?deps ?keys {} {} (validate_acyclic order m)"
    by (simp add: validate_acyclic_def dfs_inv_def)
  then show "validate_acyclic order m \<noteq> OutOfFuel" by (auto simp: visit_ok_def)
  have key: "x \<in> ?keys" if "(x, x) \<in> (dep_rel ?deps)\<^sup>+" for x
  proof -
    from that obtain d where "(x, d) \<in> dep_rel ?deps" by (auto elim: converse_tranclE)
    then have "dget m x \<noteq> None" using assms(1) by (cases "dget m x") (auto simp: dep_rel_def depends_get_def)
    then show ?thesis by (simp add: map_of_eq_None_iff)
  qed
  show "validate_acyclic order m = CycleFound \<longleftrightarrow> \<not> acyclic (dep_rel ?deps)"
  proof
    assume "validate_acyclic order m = CycleFound"
    with ok show "\<not> acyclic (dep_rel ?deps)" by (auto simp: visit_ok_def acyclic_def)
  next
    assume "\<not> acyclic (dep_rel ?deps)"
    then obtain x where "(x, x) \<in> (dep_rel ?deps)\<^sup>+" by (auto simp: acyclic_def)
    moreover from this have "x \<in> ?keys" by (rule key)
    ultimately show "validate_acyclic order m = CycleFound" using ok
      by (cases "validate_acyclic order m") (auto simp: visit_ok_def dfs_inv_def)
  qed
qed

section \<open>From a canvas to a plan\<close>

datatype dag_exn = DecisionFactoryError string | DagTypeError | DagKeyError | DagAttributeError

definition integral_value :: "number \<Rightarrow> int option" where
  "integral_value x =
     (case x of
        Num m e \<Rightarrow> if 0 \<le> e then Some (m * 10 ^ nat e) else if m mod 10 ^ nat (- e) = 0 then Some (m div 10 ^ nat (- e)) else None
      | _ \<Rightarrow> None)"

fun hash_key :: "pyval \<Rightarrow> dag_exn + pyval" where
  "hash_key (PList _) = Inl DagTypeError"
| "hash_key (PDict _) = Inl DagTypeError"
| "hash_key (PBool b) = Inr (PInt (if b then 1 else 0))"
| "hash_key (PFloat r) = Inr (case integral_value (float_number r) of Some i \<Rightarrow> PInt i | None \<Rightarrow> PFloat r)"
| "hash_key v = Inr v"

type_synonym depends_map = "(pyval, pyval list) pydict"

fun node_key :: "pyval \<Rightarrow> dag_exn + pyval" where
  \<comment> \<open>\<open>node["id"]\<close> as a dictionary key\<close>
  "node_key (PDict d) = (case dget d ''id'' of None \<Rightarrow> Inl DagKeyError | Some v \<Rightarrow> hash_key v)"
| "node_key _ = Inl DagTypeError"

definition add_edge :: "pyval \<Rightarrow> depends_map \<Rightarrow> dag_exn + depends_map" where
  "add_edge edge m =
     (case edge of
        PDict d \<Rightarrow>
          (let source = py_get d ''source''; target = py_get d ''target'';
               unknown = Inl (DecisionFactoryError (''Edge references unknown node: '' @ py_str source @ '' -> '' @ py_str target))
           in case hash_key source of
                Inl e \<Rightarrow> Inl e
              | Inr ks \<Rightarrow>
                  if dget m ks = None then unknown
                  else
                    (case hash_key target of
                       Inl e \<Rightarrow> Inl e
                     | Inr kt \<Rightarrow> (case dget m kt of None \<Rightarrow> unknown | Some ds \<Rightarrow> Inr (dset kt (List.insert ks ds) m))))
      | _ \<Rightarrow> Inl DagAttributeError)"

fun add_edges :: "pyval list \<Rightarrow> depends_map \<Rightarrow> dag_exn + depends_map" where
  "add_edges [] m = Inr m"
| "add_edges (e # es) m = (case add_edge e m of Inl x \<Rightarrow> Inl x | Inr m' \<Rightarrow> add_edges es m')"

fun as_text :: "pyval \<Rightarrow> string option" where
  "as_text (PStr s) = Some s"
| "as_text _ = None"

fun parse_role :: "pyval \<Rightarrow> ma_role" where
  "parse_role (PStr s) =
     (if s = ''research'' then RESEARCH else if s = ''writer'' then WRITER else if s = ''reviewer'' then REVIEWER else CUSTOM)"
| "parse_role _ = CUSTOM"

text \<open>
  \<open>tuple(sorted(dependencies))\<close>: texts sort by code points, numbers by value, and keys of different kinds do
  not compare. A key that is no text is the id of a node at which the loop over the nodes raises; the
  tuple is then not used, and its non-text elements are left out.
\<close>

definition sorted_names :: "pyval list \<Rightarrow> dag_exn + string list" where
  "sorted_names ks =
     (if list_all (\<lambda>k. as_text k \<noteq> None) ks \<or> list_all (\<lambda>k. py_number k \<noteq> None) ks \<or> length ks \<le> 1
      then Inr (sort (List.map_filter as_text ks)) else Inl DagTypeError)"

definition quoted :: "string \<Rightarrow> string" where "quoted s = [CHR 0x27] @ s @ [CHR 0x27]"

definition missing_id :: dag_exn where
  "missing_id = DecisionFactoryError (''Each node must have a non-empty '' @ quoted ''id'')"

definition subtask_of_node :: "depends_map \<Rightarrow> pyval \<Rightarrow> dag_exn + subtask" where
  "subtask_of_node m node =
     (let d = as_dict node
      in case py_get d ''id'' of
           PStr node_id \<Rightarrow>
             if node_id = [] then Inl missing_id
             else
               (let cfg = py_get d ''config''
                in if py_truthy cfg \<and> \<not> is_mapping cfg
                   then Inl (DecisionFactoryError (''Node '' @ node_id @ '' '' @ quoted ''config'' @ '' must be an object''))
                   else
                     (case sorted_names (case dget m (PStr node_id) of None \<Rightarrow> [] | Some ds \<Rightarrow> ds) of
                        Inl e \<Rightarrow> Inl e
                      | Inr ds \<Rightarrow>
                          Inr \<lparr>tk_id = node_id, tk_description = py_str (py_get_or d ''description'' (PStr [])),
                               tk_agent_role = parse_role (py_get_or d ''role'' (PStr ''custom'')), tk_agent_id = None,
                               tk_depends_on = ds, tk_input_template = [], tk_priority = 0\<rparr>))
         | _ \<Rightarrow> Inl missing_id)"

definition max_canvas_nodes :: nat where "max_canvas_nodes = 20"

definition empty_nodes :: dag_exn where
  "empty_nodes = DecisionFactoryError (''DAG must contain a non-empty '' @ quoted ''nodes'' @ '' list'')"

text \<open>The subtasks of the decision; its reasoning is the fixed text \<open>Canvas configuration\<close>.\<close>

definition from_dag :: "(pyval list \<Rightarrow> pyval list) \<Rightarrow> pyval \<Rightarrow> dag_exn + subtask list" where
  "from_dag order dag_json =
     (case dag_json of
        PDict d \<Rightarrow>
          (case py_get d ''nodes'' of
             PList raw_nodes \<Rightarrow>
               if raw_nodes = [] then Inl empty_nodes
               else if max_canvas_nodes < length raw_nodes then Inl (DecisionFactoryError ''DAG exceeds maximum of 20 nodes'')
               else
                 (case py_get d ''edges'' of
                    PList raw_edges \<Rightarrow>
                      (case mapM node_key raw_nodes of
                         Inl e \<Rightarrow> Inl e
                       | Inr ks \<Rightarrow>
                           (case add_edges raw_edges (fold (\<lambda>k m. dset k [] m) ks []) of
                              Inl e \<Rightarrow> Inl e
                            | Inr m \<Rightarrow>
                                (case validate_acyclic order m of
                                   Visited _ _ \<Rightarrow> mapM (subtask_of_node m) raw_nodes
                                 | _ \<Rightarrow> Inl (DecisionFactoryError ''DAG contains a cycle''))))
                  | _ \<Rightarrow> Inl (DecisionFactoryError (quoted ''edges'' @ '' must be a list'')))
           | _ \<Rightarrow> Inl empty_nodes)
      | _ \<Rightarrow> Inl (DecisionFactoryError ''DAG must be a JSON object''))"

section \<open>Accepted plans\<close>

definition plan_rel :: "subtask list \<Rightarrow> (string \<times> string) set" where
  "plan_rel ts = {(tk_id t, d) | t d. t \<in> set ts \<and> d \<in> set (tk_depends_on t)}"

lemma mapM_Inr: "mapM f xs = Inr ys \<Longrightarrow> length ys = length xs \<and> (\<forall>(x, y) \<in> set (zip xs ys). f x = Inr y)"
proof (induction xs arbitrary: ys)
  case (Cons x xs)
  then show ?case by (auto split: sum.splits)
qed simp

lemma mapM_mem: "mapM f xs = Inr ys \<Longrightarrow> y \<in> set ys \<Longrightarrow> \<exists>x \<in> set xs. f x = Inr y"
  by (induction xs arbitrary: ys) (auto split: sum.splits)

lemma mapM_mem': "mapM f xs = Inr ys \<Longrightarrow> x \<in> set xs \<Longrightarrow> \<exists>y \<in> set ys. f x = Inr y"
  by (induction xs arbitrary: ys) (auto split: sum.splits)

lemma dom_dset: "dom (dget (dset k v m)) = insert k (dom (dget m))"
  by (simp only: update_conv' dom_fun_upd) simp

text \<open>The dependency map: its keys are those of the nodes, and its entries are keys.\<close>

definition depends_ok :: "pyval set \<Rightarrow> depends_map \<Rightarrow> bool" where
  "depends_ok ks m \<longleftrightarrow> dict_wf m \<and> dom (dget m) = ks \<and> (\<forall>k ds. dget m k = Some ds \<longrightarrow> set ds \<subseteq> ks)"

lemma depends_ok_add:
  assumes "depends_ok ks m" and "dget m kt = Some ds" and "dget m k = Some ds'"
  shows "depends_ok ks (dset kt (List.insert k ds) m)"
proof -
  have "k \<in> ks" "set ds \<subseteq> ks" using assms by (auto simp: depends_ok_def)
  with assms(1,2) show ?thesis by (auto simp: depends_ok_def update_conv' split: if_splits)
qed

lemma add_edge_ok: "add_edge e m = Inr m' \<Longrightarrow> depends_ok ks m \<Longrightarrow> depends_ok ks m'"
  by (auto simp: add_edge_def Let_def intro: depends_ok_add split: pyval.splits sum.splits option.splits if_splits)

lemma add_edges_ok: "add_edges es m = Inr m' \<Longrightarrow> depends_ok ks m \<Longrightarrow> depends_ok ks m'"
  by (induction es arbitrary: m) (auto split: sum.splits dest: add_edge_ok)

lemma empty_depends_ok: "depends_ok (set ks) (fold (\<lambda>k m. dset k [] m) ks [])"
proof -
  have "\<forall>m :: depends_map. dict_wf m \<longrightarrow> (\<forall>k ds. dget m k = Some ds \<longrightarrow> ds = []) \<longrightarrow>
      dict_wf (fold (\<lambda>k m. dset k [] m) ks m) \<and> dom (dget (fold (\<lambda>k m. dset k [] m) ks m)) = set ks \<union> dom (dget m) \<and>
      (\<forall>k ds. dget (fold (\<lambda>k m. dset k [] m) ks m) k = Some ds \<longrightarrow> ds = [])"
  proof (induction ks)
    case (Cons k ks)
    show ?case
    proof (intro allI impI)
      fix m :: depends_map assume m: "dict_wf m" "\<forall>k ds. dget m k = Some ds \<longrightarrow> ds = []"
      then have "\<forall>k' ds. dget (dset k [] m) k' = Some ds \<longrightarrow> ds = []" by simp
      with Cons.IH [THEN spec, of "dset k [] m"] m
      show "dict_wf (fold (\<lambda>k m. dset k [] m) (k # ks) m) \<and> dom (dget (fold (\<lambda>k m. dset k [] m) (k # ks) m)) = set (k # ks) \<union> dom (dget m) \<and>
        (\<forall>k' ds. dget (fold (\<lambda>k m. dset k [] m) (k # ks) m) k' = Some ds \<longrightarrow> ds = [])"
        by (simp only: fold_simps dom_dset) simp
    qed
  qed simp
  from this [rule_format, of "[]"] have e: "dict_wf (fold (\<lambda>k m. dset k [] m) ks ([] :: depends_map))"
    "dom (dget (fold (\<lambda>k m. dset k [] m) ks ([] :: depends_map))) = set ks"
    "\<forall>k ds. dget (fold (\<lambda>k m. dset k [] m) ks ([] :: depends_map)) k = Some ds \<longrightarrow> ds = []" by simp_all
  show ?thesis unfolding depends_ok_def using e(1,2) by (auto dest: e(3) [rule_format])
qed

lemma map_filter_set: "set (List.map_filter f xs) = {y. \<exists>x \<in> set xs. f x = Some y}"
  by (induction xs) (auto simp: List.map_filter_simps split: option.splits)

lemma as_text_iff: "as_text k = Some n \<longleftrightarrow> k = PStr n"
  by (cases k) auto

lemma sorted_names_texts:
  assumes "sorted_names ks = Inr ns"
  shows "set ns = {n. PStr n \<in> set ks}"
proof -
  have "ns = sort (List.map_filter as_text ks)" using assms by (simp add: sorted_names_def split: if_splits)
  then show ?thesis by (simp add: map_filter_set as_text_iff)
qed

lemma subtask_of_node_ok:
  assumes "subtask_of_node m node = Inr t" and "node_key node = Inr k"
  shows "k = PStr (tk_id t)" and "set (tk_depends_on t) = {n. PStr n \<in> set (case dget m (PStr (tk_id t)) of None \<Rightarrow> [] | Some ds \<Rightarrow> ds)}"
proof -
  from assms(2) obtain d v where node: "node = PDict d" "dget d ''id'' = Some v" "hash_key v = Inr k"
    by (cases node) (auto split: option.splits)
  from assms(1) obtain i where v: "v = PStr i"
    by (cases v) (simp_all add: subtask_of_node_def py_get_def node(1,2))
  with node(3) have k: "k = PStr i" by simp
  from assms(1) obtain ds where ds: "tk_id t = i"
    "sorted_names (case dget m (PStr i) of None \<Rightarrow> [] | Some ds \<Rightarrow> ds) = Inr ds" "tk_depends_on t = ds"
    by (simp add: subtask_of_node_def Let_def py_get_def node(1,2) v split: if_splits sum.splits) auto
  show "k = PStr (tk_id t)" using k ds(1) by simp
  show "set (tk_depends_on t) = {n. PStr n \<in> set (case dget m (PStr (tk_id t)) of None \<Rightarrow> [] | Some ds \<Rightarrow> ds)}"
    using sorted_names_texts [OF ds(2)] ds(1,3) by simp
qed

lemma from_dag_cases:
  assumes "from_dag order v = Inr ts"
  obtains d nodes edges ks m where "v = PDict d" and "py_get d ''nodes'' = PList nodes" and "py_get d ''edges'' = PList edges"
    and "nodes \<noteq> []" and "length nodes \<le> max_canvas_nodes" and "mapM node_key nodes = Inr ks"
    and "add_edges edges (fold (\<lambda>k m. dset k [] m) ks []) = Inr m" and "\<exists>a b. validate_acyclic order m = Visited a b"
    and "mapM (subtask_of_node m) nodes = Inr ts"
  using assms by (auto simp: from_dag_def split: pyval.splits if_splits sum.splits dfs_end.splits)

lemma trancl_inv_image: "(x, y) \<in> (inv_image r f)\<^sup>+ \<Longrightarrow> (f x, f y) \<in> r\<^sup>+"
  by (induction rule: trancl_induct) (auto intro: trancl_into_trancl)

lemma from_dag_plan:
  assumes order: "\<forall>xs. set (order xs) = set xs" and "from_dag order v = Inr ts"
  shows "ts \<noteq> [] \<and> length ts \<le> max_canvas_nodes \<and> (\<forall>t \<in> set ts. set (tk_depends_on t) \<subseteq> tk_id ` set ts) \<and> acyclic (plan_rel ts)"
proof -
  from assms(2) obtain d nodes edges ks m where n: "nodes \<noteq> []" "length nodes \<le> max_canvas_nodes"
    and ks: "mapM node_key nodes = Inr ks" and m: "add_edges edges (fold (\<lambda>k m. dset k [] m) ks []) = Inr m"
    and ac: "\<exists>a b. validate_acyclic order m = Visited a b" and ts: "mapM (subtask_of_node m) nodes = Inr ts"
    by (rule from_dag_cases)
  have ok: "depends_ok (set ks) m" by (rule add_edges_ok [OF m empty_depends_ok])
  have len: "length ts = length nodes" using mapM_Inr [OF ts] by simp
  have key: "\<exists>t \<in> set ts. k = PStr (tk_id t)" if k: "k \<in> set ks" for k
  proof -
    obtain x where x: "x \<in> set nodes" "node_key x = Inr k" using mapM_mem [OF ks k] by blast
    obtain t where "t \<in> set ts" "subtask_of_node m x = Inr t" using mapM_mem' [OF ts x(1)] by blast
    with subtask_of_node_ok(1) [OF _ x(2)] show ?thesis by blast
  qed
  have dep: "PStr y \<in> set (depends_get order m (PStr (tk_id t)))" if "t \<in> set ts" "y \<in> set (tk_depends_on t)" for t y
  proof -
    obtain x where x: "x \<in> set nodes" "subtask_of_node m x = Inr t" using mapM_mem [OF ts \<open>t \<in> set ts\<close>] by blast
    obtain k where "node_key x = Inr k" using mapM_mem' [OF ks x(1)] by blast
    from subtask_of_node_ok(2) [OF x(2) this] that(2) order show ?thesis by (simp add: depends_get_def)
  qed
  have "set (tk_depends_on t) \<subseteq> tk_id ` set ts" if t: "t \<in> set ts" for t
  proof
    fix y assume "y \<in> set (tk_depends_on t)"
    from dep [OF t this] order obtain ds where "dget m (PStr (tk_id t)) = Some ds" "PStr y \<in> set ds"
      by (cases "dget m (PStr (tk_id t))") (auto simp: depends_get_def)
    with ok have "PStr y \<in> set ks" by (auto simp: depends_ok_def)
    with key show "y \<in> tk_id ` set ts" by blast
  qed
  moreover have "acyclic (plan_rel ts)"
  proof -
    have "\<forall>(k, ds) \<in> set m. set ds \<subseteq> fst ` set m"
    proof clarify
      fix k ds x assume "(k, ds) \<in> set m" "x \<in> set ds"
      moreover from this ok have "dget m k = Some ds" by (simp add: depends_ok_def dget_iff_mem)
      ultimately have "x \<in> dom (dget m)" using ok unfolding depends_ok_def by blast
      then show "x \<in> fst ` set m" by (simp add: dom_map_of_conv_image_fst)
    qed
    with validate_acyclic_correct(2) [OF order, of m] ok ac have "acyclic (dep_rel (depends_get order m))"
      by (auto simp: depends_ok_def)
    moreover have "plan_rel ts \<subseteq> inv_image (dep_rel (depends_get order m)) PStr"
      using dep by (auto simp: plan_rel_def dep_rel_def)
    ultimately show ?thesis unfolding acyclic_def by (meson trancl_mono trancl_inv_image)
  qed
  ultimately show ?thesis using n len by auto
qed

section \<open>Orchestrating an accepted plan\<close>

lemma find_ready_complete:
  assumes "dag_inv tm s" and "find_ready cfg tm is ready s = (ready', s')"
    and "i \<in> set ready \<or> i \<in> set is \<and> i \<in> set (ds_pending s) \<and> set (deps_of tm i) \<subseteq> set (ds_completed s)"
  shows "i \<in> set ready'"
  using assms(2,3)
proof (induction "is" arbitrary: ready)
  case (Cons j "is")
  have "set (deps_of tm j) \<inter> set (ds_failed s) = {}" if "set (deps_of tm j) \<subseteq> set (ds_completed s)"
    using that assms(1) by (auto simp: dag_inv_def)
  with Cons.prems Cons.IH [of "if j \<in> set (ds_pending s) \<and> set (deps_of tm j) \<subseteq> set (ds_completed s) then ready @ [j] else ready"]
  show ?case by (auto split: if_splits)
qed simp

lemma start_ready_grows: "length (ds_in_progress s) \<le> length (ds_in_progress (start_ready c ready s))"
proof (induction ready arbitrary: s)
  case (Cons i "is")
  from Cons.IH [of "s\<lparr>ds_pending := removeAll i (ds_pending s), ds_in_progress := ds_in_progress s @ [i]\<rparr>"] show ?case by simp
qed simp

lemma start_ready_starts: "0 < c \<Longrightarrow> ready \<noteq> [] \<Longrightarrow> ds_in_progress (start_ready c ready s) \<noteq> []"
proof (cases ready)
  case (Cons i "is")
  assume "0 < c"
  then show ?thesis
    using Cons start_ready_grows [of "s\<lparr>ds_pending := removeAll i (ds_pending s), ds_in_progress := ds_in_progress s @ [i]\<rparr>" c "is"]
    by auto
qed simp

definition deadlocked :: "orch_state \<Rightarrow> bool" where
  "deadlocked s \<longleftrightarrow> os_error_code s = Some ''dependency_deadlock''"

text \<open>In a deadlock every pending subtask has a dependency that has not completed.\<close>

definition stuck :: "task_map \<Rightarrow> orch_state \<Rightarrow> bool" where
  "stuck tm s \<longleftrightarrow> (\<exists>s0. dag_inv tm s0 \<and> ds_pending s0 \<noteq> [] \<and> ds_in_progress s0 = [] \<and> os_results (ds_state s0) = os_results s \<and>
     (\<forall>i \<in> set (ds_pending s0). \<not> set (deps_of tm i) \<subseteq> set (ds_completed s0)))"

definition calm :: "loop_end \<Rightarrow> bool" where
  "calm e = (case e of Going s \<Rightarrow> os_error_code (ds_state s) = None | e \<Rightarrow> \<not> deadlocked (loop_state e))"

lemma calm_simps [simp]:
  "calm (Going s) = (os_error_code (ds_state s) = None)"
  "calm (Stopped s) = (os_error_code (ds_state s) \<noteq> Some ''dependency_deadlock'')"
  "calm (Raised e s)"
  by (simp_all add: calm_def deadlocked_def)

lemma process_done_calm: "os_error_code (ds_state s) = None \<Longrightarrow> calm (process_done fmt cfg tm ds s)"
proof (induction ds arbitrary: s)
  case (Cons d ds)
  obtain i b where d: "d = (i, b)" by fastforce
  show ?case using Cons.prems unfolding d
    by (auto simp: Let_def put_result_def set_end_def intro!: Cons.IH split: option.splits task_end.splits)
qed simp

lemma dag_pass_deadlock:
  assumes inv: "dag_inv tm s" and t: "tick_ok cfg tm c t s" and c: "0 < c" and e: "os_error_code (ds_state s) = None"
  shows "calm (dag_pass fmt cfg tm c t s) \<or> (\<exists>s'. dag_pass fmt cfg tm c t s = Stopped s' \<and> stuck tm (ds_state s'))"
proof (cases "pass_guard cfg t s")
  case (Some s')
  then show ?thesis using e
    by (auto simp: dag_pass_def calm_def deadlocked_def pass_guard_def set_end_def split: if_splits)
next
  case None
  obtain ready s1 where fr: "find_ready cfg tm (ti_order t) [] s = (ready, s1)" by fastforce
  have r: "s1 = s" "set ready \<subseteq> {i \<in> set (ds_pending s). set (deps_of tm i) \<subseteq> set (ds_completed s)}" "distinct ready"
    using find_ready_ok [OF inv _ fr] t by (auto simp: tick_ok_def)
  define s2 where "s2 = start_ready c ready s"
  have s2: "dag_inv tm s2" "ds_state s2 = ds_state s" using start_ready_ok [OF inv r(3,2), of c] by (simp_all add: s2_def)
  have pass: "dag_pass fmt cfg tm c t s =
      (if ds_in_progress s2 \<noteq> [] then
         (if ti_interrupted t then Raised EscapedCancelled s2 else process_done fmt cfg tm (ti_done t) s2)
       else if ds_pending s2 \<noteq> [] then
         Stopped (set_end OrchFailed ''Deadlock: pending tasks with unsatisfied dependencies'' ''dependency_deadlock'' s2)
       else Stopped (conclude cfg s2))"
    using None fr r(1) by (simp add: dag_pass_def s2_def [symmetric] Let_def)
  show ?thesis
  proof (cases "ds_in_progress s2 = [] \<and> ds_pending s2 \<noteq> []")
    case True
    then have "ready = []" using start_ready_starts [OF c] by (auto simp: s2_def)
    then have "s2 = s" and "\<forall>i \<in> set (ds_pending s). \<not> set (deps_of tm i) \<subseteq> set (ds_completed s)"
      using find_ready_complete [OF inv fr] t by (auto simp: s2_def tick_ok_def)
    with True inv show ?thesis unfolding pass by (auto simp: stuck_def set_end_def intro!: exI [of _ s])
  next
    case False
    with process_done_calm [of s2 fmt cfg tm "ti_done t"] e s2(2) show ?thesis
      unfolding pass by (auto simp: calm_def deadlocked_def conclude_def)
  qed
qed

lemma execute_dag_deadlock:
  assumes "dag_inv tm s" and "ticks_ok fmt cfg tm c ticks s" and "int (length (ds_in_progress s)) \<le> c" and "0 < c"
    and "os_error_code (ds_state s) = None" and "execute_dag fmt cfg tm c ticks s = Some e" and "deadlocked (loop_state e)"
  shows "stuck tm (loop_state e)"
  using assms
proof (induction ticks arbitrary: s)
  have fin: "\<not> deadlocked (loop_state (Stopped (conclude cfg s)))" if "os_error_code (ds_state s) = None" for s
    using that by (simp add: deadlocked_def conclude_def)
  {
    case Nil
    then show ?case using fin by (subst (asm) execute_dag.simps) (auto split: if_splits)
  next
    case (Cons t ts)
    show ?case
    proof (cases "ds_pending s = [] \<and> ds_in_progress s = []")
      case True
      then show ?thesis using fin Cons.prems by (subst (asm) execute_dag.simps) auto
    next
      case False
      note d = dag_pass_deadlock [OF Cons.prems(1) _ Cons.prems(4,5), of cfg t fmt]
      have p: "passed cfg tm c s (dag_pass fmt cfg tm c t s)"
        using dag_pass_ok [OF Cons.prems(1) _ Cons.prems(3)] Cons.prems(2) False by auto
      show ?thesis
      proof (cases "dag_pass fmt cfg tm c t s")
        case (Going s')
        with p have s': "dag_inv tm s'" "int (length (ds_in_progress s')) \<le> c" by (simp_all add: passed_def)
        have code: "os_error_code (ds_state s') = None" using d Cons.prems(2) Going by simp
        have "ticks_ok fmt cfg tm c ts s'" using Cons.prems(2) Going by simp
        moreover have "execute_dag fmt cfg tm c ts s' = Some e"
          using Cons.prems(6) False Going by (subst (asm) execute_dag.simps) auto
        ultimately show ?thesis using Cons.IH [OF s'(1) _ s'(2) Cons.prems(4) code] Cons.prems(7) by blast
      next
        case (Stopped s')
        then have e: "e = Stopped s'" using Cons.prems(6) False by (subst (asm) execute_dag.simps) auto
        then have "\<not> calm (dag_pass fmt cfg tm c t s)" using Cons.prems(7) Stopped by (simp add: deadlocked_def)
        then show ?thesis using d Cons.prems(2) Stopped e by simp
      next
        case (Raised err s')
        then have "e = Raised err s'" using Cons.prems(6) False by (subst (asm) execute_dag.simps) auto
        with Cons.prems(7) show ?thesis by (simp add: deadlocked_def)
      qed
    qed
  }
qed

lemma stuck_failed:
  assumes "stuck tm s" and "wf ((plan_rel ts)\<inverse>)" and "\<forall>i. set (deps_of tm i) \<subseteq> plan_rel ts `` {i}" and "plan_rel ts `` UNIV \<subseteq> fst ` set tm"
  shows "\<exists>i j. j \<in> set (deps_of tm i) \<and> i \<in> fst ` set tm \<and> (\<exists>r. dget (os_results s) j = Some r \<and> sr_status r = TaskFailed)"
proof -
  from assms(1) obtain s0 where inv: "dag_inv tm s0" and p: "ds_pending s0 \<noteq> []" "ds_in_progress s0 = []"
    and res: "os_results (ds_state s0) = os_results s"
    and no: "\<forall>i \<in> set (ds_pending s0). \<not> set (deps_of tm i) \<subseteq> set (ds_completed s0)" by (auto simp: stuck_def)
  obtain i0 where "i0 \<in> set (ds_pending s0)" using p(1) by (cases "ds_pending s0") auto
  from wfE_min [OF assms(2) this] obtain i where i: "i \<in> set (ds_pending s0)"
    and min: "\<And>j. (j, i) \<in> (plan_rel ts)\<inverse> \<Longrightarrow> j \<notin> set (ds_pending s0)" by blast
  from no i obtain j where j: "j \<in> set (deps_of tm i)" "j \<notin> set (ds_completed s0)" by blast
  have rel: "(i, j) \<in> plan_rel ts" using assms(3) j(1) by blast
  have keys: "fst ` set tm = set (ds_pending s0) \<union> set (ds_completed s0) \<union> set (ds_failed s0)"
    using inv p(2) by (simp add: dag_inv_def)
  have "j \<in> set (ds_failed s0)" using min [of j] rel j(2) keys assms(4) by blast
  from dag_inv_results(2) [OF inv this] res j(1) i keys show ?thesis by auto
qed

lemma deps_of_plan: "set (deps_of (task_map_of ts) i) \<subseteq> plan_rel ts `` {i}"
proof -
  have "(k, t) \<in> set (fold (\<lambda>t m. dset (tk_id t) t m) ts m) \<Longrightarrow> (k, t) \<in> set m \<or> t \<in> set ts" for k t m
  proof (induction ts arbitrary: m)
    case (Cons u ts)
    have "(k, t) \<in> set (dset (tk_id u) u m) \<Longrightarrow> (k, t) \<in> set m \<or> t = u" by (induction m) (auto split: if_splits)
    with Cons.IH [of "dset (tk_id u) u m"] Cons.prems show ?case by auto
  qed simp
  from this [of _ _ "[]"] have "t \<in> set ts" if "(k, t) \<in> set (task_map_of ts)" for k t using that by (auto simp: task_map_of_def)
  note mem = this
  show ?thesis
  proof (cases "dget (task_map_of ts) i")
    case (Some t)
    then have "tk_id t = i" "t \<in> set ts" using task_map_ids [OF map_of_SomeD] mem [OF map_of_SomeD] by blast+
    with Some show ?thesis by (auto simp: deps_of_def plan_rel_def)
  qed (simp add: deps_of_def)
qed

section \<open>Properties of plans\<close>

text \<open>
  C25: the depth-first search decides whether a plan has a cycle. On every dependency map whose entries are
  nodes, in whatever order it visits a set of dependencies, \<open>_validate_acyclic\<close> ends, and it raises
  exactly when the dependency relation has a cycle.
\<close>

theorem cycle_search_correct:
  assumes "\<forall>xs. set (order xs) = set xs" and "dict_wf m" and "\<forall>(k, ds) \<in> set m. set ds \<subseteq> fst ` set m"
  shows "validate_acyclic order m \<noteq> OutOfFuel \<and>
    (validate_acyclic order m = CycleFound \<longleftrightarrow> \<not> acyclic {(n, d). d \<in> set (case dget m n of None \<Rightarrow> [] | Some ds \<Rightarrow> ds)})"
proof -
  have "dep_rel (depends_get order m) = {(n, d). d \<in> set (case dget m n of None \<Rightarrow> [] | Some ds \<Rightarrow> ds)}"
    using assms(1) by (simp add: dep_rel_def depends_get_def)
  with validate_acyclic_correct [OF assms] show ?thesis by simp
qed

text \<open>
  C26: a plan drawn on the canvas never deadlocks. A plan that \<open>from_dag\<close> accepts has between 1 and 20
  subtasks whose dependencies are subtasks of the plan, and its orchestration, with at least one task at a
  time, reports a deadlock only when a subtask on which another depends has failed.
\<close>

theorem canvas_plan_never_deadlocks:
  assumes "\<forall>xs. set (order xs) = set xs" and "from_dag order v = Inr ts" and "0 < oc_max_concurrency cfg"
    and "orchestrate fmt cfg u ts rid ticks = Inr (Some res)"
    and "ticks_ok fmt cfg (task_map_of ts) (min (oc_max_concurrency cfg) (int (length ts))) ticks (start_state u ts)"
  shows "0 < length ts \<and> length ts \<le> 20 \<and> (\<forall>t \<in> set ts. set (tk_depends_on t) \<subseteq> tk_id ` set ts) \<and>
    (or_error_code res = Some ''dependency_deadlock'' \<longrightarrow>
       (\<exists>t \<in> set ts. \<exists>r \<in> set (or_subtask_results res). sr_status r = TaskFailed \<and> sr_task_id r \<in> set (deps_of (task_map_of ts) (tk_id t))))"
proof -
  let ?tm = "task_map_of ts" and ?c = "min (oc_max_concurrency cfg) (int (length ts))"
  have plan: "ts \<noteq> []" "length ts \<le> max_canvas_nodes" "\<forall>t \<in> set ts. set (tk_depends_on t) \<subseteq> tk_id ` set ts" "acyclic (plan_rel ts)"
    using from_dag_plan [OF assms(1,2)] by auto
  have "plan_rel ts \<subseteq> tk_id ` set ts \<times> tk_id ` set ts" using plan(3) by (auto simp: plan_rel_def)
  then have "finite (plan_rel ts)" by (rule finite_subset) simp
  then have wf: "wf ((plan_rel ts)\<inverse>)" using plan(4) by (simp add: finite_acyclic_wf_converse)
  have range: "plan_rel ts `` UNIV \<subseteq> fst ` set ?tm" using plan(3) by (auto simp: plan_rel_def task_map_keys(1))
  from assms(4) obtain e where e: "execute_dag fmt cfg ?tm ?c ticks (start_state u ts) = Some e"
    and res: "or_subtask_results res = dvalues (os_results (loop_state e))" "or_error_code res = os_error_code (loop_state e)"
    by (auto simp: orchestrate_def Let_def split: if_splits)
  have c: "0 < ?c" using assms(3) plan(1) by simp
  have "\<exists>t \<in> set ts. \<exists>r \<in> set (or_subtask_results res). sr_status r = TaskFailed \<and> sr_task_id r \<in> set (deps_of ?tm (tk_id t))"
    if dl: "or_error_code res = Some ''dependency_deadlock''"
  proof -
    have "stuck ?tm (loop_state e)"
      using execute_dag_deadlock [OF start_inv assms(5) _ c _ e] dl res(2) c by (simp add: start_state_def deadlocked_def)
    from stuck_failed [OF this wf _ range] deps_of_plan
    obtain i j r where *: "j \<in> set (deps_of ?tm i)" "i \<in> fst ` set ?tm" "dget (os_results (loop_state e)) j = Some r" "sr_status r = TaskFailed"
      by blast
    have "orch_run_ok cfg ?tm e" using execute_dag_ok [OF start_inv assms(5), of] c e by (simp add: start_state_def)
    then obtain s where "dag_final ?tm s" "os_results (loop_state e) = os_results (ds_state s)" by (cases e) (auto simp: orch_run_ok_def)
    with dag_final_get(1) [of ?tm s j r] *(3) have "sr_task_id r = j" by simp
    with * res(1) dget_in_dvalues [OF *(3)] show ?thesis by (auto simp: task_map_keys(1))
  qed
  then show ?thesis using plan(1-3) by (auto simp: max_canvas_nodes_def)
qed

definition demo_canvas :: pyval where
  "demo_canvas = PDict
     [(''nodes'', PList [PDict [(''id'', PStr ''a''), (''role'', PStr ''research''), (''description'', PStr ''find'')],
                        PDict [(''id'', PStr ''b''), (''role'', PStr ''writer''), (''description'', PStr ''write'')]]),
      (''edges'', PList [PDict [(''source'', PStr ''a''), (''target'', PStr ''b'')]])]"

lemma demo_canvas_plan: "from_dag rev demo_canvas = Inr demo_plan"
  by code_simp

theorem cycle_search_correct_witness:
  "validate_acyclic rev [(1 :: nat, [2]), (2, [1, 3]), (3, [])] = CycleFound \<and>
   \<not> acyclic {(n :: nat, d). d \<in> set (case dget [(1, [2]), (2, [1, 3]), (3, [])] n of None \<Rightarrow> [] | Some ds \<Rightarrow> ds)}"
proof -
  have "validate_acyclic rev [(1 :: nat, [2]), (2, [1, 3]), (3, [])] = CycleFound" by code_simp
  with cycle_search_correct [of rev "[(1 :: nat, [2]), (2, [1, 3]), (3, [])]"] show ?thesis by (simp add: dict_wf_def)
qed

theorem canvas_plan_never_deadlocks_witness:
  "\<exists>res. orchestrate demo_format demo_orch_config ''go'' demo_plan ''r'' demo_ticks = Inr (Some res) \<and> length demo_plan \<le> 20 \<and>
     (or_error_code res = Some ''dependency_deadlock'' \<longrightarrow> (\<exists>r \<in> set (or_subtask_results res). sr_status r = TaskFailed))"
proof -
  from demo_orch obtain res where res: "orchestrate demo_format demo_orch_config ''go'' demo_plan ''r'' demo_ticks = Inr (Some res)"
    by (cases "orchestrate demo_format demo_orch_config ''go'' demo_plan ''r'' demo_ticks") auto
  have "0 < oc_max_concurrency demo_orch_config" by (simp add: demo_orch_config_def)
  from canvas_plan_never_deadlocks [OF _ demo_canvas_plan this res demo_orch_ticks] res show ?thesis by auto
qed

end
