(* ===== verification/RagStore.thy ===== *)
theory RagStore
  imports PyValue "HOL-Library.Char_ord" "HOL-Library.List_Lexorder"
begin

text \<open>
  The tenant-scoped document store: \<open>app/rag/vector_store.py\<close> (result types, owner and document ids) and
  \<open>PgVectorStore\<close> of \<open>app/rag/pg_vector_store.py\<close>, its statements over the rows of the two tables of
  \<open>app/db/rag_models.py\<close>.

  One call is one transaction: the advisory lock serializes writers, and an exception inside the block
  leaves the tables as they were. The vector distance, the full-text functions of the database and the
  tokenizer are parameters, as are fresh ids, the clock and whether the database can be reached. Rows that
  tie in an \<open>ORDER BY\<close> come in the order in which the database scans the table, again a parameter.
\<close>

section \<open>Identifiers\<close>

datatype rag_error = ValueError string | ConflictError string | StorageUnavailable string | ProviderError string
  | ProviderUnavailable string | ValidationError string | DocumentInvalid string | KnowledgeBaseEmpty | NoRelevantContext | OtherError string

definition is_hex :: "char \<Rightarrow> bool" where
  "is_hex c \<longleftrightarrow> (CHR ''0'' \<le> c \<and> c \<le> CHR ''9'') \<or> (CHR ''a'' \<le> c \<and> c \<le> CHR ''f'')"

definition validate_owner_key_hash :: "string option \<Rightarrow> rag_error + string" where
  "validate_owner_key_hash owner =
     (case owner of
        None \<Rightarrow> Inl (ValueError ''owner_key_hash must be a lowercase SHA-256 hex digest'')
      | Some h \<Rightarrow> if length h = 64 \<and> list_all is_hex h then Inr h
                   else Inl (ValueError ''owner_key_hash must be a lowercase SHA-256 hex digest''))"

text \<open>
  \<open>str.replace\<close> and \<open>re.sub\<close> scan for the leftmost match and go on behind it. A matcher gives the
  replacement and the rest of the text, which has to be shorter.
\<close>

function sub_scan :: "(string \<Rightarrow> (string \<times> string) option) \<Rightarrow> string \<Rightarrow> string" where
  "sub_scan m [] = []"
| "sub_scan m (c # cs) =
     (case m (c # cs) of
        Some (r, rest) \<Rightarrow> if length rest \<le> length cs then r @ sub_scan m rest else c # sub_scan m cs
      | None \<Rightarrow> c # sub_scan m cs)"
  by pat_completeness auto
termination by (relation "measure (length \<circ> snd)") auto

definition match_text :: "string \<Rightarrow> string \<Rightarrow> string \<Rightarrow> (string \<times> string) option" where
  "match_text old new s = (if old \<noteq> [] \<and> take (length old) s = old then Some (new, drop (length old) s) else None)"

definition py_replace :: "string \<Rightarrow> string \<Rightarrow> string \<Rightarrow> string" where
  \<comment> \<open>\<open>s.replace(old, new)\<close> for a non-empty \<open>old\<close>\<close>
  "py_replace old new s = sub_scan (match_text old new) s"

definition lower_char :: "char \<Rightarrow> char" where
  "lower_char c = (let n = of_char c :: int in if (65 \<le> n \<and> n \<le> 90) \<or> (192 \<le> n \<and> n \<le> 222 \<and> n \<noteq> 215) then chr_of (n + 32) else c)"

definition py_lower :: "string \<Rightarrow> string" where
  "py_lower = map lower_char"

definition strip_chars :: "(char \<Rightarrow> bool) \<Rightarrow> string \<Rightarrow> string" where
  \<comment> \<open>\<open>s.strip(chars)\<close>\<close>
  "strip_chars p s = rev (dropWhile p (rev (dropWhile p s)))"

text \<open>\<open>int(s, 16)\<close>: surrounding space, a sign, a prefix, digits with single underscores between them.\<close>

definition hex_value :: "char \<Rightarrow> nat option" where
  "hex_value c = (let n = of_char (lower_char c) :: nat
     in if 48 \<le> n \<and> n \<le> 57 then Some (n - 48) else if 97 \<le> n \<and> n \<le> 102 then Some (n - 87) else None)"

fun hex_digits :: "nat \<Rightarrow> bool \<Rightarrow> string \<Rightarrow> nat option" where
  "hex_digits acc after_digit [] = (if after_digit then Some acc else None)"
| "hex_digits acc after_digit (c # cs) =
     (case hex_value c of
        Some d \<Rightarrow> hex_digits (16 * acc + d) True cs
      | None \<Rightarrow> if c = CHR ''_'' \<and> after_digit then hex_digits acc False cs else None)"

definition hex_int :: "string \<Rightarrow> int option" where
  "hex_int s =
     (let t = strip_chars is_space s;
          (neg, u) = (case t of [] \<Rightarrow> (False, []) | c # cs \<Rightarrow>
             if c = CHR ''-'' then (True, cs) else if c = CHR ''+'' then (False, cs) else (False, t));
          prefixed = (py_lower (take 2 u) = ''0x'');
          v = (if prefixed then drop 2 u else u);
          w = (if prefixed \<and> take 1 v = ''_'' then drop 1 v else v)
      in map_option (\<lambda>n. if neg then - int n else int n) (hex_digits 0 False w))"

fun hex_text :: "nat \<Rightarrow> nat \<Rightarrow> string" where
  \<comment> \<open>the lowest \<open>k\<close> hexadecimal digits\<close>
  "hex_text 0 n = []"
| "hex_text (Suc k) n = hex_text k (n div 16) @ [hex_digit (int (n mod 16))]"

definition validate_document_id :: "string \<Rightarrow> rag_error + string" where
  \<comment> \<open>\<open>str(UUID(document_id))\<close>\<close>
  "validate_document_id x =
     (let h = py_replace ''-'' [] (strip_chars (\<lambda>c. c \<in> {CHR ''{'', CHR ''}''})
                (py_replace ''uuid:'' [] (py_replace ''urn:'' [] x)));
          bad = Inl (ValueError ''document_id must be a valid UUID'')
      in if length h \<noteq> 32 then bad
         else
           (case hex_int h of
              None \<Rightarrow> bad
            | Some n \<Rightarrow>
                if n < 0 \<or> 2 ^ 128 \<le> n then bad
                else (let t = hex_text 32 (nat n)
                      in Inr (take 8 t @ ''-'' @ take 4 (drop 8 t) @ ''-'' @ take 4 (drop 12 t) @ ''-'' @ take 4 (drop 16 t) @ ''-'' @ drop 20 t))))"

section \<open>Tables and results\<close>

record rag_document =
  rd_id :: string
  rd_owner :: string
  rd_source_path :: string
  rd_sha256 :: string
  rd_model :: string
  rd_dimensions :: int
  rd_verdict :: "string option"
  rd_detail :: "string list option"
  rd_created_at :: int

record rag_chunk =
  rc_id :: string
  rc_document_id :: string
  rc_index :: int
  rc_content :: string
  rc_embedding :: "real list"
  rc_search_vector :: "string option"

record rag_db =
  db_documents :: "rag_document list"
  db_chunks :: "rag_chunk list"

record document_summary =
  sm_document_id :: string
  sm_filename :: string
  sm_sha256 :: string
  sm_model :: string
  sm_dimensions :: int
  sm_created_at :: int
  sm_chunk_count :: int
  sm_text_characters :: int
  sm_verdict :: "string option"

record document_preview =
  pv_document_id :: string
  pv_filename :: string
  pv_content :: string
  pv_truncated :: bool

record search_result =
  se_document_id :: string
  se_chunk_id :: string
  se_chunk_index :: int
  se_content :: string
  se_distance :: real

record keyword_result =
  kr_document_id :: string
  kr_chunk_id :: string
  kr_chunk_index :: int
  kr_content :: string
  kr_rank :: real

text \<open>The store's configuration and what it uses of the database and the tokenizer.\<close>

record rag_store =
  st_model :: string
  st_dimensions :: int
  st_safety_mode :: string
  st_reachable :: bool
  st_scan :: "rag_chunk list \<Rightarrow> rag_chunk list"
  st_cosine_distance :: "real list \<Rightarrow> real list \<Rightarrow> real"
  st_tokenize :: "string \<Rightarrow> string list"
  st_ts_match :: "string \<Rightarrow> string \<Rightarrow> bool"
  st_ts_rank :: "string \<Rightarrow> string \<Rightarrow> real"

definition storage_error :: rag_error where "storage_error = StorageUnavailable ''RAG storage unavailable''"

definition document_of :: "rag_db \<Rightarrow> rag_chunk \<Rightarrow> rag_document option" where
  \<comment> \<open>the join on \<open>RagDocument.id == RagDocumentChunk.document_id\<close>\<close>
  "document_of db c = find (\<lambda>d. rd_id d = rc_document_id c) (db_documents db)"

definition keyword_vector :: "rag_store \<Rightarrow> string \<Rightarrow> string" where
  "keyword_vector st content = join '' '' (st_tokenize st content)"

section \<open>Operations\<close>

record new_document =
  nd_source_path :: string
  nd_sha256 :: string
  nd_model :: string
  nd_dimensions :: int
  nd_chunks :: "string list"
  nd_embeddings :: "real list list"
  nd_owner :: "string option"
  nd_verdict :: "string option"
  nd_detail :: "string list option"

text \<open>\<open>zip(chunks, embeddings, strict=True)\<close> with the index and the id of each row.\<close>

definition chunk_rows :: "rag_store \<Rightarrow> string \<Rightarrow> (nat \<Rightarrow> string) \<Rightarrow> string list \<Rightarrow> real list list \<Rightarrow> rag_chunk list" where
  "chunk_rows st doc_id chunk_id chunks embeddings =
     map (\<lambda>(i, content, e). \<lparr>rc_id = chunk_id i, rc_document_id = doc_id, rc_index = int i, rc_content = content,
            rc_embedding = e, rc_search_vector = Some (keyword_vector st content)\<rparr>)
       (zip [0..<length chunks] (zip chunks embeddings))"

definition add_document ::
  "rag_store \<Rightarrow> int \<Rightarrow> string \<Rightarrow> (nat \<Rightarrow> string) \<Rightarrow> new_document \<Rightarrow> rag_db \<Rightarrow> (rag_error + string) \<times> rag_db" where
  "add_document st now doc_id chunk_id nd db =
     (case validate_owner_key_hash (nd_owner nd) of
        Inl e \<Rightarrow> (Inl e, db)
      | Inr owner \<Rightarrow>
          if nd_model nd \<noteq> st_model st \<or> nd_dimensions nd \<noteq> st_dimensions st
          then (Inl (ConflictError ''Document embedding model or dimensions do not match this store''), db)
          else if \<not> st_reachable st then (Inl storage_error, db)
          else if \<exists>d \<in> set (db_documents db). rd_model d \<noteq> nd_model nd \<or> rd_dimensions d \<noteq> nd_dimensions nd
          then (Inl (ConflictError ''Knowledge base embedding model or dimensions do not match''), db)
          else if \<exists>d \<in> set (db_documents db). rd_owner d = owner \<and> rd_sha256 d = nd_sha256 nd
          then (Inl (ConflictError ''Document conflicts with an existing knowledge-base entry''), db)
          else if \<exists>d \<in> set (db_documents db). rd_owner d = owner \<and> rd_source_path d = nd_source_path nd
          then (Inl (ConflictError ''Document conflicts with an existing knowledge-base entry''), db)
          else if length (nd_chunks nd) \<noteq> length (nd_embeddings nd)
          then (Inl (ValueError ''zip() argument 2 has a different length than argument 1''), db)
          else
            (Inr doc_id,
             \<lparr>db_documents = db_documents db @
                [\<lparr>rd_id = doc_id, rd_owner = owner, rd_source_path = nd_source_path nd, rd_sha256 = nd_sha256 nd,
                  rd_model = nd_model nd, rd_dimensions = nd_dimensions nd, rd_verdict = nd_verdict nd, rd_detail = nd_detail nd,
                  rd_created_at = now\<rparr>],
              db_chunks = db_chunks db @ chunk_rows st doc_id chunk_id (nd_chunks nd) (nd_embeddings nd)\<rparr>))"

definition to_document_summary :: "rag_db \<Rightarrow> rag_document \<Rightarrow> document_summary" where
  "to_document_summary db d =
     (let cs = filter (\<lambda>c. rc_document_id c = rd_id d) (db_chunks db)
      in \<lparr>sm_document_id = rd_id d, sm_filename = rd_source_path d, sm_sha256 = rd_sha256 d, sm_model = rd_model d,
          sm_dimensions = rd_dimensions d, sm_created_at = rd_created_at d, sm_chunk_count = int (length cs),
          sm_text_characters = sum_list (map (\<lambda>c. int (length (rc_content c))) cs), sm_verdict = rd_verdict d\<rparr>)"

definition get_document_summary :: "rag_store \<Rightarrow> string \<Rightarrow> string option \<Rightarrow> rag_db \<Rightarrow> rag_error + document_summary option" where
  "get_document_summary st doc_id owner db =
     (case validate_owner_key_hash owner of
        Inl e \<Rightarrow> Inl e
      | Inr h \<Rightarrow>
          (case validate_document_id doc_id of
             Inl e \<Rightarrow> Inl e
           | Inr i \<Rightarrow>
               if \<not> st_reachable st then Inl storage_error
               else Inr (map_option (to_document_summary db) (find (\<lambda>d. rd_owner d = h \<and> rd_id d = i) (db_documents db)))))"

definition list_documents :: "rag_store \<Rightarrow> string option \<Rightarrow> rag_db \<Rightarrow> rag_error + document_summary list" where
  "list_documents st owner db =
     (case validate_owner_key_hash owner of
        Inl e \<Rightarrow> Inl e
      | Inr h \<Rightarrow>
          if \<not> st_reachable st then Inl storage_error
          else Inr (map (to_document_summary db)
            (sort_key (\<lambda>d. (- rd_created_at d, rd_id d)) (filter (\<lambda>d. rd_owner d = h) (db_documents db)))))"

text \<open>The foreign key deletes the chunks of a deleted document.\<close>

definition delete_document :: "rag_store \<Rightarrow> string \<Rightarrow> string \<Rightarrow> rag_db \<Rightarrow> (rag_error + bool) \<times> rag_db" where
  "delete_document st owner doc_id db =
     (case validate_owner_key_hash (Some owner) of
        Inl e \<Rightarrow> (Inl e, db)
      | Inr h \<Rightarrow>
          (case validate_document_id doc_id of
             Inl e \<Rightarrow> (Inl e, db)
           | Inr i \<Rightarrow>
               if \<not> st_reachable st then (Inl storage_error, db)
               else
                 (let hit = (\<lambda>d. rd_id d = i \<and> rd_owner d = h)
                  in if \<exists>d \<in> set (db_documents db). hit d
                     then (Inr True, \<lparr>db_documents = filter (\<lambda>d. \<not> hit d) (db_documents db),
                                      db_chunks = filter (\<lambda>c. rc_document_id c \<noteq> i) (db_chunks db)\<rparr>)
                     else (Inr False, db))))"

definition max_document_preview_characters :: int where "max_document_preview_characters = 4000"

definition blank_line :: string where "blank_line = [CHR 0x0A, CHR 0x0A]"

text \<open>The loop of the preview: the parts written so far, how many characters they have, and the rest.\<close>

fun preview_parts :: "int \<Rightarrow> string list \<Rightarrow> string list \<Rightarrow> int \<Rightarrow> string list \<times> bool" where
  "preview_parts limit [] parts written = (parts, False)"
| "preview_parts limit (content # rest) parts written =
     (let separator = (if parts \<noteq> [] then blank_line else []);
          remaining = limit - written - int (length separator)
      in if remaining \<le> 0 then (parts, True)
         else
           (let candidate = separator @ content
            in if remaining < int (length candidate) then
                 (let content_remaining = remaining - int (length separator)
                  in if 0 < content_remaining then (parts @ [separator @ take (nat content_remaining) content], True)
                     else (parts, True))
               else preview_parts limit rest (parts @ [candidate]) (written + int (length candidate))))"

definition get_document_preview ::
  "rag_store \<Rightarrow> string \<Rightarrow> string \<Rightarrow> int \<Rightarrow> rag_db \<Rightarrow> rag_error + document_preview option" where
  "get_document_preview st owner doc_id max_characters db =
     (case validate_owner_key_hash (Some owner) of
        Inl e \<Rightarrow> Inl e
      | Inr h \<Rightarrow>
          (case validate_document_id doc_id of
             Inl e \<Rightarrow> Inl e
           | Inr i \<Rightarrow>
               if \<not> (1 \<le> max_characters \<and> max_characters \<le> max_document_preview_characters)
               then Inl (ValueError ''max_characters must be between 1 and 4000'')
               else if \<not> st_reachable st then Inl storage_error
               else
                 (case find (\<lambda>d. rd_id d = i \<and> rd_owner d = h) (db_documents db) of
                    None \<Rightarrow> Inr None
                  | Some d \<Rightarrow>
                      (case preview_parts max_characters
                              (map rc_content (sort_key rc_index (filter (\<lambda>c. rc_document_id c = i) (db_chunks db)))) [] 0 of
                         (parts, truncated) \<Rightarrow>
                           Inr (Some \<lparr>pv_document_id = rd_id d, pv_filename = rd_source_path d, pv_content = concat parts,
                                     pv_truncated = truncated\<rparr>)))))"

definition safety_filter :: "string \<Rightarrow> rag_document \<Rightarrow> bool" where
  "safety_filter mode d \<longleftrightarrow> mode \<noteq> ''strict'' \<or> rd_verdict d = None \<or> rd_verdict d \<noteq> Some ''suspicious''"

text \<open>The rows of \<open>chunk JOIN document\<close> that satisfy the condition.\<close>

definition joined_rows :: "rag_store \<Rightarrow> rag_db \<Rightarrow> (rag_document \<Rightarrow> rag_chunk \<Rightarrow> bool) \<Rightarrow> rag_chunk list" where
  "joined_rows st db cond =
     filter (\<lambda>c. case document_of db c of None \<Rightarrow> False | Some d \<Rightarrow> cond d c) (st_scan st (db_chunks db))"

definition keyword_search :: "rag_store \<Rightarrow> string \<Rightarrow> int \<Rightarrow> string option \<Rightarrow> rag_db \<Rightarrow> rag_error + keyword_result list" where
  "keyword_search st query_text top_k owner db =
     (case validate_owner_key_hash owner of
        Inl e \<Rightarrow> Inl e
      | Inr h \<Rightarrow>
          (let query_tokens = strip_chars is_space (keyword_vector st query_text);
               rank = (\<lambda>c. case rc_search_vector c of None \<Rightarrow> 0 | Some v \<Rightarrow> st_ts_rank st v query_tokens)
           in if query_tokens = [] then Inr []
              else if \<not> st_reachable st \<or> top_k < 0 then Inl storage_error
              else
                Inr (map (\<lambda>c. \<lparr>kr_document_id = rc_document_id c, kr_chunk_id = rc_id c, kr_chunk_index = rc_index c,
                               kr_content = rc_content c, kr_rank = rank c\<rparr>)
                  (take (nat top_k) (sort_key (\<lambda>c. - rank c)
                     (joined_rows st db (\<lambda>d c. rd_owner d = h \<and>
                        (case rc_search_vector c of None \<Rightarrow> False | Some v \<Rightarrow> st_ts_match st v query_tokens) \<and>
                        safety_filter (st_safety_mode st) d)))))))"

definition search :: "rag_store \<Rightarrow> real list \<Rightarrow> int \<Rightarrow> string option \<Rightarrow> rag_db \<Rightarrow> rag_error + search_result list" where
  "search st query_embedding top_k owner db =
     (case validate_owner_key_hash owner of
        Inl e \<Rightarrow> Inl e
      | Inr h \<Rightarrow>
          if \<not> st_reachable st \<or> top_k < 0 then Inl storage_error
          else
            (let distance = (\<lambda>c. st_cosine_distance st (rc_embedding c) query_embedding)
             in Inr (map (\<lambda>c. \<lparr>se_document_id = rc_document_id c, se_chunk_id = rc_id c, se_chunk_index = rc_index c,
                               se_content = rc_content c, se_distance = distance c\<rparr>)
                  (take (nat top_k) (sort_key distance
                     (joined_rows st db (\<lambda>d c. rd_owner d = h \<and> rd_model d = st_model st \<and> rd_dimensions d = st_dimensions st \<and>
                        safety_filter (st_safety_mode st) d)))))))"

end
