(* ===== verification/RagIngest.thy ===== *)
theory RagIngest
  imports RagStore
begin

text \<open>
  Ingestion of documents: \<open>chunk_text\<close> (\<open>app/rag/chunker.py\<close>), the prompt-injection check
  (\<open>app/rag/safety.py\<close>), \<open>RAGIngestionService\<close> (\<open>app/rag/ingestion.py\<close>) and the queue in front of it
  (\<open>app/rag/queue.py\<close>).

  The document parsers, the embedder and the hash function are parameters. The Chinese texts of error messages are replaced by short names. A component of an embedding is \<open>None\<close>
  when it is not finite.
\<close>

section \<open>Chunks\<close>

text \<open>
  The loop of \<open>chunk_text\<close>. It is entered with a positive step only; with any other step the code would not
  end, and the model stops.
\<close>

function chunk_loop :: "string \<Rightarrow> int \<Rightarrow> int \<Rightarrow> int \<Rightarrow> string list" where
  "chunk_loop text chunk_size step i =
     (if i < int (length text) then
        (let chunk = take (nat chunk_size) (drop (nat i) text)
         in if int (length text) \<le> i + chunk_size \<or> step \<le> 0 then [chunk] else chunk # chunk_loop text chunk_size step (i + step))
      else [])"
  by pat_completeness auto
termination by (relation "measure (\<lambda>(text, chunk_size, step, i). nat (int (length text) - i))") auto

declare chunk_loop.simps [simp del]

definition chunk_text :: "string \<Rightarrow> int \<Rightarrow> int \<Rightarrow> rag_error + string list" where
  "chunk_text text chunk_size overlap =
     (if chunk_size \<le> 0 then Inl (ValueError (''chunk_size must be > 0, got '' @ int_digits chunk_size))
      else if overlap < 0 then Inl (ValueError (''overlap must be >= 0, got '' @ int_digits overlap))
      else if chunk_size \<le> overlap
      then Inl (ValueError (''overlap must be < chunk_size, got '' @ int_digits overlap @ '' >= '' @ int_digits chunk_size))
      else if text = [] then Inr []
      else Inr (chunk_loop text chunk_size (chunk_size - overlap) 0))"

section \<open>Safety verdicts\<close>

datatype safety_severity = High | Medium | Low

text \<open>
  The regular expressions of the rules, as sequences of alternatives of literals (the empty literal for an
  optional group), \<open>\s*\<close> or \<open>\s+\<close>, and an optional word with space behind it. Literals are lists of code
  points: the Chinese ones lie outside the characters of the model, so that they match none of its texts.
\<close>

datatype re_item = OneOf "int list list" | Spaces nat | OptionalWord "int list"

record safety_rule =
  sr_id :: string
  sr_severity :: safety_severity
  sr_pattern :: "re_item list"

definition chars :: "string \<Rightarrow> int list" where "chars = map of_char"

definition safety_rules :: "safety_rule list" where
  "safety_rules =
     [\<lparr>sr_id = ''ignore_above_zh'', sr_severity = High, sr_pattern =
         [OneOf [[24573, 30053]], OneOf [[20197, 19978], [20043, 21069], [21069, 38754], [19978, 25991]], OneOf [[30340], []],
          OneOf [[25152, 26377], []], OneOf [[25351, 20196], [20869, 23481], [35201, 27714]]]\<rparr>,
      \<lparr>sr_id = ''ignore_above_en'', sr_severity = High, sr_pattern =
         [OneOf [chars ''ignore ''], OneOf [chars ''all '', chars ''any '', []],
          OneOf [chars ''previous'', chars ''above'', chars ''earlier'', chars ''prior''], OneOf [chars '' instructions'']]\<rparr>,
      \<lparr>sr_id = ''ignore_everything_en'', sr_severity = High, sr_pattern =
         [OneOf [chars ''ignore everything ''], OneOf [chars ''above'', chars ''before'', chars ''else'']]\<rparr>,
      \<lparr>sr_id = ''forget_all_zh'', sr_severity = High, sr_pattern =
         [OneOf [[24536, 35760]], OneOf [[20197, 19978], [20043, 21069], [21069, 38754], []], OneOf [[25152, 26377], []],
          OneOf [[20869, 23481], [25351, 20196], [23545, 35805]]]\<rparr>,
      \<lparr>sr_id = ''you_are_now_zh'', sr_severity = High, sr_pattern =
         [OneOf [[20174, 29616, 22312, 36215, 20320, 26159]], OneOf [[19968, 20010], []],
          OneOf [[27809, 26377, 38480, 21046], [19981, 21463, 32422, 26463], [26080, 25152, 19981, 33021], [19975, 33021, 30340], [20840, 33021, 30340]]]\<rparr>,
      \<lparr>sr_id = ''you_are_now_capability_zh'', sr_severity = High, sr_pattern =
         [OneOf [[20320, 29616, 22312, 26159]], OneOf [[19968, 20010], []],
          OneOf [[27809, 26377, 38480, 21046], [19981, 21463, 32422, 26463], [26080, 25152, 19981, 33021], [19975, 33021, 30340], [20840, 33021, 30340]],
          OneOf [[30340], []], OneOf [[27169, 22411], [21161, 25163], chars ''AI'', [26426, 22120, 20154], [26234, 33021, 20307], []]]\<rparr>,
      \<lparr>sr_id = ''you_are_now_en'', sr_severity = High, sr_pattern =
         [OneOf [chars ''you are now ''], OneOf [chars ''a '', chars ''an '', []],
          OneOf [chars ''unrestricted'', chars ''uncensored'', chars ''free'']]\<rparr>,
      \<lparr>sr_id = ''do_not_follow_zh'', sr_severity = Medium, sr_pattern =
         [OneOf [[19981, 35201, 36981, 23432]], OneOf [[19978, 38754], [20197, 19978], []], OneOf [[30340], []],
          OneOf [[35268, 21017], [25351, 20196], [35201, 27714]]]\<rparr>,
      \<lparr>sr_id = ''reveal_system_prompt_zh'', sr_severity = Medium, sr_pattern =
         [OneOf [[36755, 20986], [25171, 21360], [27844, 38706], [36879, 38706], [36820, 22238], [26174, 31034]],
          OneOf [[20320, 30340], [31995, 32479]], Spaces 0, OptionalWord (chars ''system''), OneOf [chars ''prompt'']]\<rparr>,
      \<lparr>sr_id = ''reveal_system_prompt_en'', sr_severity = Medium, sr_pattern =
         [OneOf [chars ''reveal'', chars ''print'', chars ''show'', chars ''output'', chars ''leak''], OneOf [chars '' ''],
          OneOf [chars ''your '', chars ''the '', []], OneOf [chars ''system prompt'']]\<rparr>,
      \<lparr>sr_id = ''ignore_rules_zh'', sr_severity = Medium, sr_pattern =
         [OneOf [[26080, 35270]], OneOf [[19978, 38754], [20197, 19978], []], OneOf [[30340], []],
          OneOf [[35268, 21017], [25351, 20196], [35201, 27714]]]\<rparr>,
      \<lparr>sr_id = ''ignore_rules_en'', sr_severity = Medium, sr_pattern =
         [OneOf [chars ''ignore ''], OneOf [chars ''the '', chars ''all '', []], OneOf [chars ''rules'', chars ''instructions'', chars ''guidelines''],
          OneOf [chars '' ''], OneOf [chars ''above'', chars ''below'', chars ''given'']]\<rparr>,
      \<lparr>sr_id = ''do_not_follow_en'', sr_severity = Medium, sr_pattern =
         [OneOf [chars ''do not follow ''], OneOf [chars ''the '', []], OneOf [chars ''rules'', chars ''instructions'', chars ''guidelines'']]\<rparr>]"

fun space_rests :: "nat \<Rightarrow> int list \<Rightarrow> int list list" where
  \<comment> \<open>what can be left after at least \<open>n\<close> spaces\<close>
  "space_rests n [] = (if n = 0 then [[]] else [])"
| "space_rests n (c # cs) = (if n = 0 then [c # cs] else []) @ (if is_space (chr_of c) then space_rests (n - 1) cs else [])"

definition literal_rest :: "int list \<Rightarrow> int list \<Rightarrow> int list list" where
  "literal_rest w cs = (if take (length w) cs = w then [drop (length w) cs] else [])"

fun item_rests :: "re_item \<Rightarrow> int list \<Rightarrow> int list list" where
  "item_rests (OneOf ws) cs = concat (map (\<lambda>w. literal_rest w cs) ws)"
| "item_rests (Spaces n) cs = space_rests n cs"
| "item_rests (OptionalWord w) cs = concat (map (space_rests 1) (literal_rest w cs)) @ [cs]"

fun matches_at :: "re_item list \<Rightarrow> int list \<Rightarrow> bool" where
  "matches_at [] cs = True"
| "matches_at (i # is) cs = list_ex (matches_at is) (item_rests i cs)"

fun re_search :: "re_item list \<Rightarrow> int list \<Rightarrow> bool" where
  "re_search p [] = matches_at p []"
| "re_search p (c # cs) = (matches_at p (c # cs) \<or> re_search p cs)"

record safety_verdict =
  sv_level :: string
  sv_hit_rule_ids :: "string list"

fun collapse_spaces :: "bool \<Rightarrow> string \<Rightarrow> string" where
  \<comment> \<open>\<open>re.sub(r"\s+", " ", text)\<close>\<close>
  "collapse_spaces in_space [] = []"
| "collapse_spaces in_space (c # cs) =
     (if is_space c then (if in_space then [] else '' '') @ collapse_spaces True cs else c # collapse_spaces False cs)"

definition normalize :: "string \<Rightarrow> string" where
  "normalize text = py_lower (collapse_spaces False text)"

fun split_at :: "(char \<Rightarrow> bool) \<Rightarrow> string \<Rightarrow> string \<Rightarrow> string list" where
  \<comment> \<open>\<open>re.split\<close> at single characters; the second argument is the piece being read\<close>
  "split_at p piece [] = [piece]"
| "split_at p piece (c # cs) = (if p c then piece # split_at p [] cs else split_at p (piece @ [c]) cs)"

fun three_equal :: "string list \<Rightarrow> bool" where
  "three_equal (a # b # c # xs) = (a = b \<and> b = c \<or> three_equal (b # c # xs))"
| "three_equal _ = False"

definition has_repeated_sentence :: "string \<Rightarrow> bool" where
  "has_repeated_sentence normalized =
     three_equal (filter (\<lambda>s. s \<noteq> []) (map (strip_chars is_space) (split_at (\<lambda>c. c = CHR ''!'' \<or> c = CHR ''?'') [] normalized)))"

definition evaluate_document :: "string \<Rightarrow> safety_verdict" where
  "evaluate_document text =
     (let normalized = normalize text;
          hits = (\<lambda>sev. map sr_id (filter (\<lambda>r. sr_severity r = sev \<and> re_search (sr_pattern r) (chars normalized)) safety_rules));
          low_hits = hits Low @ (if has_repeated_sentence normalized then [''instruction_bomb_low''] else [])
      in if hits High \<noteq> [] then \<lparr>sv_level = ''malicious'', sv_hit_rule_ids = hits High\<rparr>
         else if hits Medium \<noteq> [] \<or> low_hits \<noteq> [] then \<lparr>sv_level = ''suspicious'', sv_hit_rule_ids = hits Medium @ low_hits\<rparr>
         else \<lparr>sv_level = ''clean'', sv_hit_rule_ids = []\<rparr>)"

definition is_malicious :: "safety_verdict \<Rightarrow> bool" where "is_malicious v \<longleftrightarrow> sv_level v = ''malicious''"
definition is_suspicious :: "safety_verdict \<Rightarrow> bool" where "is_suspicious v \<longleftrightarrow> sv_level v = ''suspicious''"

section \<open>The ingestion service\<close>

record parsed_document =
  pd_filename :: string
  pd_text :: string
  pd_page_count :: "int option"

record ingested_document =
  in_document_id :: string
  in_filename :: string
  in_text_characters :: int
  in_chunk_count :: int
  in_sha256 :: string
  in_model :: string
  in_created_at :: "int option"

record ingestion_service =
  is_model :: string
  is_dimensions :: int
  is_chunk_size :: int
  is_chunk_overlap :: int
  is_max_pages :: int
  is_max_text_characters :: int
  is_safety_mode :: string
  is_parse :: "string option \<Rightarrow> string \<Rightarrow> rag_error + parsed_document"
  is_embed :: "string list \<Rightarrow> rag_error + real option list list"
  is_sha256 :: "string \<Rightarrow> string"

definition validate_embeddings :: "ingestion_service \<Rightarrow> real option list list \<Rightarrow> nat \<Rightarrow> rag_error + real list list" where
  "validate_embeddings svc embeddings expected_count =
     (if length embeddings \<noteq> expected_count then Inl (ProviderError ''embedding_count'')
      else if embeddings = [] \<or> (\<exists>e \<in> set embeddings. int (length e) \<noteq> is_dimensions svc \<or> None \<in> set e)
      then Inl (ProviderError ''embedding_invalid'')
      else Inr (map (map the) embeddings))"

definition safety_check :: "ingestion_service \<Rightarrow> string \<Rightarrow> rag_error + safety_verdict option" where
  "safety_check svc text =
     (if is_safety_mode svc = ''off'' then Inr None
      else (let v = evaluate_document text
            in if is_malicious v then Inl (ValidationError ''document_injection'') else Inr (Some v)))"

text \<open>Parsing, the limits, the safety check, the chunks and the duplicate check: everything before the embedder.\<close>

definition prepare_document ::
  "ingestion_service \<Rightarrow> rag_store \<Rightarrow> string \<Rightarrow> string option \<Rightarrow> string \<Rightarrow> rag_db \<Rightarrow>
     rag_error + parsed_document \<times> safety_verdict option \<times> string list" where
  "prepare_document svc st content filename owner_hash db =
     (case is_parse svc filename content of
        Inl e \<Rightarrow> Inl e
      | Inr parsed \<Rightarrow>
          if (case pd_page_count parsed of None \<Rightarrow> False | Some n \<Rightarrow> is_max_pages svc < n) then Inl (ProviderError ''too_many_pages'')
          else if is_max_text_characters svc < int (length (pd_text parsed)) then Inl (ProviderError ''text_too_long'')
          else
            (case safety_check svc (pd_text parsed) of
               Inl e \<Rightarrow> Inl e
             | Inr verdict \<Rightarrow>
                 (case chunk_text (pd_text parsed) (is_chunk_size svc) (is_chunk_overlap svc) of
                    Inl e \<Rightarrow> Inl e
                  | Inr chunks \<Rightarrow>
                      if chunks = [] then Inl (ProviderError ''no_chunks'')
                      else
                        (case list_documents st (Some owner_hash) db of
                           Inl e \<Rightarrow> Inl e
                         | Inr existing \<Rightarrow>
                             if \<exists>d \<in> set existing. sm_filename d = pd_filename parsed then Inl (ConflictError ''same_filename'')
                             else Inr (parsed, verdict, chunks)))))"

definition ingest_document ::
  "ingestion_service \<Rightarrow> rag_store \<Rightarrow> int \<Rightarrow> string \<Rightarrow> (nat \<Rightarrow> string) \<Rightarrow> string \<Rightarrow> string option \<Rightarrow> string \<Rightarrow> rag_db \<Rightarrow>
     (rag_error + ingested_document) \<times> rag_db" where
  "ingest_document svc st now doc_id chunk_id content filename owner db =
     (case validate_owner_key_hash (Some owner) of
        Inl e \<Rightarrow> (Inl e, db)
      | Inr h \<Rightarrow>
          (case prepare_document svc st content filename h db of
             Inl e \<Rightarrow> (Inl e, db)
           | Inr (parsed, verdict, chunks) \<Rightarrow>
               (case is_embed svc chunks of
                  Inl e \<Rightarrow> (Inl e, db)
                | Inr raw \<Rightarrow>
                    (case validate_embeddings svc raw (length chunks) of
                       Inl e \<Rightarrow> (Inl e, db)
                     | Inr embeddings \<Rightarrow>
                         (let sha = is_sha256 svc (pd_text parsed)
                          in case add_document st now doc_id chunk_id
                                 \<lparr>nd_source_path = pd_filename parsed, nd_sha256 = sha, nd_model = is_model svc,
                                  nd_dimensions = is_dimensions svc, nd_chunks = chunks, nd_embeddings = embeddings, nd_owner = Some h,
                                  nd_verdict = map_option sv_level verdict, nd_detail = map_option sv_hit_rule_ids verdict\<rparr> db of
                               (Inl e, db') \<Rightarrow> (Inl e, db')
                             | (Inr i, db') \<Rightarrow>
                                 (case get_document_summary st i (Some h) db' of
                                    Inl e \<Rightarrow> (Inl e, db')
                                  | Inr summary \<Rightarrow>
                                      (Inr \<lparr>in_document_id = i, in_filename = pd_filename parsed,
                                            in_text_characters = int (length (pd_text parsed)), in_chunk_count = int (length chunks),
                                            in_sha256 = sha, in_model = is_model svc, in_created_at = map_option sm_created_at summary\<rparr>,
                                       db')))))))"

section \<open>Instruction overrides are rejected\<close>

lemma matches_at_one_of: "w \<in> set ws \<Longrightarrow> matches_at is cs \<Longrightarrow> matches_at (OneOf ws # is) (w @ cs)"
  by (force simp: literal_rest_def list_ex_iff)

lemma re_search_append: "matches_at p cs \<Longrightarrow> re_search p (xs @ cs)"
  by (induction xs) (cases cs; simp)+

lemma chars_append [simp]: "chars (s @ t) = chars s @ chars t"
  by (simp add: chars_def)

text \<open>
  Whatever surrounds it, and however it is written in upper and lower case and white space, a phrase of the
  first English rule makes the document malicious, and unless the check is off such a document changes nothing.
\<close>

lemma override_is_malicious:
  assumes "normalize t = pre @ ''ignore '' @ q @ w @ '' instructions'' @ post" and "q \<in> {''all '', ''any '', []}"
    and "w \<in> {''previous'', ''above'', ''earlier'', ''prior''}"
  shows "is_malicious (evaluate_document t)"
proof -
  define r where "r = safety_rules ! 1"
  have r: "r \<in> set safety_rules" "sr_severity r = High" "sr_id r = ''ignore_above_en''" by (simp_all add: r_def safety_rules_def)
  have pattern: "sr_pattern r = [OneOf [chars ''ignore ''], OneOf [chars ''all '', chars ''any '', []],
      OneOf [chars ''previous'', chars ''above'', chars ''earlier'', chars ''prior''], OneOf [chars '' instructions'']]"
    by (simp add: r_def safety_rules_def)
  have "matches_at (sr_pattern r) (chars (''ignore '' @ q @ w @ '' instructions'' @ post))"
    unfolding pattern chars_append by (intro matches_at_one_of matches_at.simps(1) [THEN iffD2] TrueI) (use assms(2,3) in \<open>auto simp: chars_def\<close>)
  then have "re_search (sr_pattern r) (chars (normalize t))" unfolding assms(1) chars_append [of pre] by (rule re_search_append)
  with r have "filter (\<lambda>r. sr_severity r = High \<and> re_search (sr_pattern r) (chars (normalize t))) safety_rules \<noteq> []"
    by (auto simp: filter_empty_conv)
  then show ?thesis by (simp add: evaluate_document_def is_malicious_def Let_def)
qed

lemma override_never_ingested:
  assumes "is_parse svc filename content = Inr parsed" and "is_malicious (evaluate_document (pd_text parsed))" and "is_safety_mode svc \<noteq> ''off''"
  shows "snd (ingest_document svc st now doc_id chunk_id content filename owner db) = db \<and>
    isl (fst (ingest_document svc st now doc_id chunk_id content filename owner db))"
proof -
  have "isl (prepare_document svc st content filename owner db)"
    using assms by (simp add: prepare_document_def safety_check_def Let_def)
  then show ?thesis
    by (cases "prepare_document svc st content filename owner db")
      (auto simp: ingest_document_def validate_owner_key_hash_def)
qed

section \<open>Chunks cover the text\<close>

text \<open>The chunks put together again, each without the overlap with the one before.\<close>

fun rejoin :: "nat \<Rightarrow> string list \<Rightarrow> string" where
  "rejoin overlap [] = []"
| "rejoin overlap (c # cs) = c @ concat (map (drop overlap) cs)"

lemma chunk_loop_step:
  assumes "0 \<le> i" and "i < int (length text)" and "0 < step"
  shows "chunk_loop text n step i =
    (if int (length text) \<le> i + n then [take (nat n) (drop (nat i) text)]
     else take (nat n) (drop (nat i) text) # chunk_loop text n step (i + step))"
  using assms by (subst chunk_loop.simps) (simp add: Let_def)

lemma chunk_loop_covers:
  assumes "0 \<le> i" and "i < int (length text)" and "0 < n" and "0 \<le> ov" and "ov < n"
  shows "rejoin (nat ov) (chunk_loop text n (n - ov) i) = drop (nat i) text \<and> chunk_loop text n (n - ov) i \<noteq> [] \<and>
    hd (chunk_loop text n (n - ov) i) = take (nat n) (drop (nat i) text) \<and>
    (\<forall>c \<in> set (chunk_loop text n (n - ov) i). c \<noteq> [] \<and> int (length c) \<le> n)"
  using assms
proof (induction "nat (int (length text) - i)" arbitrary: i rule: less_induct)
  case less
  note step = chunk_loop_step [OF less.prems(1,2), of "n - ov" n]
  let ?c = "take (nat n) (drop (nat i) text)"
  have c: "?c \<noteq> []" "int (length ?c) \<le> n" using less.prems by auto
  show ?case
  proof (cases "int (length text) \<le> i + n")
    case True
    then have "?c = drop (nat i) text" using less.prems by simp
    with step True c less.prems show ?thesis by simp
  next
    case False
    let ?i = "i + (n - ov)"
    have IH: "rejoin (nat ov) (chunk_loop text n (n - ov) ?i) = drop (nat ?i) text"
      "hd (chunk_loop text n (n - ov) ?i) = take (nat n) (drop (nat ?i) text)"
      "chunk_loop text n (n - ov) ?i \<noteq> []" "\<forall>c \<in> set (chunk_loop text n (n - ov) ?i). c \<noteq> [] \<and> int (length c) \<le> n"
      using less.hyps [of ?i] less.prems False by auto
    then obtain d ds where d: "chunk_loop text n (n - ov) ?i = d # ds" by (cases "chunk_loop text n (n - ov) ?i") auto
    have long: "nat ov \<le> length d" using IH(2) d less.prems False by simp linarith
    have "drop (nat ?i) text = d @ concat (map (drop (nat ov)) ds)" using IH(1) d by simp
    then have "drop (nat ov) (drop (nat ?i) text) = drop (nat ov) d @ concat (map (drop (nat ov)) ds)" using long by simp
    moreover have "drop (nat ov) (drop (nat ?i) text) = drop (nat n) (drop (nat i) text)"
    proof -
      have "nat ov + nat ?i = nat n + nat i" using less.prems by linarith
      then show ?thesis by (simp only: drop_drop)
    qed
    ultimately have "rejoin (nat ov) (?c # d # ds) = ?c @ drop (nat n) (drop (nat i) text)"
      by (simp only: rejoin.simps list.map concat.simps)
    then have "rejoin (nat ov) (?c # d # ds) = drop (nat i) text" by (simp only: append_take_drop_id)
    with step False d c IH(4) less.prems show ?thesis by auto
  qed
qed

text \<open>
  C30: chunking loses nothing. With a positive chunk size and a smaller, non-negative overlap, \<open>chunk_text\<close>
  returns chunks of at most the chunk size, none of them empty, that give the text back when each is joined
  without the overlap with its predecessor; with any other sizes it raises.
\<close>

theorem chunk_text_covers:
  "chunk_text t n ov =
     (if 0 < n \<and> 0 \<le> ov \<and> ov < n then Inr (if t = [] then [] else chunk_loop t n (n - ov) 0)
      else Inl (ValueError (if n \<le> 0 then ''chunk_size must be > 0, got '' @ int_digits n
             else if ov < 0 then ''overlap must be >= 0, got '' @ int_digits ov
             else ''overlap must be < chunk_size, got '' @ int_digits ov @ '' >= '' @ int_digits n))) \<and>
   (\<forall>cs. chunk_text t n ov = Inr cs \<longrightarrow> rejoin (nat ov) cs = t \<and> (\<forall>c \<in> set cs. c \<noteq> [] \<and> int (length c) \<le> n))"
proof -
  have "rejoin (nat ov) cs = t \<and> (\<forall>c \<in> set cs. c \<noteq> [] \<and> int (length c) \<le> n)" if cs: "chunk_text t n ov = Inr cs" for cs
  proof (cases "t = []")
    case False
    with cs have "0 < n" "0 \<le> ov" "ov < n" "cs = chunk_loop t n (n - ov) 0" by (auto simp: chunk_text_def split: if_splits)
    with chunk_loop_covers [of 0 t n ov] False show ?thesis by simp
  qed (use cs in \<open>auto simp: chunk_text_def split: if_splits\<close>)
  moreover have "chunk_text t n ov =
     (if 0 < n \<and> 0 \<le> ov \<and> ov < n then Inr (if t = [] then [] else chunk_loop t n (n - ov) 0)
      else Inl (ValueError (if n \<le> 0 then ''chunk_size must be > 0, got '' @ int_digits n
             else if ov < 0 then ''overlap must be >= 0, got '' @ int_digits ov
             else ''overlap must be < chunk_size, got '' @ int_digits ov @ '' >= '' @ int_digits n)))"
    unfolding chunk_text_def by (cases "0 < n"; cases "0 \<le> ov"; cases "ov < n") simp_all
  ultimately show ?thesis by blast
qed

theorem chunk_text_covers_witness: "chunk_text ''abcdefg'' 3 1 = Inr [''abc'', ''cde'', ''efg''] \<and> rejoin 1 [''abc'', ''cde'', ''efg''] = ''abcdefg''"
proof -
  have "chunk_text ''abcdefg'' 3 1 = Inr [''abc'', ''cde'', ''efg'']" by code_simp
  moreover from this have "rejoin (nat 1) [''abc'', ''cde'', ''efg''] = ''abcdefg''" using chunk_text_covers [of "''abcdefg''" 3 1] by blast
  ultimately show ?thesis by simp
qed

end
