(* ===== verification/RagQueue.thy ===== *)
theory RagQueue
  imports RagIngest
begin

text \<open>
  The ingestion queue, \<open>RAGIngestionQueue\<close> of \<open>app/rag/queue.py\<close>: requests submit documents, one worker
  task takes them from an \<open>asyncio.Queue\<close> and calls the ingestion service.

  The event loop runs one piece of code between two \<open>await\<close>s at a time; each such piece is an operation of
  the model, and a run is any interleaving of them. \<open>stop\<close> has two pieces, before and after it awaits the
  worker. The clock and fresh task ids are arguments.
\<close>

section \<open>State\<close>

datatype task_status = QUEUED | PROCESSING | COMPLETED | FAILED

record ingestion_task =
  it_id :: string
  it_document_id :: "string option"
  it_filename :: string
  it_status :: task_status
  it_created_at :: int
  it_updated_at :: int
  it_owner :: string
  it_error :: "string option"
  it_error_code :: "string option"

record work_item =
  wi_task_id :: string
  wi_content :: string
  wi_filename :: "string option"
  wi_owner :: string

text \<open>The worker task: absent, waiting for an item, in \<open>_process\<close>, or ended.\<close>

datatype worker = NoWorker | Idle | Busy work_item | Ended

record rag_queue =
  rq_queue :: "work_item option list"
  rq_max_size :: int
  rq_tasks :: "(string, ingestion_task) pydict"
  rq_worker :: worker
  rq_accepting :: bool
  rq_stop_requested :: bool

datatype queue_error = RuntimeError string | QueueFull | BadOwner rag_error

definition new_queue :: "int \<Rightarrow> rag_queue" where
  "new_queue n = \<lparr>rq_queue = [], rq_max_size = n, rq_tasks = [], rq_worker = NoWorker, rq_accepting = False, rq_stop_requested = False\<rparr>"

definition is_running :: "rag_queue \<Rightarrow> bool" where
  "is_running q \<longleftrightarrow> rq_worker q \<noteq> NoWorker \<and> rq_worker q \<noteq> Ended"

section \<open>Operations\<close>

definition start :: "rag_queue \<Rightarrow> queue_error + rag_queue" where
  "start q =
     (if is_running q then Inr q
      else if rq_stop_requested q then Inl (RuntimeError ''RAG ingestion queue cannot be restarted after stop'')
      else Inr (q\<lparr>rq_accepting := True, rq_worker := Idle\<rparr>))"

definition submit ::
  "int \<Rightarrow> string \<Rightarrow> string \<Rightarrow> string option \<Rightarrow> string \<Rightarrow> rag_queue \<Rightarrow> (queue_error + ingestion_task) \<times> rag_queue" where
  "submit now task_id content filename owner q =
     (if \<not> rq_accepting q \<or> \<not> is_running q then (Inl (RuntimeError ''RAG ingestion worker is not running''), q)
      else
        (case validate_owner_key_hash (Some owner) of
           Inl e \<Rightarrow> (Inl (BadOwner e), q)
         | Inr h \<Rightarrow>
             (let task = \<lparr>it_id = task_id, it_document_id = None,
                    it_filename = (case filename of None \<Rightarrow> ''document.pdf'' | Some f \<Rightarrow> if f = [] then ''document.pdf'' else f),
                    it_status = QUEUED, it_created_at = now, it_updated_at = now, it_owner = h, it_error = None, it_error_code = None\<rparr>;
                  item = \<lparr>wi_task_id = task_id, wi_content = content, wi_filename = filename, wi_owner = h\<rparr>;
                  tasks = dset task_id task (rq_tasks q)
              in if 0 < rq_max_size q \<and> rq_max_size q \<le> int (length (rq_queue q))
                 then (Inl QueueFull, q\<lparr>rq_tasks := ddel task_id tasks\<rparr>)
                 else (Inr task, q\<lparr>rq_tasks := tasks, rq_queue := rq_queue q @ [Some item]\<rparr>))))"

definition get_task :: "string \<Rightarrow> string \<Rightarrow> rag_queue \<Rightarrow> rag_error + ingestion_task option" where
  "get_task task_id owner q =
     (case dget (rq_tasks q) task_id of
        None \<Rightarrow> Inr None
      | Some t \<Rightarrow>
          (case validate_owner_key_hash (Some owner) of
             Inl e \<Rightarrow> Inl e
           | Inr h \<Rightarrow> Inr (if it_owner t \<noteq> h then None else Some t)))"

definition update_task ::
  "int \<Rightarrow> string \<Rightarrow> task_status \<Rightarrow> string option \<Rightarrow> string option \<Rightarrow> string option \<Rightarrow> rag_queue \<Rightarrow> rag_queue" where
  "update_task now task_id status document_id error error_code q =
     (case dget (rq_tasks q) task_id of
        None \<Rightarrow> q
      | Some t \<Rightarrow>
          q\<lparr>rq_tasks := dset task_id
             (t\<lparr>it_document_id := (case document_id of None \<Rightarrow> it_document_id t | Some d \<Rightarrow> Some d), it_status := status,
                it_updated_at := now, it_error := error, it_error_code := error_code\<rparr>) (rq_tasks q)\<rparr>)"

definition safe_error_message :: "rag_error \<Rightarrow> string" where
  "safe_error_message e =
     (case e of
        DocumentInvalid _ \<Rightarrow> ''pdf_unreadable''
      | ConflictError _ \<Rightarrow> ''document_conflict''
      | ProviderUnavailable _ \<Rightarrow> ''embedding_unavailable''
      | ProviderError _ \<Rightarrow> ''embedding_failed''
      | StorageUnavailable _ \<Rightarrow> ''storage_unavailable''
      | _ \<Rightarrow> ''ingestion_failed'')"

definition safe_error_code :: "rag_error \<Rightarrow> string" where
  "safe_error_code e =
     (case e of
        DocumentInvalid _ \<Rightarrow> ''RAG_DOCUMENT_INVALID''
      | ConflictError _ \<Rightarrow> ''CONFLICT_ERROR''
      | ProviderUnavailable _ \<Rightarrow> ''RAG_EMBEDDING_UNAVAILABLE''
      | ProviderError _ \<Rightarrow> ''RAG_EMBEDDING_FAILED''
      | StorageUnavailable _ \<Rightarrow> ''RAG_STORAGE_UNAVAILABLE''
      | _ \<Rightarrow> ''RAG_INGESTION_FAILED'')"

text \<open>The worker takes the next item: it ends on \<open>None\<close>, and otherwise begins \<open>_process\<close>.\<close>

definition worker_get :: "int \<Rightarrow> rag_queue \<Rightarrow> rag_queue option" where
  "worker_get now q =
     (case (rq_worker q, rq_queue q) of
        (Idle, None # rest) \<Rightarrow> Some (q\<lparr>rq_queue := rest, rq_worker := Ended\<rparr>)
      | (Idle, Some item # rest) \<Rightarrow>
          Some (update_task now (wi_task_id item) PROCESSING None None None (q\<lparr>rq_queue := rest, rq_worker := Busy item\<rparr>))
      | _ \<Rightarrow> None)"

text \<open>The ingestion service returns or raises; a cancelled worker ends and leaves its task as it is.\<close>

definition process_end :: "int \<Rightarrow> rag_error + ingested_document \<Rightarrow> rag_queue \<Rightarrow> rag_queue option" where
  "process_end now outcome q =
     (case rq_worker q of
        Busy item \<Rightarrow>
          Some ((case outcome of
                   Inl e \<Rightarrow> update_task now (wi_task_id item) FAILED None (Some (safe_error_message e)) (Some (safe_error_code e)) q
                 | Inr d \<Rightarrow> update_task now (wi_task_id item) COMPLETED (Some (in_document_id d)) None None q)\<lparr>rq_worker := Idle\<rparr>)
      | _ \<Rightarrow> None)"

definition worker_cancelled :: "rag_queue \<Rightarrow> rag_queue option" where
  "worker_cancelled q = (if is_running q then Some (q\<lparr>rq_worker := Ended\<rparr>) else None)"

definition discard_queued_work :: "int \<Rightarrow> rag_queue \<Rightarrow> rag_queue" where
  "discard_queued_work now q =
     fold (\<lambda>w q. case w of None \<Rightarrow> q
              | Some item \<Rightarrow> update_task now (wi_task_id item) FAILED None (Some ''RAG ingestion worker stopped before processing'')
                               (Some ''RAG_INGESTION_FAILED'') q)
       (rq_queue q) (q\<lparr>rq_queue := []\<rparr>)"

definition unfinished :: "ingestion_task \<Rightarrow> bool" where
  "unfinished t \<longleftrightarrow> it_status t = QUEUED \<or> it_status t = PROCESSING"

definition mark_unfinished_tasks_failed :: "int \<Rightarrow> rag_queue \<Rightarrow> rag_queue" where
  "mark_unfinished_tasks_failed now q =
     q\<lparr>rq_tasks := map (\<lambda>(i, t). (i, if unfinished t
        then t\<lparr>it_status := FAILED, it_updated_at := now, it_error := Some ''RAG ingestion worker stopped'',
               it_error_code := Some ''RAG_INGESTION_FAILED''\<rparr> else t)) (rq_tasks q)\<rparr>"

text \<open>\<open>stop\<close> up to the point where it awaits the worker, and from there.\<close>

definition stop_begin :: "int \<Rightarrow> rag_queue \<Rightarrow> rag_queue" where
  "stop_begin now q =
     (let q1 = q\<lparr>rq_accepting := False, rq_stop_requested := True\<rparr>
      in if rq_worker q1 = NoWorker then mark_unfinished_tasks_failed now q1
         else (let q2 = discard_queued_work now q1
               in if is_running q2 then q2\<lparr>rq_queue := rq_queue q2 @ [None]\<rparr> else q2))"

definition stop_end :: "int \<Rightarrow> rag_queue \<Rightarrow> rag_queue option" where
  "stop_end now q =
     (if rq_stop_requested q \<and> rq_worker q = Ended
      then Some (mark_unfinished_tasks_failed now (q\<lparr>rq_worker := NoWorker\<rparr>)) else None)"

section \<open>Runs\<close>

text \<open>
  The reachable states, with the tasks that \<open>submit\<close> returned, in order, and the ids of the tasks in whose processing
  a worker was cancelled.
\<close>

inductive reach :: "int \<Rightarrow> ingestion_task list \<Rightarrow> string set \<Rightarrow> rag_queue \<Rightarrow> bool" for n where
  init: "reach n [] {} (new_queue n)"
| start: "reach n accepted interrupted q \<Longrightarrow> start q = Inr q' \<Longrightarrow> reach n accepted interrupted q'"
| submit: "reach n accepted interrupted q \<Longrightarrow> dget (rq_tasks q) i = None \<Longrightarrow>
    submit now i content filename owner q = (res, q') \<Longrightarrow>
    reach n (case res of Inl _ \<Rightarrow> accepted | Inr task \<Rightarrow> accepted @ [task]) interrupted q'"
| get: "reach n accepted interrupted q \<Longrightarrow> worker_get now q = Some q' \<Longrightarrow> reach n accepted interrupted q'"
| process: "reach n accepted interrupted q \<Longrightarrow> process_end now outcome q = Some q' \<Longrightarrow> reach n accepted interrupted q'"
| cancel: "reach n accepted interrupted q \<Longrightarrow> worker_cancelled q = Some q' \<Longrightarrow>
    reach n accepted (case rq_worker q of Busy item \<Rightarrow> insert (wi_task_id item) interrupted | _ \<Rightarrow> interrupted) q'"
| stop: "reach n accepted interrupted q \<Longrightarrow> reach n accepted interrupted (stop_begin now q)"
| stopped: "reach n accepted interrupted q \<Longrightarrow> stop_end now q = Some q' \<Longrightarrow> reach n accepted interrupted q'"

definition queued_ids :: "rag_queue \<Rightarrow> string list" where
  "queued_ids q = List.map_filter (map_option wi_task_id) (rq_queue q)"

definition busy_id :: "rag_queue \<Rightarrow> string option" where
  "busy_id q = (case rq_worker q of Busy item \<Rightarrow> Some (wi_task_id item) | _ \<Rightarrow> None)"

text \<open>Where a task is: in the queue, with the worker, with a worker that was cancelled, or finished.\<close>

definition place_ok :: "string set \<Rightarrow> rag_queue \<Rightarrow> string \<Rightarrow> ingestion_task \<Rightarrow> bool" where
  "place_ok interrupted q i t =
     (case it_status t of
        QUEUED \<Rightarrow> i \<in> set (queued_ids q) \<and> busy_id q \<noteq> Some i
      | PROCESSING \<Rightarrow> i \<notin> set (queued_ids q) \<and> (busy_id q = Some i \<or> i \<in> interrupted)
      | COMPLETED \<Rightarrow> i \<notin> set (queued_ids q) \<and> busy_id q \<noteq> Some i \<and> it_document_id t \<noteq> None
      | FAILED \<Rightarrow> i \<notin> set (queued_ids q) \<and> busy_id q \<noteq> Some i \<and> it_error_code t \<noteq> None)"

definition queue_inv :: "string set \<Rightarrow> rag_queue \<Rightarrow> bool" where
  "queue_inv interrupted q \<longleftrightarrow> dict_wf (rq_tasks q) \<and> distinct (queued_ids q) \<and>
     set (queued_ids q) \<subseteq> dom (dget (rq_tasks q)) \<and> (\<forall>i. busy_id q = Some i \<longrightarrow> dget (rq_tasks q) i \<noteq> None) \<and>
     (\<forall>i t. dget (rq_tasks q) i = Some t \<longrightarrow> it_id t = i \<and> place_ok interrupted q i t) \<and>
     (rq_stop_requested q \<longrightarrow> queued_ids q = [] \<and> \<not> rq_accepting q) \<and>
     (rq_worker q = NoWorker \<longrightarrow> queued_ids q = []) \<and>
     (rq_stop_requested q \<and> rq_worker q = NoWorker \<longrightarrow> (\<forall>t \<in> set (dvalues (rq_tasks q)). \<not> unfinished t))"

section \<open>The invariant\<close>

lemma queued_ids_simps [simp]:
  "queued_ids (q\<lparr>rq_queue := []\<rparr>) = []"
  "queued_ids (q\<lparr>rq_queue := w # ws\<rparr>) = (case w of None \<Rightarrow> [] | Some item \<Rightarrow> [wi_task_id item]) @ queued_ids (q\<lparr>rq_queue := ws\<rparr>)"
  "queued_ids (q\<lparr>rq_queue := rq_queue q @ [w]\<rparr>) = queued_ids q @ (case w of None \<Rightarrow> [] | Some item \<Rightarrow> [wi_task_id item])"
  "queued_ids (q\<lparr>rq_tasks := ts\<rparr>) = queued_ids q" "queued_ids (q\<lparr>rq_worker := w'\<rparr>) = queued_ids q"
  "queued_ids (q\<lparr>rq_accepting := b\<rparr>) = queued_ids q" "queued_ids (q\<lparr>rq_stop_requested := b\<rparr>) = queued_ids q"
  by (auto simp: queued_ids_def List.map_filter_def split: option.splits)

lemma queued_ids_cong: "rq_queue q = rq_queue q' \<Longrightarrow> queued_ids q = queued_ids q'"
  by (simp add: queued_ids_def)

lemma busy_id_simps [simp]:
  "busy_id (q\<lparr>rq_queue := ws\<rparr>) = busy_id q" "busy_id (q\<lparr>rq_tasks := ts\<rparr>) = busy_id q"
  "busy_id (q\<lparr>rq_accepting := b\<rparr>) = busy_id q" "busy_id (q\<lparr>rq_stop_requested := b\<rparr>) = busy_id q"
  "busy_id (q\<lparr>rq_worker := w\<rparr>) = (case w of Busy item \<Rightarrow> Some (wi_task_id item) | _ \<Rightarrow> None)"
  by (simp_all add: busy_id_def)

lemma place_ok_cong:
  "queued_ids q = queued_ids q' \<Longrightarrow> busy_id q = busy_id q' \<Longrightarrow> place_ok interrupted q i t = place_ok interrupted q' i t"
  by (simp add: place_ok_def split: task_status.split)

text \<open>The parts of the state that an update of a task leaves alone.\<close>

lemma update_task_simps [simp]:
  "rq_queue (update_task now i st d e c q) = rq_queue q" "rq_worker (update_task now i st d e c q) = rq_worker q"
  "rq_accepting (update_task now i st d e c q) = rq_accepting q" "rq_stop_requested (update_task now i st d e c q) = rq_stop_requested q"
  "queued_ids (update_task now i st d e c q) = queued_ids q" "busy_id (update_task now i st d e c q) = busy_id q"
  by (simp_all add: update_task_def split: option.split)

lemma update_task_get:
  "dget (rq_tasks (update_task now i st d e c q)) j =
     (if j = i then map_option (\<lambda>t. t\<lparr>it_document_id := (case d of None \<Rightarrow> it_document_id t | Some x \<Rightarrow> Some x), it_status := st,
        it_updated_at := now, it_error := e, it_error_code := c\<rparr>) (dget (rq_tasks q) i) else dget (rq_tasks q) j)"
  by (simp add: update_task_def split: option.split)

lemma update_task_wf: "dict_wf (rq_tasks q) \<Longrightarrow> dict_wf (rq_tasks (update_task now i st d e c q))"
  by (simp add: update_task_def split: option.split)

lemma queue_invD:
  assumes "queue_inv interrupted q"
  shows "dict_wf (rq_tasks q)" and "distinct (queued_ids q)" and "i \<in> set (queued_ids q) \<Longrightarrow> \<exists>t. dget (rq_tasks q) i = Some t"
    and "busy_id q = Some i \<Longrightarrow> \<exists>t. dget (rq_tasks q) i = Some t"
    and "dget (rq_tasks q) i = Some t \<Longrightarrow> it_id t = i" and "dget (rq_tasks q) i = Some t \<Longrightarrow> place_ok interrupted q i t"
    and "rq_stop_requested q \<Longrightarrow> queued_ids q = [] \<and> \<not> rq_accepting q"
    and "rq_worker q = NoWorker \<Longrightarrow> queued_ids q = []"
  using assms unfolding queue_inv_def by (auto simp: subset_iff dom_def)

lemma queue_invI:
  assumes "dict_wf (rq_tasks q)" and "distinct (queued_ids q)"
    and "\<And>i. i \<in> set (queued_ids q) \<Longrightarrow> dget (rq_tasks q) i \<noteq> None" and "\<And>i. busy_id q = Some i \<Longrightarrow> dget (rq_tasks q) i \<noteq> None"
    and "\<And>i t. dget (rq_tasks q) i = Some t \<Longrightarrow> it_id t = i \<and> place_ok interrupted q i t"
    and "rq_stop_requested q \<Longrightarrow> queued_ids q = [] \<and> \<not> rq_accepting q" and "rq_worker q \<noteq> NoWorker"
  shows "queue_inv interrupted q"
  unfolding queue_inv_def using assms by blast

lemma queue_invI_idle:
  assumes "dict_wf (rq_tasks q)" and "queued_ids q = []" and "busy_id q = None" and "\<not> rq_accepting q"
    and "\<And>i t. dget (rq_tasks q) i = Some t \<Longrightarrow> it_id t = i \<and> place_ok interrupted q i t" and "\<forall>t \<in> set (dvalues (rq_tasks q)). \<not> unfinished t"
  shows "queue_inv interrupted q"
  unfolding queue_inv_def using assms by (simp del: set_map)

lemma inv_keep:
  assumes inv: "queue_inv interrupted q" and same: "rq_tasks q' = rq_tasks q" "queued_ids q' = queued_ids q"
    and place: "\<And>i t. place_ok interrupted q i t \<Longrightarrow> place_ok interrupted' q' i t"
    and flags: "busy_id q' = busy_id q \<or> busy_id q' = None" "rq_stop_requested q' = rq_stop_requested q"
      "rq_accepting q' \<Longrightarrow> rq_accepting q \<or> \<not> rq_stop_requested q" "rq_worker q' \<noteq> NoWorker"
  shows "queue_inv interrupted' q'"
proof (rule queue_invI)
  show "dict_wf (rq_tasks q')" "distinct (queued_ids q')" using queue_invD(1,2) [OF inv] same by simp_all
  show "\<And>i. i \<in> set (queued_ids q') \<Longrightarrow> dget (rq_tasks q') i \<noteq> None" using queue_invD(3) [OF inv] same by fastforce
  show "\<And>i. busy_id q' = Some i \<Longrightarrow> dget (rq_tasks q') i \<noteq> None" using queue_invD(4) [OF inv] same(1) flags(1) by fastforce
  show "\<And>i t. dget (rq_tasks q') i = Some t \<Longrightarrow> it_id t = i \<and> place_ok interrupted' q' i t" using queue_invD(5,6) [OF inv] same(1) place by auto
  show "rq_stop_requested q' \<Longrightarrow> queued_ids q' = [] \<and> \<not> rq_accepting q'" using queue_invD(7) [OF inv] same(2) flags(2,3) by auto
qed (rule flags(4))

lemma inv_init: "queue_inv {} (new_queue n)"
  by (simp add: queue_inv_def new_queue_def queued_ids_def busy_id_def List.map_filter_simps)

lemma inv_start:
  assumes inv: "queue_inv interrupted q" and "start q = Inr q'"
  shows "queue_inv interrupted q'"
proof (cases "is_running q")
  case True
  with assms show ?thesis by (simp add: start_def)
next
  case False
  with assms(2) have q': "q' = q\<lparr>rq_accepting := True, rq_worker := Idle\<rparr>" "\<not> rq_stop_requested q" by (auto simp: start_def split: if_splits)
  have busy: "busy_id q' = busy_id q" using False by (auto simp: q'(1) busy_id_def is_running_def split: worker.splits)
  have ids: "queued_ids q' = queued_ids q" by (simp add: q'(1))
  show ?thesis using inv by (rule inv_keep) (use q' busy ids place_ok_cong [of q q' interrupted] in simp_all)
qed

lemma ddel_dset_new: "dget d k = None \<Longrightarrow> ddel k (dset k v d) = d"
  by (induction d) (auto simp: AList.delete_eq split: if_splits)

lemma place_ok_other: "i \<noteq> j \<Longrightarrow> set (queued_ids q') - {j} = set (queued_ids q) - {j} \<Longrightarrow>
    (busy_id q = Some i \<longleftrightarrow> busy_id q' = Some i) \<Longrightarrow> place_ok interrupted q i t \<Longrightarrow> place_ok interrupted q' i t"
  unfolding place_ok_def by (cases "it_status t") auto

lemma submit_accepted:
  assumes "submit now i content filename owner q = (Inr t, q')"
  shows "rq_accepting q \<and> is_running q \<and> it_id t = i \<and> it_status t = QUEUED \<and> it_owner t = owner \<and>
    q' = q\<lparr>rq_tasks := dset i t (rq_tasks q),
      rq_queue := rq_queue q @ [Some \<lparr>wi_task_id = i, wi_content = content, wi_filename = filename, wi_owner = owner\<rparr>]\<rparr>"
  using assms by (auto simp: submit_def Let_def validate_owner_key_hash_def split: if_splits)

lemma inv_submit:
  assumes inv: "queue_inv interrupted q" and new: "dget (rq_tasks q) i = None" and s: "submit now i content filename owner q = (res, q')"
  shows "queue_inv interrupted q'"
proof (cases "\<exists>t. res = Inr t")
  case False
  then have "q' = q" using s new by (auto simp: submit_def Let_def ddel_dset_new split: if_splits sum.splits)
  with inv show ?thesis by simp
next
  case True
  then obtain t where "res = Inr t" by blast
  with submit_accepted s have acc: "rq_accepting q" "is_running q" and t: "it_id t = i" "it_status t = QUEUED"
    and q': "q' = q\<lparr>rq_tasks := dset i t (rq_tasks q),
      rq_queue := rq_queue q @ [Some \<lparr>wi_task_id = i, wi_content = content, wi_filename = filename, wi_owner = owner\<rparr>]\<rparr>"
    by blast+
  have ids: "queued_ids q' = queued_ids q @ [i]" by (simp add: q' queued_ids_def List.map_filter_def)
  have busy: "busy_id q' = busy_id q" "busy_id q \<noteq> Some i" using queue_invD(4) [OF inv, of i] new by (auto simp: q' busy_id_def)
  have fresh: "i \<notin> set (queued_ids q)" using queue_invD(3) [OF inv] new by fastforce
  have no_stop: "\<not> rq_stop_requested q" using acc(1) queue_invD(7) [OF inv] by blast
  have "it_id t' = j \<and> place_ok interrupted q' j t'" if "dget (rq_tasks q') j = Some t'" for j t'
  proof (cases "j = i")
    case True
    with that t ids busy show ?thesis by (simp add: q' place_ok_def)
  next
    case False
    with that have "dget (rq_tasks q) j = Some t'" by (simp add: q')
    with queue_invD(5,6) [OF inv this] place_ok_other [OF False, of q' q interrupted t'] ids busy show ?thesis by auto
  qed
  moreover have "distinct (queued_ids q')" using ids fresh queue_invD(2) [OF inv] by simp
  moreover have "\<And>j. j \<in> set (queued_ids q') \<Longrightarrow> dget (rq_tasks q') j \<noteq> None" using ids queue_invD(3) [OF inv] by (auto simp: q')
  moreover have "\<And>j. busy_id q' = Some j \<Longrightarrow> dget (rq_tasks q') j \<noteq> None" using busy queue_invD(4) [OF inv] by (auto simp: q')
  ultimately show ?thesis using queue_invD(1) [OF inv] no_stop acc(2) by (intro queue_invI) (auto simp: q' is_running_def)
qed

text \<open>A task gets its next status and leaves the queue; nothing else changes place.\<close>

lemma inv_move:
  assumes inv: "queue_inv interrupted q" and i: "dget (rq_tasks q) i = Some t0"
    and ts: "rq_tasks q' = rq_tasks (update_task now i st d e c q)"
    and ids: "set (queued_ids q') = set (queued_ids q) - {i}" "distinct (queued_ids q')"
    and busy: "\<forall>j. j \<noteq> i \<longrightarrow> (busy_id q = Some j \<longleftrightarrow> busy_id q' = Some j)"
    and place: "st = PROCESSING \<and> busy_id q' = Some i \<or> st = COMPLETED \<and> d \<noteq> None \<and> busy_id q' \<noteq> Some i \<or>
      st = FAILED \<and> c \<noteq> None \<and> busy_id q' \<noteq> Some i"
    and flags: "rq_stop_requested q' = rq_stop_requested q" "rq_accepting q' = rq_accepting q" "rq_worker q' \<noteq> NoWorker"
  shows "queue_inv interrupted q'"
proof -
  have get: "dget (rq_tasks q') j = (if j = i then Some (t0\<lparr>it_document_id := (case d of None \<Rightarrow> it_document_id t0 | Some x \<Rightarrow> Some x), it_status := st,
        it_updated_at := now, it_error := e, it_error_code := c\<rparr>) else dget (rq_tasks q) j)" for j
    using i by (simp add: ts update_task_get)
  have "it_id t = j \<and> place_ok interrupted q' j t" if t: "dget (rq_tasks q') j = Some t" for j t
  proof (cases "j = i")
    case True
    with t get have "t = t0\<lparr>it_document_id := (case d of None \<Rightarrow> it_document_id t0 | Some x \<Rightarrow> Some x), it_status := st,
        it_updated_at := now, it_error := e, it_error_code := c\<rparr>" by simp
    then have "it_id t = it_id t0" "it_status t = st" "it_error_code t = c" "d \<noteq> None \<Longrightarrow> it_document_id t \<noteq> None" by auto
    with True place ids(1) queue_invD(5) [OF inv i] show ?thesis by (cases st) (simp_all add: place_ok_def)
  next
    case False
    with t get have t': "dget (rq_tasks q) j = Some t" by simp
    from place_ok_other [OF False _ _ queue_invD(6) [OF inv t'], of q'] ids(1) busy False queue_invD(5) [OF inv t']
    show ?thesis by simp
  qed
  moreover have "dget (rq_tasks q') j \<noteq> None" if "j \<in> set (queued_ids q')" for j
    using that ids(1) queue_invD(3) [OF inv, of j] get by auto
  moreover have "dget (rq_tasks q') j \<noteq> None" if "busy_id q' = Some j" for j
    using that busy queue_invD(4) [OF inv, of j] get by (cases "j = i") auto
  moreover have "rq_stop_requested q' \<Longrightarrow> queued_ids q' = [] \<and> \<not> rq_accepting q'"
    using flags ids(1) queue_invD(7) [OF inv] by simp
  moreover have "dict_wf (rq_tasks q')" using update_task_wf [OF queue_invD(1) [OF inv]] ts by simp
  ultimately show ?thesis using ids(2) flags(3) by (intro queue_invI) blast+
qed

lemma inv_get:
  assumes inv: "queue_inv interrupted q" and g: "worker_get now q = Some q'"
  shows "queue_inv interrupted q'"
proof -
  from g consider rest where "rq_worker q = Idle" "rq_queue q = None # rest" "q' = q\<lparr>rq_queue := rest, rq_worker := Ended\<rparr>"
    | item rest where "rq_worker q = Idle" "rq_queue q = Some item # rest"
      "q' = update_task now (wi_task_id item) PROCESSING None None None (q\<lparr>rq_queue := rest, rq_worker := Busy item\<rparr>)"
    by (auto simp: worker_get_def split: worker.splits list.splits option.splits)
  then show ?thesis
  proof cases
    case 1
    then have "queued_ids q' = queued_ids q" "busy_id q' = busy_id q" by (simp_all add: queued_ids_def busy_id_def List.map_filter_simps)
    then show ?thesis by (intro inv_keep [OF inv]) (use 1 place_ok_cong [of q' q interrupted] in simp_all)
  next
    case 2
    have ids: "queued_ids q = wi_task_id item # queued_ids q'"
      using 2 by (simp add: queued_ids_def List.map_filter_simps)
    then obtain t0 where "dget (rq_tasks q) (wi_task_id item) = Some t0" using queue_invD(3) [OF inv] by force
    then show ?thesis
      by (rule inv_move [OF inv, where q' = q' and st = PROCESSING and d = None and e = None and c = None and now = now])
        (use 2 ids queue_invD(2) [OF inv] in \<open>auto simp: busy_id_def update_task_def split: option.split\<close>)
  qed
qed

lemma inv_process:
  assumes inv: "queue_inv interrupted q" and g: "process_end now outcome q = Some q'"
  shows "queue_inv interrupted q'"
proof -
  from g obtain item st d e c where w: "rq_worker q = Busy item" and q': "q' = (update_task now (wi_task_id item) st d e c q)\<lparr>rq_worker := Idle\<rparr>"
    and st: "st = COMPLETED \<and> d \<noteq> None \<or> st = FAILED \<and> c \<noteq> None"
    by (auto simp: process_end_def split: worker.splits sum.splits)
  have busy: "busy_id q = Some (wi_task_id item)" using w by (simp add: busy_id_def)
  then obtain t0 where t0: "dget (rq_tasks q) (wi_task_id item) = Some t0" using queue_invD(4) [OF inv] by blast
  have "wi_task_id item \<notin> set (queued_ids q)"
    using queue_invD(6) [OF inv t0] busy by (auto simp: place_ok_def split: task_status.splits)
  then show ?thesis
    by (intro inv_move [OF inv t0, where q' = q' and st = st and d = d and e = e and c = c and now = now])
      (use q' st w busy queue_invD(2) [OF inv] in \<open>auto simp: busy_id_def\<close>)
qed

lemma inv_cancel:
  assumes inv: "queue_inv interrupted q" and "worker_cancelled q = Some q'"
  shows "queue_inv (case rq_worker q of Busy item \<Rightarrow> insert (wi_task_id item) interrupted | _ \<Rightarrow> interrupted) q'"
proof -
  have q': "q' = q\<lparr>rq_worker := Ended\<rparr>" using assms(2) by (auto simp: worker_cancelled_def split: if_splits)
  have "busy_id q' = None" "queued_ids q' = queued_ids q" by (simp_all add: q')
  then show ?thesis
    by (intro inv_keep [OF inv]) (auto simp: q' place_ok_def busy_id_def split: task_status.splits worker.splits)
qed

definition discard_one :: "int \<Rightarrow> work_item option \<Rightarrow> rag_queue \<Rightarrow> rag_queue" where
  "discard_one now w q = (case w of None \<Rightarrow> q
     | Some item \<Rightarrow> update_task now (wi_task_id item) FAILED None (Some ''RAG ingestion worker stopped before processing'')
                      (Some ''RAG_INGESTION_FAILED'') q)"

lemma discard_fold: "discard_queued_work now q = fold (discard_one now) (rq_queue q) (q\<lparr>rq_queue := []\<rparr>)"
  by (simp add: discard_queued_work_def discard_one_def [abs_def])

lemma discard_one_simps [simp]:
  "rq_queue (discard_one now w q) = rq_queue q" "rq_worker (discard_one now w q) = rq_worker q"
  "rq_accepting (discard_one now w q) = rq_accepting q" "rq_stop_requested (discard_one now w q) = rq_stop_requested q"
  by (simp_all add: discard_one_def split: option.split)

lemma discard_one_queue: "discard_one now w (q\<lparr>rq_queue := ws\<rparr>) = (discard_one now w q)\<lparr>rq_queue := ws\<rparr>"
  by (simp add: discard_one_def update_task_def split: option.split)

lemma discard_one_flags:
  "discard_one now w (q\<lparr>rq_accepting := a, rq_stop_requested := b\<rparr>) = (discard_one now w q)\<lparr>rq_accepting := a, rq_stop_requested := b\<rparr>"
  by (simp add: discard_one_def update_task_def split: option.split)

lemma discard_fold_flags:
  "fold (discard_one now) ws (q\<lparr>rq_accepting := a, rq_stop_requested := b\<rparr>) = (fold (discard_one now) ws q)\<lparr>rq_accepting := a, rq_stop_requested := b\<rparr>"
  by (induction ws arbitrary: q) (simp_all add: discard_one_flags)

lemma inv_discard_one:
  assumes inv: "queue_inv interrupted q" and q: "rq_queue q = w # ws" "rq_worker q \<noteq> NoWorker"
  shows "queue_inv interrupted (discard_one now w (q\<lparr>rq_queue := ws\<rparr>))"
proof (cases w)
  case None
  have "queued_ids (q\<lparr>rq_queue := ws\<rparr>) = queued_ids q" using q None by (simp add: queued_ids_def List.map_filter_simps)
  then show ?thesis unfolding None discard_one_def option.case
    by (intro inv_keep [OF inv]) (use q(2) place_ok_cong [of "q\<lparr>rq_queue := ws\<rparr>" q interrupted] in simp_all)
next
  case (Some item)
  let ?q = "discard_one now w (q\<lparr>rq_queue := ws\<rparr>)"
  have ids: "queued_ids q = wi_task_id item # queued_ids ?q"
    using q Some by (simp add: queued_ids_def List.map_filter_simps)
  then obtain t0 where t0: "dget (rq_tasks q) (wi_task_id item) = Some t0" using queue_invD(3) [OF inv] by force
  have "it_status t0 = QUEUED" using queue_invD(6) [OF inv t0] ids by (auto simp: place_ok_def split: task_status.splits)
  then have "busy_id q \<noteq> Some (wi_task_id item)" using queue_invD(6) [OF inv t0] by (simp add: place_ok_def)
  moreover have "busy_id ?q = busy_id q" "rq_tasks ?q = rq_tasks (update_task now (wi_task_id item) FAILED None
      (Some ''RAG ingestion worker stopped before processing'') (Some ''RAG_INGESTION_FAILED'') q)"
    using Some by (simp_all add: discard_one_def update_task_def split: option.split)
  ultimately show ?thesis
    by (intro inv_move [OF inv t0, where q' = ?q and st = FAILED and d = None and now = now and
          e = "Some ''RAG ingestion worker stopped before processing''" and c = "Some ''RAG_INGESTION_FAILED''"])
      (use ids queue_invD(2) [OF inv] q(2) in auto)
qed

lemma inv_discard:
  assumes "queue_inv interrupted q" and "rq_worker q \<noteq> NoWorker"
  shows "queue_inv interrupted (fold (discard_one now) (rq_queue q) (q\<lparr>rq_queue := []\<rparr>)) \<and>
    rq_worker (fold (discard_one now) (rq_queue q) (q\<lparr>rq_queue := []\<rparr>)) = rq_worker q \<and>
    queued_ids (fold (discard_one now) (rq_queue q) (q\<lparr>rq_queue := []\<rparr>)) = []"
  using assms
proof (induction "rq_queue q" arbitrary: q)
  case Nil
  then have e: "q\<lparr>rq_queue := []\<rparr> = q" by (cases q) simp
  show ?case unfolding Nil.hyps [symmetric] fold_simps e using Nil by (simp add: Nil.hyps [symmetric] queued_ids_def List.map_filter_simps)
next
  case (Cons w ws)
  let ?q = "discard_one now w (q\<lparr>rq_queue := ws\<rparr>)"
  have "queue_inv interrupted ?q" by (rule inv_discard_one [OF Cons.prems(1) Cons.hyps(2) [symmetric] Cons.prems(2)])
  moreover have "fold (discard_one now) (rq_queue q) (q\<lparr>rq_queue := []\<rparr>) = fold (discard_one now) ws (?q\<lparr>rq_queue := []\<rparr>)"
    unfolding Cons.hyps(2) [symmetric] by (simp add: discard_one_queue)
  ultimately show ?case using Cons.hyps(1) [of ?q] Cons.prems(2) by simp
qed

lemma inv_mark:
  assumes wf: "dict_wf (rq_tasks q)" and place: "\<And>i t. dget (rq_tasks q) i = Some t \<Longrightarrow> it_id t = i \<and> place_ok interrupted q i t"
    and q: "queued_ids q = []" "busy_id q = None" "\<not> rq_accepting q"
  shows "queue_inv interrupted (mark_unfinished_tasks_failed now q)"
proof -
  define f where "f t = (if unfinished t then t\<lparr>it_status := FAILED, it_updated_at := now, it_error := Some ''RAG ingestion worker stopped'',
    it_error_code := Some ''RAG_INGESTION_FAILED''\<rparr> else t)" for t
  let ?q = "mark_unfinished_tasks_failed now q"
  have ts: "rq_tasks ?q = map (\<lambda>(i, t). (i, f t)) (rq_tasks q)"
    by (simp add: mark_unfinished_tasks_failed_def f_def)
  have get: "dget (rq_tasks ?q) i = map_option f (dget (rq_tasks q) i)" for i unfolding ts by (simp add: map_of_map)
  have keys: "map fst (rq_tasks ?q) = map fst (rq_tasks q)" unfolding ts by (induction "rq_tasks q") auto
  have fin: "\<not> unfinished (f t)" "it_id (f t) = it_id t" for t by (simp_all add: f_def unfinished_def)
  have same: "queued_ids ?q = queued_ids q" "busy_id ?q = busy_id q" "rq_accepting ?q = rq_accepting q"
    by (simp_all add: mark_unfinished_tasks_failed_def)
  have f: "place_ok interrupted q i (f t)" if "place_ok interrupted q i t" for i t
    using that q(1,2) by (cases "it_status t") (auto simp: f_def unfinished_def place_ok_def)
  show ?thesis
  proof (rule queue_invI_idle)
    show "dict_wf (rq_tasks ?q)" using wf by (simp only: dict_wf_def keys)
    show "it_id t = i \<and> place_ok interrupted ?q i t" if t: "dget (rq_tasks ?q) i = Some t" for i t
    proof -
      obtain t0 where "dget (rq_tasks q) i = Some t0" "t = f t0" using t get by auto
      with place [of i t0] f fin(2) show ?thesis by (simp add: place_ok_cong [OF same(1,2)])
    qed
    show "\<forall>t \<in> set (dvalues (rq_tasks ?q)). \<not> unfinished t" unfolding ts using fin(1) by auto
  qed (use q same in simp_all)
qed

lemma inv_stop_begin:
  assumes inv: "queue_inv interrupted q"
  shows "queue_inv interrupted (stop_begin now q)"
proof -
  define q1 where "q1 = q\<lparr>rq_accepting := False, rq_stop_requested := True\<rparr>"
  show ?thesis
  proof (cases "rq_worker q = NoWorker")
    case True
    then have "busy_id q = None" "queued_ids q = []" using queue_invD(8) [OF inv] by (simp_all add: busy_id_def)
    then have "queue_inv interrupted (mark_unfinished_tasks_failed now q1)"
      using queue_invD(1,5,6) [OF inv] place_ok_cong [of q1 q interrupted] by (intro inv_mark) (simp_all add: q1_def)
    then show ?thesis using True by (simp add: stop_begin_def q1_def)
  next
    case False
    let ?d = "fold (discard_one now) (rq_queue q) (q\<lparr>rq_queue := []\<rparr>)"
    have d: "queue_inv interrupted ?d" "rq_worker ?d = rq_worker q" "queued_ids ?d = []" using inv_discard [OF inv False, of now] by auto
    define q2 where "q2 = ?d\<lparr>rq_accepting := False, rq_stop_requested := True\<rparr>"
    have q2: "discard_queued_work now q1 = q2"
    proof -
      have "q1\<lparr>rq_queue := []\<rparr> = (q\<lparr>rq_queue := []\<rparr>)\<lparr>rq_accepting := False, rq_stop_requested := True\<rparr>" by (simp add: q1_def)
      then show ?thesis unfolding discard_fold q2_def by (simp only: discard_fold_flags) (simp add: q1_def)
    qed
    have w2: "rq_worker q2 = rq_worker q" using d(2) by (simp add: q2_def)
    have ids: "queued_ids q2 = []" using d(3) by (simp add: q2_def)
    have inv2: "queue_inv interrupted q2"
      using queue_invD [OF d(1)] d(3) False w2 place_ok_cong [of q2 ?d interrupted] by (intro queue_invI) (auto simp: q2_def)
    have "queue_inv interrupted (q2\<lparr>rq_queue := rq_queue q2 @ [None]\<rparr>)"
      by (rule inv_keep [OF inv2]) (use w2 False place_ok_cong [of "q2\<lparr>rq_queue := rq_queue q2 @ [None]\<rparr>" q2 interrupted] in simp_all)
    then show ?thesis using False inv2 q2 by (simp add: stop_begin_def q1_def [symmetric] Let_def) (simp add: q1_def)
  qed
qed

lemma inv_stop_end:
  assumes inv: "queue_inv interrupted q" and "stop_end now q = Some q'"
  shows "queue_inv interrupted q'"
proof -
  let ?q = "q\<lparr>rq_worker := NoWorker\<rparr>"
  from assms(2) have q: "rq_stop_requested q" "rq_worker q = Ended" "q' = mark_unfinished_tasks_failed now ?q"
    by (auto simp: stop_end_def split: if_splits)
  have "busy_id ?q = busy_id q" using q(2) by (simp add: busy_id_def)
  then show ?thesis unfolding q(3) using queue_invD(1,5,6) [OF inv] queue_invD(7) [OF inv q(1)] place_ok_cong [of ?q q interrupted]
    by (intro inv_mark) simp_all
qed

lemma reach_inv: "reach n accepted interrupted q \<Longrightarrow> queue_inv interrupted q"
  by (induction rule: reach.induct)
    (blast intro: inv_init inv_start inv_submit inv_get inv_process inv_cancel inv_stop_begin inv_stop_end)+

section \<open>The table of tasks\<close>

text \<open>What never changes of a task, and the stored tasks in the order of the dictionary.\<close>

definition identity :: "ingestion_task \<Rightarrow> string \<times> string \<times> int \<times> string" where
  "identity t = (it_id t, it_filename t, it_created_at t, it_owner t)"

definition roster :: "rag_queue \<Rightarrow> (string \<times> string \<times> string \<times> int \<times> string) list" where
  "roster q = map (\<lambda>(i, t). (i, identity t)) (rq_tasks q)"

lemma roster_simps [simp]:
  "roster (q\<lparr>rq_queue := ws\<rparr>) = roster q" "roster (q\<lparr>rq_worker := w\<rparr>) = roster q"
  "roster (q\<lparr>rq_accepting := b\<rparr>) = roster q" "roster (q\<lparr>rq_stop_requested := b\<rparr>) = roster q"
  by (simp_all add: roster_def)

lemma roster_update_task: "dict_wf (rq_tasks q) \<Longrightarrow> roster (update_task now i st d e c q) = roster q"
  by (auto simp: update_task_def roster_def dset_present identity_def dict_wf_def split: option.split dest: eq_key_imp_eq_value)

lemma roster_mark: "roster (mark_unfinished_tasks_failed now q) = roster q"
  by (auto simp: mark_unfinished_tasks_failed_def roster_def identity_def)

lemma roster_discard:
  assumes "dict_wf (rq_tasks q)"
  shows "roster (discard_queued_work now q) = roster q"
proof -
  have "dict_wf (rq_tasks p) \<Longrightarrow> roster (fold (discard_one now) ws p) = roster p" for ws p
    by (induction ws arbitrary: p) (auto simp: discard_one_def roster_update_task update_task_wf split: option.split)
  with assms show ?thesis by (simp add: discard_fold)
qed

lemma roster_stop_begin: "dict_wf (rq_tasks q) \<Longrightarrow> roster (stop_begin now q) = roster q"
  by (simp add: stop_begin_def Let_def roster_mark roster_discard)

lemma roster_submit:
  assumes "dget (rq_tasks q) i = None" and "submit now i content filename owner q = (res, q')"
  shows "roster q' = roster q @ (case res of Inl _ \<Rightarrow> [] | Inr t \<Rightarrow> [(it_id t, identity t)])"
proof -
  have "ddel i (dset i t (rq_tasks q)) = rq_tasks q" for t
    using assms(1) unfolding dset_absent [OF assms(1)]
    by (simp add: AList.delete_eq) (force simp: map_of_eq_None_iff intro!: filter_True)
  then show ?thesis using assms
    by (auto simp: submit_def Let_def roster_def dset_absent identity_def split: if_splits sum.splits)
qed

lemma reach_roster: "reach n accepted interrupted q \<Longrightarrow> roster q = map (\<lambda>t. (it_id t, identity t)) accepted"
proof (induction rule: reach.induct)
  case (submit accepted interrupted q i now content filename owner res q')
  then show ?case using roster_submit [OF submit.hyps(2,3)] by (simp split: sum.splits)
next
  case (get accepted interrupted q now q')
  then have "dict_wf (rq_tasks q)" using reach_inv queue_invD(1) by blast
  with get show ?case by (auto simp: worker_get_def roster_update_task split: worker.splits list.splits option.splits)
next
  case (process accepted interrupted q now outcome q')
  then have "dict_wf (rq_tasks q)" using reach_inv queue_invD(1) by blast
  with process show ?case by (auto simp: process_end_def roster_update_task split: worker.splits sum.splits)
next
  case (stop accepted interrupted q now)
  then show ?case using roster_stop_begin queue_invD(1) [OF reach_inv] by simp
qed (auto simp: new_queue_def roster_def start_def worker_cancelled_def stop_end_def
    roster_mark [unfolded roster_def] split: if_splits)

lemma accepted_stored:
  assumes "reach n accepted interrupted q" and "a \<in> set accepted"
  obtains t where "dget (rq_tasks q) (it_id a) = Some t" and "identity t = identity a"
proof -
  have "(it_id a, identity a) \<in> set (roster q)" using reach_roster [OF assms(1)] assms(2) by simp
  then obtain t where "(it_id a, t) \<in> set (rq_tasks q)" "identity t = identity a" by (auto simp: roster_def)
  with that [of t] queue_invD(1) [OF reach_inv [OF assms(1)]] show thesis by (simp add: dict_wf_def)
qed

section \<open>Properties of the queue\<close>

text \<open>
  C29: no ingestion task is lost. In every state of the queue, whatever requests, the worker, the ingestion
  service and \<open>stop\<close> did in whatever order, the tasks \<open>get_task\<close> can find are exactly the ones that
  \<open>submit\<close> returned, in that order and with the filename, the owner and the creation time of then. Each of them either
  waits in the queue as QUEUED; or is PROCESSING with the worker, or was with a worker that was cancelled in the
  middle of it; or has COMPLETED with a document id or FAILED with an error code and is nowhere else. No task waits
  twice; and once \<open>stop\<close> has returned every task, also an interrupted one, has completed or failed.
\<close>

theorem ingestion_task_never_lost:
  assumes "reach n accepted interrupted q"
  shows "map fst (rq_tasks q) = map it_id accepted \<and> distinct (map it_id accepted) \<and> distinct (queued_ids q) \<and>
    (\<forall>a \<in> set accepted. \<exists>t. dget (rq_tasks q) (it_id a) = Some t \<and> it_id t = it_id a \<and> it_filename t = it_filename a \<and>
       it_owner t = it_owner a \<and> it_created_at t = it_created_at a \<and>
       (case it_status t of
          QUEUED \<Rightarrow> it_id a \<in> set (queued_ids q) \<and> busy_id q \<noteq> Some (it_id a)
        | PROCESSING \<Rightarrow> it_id a \<notin> set (queued_ids q) \<and> (busy_id q = Some (it_id a) \<or> it_id a \<in> interrupted)
        | COMPLETED \<Rightarrow> it_id a \<notin> set (queued_ids q) \<and> busy_id q \<noteq> Some (it_id a) \<and> it_document_id t \<noteq> None
        | FAILED \<Rightarrow> it_id a \<notin> set (queued_ids q) \<and> busy_id q \<noteq> Some (it_id a) \<and> it_error_code t \<noteq> None) \<and>
       (rq_stop_requested q \<and> rq_worker q = NoWorker \<longrightarrow> it_status t = COMPLETED \<or> it_status t = FAILED))"
proof (intro conjI ballI)
  note inv = reach_inv [OF assms]
  have keys: "map fst (rq_tasks q) = map fst (roster q)" by (simp add: roster_def split_def)
  then show k: "map fst (rq_tasks q) = map it_id accepted" by (simp add: reach_roster [OF assms] comp_def)
  show "distinct (map it_id accepted)" using queue_invD(1) [OF inv] k by (simp add: dict_wf_def)
  show "distinct (queued_ids q)" by (rule queue_invD(2) [OF inv])
  fix a assume "a \<in> set accepted"
  with assms obtain t where t: "dget (rq_tasks q) (it_id a) = Some t" "identity t = identity a" by (rule accepted_stored)
  have "rq_stop_requested q \<and> rq_worker q = NoWorker \<longrightarrow> it_status t = COMPLETED \<or> it_status t = FAILED"
    using inv dget_in_dvalues [OF t(1)] by (cases "it_status t") (auto simp: queue_inv_def unfinished_def simp del: set_map)
  with t queue_invD(6) [OF inv t(1)] show "\<exists>t. dget (rq_tasks q) (it_id a) = Some t \<and> it_id t = it_id a \<and>
      it_filename t = it_filename a \<and> it_owner t = it_owner a \<and> it_created_at t = it_created_at a \<and>
      (case it_status t of
          QUEUED \<Rightarrow> it_id a \<in> set (queued_ids q) \<and> busy_id q \<noteq> Some (it_id a)
        | PROCESSING \<Rightarrow> it_id a \<notin> set (queued_ids q) \<and> (busy_id q = Some (it_id a) \<or> it_id a \<in> interrupted)
        | COMPLETED \<Rightarrow> it_id a \<notin> set (queued_ids q) \<and> busy_id q \<noteq> Some (it_id a) \<and> it_document_id t \<noteq> None
        | FAILED \<Rightarrow> it_id a \<notin> set (queued_ids q) \<and> busy_id q \<noteq> Some (it_id a) \<and> it_error_code t \<noteq> None) \<and>
      (rq_stop_requested q \<and> rq_worker q = NoWorker \<longrightarrow> it_status t = COMPLETED \<or> it_status t = FAILED)"
    unfolding place_ok_def identity_def by (intro exI [of _ t]) simp
qed

definition demo_owner :: string where "demo_owner = replicate 64 (CHR ''a'')"

definition demo_run :: rag_queue where
  "demo_run = stop_begin 3 (the (worker_get 2 (snd (submit 1 ''t2'' ''y'' None demo_owner
     (snd (submit 1 ''t1'' ''x'' None demo_owner ((new_queue 5)\<lparr>rq_accepting := True, rq_worker := Idle\<rparr>)))))))"

definition demo_task :: "string \<Rightarrow> ingestion_task" where
  "demo_task i = \<lparr>it_id = i, it_document_id = None, it_filename = ''document.pdf'', it_status = QUEUED, it_created_at = 1,
     it_updated_at = 1, it_owner = demo_owner, it_error = None, it_error_code = None\<rparr>"

lemma demo_run_reach: "reach 5 [demo_task ''t1'', demo_task ''t2''] {} demo_run"
proof -
  have s: "reach 5 [] {} ((new_queue 5)\<lparr>rq_accepting := True, rq_worker := Idle\<rparr>)"
    by (rule reach.start [OF reach.init]) (simp add: start_def is_running_def new_queue_def)
  let ?q1 = "snd (submit 1 ''t1'' ''x'' None demo_owner ((new_queue 5)\<lparr>rq_accepting := True, rq_worker := Idle\<rparr>))"
  have "fst (submit 1 ''t1'' ''x'' None demo_owner ((new_queue 5)\<lparr>rq_accepting := True, rq_worker := Idle\<rparr>)) = Inr (demo_task ''t1'')"
    by code_simp
  then have q1: "reach 5 [demo_task ''t1''] {} ?q1" using reach.submit [OF s _ surjective_pairing, of "''t1''" 1 "''x''" None demo_owner]
    by (simp add: new_queue_def)
  let ?q2 = "snd (submit 1 ''t2'' ''y'' None demo_owner ?q1)"
  have "fst (submit 1 ''t2'' ''y'' None demo_owner ?q1) = Inr (demo_task ''t2'')" "dget (rq_tasks ?q1) ''t2'' = None" by code_simp+
  then have q2: "reach 5 [demo_task ''t1'', demo_task ''t2''] {} ?q2"
    using reach.submit [OF q1 _ surjective_pairing, of "''t2''" 1 "''y''" None demo_owner] by simp
  have "worker_get 2 ?q2 \<noteq> None" by code_simp
  then have "reach 5 [demo_task ''t1'', demo_task ''t2''] {} (the (worker_get 2 ?q2))" using reach.get [OF q2, of 2] by auto
  then show ?thesis unfolding demo_run_def by (rule reach.stop)
qed

theorem ingestion_task_never_lost_witness:
  "\<exists>t u. dget (rq_tasks demo_run) ''t1'' = Some t \<and> it_status t = PROCESSING \<and> busy_id demo_run = Some ''t1'' \<and>
     dget (rq_tasks demo_run) ''t2'' = Some u \<and> it_status u = FAILED \<and> it_error_code u \<noteq> None"
proof -
  have a: "map_option it_status (dget (rq_tasks demo_run) ''t1'') = Some PROCESSING"
    "map_option it_status (dget (rq_tasks demo_run) ''t2'') = Some FAILED" by code_simp+
  then obtain t u where "dget (rq_tasks demo_run) ''t1'' = Some t" "it_status t = PROCESSING"
    "dget (rq_tasks demo_run) ''t2'' = Some u" "it_status u = FAILED" by auto
  with ingestion_task_never_lost [OF demo_run_reach] show ?thesis by (auto simp: demo_task_def)
qed

end
