(* ===== verification/Conversations.thy ===== *)
theory Conversations
  imports RagStore
begin

text \<open>
  Server-side conversation memory: \<open>app/conversations/models.py\<close>, \<open>repository.py\<close>, \<open>memory_repository.py\<close>,
  \<open>postgres_repository.py\<close>, \<open>service.py\<close>, \<open>memory.py\<close> and \<open>app/quota/token_estimator.py\<close>.

  A time is a number of microseconds since 1970. The clock, the fresh thread identifier and the hash of a key
  are arguments. The ellipsis, which lies outside the model's characters, is written as the control
  character U+001A here: it has to be no white space, and it takes three bytes in UTF-8.
\<close>

section \<open>Token estimate\<close>

definition ellipsis :: char where "ellipsis = CHR 0x1A"

definition utf8_bytes :: "char \<Rightarrow> int" where
  "utf8_bytes c = (if c = ellipsis then 3 else if (of_char c :: int) < 128 then 1 else 2)"

definition utf8_length :: "string \<Rightarrow> int" where
  "utf8_length s = sum_list (map utf8_bytes s)"

definition estimate_prompt_tokens :: "(string \<times> string) list \<Rightarrow> int" where
  "estimate_prompt_tokens messages = 2 + sum_list (map (\<lambda>(role, content). utf8_length role + utf8_length content + 4) messages)"

section \<open>Threads and messages\<close>

record conversation_thread =
  th_id :: string
  th_owner :: string
  th_title :: string
  th_created_at :: "int option"
  th_updated_at :: "int option"

record conversation_message =
  cm_id :: int
  cm_thread_id :: string
  cm_role :: string
  cm_content :: string
  cm_token_count :: int
  cm_created_at :: "int option"

datatype conv_error = OwnerError rag_error | ConvValidation string | ConvNotFound string | ConvIntegrity

definition datetime_min :: int where "datetime_min = - 62135596800 * 1000000"

definition thread_order_key :: "conversation_thread \<Rightarrow> int" where
  "thread_order_key t =
     (case th_updated_at t of Some x \<Rightarrow> x
      | None \<Rightarrow> (case th_created_at t of Some x \<Rightarrow> x | None \<Rightarrow> datetime_min))"

definition message_order_key :: "conversation_message \<Rightarrow> int \<times> int" where
  "message_order_key m = ((case cm_created_at m of Some x \<Rightarrow> x | None \<Rightarrow> datetime_min), cm_id m)"

text \<open>The repository protocol; \<open>'s\<close> is the state behind it.\<close>

record 's conversation_repository =
  cr_create_thread :: "conversation_thread \<Rightarrow> 's \<Rightarrow> (conv_error + conversation_thread) \<times> 's"
  cr_get_thread :: "string \<Rightarrow> string \<Rightarrow> 's \<Rightarrow> conversation_thread option"
  cr_list_threads :: "string \<Rightarrow> 's \<Rightarrow> conversation_thread list"
  cr_add_message :: "int \<Rightarrow> string \<Rightarrow> string \<Rightarrow> string \<Rightarrow> string \<Rightarrow> int \<Rightarrow> 's \<Rightarrow> conversation_message option \<times> 's"
  cr_list_messages :: "string \<Rightarrow> string \<Rightarrow> 's \<Rightarrow> conversation_message list"

section \<open>The in-memory repository\<close>

record conv_memory =
  mr_threads :: "(string, conversation_thread) pydict"
  mr_messages :: "(string, conversation_message list) pydict"
  mr_next_message_id :: int

definition empty_conv_memory :: conv_memory where
  "empty_conv_memory = \<lparr>mr_threads = [], mr_messages = [], mr_next_message_id = 1\<rparr>"

definition dget_list :: "(string, 'a list) pydict \<Rightarrow> string \<Rightarrow> 'a list" where
  "dget_list d k = (case dget d k of Some xs \<Rightarrow> xs | None \<Rightarrow> [])"

definition mem_create_thread :: "conversation_thread \<Rightarrow> conv_memory \<Rightarrow> (conv_error + conversation_thread) \<times> conv_memory" where
  "mem_create_thread thread r =
     (Inr thread, r\<lparr>mr_threads := dset (th_id thread) thread (mr_threads r),
                    mr_messages := dset (th_id thread) (dget_list (mr_messages r) (th_id thread)) (mr_messages r)\<rparr>)"

definition mem_get_thread :: "string \<Rightarrow> string \<Rightarrow> conv_memory \<Rightarrow> conversation_thread option" where
  "mem_get_thread thread_id owner r =
     (case dget (mr_threads r) thread_id of
        None \<Rightarrow> None
      | Some thread \<Rightarrow> if th_owner thread \<noteq> owner then None else Some thread)"

definition mem_list_threads :: "string \<Rightarrow> conv_memory \<Rightarrow> conversation_thread list" where
  "mem_list_threads owner r = sort_key (\<lambda>t. - thread_order_key t) (filter (\<lambda>t. th_owner t = owner) (dvalues (mr_threads r)))"

definition mem_add_message :: "int \<Rightarrow> string \<Rightarrow> string \<Rightarrow> string \<Rightarrow> string \<Rightarrow> int \<Rightarrow> conv_memory \<Rightarrow> conversation_message option \<times> conv_memory" where
  "mem_add_message now thread_id owner role content token_count r =
     (case mem_get_thread thread_id owner r of
        None \<Rightarrow> (None, r)
      | Some thread \<Rightarrow>
          (let message = \<lparr>cm_id = mr_next_message_id r, cm_thread_id = thread_id, cm_role = role, cm_content = content,
                          cm_token_count = token_count, cm_created_at = Some now\<rparr>
           in (Some message,
               \<lparr>mr_threads = dset thread_id (thread\<lparr>th_updated_at := Some now\<rparr>) (mr_threads r),
                mr_messages = dset thread_id (dget_list (mr_messages r) thread_id @ [message]) (mr_messages r),
                mr_next_message_id = mr_next_message_id r + 1\<rparr>)))"

definition mem_list_messages :: "string \<Rightarrow> string \<Rightarrow> conv_memory \<Rightarrow> conversation_message list" where
  "mem_list_messages thread_id owner r =
     (case mem_get_thread thread_id owner r of
        None \<Rightarrow> []
      | Some _ \<Rightarrow> sort_key message_order_key (dget_list (mr_messages r) thread_id))"

definition memory_conversations :: "conv_memory conversation_repository" where
  "memory_conversations =
     \<lparr>cr_create_thread = mem_create_thread, cr_get_thread = mem_get_thread, cr_list_threads = mem_list_threads,
      cr_add_message = mem_add_message, cr_list_messages = mem_list_messages\<rparr>"

section \<open>The PostgreSQL repository\<close>

text \<open>
  Two tables, one statement or transaction being one step. The identifier of a message comes from a
  sequence. A duplicate thread identifier breaks the primary key and raises.
\<close>

record conv_db =
  pt_threads :: "conversation_thread list"
  pt_messages :: "conversation_message list"
  pt_sequence :: int

definition normalize_thread_id :: "string \<Rightarrow> string option" where
  "normalize_thread_id x = (case validate_document_id x of Inl _ \<Rightarrow> None | Inr u \<Rightarrow> Some u)"

definition pgc_create_thread :: "conversation_thread \<Rightarrow> conv_db \<Rightarrow> (conv_error + conversation_thread) \<times> conv_db" where
  "pgc_create_thread thread db =
     (if \<exists>t \<in> set (pt_threads db). th_id t = th_id thread then (Inl ConvIntegrity, db)
      else (Inr thread, db\<lparr>pt_threads := pt_threads db @ [thread]\<rparr>))"

definition pgc_get_thread :: "string \<Rightarrow> string \<Rightarrow> conv_db \<Rightarrow> conversation_thread option" where
  "pgc_get_thread thread_id owner db =
     (case normalize_thread_id thread_id of
        None \<Rightarrow> None
      | Some u \<Rightarrow> find (\<lambda>t. th_id t = u \<and> th_owner t = owner) (pt_threads db))"

definition desc_key :: "int option \<Rightarrow> int \<times> int" where
  \<comment> \<open>\<open>ORDER BY x DESC\<close>, which puts NULL first\<close>
  "desc_key x = (case x of None \<Rightarrow> (0, 0) | Some n \<Rightarrow> (1, - n))"

definition pgc_list_threads :: "string \<Rightarrow> conv_db \<Rightarrow> conversation_thread list" where
  "pgc_list_threads owner db =
     sort_key (\<lambda>t. desc_key (th_updated_at t)) (sort_key (\<lambda>t. desc_key (th_created_at t))
       (filter (\<lambda>t. th_owner t = owner) (pt_threads db)))"

definition pgc_add_message :: "int \<Rightarrow> string \<Rightarrow> string \<Rightarrow> string \<Rightarrow> string \<Rightarrow> int \<Rightarrow> conv_db \<Rightarrow> conversation_message option \<times> conv_db" where
  "pgc_add_message now thread_id owner role content token_count db =
     (case normalize_thread_id thread_id of
        None \<Rightarrow> (None, db)
      | Some u \<Rightarrow>
          (case find (\<lambda>t. th_id t = u \<and> th_owner t = owner) (pt_threads db) of
             None \<Rightarrow> (None, db)
           | Some _ \<Rightarrow>
               (let message = \<lparr>cm_id = pt_sequence db, cm_thread_id = u, cm_role = role, cm_content = content,
                               cm_token_count = token_count, cm_created_at = Some now\<rparr>
                in (Some message,
                    \<lparr>pt_threads = map (\<lambda>t. if th_id t = u \<and> th_owner t = owner then t\<lparr>th_updated_at := Some now\<rparr> else t) (pt_threads db),
                     pt_messages = pt_messages db @ [message], pt_sequence = pt_sequence db + 1\<rparr>))))"

definition pgc_list_messages :: "string \<Rightarrow> string \<Rightarrow> conv_db \<Rightarrow> conversation_message list" where
  "pgc_list_messages thread_id owner db =
     (case normalize_thread_id thread_id of
        None \<Rightarrow> []
      | Some u \<Rightarrow>
          sort_key message_order_key
            (filter (\<lambda>m. cm_thread_id m = u \<and> (\<exists>t \<in> set (pt_threads db). th_id t = cm_thread_id m \<and> th_owner t = owner)) (pt_messages db)))"

definition postgres_conversations :: "conv_db conversation_repository" where
  "postgres_conversations =
     \<lparr>cr_create_thread = pgc_create_thread, cr_get_thread = pgc_get_thread, cr_list_threads = pgc_list_threads,
      cr_add_message = pgc_add_message, cr_list_messages = pgc_list_messages\<rparr>"

section \<open>The service\<close>

definition conv_owner :: "string \<Rightarrow> conv_error + string" where
  "conv_owner owner = (case validate_owner_key_hash (Some owner) of Inl e \<Rightarrow> Inl (OwnerError e) | Inr h \<Rightarrow> Inr h)"

definition valid_roles :: "string list" where "valid_roles = [''system'', ''user'', ''assistant'']"

definition max_title_length :: nat where "max_title_length = 255"

definition create_thread ::
  "'s conversation_repository \<Rightarrow> string \<Rightarrow> int \<Rightarrow> string \<Rightarrow> string \<Rightarrow> 's \<Rightarrow> (conv_error + conversation_thread) \<times> 's" where
  "create_thread repo uuid now owner title s =
     (case conv_owner owner of
        Inl e \<Rightarrow> (Inl e, s)
      | Inr h \<Rightarrow>
          (let normalized_title = strip_chars is_space title
           in if normalized_title = [] then (Inl (ConvValidation ''title must not be empty''), s)
              else if max_title_length < length normalized_title then (Inl (ConvValidation ''title must be at most 255 characters''), s)
              else cr_create_thread repo \<lparr>th_id = uuid, th_owner = h, th_title = normalized_title, th_created_at = Some now,
                                          th_updated_at = Some now\<rparr> s))"

definition get_thread :: "'s conversation_repository \<Rightarrow> string \<Rightarrow> string \<Rightarrow> 's \<Rightarrow> conv_error + conversation_thread" where
  "get_thread repo owner thread_id s =
     (case conv_owner owner of
        Inl e \<Rightarrow> Inl e
      | Inr h \<Rightarrow>
          (case cr_get_thread repo thread_id h s of
             None \<Rightarrow> Inl (ConvNotFound ''Conversation thread not found.'')
           | Some t \<Rightarrow> Inr t))"

definition resolve_thread ::
  "'s conversation_repository \<Rightarrow> string \<Rightarrow> int \<Rightarrow> string \<Rightarrow> string option \<Rightarrow> string \<Rightarrow> 's \<Rightarrow> (conv_error + conversation_thread) \<times> 's" where
  "resolve_thread repo uuid now owner thread_id title s =
     (case thread_id of
        None \<Rightarrow>
          (let t = take max_title_length (strip_chars is_space title)
           in create_thread repo uuid now owner (if t = [] then ''New conversation'' else t) s)
      | Some i \<Rightarrow> (get_thread repo owner i s, s))"

definition list_threads :: "'s conversation_repository \<Rightarrow> string \<Rightarrow> 's \<Rightarrow> conv_error + conversation_thread list" where
  "list_threads repo owner s = (case conv_owner owner of Inl e \<Rightarrow> Inl e | Inr h \<Rightarrow> Inr (cr_list_threads repo h s))"

definition append_message ::
  "'s conversation_repository \<Rightarrow> int \<Rightarrow> string \<Rightarrow> string \<Rightarrow> string \<Rightarrow> string \<Rightarrow> int \<Rightarrow> 's \<Rightarrow> (conv_error + conversation_message) \<times> 's" where
  "append_message repo now owner thread_id role content token_count s =
     (case conv_owner owner of
        Inl e \<Rightarrow> (Inl e, s)
      | Inr h \<Rightarrow>
          if role \<notin> set valid_roles then (Inl (ConvValidation ''role must be one of [assistant, system, user]''), s)
          else if content = [] then (Inl (ConvValidation ''content must not be empty''), s)
          else if token_count < 0 then (Inl (ConvValidation ''token_count must not be negative''), s)
          else
            (case cr_add_message repo now thread_id h role content token_count s of
               (None, s') \<Rightarrow> (Inl (ConvNotFound ''Conversation thread not found.''), s')
             | (Some m, s') \<Rightarrow> (Inr m, s')))"

text \<open>The two appends of a turn read the clock one after the other.\<close>

definition persist_turn ::
  "'s conversation_repository \<Rightarrow> int \<Rightarrow> int \<Rightarrow> string \<Rightarrow> string \<Rightarrow> string \<Rightarrow> string option \<Rightarrow> 's \<Rightarrow>
     (conv_error + conversation_message \<times> conversation_message option) \<times> 's" where
  "persist_turn repo now now' owner thread_id user_content assistant_content s =
     (case append_message repo now owner thread_id ''user'' user_content 0 s of
        (Inl e, s') \<Rightarrow> (Inl e, s')
      | (Inr um, s') \<Rightarrow>
          (case assistant_content of
             None \<Rightarrow> (Inr (um, None), s')
           | Some t \<Rightarrow>
               if t = [] then (Inr (um, None), s')
               else
                 (case append_message repo now' owner thread_id ''assistant'' t 0 s' of
                    (Inl e, s'') \<Rightarrow> (Inl e, s'')
                  | (Inr am, s'') \<Rightarrow> (Inr (um, Some am), s''))))"

definition load_history :: "'s conversation_repository \<Rightarrow> string \<Rightarrow> string \<Rightarrow> 's \<Rightarrow> conv_error + conversation_message list" where
  "load_history repo owner thread_id s =
     (case get_thread repo owner thread_id s of
        Inl e \<Rightarrow> Inl e
      | Inr _ \<Rightarrow> Inr (cr_list_messages repo thread_id owner s))"


section \<open>Runs\<close>

text \<open>
  Any owners create threads and append messages in any order, at times that do not decrease, with the log of
  the messages that were accepted. A new identifier is in canonical form and not in use, as \<open>uuid4\<close> gives it.
\<close>

inductive conv_reach :: "'s conversation_repository \<Rightarrow> (string \<Rightarrow> string option) \<Rightarrow> 's \<Rightarrow> int \<Rightarrow> 's \<Rightarrow> (string \<times> conversation_message) list \<Rightarrow> bool"
  for repo key_of init where
  start: "conv_reach repo key_of init 0 init []"
| create: "conv_reach repo key_of init n s trace \<Longrightarrow> n \<le> now \<Longrightarrow> key_of uuid = Some uuid \<Longrightarrow> \<forall>x. cr_get_thread repo uuid x s = None \<Longrightarrow>
    create_thread repo uuid now owner title s = (r, s') \<Longrightarrow> conv_reach repo key_of init now s' trace"
| append: "conv_reach repo key_of init n s trace \<Longrightarrow> n \<le> now \<Longrightarrow> append_message repo now owner i role content c s = (r, s') \<Longrightarrow>
    conv_reach repo key_of init now s' (trace @ (case r of Inl _ \<Rightarrow> [] | Inr m \<Rightarrow> [(owner, m)]))"

lemma persist_turn_reach:
  assumes "conv_reach repo key_of init n s trace" and "n \<le> now" and "now \<le> now'"
    and "persist_turn repo now now' owner i u a s = (r, s')"
  shows "\<exists>n' trace'. conv_reach repo key_of init n' s' (trace @ trace') \<and> (\<forall>um am. r = Inr (um, am) \<longrightarrow> trace' = (owner, um) # (case am of None \<Rightarrow> [] | Some m \<Rightarrow> [(owner, m)]))"
proof -
  obtain r1 s1 where 1: "append_message repo now owner i ''user'' u 0 s = (r1, s1)" by force
  note c1 = conv_reach.append [OF assms(1,2) 1]
  obtain r2 s2 where 2: "append_message repo now' owner i ''assistant'' (case a of None \<Rightarrow> [] | Some t \<Rightarrow> t) 0 s1 = (r2, s2)" by force
  note c2 = conv_reach.append [OF c1 assms(3) 2]
  show ?thesis
  proof (cases r1)
    case (Inl e)
    with assms(4) 1 c1 show ?thesis by (intro exI [of _ now] exI [of _ "[]"]) (auto simp: persist_turn_def)
  next
    case (Inr um)
    show ?thesis
    proof (cases "a = None \<or> a = Some []")
      case True
      with assms(4) 1 Inr c1 show ?thesis by (intro exI [of _ now] exI [of _ "[(owner, um)]"]) (auto simp: persist_turn_def)
    next
      case False
      with assms(4) 1 2 Inr c2 show ?thesis
        by (intro exI [of _ now'] exI [of _ "(owner, um) # (case r2 of Inl _ \<Rightarrow> [] | Inr m \<Rightarrow> [(owner, m)])"])
          (auto simp: persist_turn_def split: sum.splits)
    qed
  qed
qed

definition thread_log :: "(string \<times> conversation_message) list \<Rightarrow> string \<Rightarrow> conversation_message list" where
  "thread_log trace k = map snd (filter (\<lambda>(x, m). cm_thread_id m = k) trace)"

lemma thread_log_snoc [simp]: "thread_log (trace @ [(x, m)]) k = thread_log trace k @ (if cm_thread_id m = k then [m] else [])"
  by (simp add: thread_log_def)

section \<open>What a repository promises\<close>

text \<open>
  The state behind a repository, seen as a map of threads and the messages of each thread in order;
  \<open>key_of\<close> is the key a thread identifier stands for. The laws hold in states that satisfy \<open>inv n\<close>, where \<open>n\<close> is a time
  no earlier than any message.
\<close>

locale conversation_store =
  fixes repo :: "'s conversation_repository"
    and key_of :: "string \<Rightarrow> string option"
    and threads :: "'s \<Rightarrow> string \<Rightarrow> conversation_thread option"
    and messages :: "'s \<Rightarrow> string \<Rightarrow> conversation_message list"
    and inv :: "int \<Rightarrow> 's \<Rightarrow> bool"
  assumes get_law: "inv n s \<Longrightarrow> cr_get_thread repo i owner s =
      (case key_of i of None \<Rightarrow> None
       | Some k \<Rightarrow> (case threads s k of None \<Rightarrow> None | Some t \<Rightarrow> if th_owner t = owner then Some t else None))"
    and thread_key: "inv n s \<Longrightarrow> threads s k = Some t \<Longrightarrow> th_id t = k"
    and no_messages: "inv n s \<Longrightarrow> threads s k = None \<Longrightarrow> messages s k = []"
    and create_law: "inv n s \<Longrightarrow> key_of (th_id t) = Some (th_id t) \<Longrightarrow> threads s (th_id t) = None \<Longrightarrow>
      \<exists>s'. cr_create_thread repo t s = (Inr t, s') \<and> threads s' = (threads s)(th_id t \<mapsto> t) \<and> messages s' = messages s \<and> inv n s'"
    and refuse_law: "inv n s \<Longrightarrow> cr_get_thread repo i owner s = None \<Longrightarrow> cr_add_message repo now i owner role content c s = (None, s)"
    and add_law: "inv n s \<Longrightarrow> n \<le> now \<Longrightarrow> key_of i = Some k \<Longrightarrow> cr_get_thread repo i owner s = Some t \<Longrightarrow>
      \<exists>m s'. cr_add_message repo now i owner role content c s = (Some m, s') \<and> cm_thread_id m = k \<and> cm_role m = role \<and> cm_content m = content \<and>
        messages s' = (messages s)(k := messages s k @ [m]) \<and> threads s' = (threads s)(k \<mapsto> t\<lparr>th_updated_at := Some now\<rparr>) \<and> inv now s'"
    and list_law: "inv n s \<Longrightarrow> key_of i = Some k \<Longrightarrow> cr_get_thread repo i owner s = Some t \<Longrightarrow> cr_list_messages repo i owner s = messages s k"
    and later: "inv n s \<Longrightarrow> n \<le> now \<Longrightarrow> inv now s"

begin

definition log_inv :: "'s \<Rightarrow> (string \<times> conversation_message) list \<Rightarrow> bool" where
  "log_inv s trace \<longleftrightarrow> messages s = thread_log trace \<and>
     (\<forall>(x, m) \<in> set trace. \<exists>t. threads s (cm_thread_id m) = Some t \<and> th_owner t = x)"

lemma create_thread_log:
  assumes "inv n s" and "log_inv s trace" and "key_of uuid = Some uuid" and "\<forall>x. cr_get_thread repo uuid x s = None"
    and "create_thread repo uuid now owner title s = (r, s')"
  shows "inv n s' \<and> log_inv s' trace"
proof (cases "s' = s")
  case True
  with assms(1,2) show ?thesis by simp
next
  case False
  with assms(5) obtain t where t: "cr_create_thread repo t s = (r, s')" "th_id t = uuid"
    by (auto simp: create_thread_def Let_def split: sum.splits if_splits)
  have free: "threads s uuid = None"
  proof (rule ccontr)
    assume "threads s uuid \<noteq> None"
    then obtain t' where "threads s uuid = Some t'" by auto
    then have "cr_get_thread repo uuid (th_owner t') s = Some t'" using assms(3) by (simp add: get_law [OF assms(1)])
    with assms(4) show False by simp
  qed
  from create_law [of n s t] assms(1,3) t free
  have s': "threads s' = (threads s)(uuid \<mapsto> t)" "messages s' = messages s" "inv n s'" by auto
  have "\<forall>(x, m) \<in> set trace. cm_thread_id m \<noteq> uuid" using assms(2) free by (auto simp: log_inv_def)
  with s' assms(2) show ?thesis by (auto simp: log_inv_def)
qed

lemma append_message_log:
  assumes "inv n s" and "log_inv s trace" and "n \<le> now" and "append_message repo now owner i role content c s = (r, s')"
  shows "inv now s' \<and> log_inv s' (trace @ (case r of Inl _ \<Rightarrow> [] | Inr m \<Rightarrow> [(owner, m)]))"
proof (cases "isl r \<and> s' = s")
  case True
  with assms(1,2,3) later show ?thesis by (cases r) auto
next
  case False
  have h: "conv_owner owner = Inr h \<Longrightarrow> h = owner" for h by (auto simp: conv_owner_def validate_owner_key_hash_def split: if_splits)
  obtain mo s1 where add: "cr_add_message repo now i owner role content c s = (mo, s1)" by force
  from False assms(4) add h have r: "s1 = s'" "r = (case mo of None \<Rightarrow> Inl (ConvNotFound ''Conversation thread not found.'') | Some m \<Rightarrow> Inr m)"
    by (auto simp: append_message_def split: sum.splits if_splits option.splits)
  have "cr_get_thread repo i owner s \<noteq> None"
  proof
    assume "cr_get_thread repo i owner s = None"
    with refuse_law [OF assms(1) this, of now role content c] add r False show False by auto
  qed
  then obtain t where t: "cr_get_thread repo i owner s = Some t" by auto
  then obtain k where k: "key_of i = Some k" "threads s k = Some t" "th_owner t = owner"
    by (auto simp: get_law [OF assms(1)] split: option.splits if_splits)
  from add_law [OF assms(1,3) k(1) t, of role content c] add r(1)
  obtain m where m: "mo = Some m" "cm_thread_id m = k" "messages s' = (messages s)(k := messages s k @ [m])"
    "threads s' = (threads s)(k \<mapsto> t\<lparr>th_updated_at := Some now\<rparr>)" "inv now s'" by auto
  have "messages s' = thread_log (trace @ [(owner, m)])" using m(2,3) assms(2) by (auto simp: log_inv_def fun_eq_iff)
  moreover have "\<forall>(x, m') \<in> set (trace @ [(owner, m)]). \<exists>t. threads s' (cm_thread_id m') = Some t \<and> th_owner t = x"
    using assms(2) m(2,4) k(2,3) by (fastforce simp: log_inv_def)
  ultimately show ?thesis using m(1,5) r(2) by (simp add: log_inv_def)
qed

lemma reach_log:
  assumes "conv_reach repo key_of init n s trace" and "inv 0 init" and "messages init = (\<lambda>_. [])"
  shows "inv n s \<and> log_inv s trace"
  using assms(1)
proof induction
  case start
  with assms(2,3) show ?case by (simp add: log_inv_def thread_log_def fun_eq_iff)
next
  case (create n s trace now uuid owner title r s')
  with create_thread_log [of n s trace uuid now owner title r s'] later [of n s' now] show ?case by simp
next
  case (append n s trace now owner i role content c r s')
  with append_message_log [of n s trace now owner i role content c r s'] show ?case by simp
qed

lemma history_is_log:
  assumes "conv_reach repo key_of init n s trace" and "inv 0 init" and "messages init = (\<lambda>_. [])"
  shows "load_history repo owner i s = (case get_thread repo owner i s of Inl e \<Rightarrow> Inl e | Inr t \<Rightarrow> Inr (thread_log trace (th_id t)))"
    and "get_thread repo owner i s = Inr t \<Longrightarrow> th_owner t = owner \<and> (\<forall>(x, m) \<in> set trace. cm_thread_id m = th_id t \<longrightarrow> x = owner)"
proof -
  have s: "inv n s" "log_inv s trace" using reach_log [OF assms] by auto
  have t: "\<exists>k. key_of i = Some k \<and> threads s k = Some t \<and> th_id t = k \<and> th_owner t = owner \<and> cr_get_thread repo i owner s = Some t"
    if "get_thread repo owner i s = Inr t" for t
  proof -
    from that have "cr_get_thread repo i owner s = Some t"
      by (auto simp: get_thread_def conv_owner_def validate_owner_key_hash_def split: if_splits option.splits)
    then obtain k where "key_of i = Some k" "threads s k = Some t" "th_owner t = owner"
      by (auto simp: get_law [OF s(1)] split: option.splits if_splits)
    with thread_key [OF s(1), of k t] \<open>cr_get_thread repo i owner s = Some t\<close> show ?thesis by auto
  qed
  show "load_history repo owner i s = (case get_thread repo owner i s of Inl e \<Rightarrow> Inl e | Inr t \<Rightarrow> Inr (thread_log trace (th_id t)))"
  proof (cases "get_thread repo owner i s")
    case (Inr t)
    from t [OF this] list_law [OF s(1)] s(2) Inr show ?thesis by (auto simp: load_history_def log_inv_def)
  qed (simp add: load_history_def)
  assume "get_thread repo owner i s = Inr t"
  from t [OF this] s(2) show "th_owner t = owner \<and> (\<forall>(x, m) \<in> set trace. cm_thread_id m = th_id t \<longrightarrow> x = owner)"
    by (fastforce simp: log_inv_def)
qed

end

section \<open>Both repositories keep the promise\<close>

text \<open>Messages are stored in the order in which they are listed: by time and then by identifier.\<close>

definition ordered_messages :: "int \<Rightarrow> int \<Rightarrow> conversation_message list \<Rightarrow> bool" where
  "ordered_messages n next ms \<longleftrightarrow> sorted (map message_order_key ms) \<and>
     (\<forall>m \<in> set ms. \<exists>c. cm_created_at m = Some c \<and> c \<le> n \<and> cm_id m < next)"

lemma ordered_messages_Nil [simp]: "ordered_messages n next []"
  by (simp add: ordered_messages_def)

lemma ordered_messages_mono: "ordered_messages n next ms \<Longrightarrow> n \<le> n' \<Longrightarrow> next \<le> next' \<Longrightarrow> ordered_messages n' next' ms"
  by (fastforce simp: ordered_messages_def)

lemma ordered_messages_snoc:
  assumes "ordered_messages n next ms" and "n \<le> now" and "cm_id m = next" and "cm_created_at m = Some now"
  shows "ordered_messages now (next + 1) (ms @ [m])"
  using assms by (fastforce simp: ordered_messages_def sorted_append message_order_key_def)

lemma sort_ordered: "ordered_messages n next ms \<Longrightarrow> sort_key message_order_key (filter p ms) = filter p ms"
  by (simp add: ordered_messages_def sort_key_id_if_sorted sorted_filter)

definition mem_inv :: "int \<Rightarrow> conv_memory \<Rightarrow> bool" where
  "mem_inv n r \<longleftrightarrow> (\<forall>k t. dget (mr_threads r) k = Some t \<longrightarrow> th_id t = k) \<and>
     (\<forall>k. dget (mr_threads r) k = None \<longrightarrow> dget_list (mr_messages r) k = []) \<and>
     (\<forall>k. ordered_messages n (mr_next_message_id r) (dget_list (mr_messages r) k))"

lemma dget_list_dset [simp]: "dget_list (dset k v d) = (dget_list d)(k := v)"
  by (auto simp: dget_list_def fun_eq_iff)

interpretation mem_store: conversation_store memory_conversations Some "\<lambda>r k. dget (mr_threads r) k" "\<lambda>r k. dget_list (mr_messages r) k" mem_inv
proof (unfold_locales, goal_cases)
  case (1 n s i owner)
  show ?case by (auto simp: memory_conversations_def mem_get_thread_def split: option.splits)
next
  case (2 n s k t)
  then show ?case by (simp add: mem_inv_def)
next
  case (3 n s k)
  then show ?case by (simp add: mem_inv_def)
next
  case (4 n s t)
  then show ?case by (auto simp: memory_conversations_def mem_create_thread_def mem_inv_def fun_eq_iff)
next
  case (5 n s i owner now role content c)
  then show ?case by (simp add: memory_conversations_def mem_add_message_def)
next
  case (6 n s now i k owner t role content c)
  let ?m = "\<lparr>cm_id = mr_next_message_id s, cm_thread_id = i, cm_role = role, cm_content = content, cm_token_count = c, cm_created_at = Some now\<rparr>"
  from 6 have t: "mem_get_thread i owner s = Some t" and k: "k = i" by (simp_all add: memory_conversations_def)
  then have t': "dget (mr_threads s) i = Some t" by (auto simp: mem_get_thread_def split: option.splits if_splits)
  have "ordered_messages now (mr_next_message_id s + 1) (if x = i then dget_list (mr_messages s) i @ [?m] else dget_list (mr_messages s) x)" for x
    using 6(1,2) ordered_messages_snoc [of n "mr_next_message_id s" "dget_list (mr_messages s) i" now ?m]
      ordered_messages_mono [of n "mr_next_message_id s" "dget_list (mr_messages s) x" now "mr_next_message_id s + 1"]
    by (auto simp: mem_inv_def)
  with 6(1) t t' k show ?case by (auto simp: memory_conversations_def mem_add_message_def mem_inv_def fun_eq_iff Let_def)
next
  case (7 n s i k owner t)
  then have "ordered_messages n (mr_next_message_id s) (dget_list (mr_messages s) k)" by (simp add: mem_inv_def)
  from sort_ordered [OF this, of "\<lambda>_. True"] 7 show ?case
    by (auto simp: memory_conversations_def mem_list_messages_def split: option.splits)
next
  case (8 n s now)
  then show ?case by (auto simp: mem_inv_def intro: ordered_messages_mono)
qed

definition pgc_thread :: "conv_db \<Rightarrow> string \<Rightarrow> conversation_thread option" where
  "pgc_thread db k = find (\<lambda>t. th_id t = k) (pt_threads db)"

definition pgc_inv :: "int \<Rightarrow> conv_db \<Rightarrow> bool" where
  "pgc_inv n db \<longleftrightarrow> distinct (map th_id (pt_threads db)) \<and> ordered_messages n (pt_sequence db) (pt_messages db) \<and>
     (\<forall>m \<in> set (pt_messages db). \<exists>t \<in> set (pt_threads db). th_id t = cm_thread_id m)"

lemma pgc_inv_ids:
  "pgc_inv n db \<longleftrightarrow> distinct (map th_id (pt_threads db)) \<and> ordered_messages n (pt_sequence db) (pt_messages db) \<and>
     (\<forall>m \<in> set (pt_messages db). cm_thread_id m \<in> set (map th_id (pt_threads db)))"
  by (auto simp: pgc_inv_def) (metis image_iff)+

lemma pgc_get_thread_view:
  assumes "pgc_inv n db"
  shows "pgc_get_thread i owner db =
    (case normalize_thread_id i of None \<Rightarrow> None
     | Some k \<Rightarrow> (case pgc_thread db k of None \<Rightarrow> None | Some t \<Rightarrow> if th_owner t = owner then Some t else None))"
  using assms find_key [of th_id "pt_threads db" _ "\<lambda>t. th_owner t = owner"]
  by (simp add: pgc_get_thread_def pgc_thread_def pgc_inv_def cong: option.case_cong)

lemma pgc_threads_update:
  assumes "pgc_inv n db" and "pgc_thread db k = Some t" and "th_owner t = owner"
  shows "pgc_thread (db\<lparr>pt_threads := map (\<lambda>t. if th_id t = k \<and> th_owner t = owner then t\<lparr>th_updated_at := Some now\<rparr> else t) (pt_threads db)\<rparr>) =
    (pgc_thread db)(k \<mapsto> t\<lparr>th_updated_at := Some now\<rparr>)"
proof
  fix k'
  let ?g = "\<lambda>t. if th_id t = k \<and> th_owner t = owner then t\<lparr>th_updated_at := Some now\<rparr> else t"
  have g: "pgc_thread (db\<lparr>pt_threads := map ?g (pt_threads db)\<rparr>) k' = map_option ?g (pgc_thread db k')"
    unfolding pgc_thread_def by (simp add: find_key_map)
  have k': "th_id u = k'" if "pgc_thread db k' = Some u" for u
    using that by (auto simp: pgc_thread_def find_Some_iff)
  show "pgc_thread (db\<lparr>pt_threads := map ?g (pt_threads db)\<rparr>) k' = ((pgc_thread db)(k \<mapsto> t\<lparr>th_updated_at := Some now\<rparr>)) k'"
    using assms(2,3) k' by (cases "pgc_thread db k'") (auto simp: g)
qed

interpretation pg_store: conversation_store postgres_conversations normalize_thread_id pgc_thread
  "\<lambda>db k. filter (\<lambda>m. cm_thread_id m = k) (pt_messages db)" pgc_inv
proof (unfold_locales, goal_cases)
  case (1 n s i owner)
  then show ?case by (simp add: postgres_conversations_def pgc_get_thread_view)
next
  case (2 n s k t)
  then show ?case by (auto simp: pgc_thread_def find_Some_iff)
next
  case (3 n s k)
  then show ?case by (fastforce simp: pgc_inv_def pgc_thread_def find_None_iff filter_empty_conv)
next
  case (4 n s t)
  then have "\<forall>u \<in> set (pt_threads s). th_id u \<noteq> th_id t" by (auto simp: pgc_thread_def find_None_iff)
  moreover from this have "find (\<lambda>u. th_id u = k) (pt_threads s @ [t]) = (if k = th_id t then Some t else find (\<lambda>u. th_id u = k) (pt_threads s))" for k
    using 4(3) by (auto simp: find_snoc pgc_thread_def split: option.splits)
  ultimately show ?case using 4(1)
    by (auto simp: postgres_conversations_def pgc_create_thread_def pgc_inv_def pgc_thread_def fun_eq_iff)
next
  case (5 n s i owner now role content c)
  then show ?case by (auto simp: postgres_conversations_def pgc_add_message_def pgc_get_thread_def split: option.splits)
next
  case (6 n s now i k owner t role content c)
  let ?m = "\<lparr>cm_id = pt_sequence s, cm_thread_id = k, cm_role = role, cm_content = content, cm_token_count = c, cm_created_at = Some now\<rparr>"
  let ?ts = "map (\<lambda>t. if th_id t = k \<and> th_owner t = owner then t\<lparr>th_updated_at := Some now\<rparr> else t) (pt_threads s)"
  let ?s = "\<lparr>pt_threads = ?ts, pt_messages = pt_messages s @ [?m], pt_sequence = pt_sequence s + 1\<rparr>"
  from 6 have t: "find (\<lambda>t. th_id t = k \<and> th_owner t = owner) (pt_threads s) = Some t" "pgc_thread s k = Some t" "th_owner t = owner"
    using pgc_get_thread_view [OF 6(1), of i owner]
    by (auto simp: postgres_conversations_def pgc_get_thread_def split: option.splits if_splits)
  have add: "cr_add_message postgres_conversations now i owner role content c s = (Some ?m, ?s)"
    using 6(3) t(1) by (simp add: postgres_conversations_def pgc_add_message_def Let_def)
  have "pgc_thread ?s = (pgc_thread s)(k \<mapsto> t\<lparr>th_updated_at := Some now\<rparr>)"
    using pgc_threads_update [OF 6(1) t(2,3), of now] by (simp add: pgc_thread_def fun_eq_iff)
  moreover have "pgc_inv now ?s"
  proof -
    have "ordered_messages now (pt_sequence s + 1) (pt_messages s @ [?m])"
      using 6(1,2) by (intro ordered_messages_snoc) (auto simp: pgc_inv_def)
    moreover have ids: "map th_id ?ts = map th_id (pt_threads s)" by simp
    moreover have "k \<in> set (map th_id (pt_threads s))" using t(1) by (auto simp: find_Some_iff)
    ultimately show ?thesis using 6(1) unfolding pgc_inv_ids conversation_message.simps conv_db.simps ids by auto
  qed
  ultimately show ?case unfolding add by (intro exI conjI) (auto simp: fun_eq_iff)
next
  case (7 n s i k owner t)
  then have "pgc_thread s k = Some t" "th_owner t = owner"
    using pgc_get_thread_view [OF 7(1), of i owner] by (auto simp: postgres_conversations_def split: option.splits if_splits)
  then have "t \<in> set (pt_threads s)" "th_id t = k" "th_owner t = owner" by (auto simp: pgc_thread_def find_Some_iff)
  then have "filter (\<lambda>m. cm_thread_id m = k \<and> (\<exists>t \<in> set (pt_threads s). th_id t = cm_thread_id m \<and> th_owner t = owner)) (pt_messages s) =
      filter (\<lambda>m. cm_thread_id m = k) (pt_messages s)"
    by (intro filter_cong) auto
  with 7(1,2) show ?case
    by (auto simp: postgres_conversations_def pgc_list_messages_def pgc_inv_def sort_ordered)
next
  case (8 n s now)
  then show ?case by (auto simp: pgc_inv_def intro: ordered_messages_mono)
qed

definition empty_conv_db :: conv_db where
  "empty_conv_db = \<lparr>pt_threads = [], pt_messages = [], pt_sequence = 1\<rparr>"

lemma memory_history_is_log:
  assumes "conv_reach memory_conversations Some empty_conv_memory n s trace"
  shows "load_history memory_conversations owner i s =
      (case get_thread memory_conversations owner i s of Inl e \<Rightarrow> Inl e | Inr t \<Rightarrow> Inr (thread_log trace (th_id t)))"
  using assms by (rule mem_store.history_is_log) (auto simp: mem_inv_def empty_conv_memory_def dget_list_def)

text \<open>
  C31: Whatever owners do to their threads, in any order, the history of a thread that the service returns over
  the PostgreSQL repository consists of exactly the messages accepted for this thread, in the order in which
  they were appended, and all of them were appended by its owner. Anybody else gets an error.
\<close>

theorem conversation_history_is_log:
  assumes "conv_reach postgres_conversations normalize_thread_id empty_conv_db n s trace"
  shows "load_history postgres_conversations owner i s =
      (case get_thread postgres_conversations owner i s of Inl e \<Rightarrow> Inl e | Inr t \<Rightarrow> Inr (thread_log trace (th_id t))) \<and>
    (\<forall>t. get_thread postgres_conversations owner i s = Inr t \<longrightarrow>
      th_owner t = owner \<and> (\<forall>(x, m) \<in> set trace. cm_thread_id m = th_id t \<longrightarrow> x = owner))"
proof -
  have "pgc_inv 0 empty_conv_db" and "(\<lambda>k. filter (\<lambda>m. cm_thread_id m = k) (pt_messages empty_conv_db)) = (\<lambda>_. [])"
    by (simp_all add: pgc_inv_def empty_conv_db_def)
  note laws = pg_store.history_is_log [OF assms this]
  show ?thesis using laws(1) [of owner i] laws(2) [of owner i] by blast
qed

definition demo_conv_owner :: string where "demo_conv_owner = replicate 64 (CHR ''a'')"

definition demo_thread_id :: string where "demo_thread_id = ''00000000-0000-0000-0000-000000000001''"

definition demo_conv_db :: conv_db where
  "demo_conv_db = snd (append_message postgres_conversations 2 demo_conv_owner demo_thread_id ''user'' ''hi'' 0
     (snd (create_thread postgres_conversations demo_thread_id 1 demo_conv_owner ''chat'' empty_conv_db)))"

definition demo_message :: conversation_message where
  "demo_message = \<lparr>cm_id = 1, cm_thread_id = demo_thread_id, cm_role = ''user'', cm_content = ''hi'', cm_token_count = 0, cm_created_at = Some 2\<rparr>"

lemma demo_thread_id_canonical: "normalize_thread_id demo_thread_id = Some demo_thread_id"
  by code_simp

lemma demo_conv_append:
  "append_message postgres_conversations 2 demo_conv_owner demo_thread_id ''user'' ''hi'' 0
     (snd (create_thread postgres_conversations demo_thread_id 1 demo_conv_owner ''chat'' empty_conv_db)) = (Inr demo_message, demo_conv_db)"
  by code_simp

lemma demo_conv_reach: "conv_reach postgres_conversations normalize_thread_id empty_conv_db 2 demo_conv_db [(demo_conv_owner, demo_message)]"
proof -
  have "\<forall>x. cr_get_thread postgres_conversations demo_thread_id x empty_conv_db = None"
    by (simp add: postgres_conversations_def pgc_get_thread_def demo_thread_id_canonical empty_conv_db_def)
  then have "conv_reach postgres_conversations normalize_thread_id empty_conv_db 1
      (snd (create_thread postgres_conversations demo_thread_id 1 demo_conv_owner ''chat'' empty_conv_db)) []"
    using demo_thread_id_canonical
    by (intro conv_reach.create [where uuid = demo_thread_id and s = empty_conv_db and owner = demo_conv_owner and title = "''chat''"
          and r = "fst (create_thread postgres_conversations demo_thread_id 1 demo_conv_owner ''chat'' empty_conv_db)", OF conv_reach.start]) simp_all
  from conv_reach.append [OF this _ demo_conv_append] show ?thesis by simp
qed

theorem conversation_history_is_log_witness:
  "load_history postgres_conversations demo_conv_owner demo_thread_id demo_conv_db = Inr [demo_message]"
proof -
  have "map_sum id th_id (get_thread postgres_conversations demo_conv_owner demo_thread_id demo_conv_db) = Inr demo_thread_id" by code_simp
  then obtain t where "get_thread postgres_conversations demo_conv_owner demo_thread_id demo_conv_db = Inr t" "th_id t = demo_thread_id"
    by (cases "get_thread postgres_conversations demo_conv_owner demo_thread_id demo_conv_db") auto
  with conversation_history_is_log [OF demo_conv_reach, of demo_conv_owner demo_thread_id] show ?thesis
    by (simp add: thread_log_def demo_message_def)
qed

end
