(* ===== verification/ConversationContext.thy ===== *)
theory ConversationContext
  imports Conversations "HOL-Library.Sublist"
begin

text \<open>
  The short-term context of a conversation turn (\<open>ConversationService\<close> in \<open>app/conversations/service.py\<close>) and the
  helpers that attach it to a request (\<open>app/conversations/memory.py\<close>): the window of recent messages, the
  summary of the dropped ones, the token budget and the binary search that cuts a summary to it.
\<close>

section \<open>The service's settings and texts\<close>

record conversation_service =
  sc_context_limit :: int
  sc_max_prompt_tokens :: int
  sc_summary_max_chars :: int

definition new_conversation_service :: "int \<Rightarrow> int \<Rightarrow> int \<Rightarrow> conversation_service" where
  "new_conversation_service context_limit max_tokens max_chars =
     \<lparr>sc_context_limit = max context_limit 0, sc_max_prompt_tokens = max max_tokens 100, sc_summary_max_chars = max max_chars 100\<rparr>"

text \<open>A chat message is its role and its content.\<close>

type_synonym chat_message = "string \<times> string"

definition rstrip :: "string \<Rightarrow> string" where
  "rstrip s = rev (dropWhile is_space (rev s))"

definition truncate_text :: "string \<Rightarrow> int \<Rightarrow> string" where
  "truncate_text s limit =
     (if int (length s) \<le> limit then s
      else if limit \<le> 1 then (if 0 \<le> limit then take (nat limit) s else take (length s - nat (- limit)) s)
      else rstrip (take (nat (limit - 1)) s) @ [ellipsis])"

definition summarize_message :: "string \<Rightarrow> string" where
  "summarize_message content =
     (let normalized = join '' '' (py_split content)
      in if length normalized \<le> 160 then normalized else rstrip (take 159 normalized) @ [ellipsis])"

definition build_summary :: "conversation_service \<Rightarrow> chat_message list \<Rightarrow> string option" where
  "build_summary svc dropped =
     (if dropped = [] then None
      else Some (truncate_text
        (join [CHR 0x0A]
          ((''Earlier conversation summary ('' @ int_digits (int (length dropped)) @ '' message'' @
              (if length dropped \<noteq> 1 then ''s'' else []) @ '' omitted):'') #
           map (\<lambda>(role, content). ''- '' @ role @ '': '' @ summarize_message content) dropped))
        (sc_summary_max_chars svc)))"

definition merge_system_prompt :: "string option \<Rightarrow> string option \<Rightarrow> string option" where
  "merge_system_prompt system_prompt summary =
     (case summary of
        None \<Rightarrow> system_prompt
      | Some t \<Rightarrow>
          (case system_prompt of
             None \<Rightarrow> Some t
           | Some p \<Rightarrow> if blank_text p then Some t else Some (rstrip p @ [CHR 0x0A, CHR 0x0A] @ t)))"

definition context_fits :: "conversation_service \<Rightarrow> string option \<Rightarrow> chat_message list \<Rightarrow> bool" where
  "context_fits svc system_prompt history \<longleftrightarrow>
     estimate_prompt_tokens ((case system_prompt of Some p \<Rightarrow> if p \<noteq> [] then [(''system'', p)] else [] | None \<Rightarrow> []) @ history)
       \<le> sc_max_prompt_tokens svc"

section \<open>The binary search\<close>

function truncate_loop :: "conversation_service \<Rightarrow> string option \<Rightarrow> string \<Rightarrow> int \<Rightarrow> int \<Rightarrow> string \<Rightarrow> string" where
  "truncate_loop svc system_prompt summary low high best =
     (if high < low then best
      else
        (let mid = (low + high) div 2;
             candidate = rstrip (take (nat mid) summary)
         in if context_fits svc (merge_system_prompt system_prompt (Some candidate)) []
            then truncate_loop svc system_prompt summary (mid + 1) high candidate
            else truncate_loop svc system_prompt summary low (mid - 1) best))"
  by pat_completeness auto
termination
  by (relation "measure (\<lambda>(svc, system_prompt, summary, low, high, best). nat (high + 1 - low))") (auto simp: Let_def)

declare truncate_loop.simps [simp del]

definition truncate_summary_to_budget :: "conversation_service \<Rightarrow> string option \<Rightarrow> string \<Rightarrow> string" where
  "truncate_summary_to_budget svc system_prompt summary = truncate_loop svc system_prompt summary 0 (int (length summary)) []"

section \<open>The context of a turn\<close>

record conversation_context =
  cc_history :: "chat_message list"
  cc_summary :: "string option"

fun fit_loop :: "conversation_service \<Rightarrow> string option \<Rightarrow> chat_message list \<Rightarrow> chat_message list \<Rightarrow> string option \<Rightarrow> conversation_context" where
  "fit_loop svc system_prompt kept dropped summary =
     (if context_fits svc (merge_system_prompt system_prompt summary) kept then \<lparr>cc_history = kept, cc_summary = summary\<rparr>
      else
        (case kept of
           m # ms \<Rightarrow> fit_loop svc system_prompt ms (m # dropped) (build_summary svc (m # dropped))
         | [] \<Rightarrow>
             (case summary of
                None \<Rightarrow> \<lparr>cc_history = [], cc_summary = None\<rparr>
              | Some t \<Rightarrow>
                  (let t' = truncate_summary_to_budget svc system_prompt t
                   in \<lparr>cc_history = [], cc_summary = (if t' = [] then None else Some t')\<rparr>))))"

declare fit_loop.simps [simp del]

definition build_short_term_context :: "conversation_service \<Rightarrow> chat_message list \<Rightarrow> string option \<Rightarrow> conversation_context" where
  "build_short_term_context svc history system_prompt =
     (let k = length history - nat (sc_context_limit svc)
      in fit_loop svc system_prompt (drop k history) (take k history) (build_summary svc (take k history)))"

fun drop_retried_turn :: "chat_message list \<Rightarrow> string \<Rightarrow> nat \<Rightarrow> chat_message list" where
  \<comment> \<open>the loop over \<open>index = n - 1, ..., 0\<close>\<close>
  "drop_retried_turn merged current 0 = merged"
| "drop_retried_turn merged current (Suc index) =
     (if merged ! index \<noteq> (''user'', current) then drop_retried_turn merged current index
      else if \<exists>m \<in> set (drop (Suc index) merged). fst m = ''user'' then merged
      else take index merged)"

definition merge_history :: "conversation_message list \<Rightarrow> chat_message list \<Rightarrow> string option \<Rightarrow> chat_message list" where
  "merge_history server_history client_history current =
     (let merged = map (\<lambda>m. (cm_role m, cm_content m)) (filter (\<lambda>m. cm_role m \<in> set valid_roles) server_history);
          all = merged @ filter (\<lambda>m. m \<notin> set merged) client_history
      in case current of None \<Rightarrow> all | Some c \<Rightarrow> drop_retried_turn all c (length all))"

section \<open>Attaching the memory to a request\<close>

definition conversation_owner :: "(string \<Rightarrow> string) \<Rightarrow> string \<Rightarrow> string" where
  "conversation_owner hash_api_key key = (if length key = 64 \<and> list_all is_hex key then key else hash_api_key key)"

definition prepare_thread ::
  "conversation_service \<Rightarrow> 's conversation_repository \<Rightarrow> string \<Rightarrow> int \<Rightarrow> string \<Rightarrow> string option \<Rightarrow> string \<Rightarrow> chat_message list \<Rightarrow>
     string \<Rightarrow> string option \<Rightarrow> 's \<Rightarrow> (conv_error + string \<times> chat_message list \<times> string option) \<times> 's" where
  "prepare_thread svc repo uuid now owner thread_id title client_history user_content system_prompt s =
     (case resolve_thread repo uuid now owner thread_id title s of
        (Inl e, s') \<Rightarrow> (Inl e, s')
      | (Inr thread, s') \<Rightarrow>
          (case load_history repo owner (th_id thread) s' of
             Inl e \<Rightarrow> (Inl e, s')
           | Inr server_history \<Rightarrow>
               (let c = build_short_term_context svc (merge_history server_history client_history (Some user_content)) system_prompt
                in (Inr (th_id thread, cc_history c, cc_summary c), s'))))"

text \<open>The helper of the same name swallows every exception of the service.\<close>

definition persist_turn_quietly :: "'s conversation_repository \<Rightarrow> int \<Rightarrow> int \<Rightarrow> string \<Rightarrow> string \<Rightarrow> string \<Rightarrow> string option \<Rightarrow> 's \<Rightarrow> 's" where
  "persist_turn_quietly repo now now' owner thread_id user_content assistant_content s =
     snd (persist_turn repo now now' owner thread_id user_content assistant_content s)"

fun inject_into_first :: "chat_message list \<Rightarrow> string \<Rightarrow> chat_message list option" where
  "inject_into_first [] summary = None"
| "inject_into_first ((role, content) # ms) summary =
     (if role \<noteq> ''system'' then map_option ((#) (role, content)) (inject_into_first ms summary)
      else Some ((''system'', (case merge_system_prompt (Some content) (Some summary) of
                    Some p \<Rightarrow> if p \<noteq> [] then p else summary | None \<Rightarrow> summary)) # ms))"

definition inject_openai_summary :: "chat_message list \<Rightarrow> string option \<Rightarrow> chat_message list" where
  "inject_openai_summary messages summary =
     (case summary of
        None \<Rightarrow> messages
      | Some t \<Rightarrow> (case inject_into_first messages t of Some ms \<Rightarrow> ms | None \<Rightarrow> (''system'', t) # messages))"

section \<open>Cut texts cost no more\<close>

lemma rstrip_append: "rstrip (xs @ ys) = (if rstrip ys = [] then rstrip xs else xs @ rstrip ys)"
  by (induction ys rule: rev_induct) (auto simp: rstrip_def)

lemma rstrip_prefix: "prefix (rstrip xs) xs"
  by (induction xs rule: rev_induct) (auto simp: rstrip_def)

lemma rstrip_take_mono:
  assumes "i \<le> j"
  shows "prefix (rstrip (take i s)) (rstrip (take j s))"
proof -
  have "take j s = take i s @ take (j - i) (drop i s)" using assms by (metis le_add_diff_inverse take_add)
  then show ?thesis using rstrip_prefix [of "take i s"] by (auto simp: rstrip_append)
qed

lemma utf8_length_append [simp]: "utf8_length (xs @ ys) = utf8_length xs + utf8_length ys"
  by (simp add: utf8_length_def)

lemma utf8_length_Cons: "utf8_length (c # s) = utf8_bytes c + utf8_length s"
  by (simp add: utf8_length_def)

lemma utf8_length_nonneg [simp]: "0 \<le> utf8_length s"
  by (induction s) (auto simp: utf8_length_def utf8_bytes_def)

definition summary_fits :: "conversation_service \<Rightarrow> string option \<Rightarrow> string \<Rightarrow> bool" where
  "summary_fits svc system_prompt t \<longleftrightarrow> context_fits svc (merge_system_prompt system_prompt (Some t)) []"

lemma summary_fits_prefix: "prefix t t' \<Longrightarrow> summary_fits svc p t' \<Longrightarrow> summary_fits svc p t"
  by (auto simp: summary_fits_def context_fits_def merge_system_prompt_def estimate_prompt_tokens_def elim!: prefixE
      split: option.splits if_splits)
    (smt (verit) utf8_length_nonneg utf8_length_Cons utf8_length_append)+

section \<open>The binary search finds the longest summary that fits\<close>

definition candidates :: "conversation_service \<Rightarrow> string option \<Rightarrow> string \<Rightarrow> string list" where
  "candidates svc system_prompt summary =
     filter (summary_fits svc system_prompt) (map (\<lambda>k. rstrip (take k summary)) [0..<Suc (length summary)])"

lemma truncate_loop_longest:
  assumes "0 \<le> low" and "low \<le> high + 1" and "high \<le> int (length s)"
    and "\<forall>k. int k < low \<longrightarrow> summary_fits svc p (rstrip (take k s))"
    and "\<forall>k. high < int k \<and> k \<le> length s \<longrightarrow> \<not> summary_fits svc p (rstrip (take k s))"
    and "best = (if low = 0 then [] else rstrip (take (nat (low - 1)) s))"
  shows "\<exists>n \<le> Suc (length s). (\<forall>k < n. summary_fits svc p (rstrip (take k s))) \<and>
    (\<forall>k \<in> {n..length s}. \<not> summary_fits svc p (rstrip (take k s))) \<and>
    truncate_loop svc p s low high best = (if n = 0 then [] else rstrip (take (n - 1) s))"
  using assms
proof (induction svc p s low high best rule: truncate_loop.induct)
  case (1 svc p s low high best)
  show ?case
  proof (cases "high < low")
    case True
    with 1(3-8) show ?thesis
      by (intro exI [of _ "nat low"]) (auto simp: truncate_loop.simps nat_diff_distrib)
  next
    case False
    define mid where "mid = (low + high) div 2"
    have mid: "low \<le> mid" "mid \<le> high" using False by (auto simp: mid_def)
    show ?thesis
    proof (cases "summary_fits svc p (rstrip (take (nat mid) s))")
      case True
      have "\<forall>k. int k < mid + 1 \<longrightarrow> summary_fits svc p (rstrip (take k s))"
        using summary_fits_prefix [OF rstrip_take_mono True] by auto
      with 1(1) [OF False mid_def refl True [unfolded summary_fits_def]] 1(3-8) mid False True show ?thesis
        by (subst truncate_loop.simps) (simp add: mid_def [symmetric] summary_fits_def Let_def)
    next
      case no: False
      have "\<forall>k. mid - 1 < int k \<and> k \<le> length s \<longrightarrow> \<not> summary_fits svc p (rstrip (take k s))"
        using summary_fits_prefix [OF rstrip_take_mono] no 1(3) mid(1) by (metis add_le_cancel_right diff_add_cancel nat_le_iff zless_imp_add1_zle)
      with 1(2) [OF False mid_def refl no [unfolded summary_fits_def]] 1(3-8) mid False no show ?thesis
        by (subst truncate_loop.simps) (simp add: mid_def [symmetric] summary_fits_def Let_def)
    qed
  qed
qed

lemma candidates_upt:
  assumes "n \<le> Suc (length s)" and "\<forall>k < n. summary_fits svc p (rstrip (take k s))" and "\<forall>k \<in> {n..length s}. \<not> summary_fits svc p (rstrip (take k s))"
  shows "candidates svc p s = map (\<lambda>k. rstrip (take k s)) [0..<n]"
proof -
  have "[0..<Suc (length s)] = [0..<n] @ [n..<Suc (length s)]" using assms(1) upt_add_eq_append [of 0 n "Suc (length s) - n"] by simp
  moreover have "filter (summary_fits svc p) (map (\<lambda>k. rstrip (take k s)) [0..<n]) = map (\<lambda>k. rstrip (take k s)) [0..<n]"
    using assms(2) by (intro filter_True) auto
  moreover have "filter (summary_fits svc p) (map (\<lambda>k. rstrip (take k s)) [n..<Suc (length s)]) = []"
    using assms(3) by (intro filter_False) (auto simp del: upt_Suc)
  ultimately show ?thesis by (simp add: candidates_def del: upt_Suc)
qed

lemma truncate_summary_last:
  "truncate_summary_to_budget svc system_prompt summary =
     (let cs = candidates svc system_prompt summary in if cs = [] then [] else last cs)"
proof -
  obtain n where n: "n \<le> Suc (length summary)" "\<forall>k < n. summary_fits svc system_prompt (rstrip (take k summary))"
    "\<forall>k \<in> {n..length summary}. \<not> summary_fits svc system_prompt (rstrip (take k summary))"
    "truncate_loop svc system_prompt summary 0 (int (length summary)) [] = (if n = 0 then [] else rstrip (take (n - 1) summary))"
    using truncate_loop_longest [of 0 "int (length summary)" summary svc system_prompt "[]"] by fastforce
  show ?thesis unfolding candidates_upt [OF n(1-3)] truncate_summary_to_budget_def n(4)
    by (cases n) auto
qed

text \<open>
  C32: The binary search over the length of a summary returns what a search through all lengths would: the
  longest prefix, without trailing white space, with which the prompt stays within the token budget, and the
  empty text when there is none.
\<close>

theorem truncate_summary_is_longest:
  "truncate_summary_to_budget svc system_prompt summary =
     (let cs = filter (\<lambda>t. context_fits svc (merge_system_prompt system_prompt (Some t)) [])
                 (map (\<lambda>k. rstrip (take k summary)) [0..<Suc (length summary)])
      in if cs = [] then [] else last cs)"
  using truncate_summary_last [of svc system_prompt summary] by (simp add: candidates_def summary_fits_def [abs_def])

section \<open>The context stays within its bounds\<close>

lemma truncate_text_length: "1 \<le> limit \<Longrightarrow> int (length (truncate_text s limit)) \<le> limit"
  using prefix_length_le [OF rstrip_prefix [of "take (nat (limit - 1)) s"]] by (auto simp: truncate_text_def)

lemma build_summary_length: "build_summary svc ms = Some t \<Longrightarrow> 1 \<le> sc_summary_max_chars svc \<Longrightarrow> int (length t) \<le> sc_summary_max_chars svc"
  by (auto simp: build_summary_def truncate_text_length split: if_splits)

lemma truncate_summary_props:
  assumes "truncate_summary_to_budget svc p t \<noteq> []"
  shows "summary_fits svc p (truncate_summary_to_budget svc p t)" and "length (truncate_summary_to_budget svc p t) \<le> length t"
proof -
  let ?cs = "candidates svc p t"
  have ne: "?cs \<noteq> []" and eq: "truncate_summary_to_budget svc p t = last ?cs"
    using assms truncate_summary_last [of svc p t] by (auto simp: Let_def split: if_splits)
  from ne have mem: "last ?cs \<in> set ?cs" by simp
  have sub: "set ?cs \<subseteq> {c. summary_fits svc p c} \<inter> range (\<lambda>k. rstrip (take k t))" by (auto simp: candidates_def simp del: upt_Suc)
  with mem show "summary_fits svc p (truncate_summary_to_budget svc p t)" unfolding eq by blast
  from sub mem obtain k where "last ?cs = rstrip (take k t)" by blast
  with prefix_length_le [OF rstrip_prefix [of "take k t"]] show "length (truncate_summary_to_budget svc p t) \<le> length t" by (simp add: eq)
qed

definition context_ok :: "conversation_service \<Rightarrow> string option \<Rightarrow> conversation_context \<Rightarrow> bool" where
  "context_ok svc p c \<longleftrightarrow> (context_fits svc (merge_system_prompt p (cc_summary c)) (cc_history c) \<or> cc_history c = [] \<and> cc_summary c = None) \<and>
     (case cc_summary c of None \<Rightarrow> True | Some t \<Rightarrow> int (length t) \<le> sc_summary_max_chars svc)"

lemma fit_loop_ok:
  assumes "1 \<le> sc_summary_max_chars svc" and "\<forall>t. summary = Some t \<longrightarrow> int (length t) \<le> sc_summary_max_chars svc"
  shows "context_ok svc p (fit_loop svc p kept dropped summary) \<and> suffix (cc_history (fit_loop svc p kept dropped summary)) kept"
  using assms(2)
proof (induction kept arbitrary: dropped summary)
  case Nil
  show ?case
  proof (cases "context_fits svc (merge_system_prompt p summary) []")
    case True
    with Nil show ?thesis by (auto simp: fit_loop.simps context_ok_def split: option.splits)
  next
    case False
    show ?thesis
    proof (cases summary)
      case (Some t)
      with False Nil truncate_summary_props [of svc p t] show ?thesis
        by (auto simp: fit_loop.simps context_ok_def summary_fits_def Let_def)
    qed (use False in \<open>simp add: fit_loop.simps context_ok_def\<close>)
  qed
next
  case (Cons m ms)
  show ?case
  proof (cases "context_fits svc (merge_system_prompt p summary) (m # ms)")
    case True
    with Cons.prems show ?thesis by (auto simp: fit_loop.simps context_ok_def split: option.splits)
  next
    case False
    with Cons.IH [of "build_summary svc (m # dropped)" "m # dropped"] build_summary_length [OF _ assms(1), of "m # dropped"] show ?thesis
      by (subst (1 2) fit_loop.simps) (auto intro: suffix_ConsI)
  qed
qed

text \<open>
  C33: For every history and system prompt, building the short-term context ends with a suffix of the history
  of at most \<open>context_limit\<close> messages and a summary of at most the configured length, and the prompt made of
  them fits the token budget, unless nothing but the system prompt is left.
\<close>

theorem context_within_budget:
  "let svc = new_conversation_service limit tokens chars; c = build_short_term_context svc history system_prompt
   in suffix (cc_history c) history \<and> int (length (cc_history c)) \<le> max limit 0 \<and>
      (case cc_summary c of None \<Rightarrow> True | Some t \<Rightarrow> int (length t) \<le> max chars 100) \<and>
      (estimate_prompt_tokens ((case merge_system_prompt system_prompt (cc_summary c) of
            Some p \<Rightarrow> if p \<noteq> [] then [(''system'', p)] else [] | None \<Rightarrow> []) @ cc_history c) \<le> max tokens 100 \<or>
       cc_history c = [] \<and> cc_summary c = None)"
proof -
  define svc where "svc = new_conversation_service limit tokens chars"
  define k where "k = length history - nat (sc_context_limit svc)"
  let ?c = "build_short_term_context svc history system_prompt"
  have svc: "sc_context_limit svc = max limit 0" "sc_max_prompt_tokens svc = max tokens 100" "sc_summary_max_chars svc = max chars 100"
    by (simp_all add: svc_def new_conversation_service_def)
  have one: "1 \<le> sc_summary_max_chars svc" by (simp add: svc)
  have "context_ok svc system_prompt ?c \<and> suffix (cc_history ?c) (drop k history)"
    using fit_loop_ok [OF one, of "build_summary svc (take k history)" system_prompt "drop k history" "take k history"]
      build_summary_length [OF _ one] by (auto simp: build_short_term_context_def k_def Let_def)
  moreover from this have "suffix (cc_history ?c) history" "length (cc_history ?c) \<le> length (drop k history)"
    using suffix_drop suffix_order.trans suffix_length_le by blast+
  ultimately show ?thesis unfolding svc_def [symmetric] Let_def
    unfolding context_ok_def context_fits_def svc k_def by auto
qed

text \<open>
  Messages dropped for the token budget are put in front of those dropped for the window, so that the summary
  lists them in the wrong order: here the second message of the conversation before the first.
\<close>

lemma summary_out_of_order:
  "build_short_term_context (new_conversation_service 2 100 400) [(''user'', ''one''), (''user'', ''two'' @ replicate 40 (CHR '' '')), (''user'', ''x'')] None =
    \<lparr>cc_history = [(''user'', ''x'')],
     cc_summary = Some (''Earlier conversation summary (2 messages omitted):'' @ [CHR 0x0A] @ ''- user: two'' @ [CHR 0x0A] @ ''- user: one'')\<rparr>"
  by code_simp

text \<open>A retried user turn is dropped with everything behind it; otherwise the merged history is kept.\<close>

lemma drop_retried_turn_prefix: "n \<le> length ms \<Longrightarrow> prefix (drop_retried_turn ms c n) ms"
  by (induction n) (auto simp: take_is_prefix)

end
