(* ===== verification/Workspaces.thy ===== *)
theory Workspaces
  imports Billing RagStore
begin

text \<open>
  Users and workspaces with role-based access: \<open>app/auth/users_repository.py\<close>, \<open>user_service.py\<close>,
  \<open>password.py\<close>, \<open>workspaces_repository.py\<close> and \<open>workspace_service.py\<close>, with the member ceiling of the plan
  (\<open>app/billing/entitlement.py\<close>, theory \<open>Billing\<close>).

  Fresh identifiers, salts and the clock are arguments, and so is the key derivation \<open>hashlib.scrypt\<close>. The audit
  log is output only and left out.
\<close>

section \<open>Users\<close>

record user_record =
  us_id :: string
  us_email :: string
  us_display_name :: string
  us_password_salt :: string
  us_password_hash :: string
  us_status :: string
  us_created_at :: "int option"

datatype auth_error = AuthValidation string | Authorization string | Authentication string | Conflict string | DatabaseError | PlanError billing_error

record user_store =
  ur_records :: "(string, user_record) pydict"
  ur_by_email :: "(string, string) pydict"

definition user_create :: "user_record \<Rightarrow> user_store \<Rightarrow> user_store" where
  "user_create r us = \<lparr>ur_records = dset (us_id r) r (ur_records us), ur_by_email = dset (us_email r) (us_id r) (ur_by_email us)\<rparr>"

definition find_by_id :: "user_store \<Rightarrow> string \<Rightarrow> user_record option" where
  "find_by_id us i = dget (ur_records us) i"

definition find_by_email :: "user_store \<Rightarrow> string \<Rightarrow> user_record option" where
  "find_by_email us email = (case dget (ur_by_email us) email of None \<Rightarrow> None | Some i \<Rightarrow> dget (ur_records us) i)"

text \<open>\<open>hash_password\<close> with a given salt, and \<open>verify_password\<close>.\<close>

definition hash_password :: "(string \<Rightarrow> string \<Rightarrow> string) \<Rightarrow> string \<Rightarrow> string \<Rightarrow> string \<times> string" where
  "hash_password scrypt password salt = (salt, scrypt password salt)"

definition verify_password :: "(string \<Rightarrow> string \<Rightarrow> string) \<Rightarrow> string \<Rightarrow> string \<Rightarrow> string \<Rightarrow> bool" where
  "verify_password scrypt password salt password_hash \<longleftrightarrow> snd (hash_password scrypt password salt) = password_hash"

definition clean_email :: "string \<Rightarrow> string" where
  "clean_email email = py_lower (strip_chars is_space email)"

definition register ::
  "(string \<Rightarrow> string \<Rightarrow> string) \<Rightarrow> string \<Rightarrow> string \<Rightarrow> int \<Rightarrow> string \<Rightarrow> string \<Rightarrow> string \<Rightarrow> user_store \<Rightarrow> (auth_error + user_record) \<times> user_store" where
  "register scrypt uuid salt now email display_name password us =
     (let e = clean_email email
      in if e = [] \<or> CHR ''@'' \<notin> set e then (Inl (AuthValidation ''Invalid email address.''), us)
         else if display_name = [] \<or> strip_chars is_space display_name = [] then (Inl (AuthValidation ''display_name is required.''), us)
         else if password = [] \<or> length password < 6 then (Inl (AuthValidation ''Password must be at least 6 characters.''), us)
         else if find_by_email us e \<noteq> None then (Inl (Conflict (''User with email '' @ [CHR 0x27] @ e @ [CHR 0x27] @ '' already exists.'')), us)
         else
           (case hash_password scrypt password salt of
              (s, h) \<Rightarrow>
                (let r = \<lparr>us_id = uuid, us_email = e, us_display_name = strip_chars is_space display_name, us_password_salt = s,
                          us_password_hash = h, us_status = ''active'', us_created_at = Some now\<rparr>
                 in (Inr r, user_create r us))))"

definition login :: "(string \<Rightarrow> string \<Rightarrow> string) \<Rightarrow> string \<Rightarrow> string \<Rightarrow> user_store \<Rightarrow> auth_error + user_record" where
  "login scrypt email password us =
     (case find_by_email us (clean_email email) of
        None \<Rightarrow> Inl (Authentication ''Invalid email or password.'')
      | Some r \<Rightarrow>
          if us_status r \<noteq> ''active'' then Inl (Authentication ''Account is disabled.'')
          else if \<not> verify_password scrypt password (us_password_salt r) (us_password_hash r)
          then Inl (Authentication ''Invalid email or password.'')
          else Inr r)"

section \<open>Workspaces and members\<close>

record workspace_record =
  ws_id :: string
  ws_name :: string
  ws_created_by :: string
  ws_created_at :: "int option"
  ws_updated_at :: "int option"

record member_record =
  wm_id :: int
  wm_workspace :: string
  wm_user :: string
  wm_role :: string
  wm_created_at :: "int option"

record 's workspace_repository =
  wr_create_workspace :: "workspace_record \<Rightarrow> 's \<Rightarrow> (auth_error + workspace_record) \<times> 's"
  wr_find_workspace :: "string \<Rightarrow> 's \<Rightarrow> workspace_record option"
  wr_update_workspace :: "int \<Rightarrow> string \<Rightarrow> string \<Rightarrow> 's \<Rightarrow> workspace_record option \<times> 's"
  wr_list_for_user :: "string \<Rightarrow> 's \<Rightarrow> (workspace_record \<times> string) list"
  wr_add_member :: "int \<Rightarrow> string \<Rightarrow> string \<Rightarrow> string \<Rightarrow> 's \<Rightarrow> (auth_error + member_record) \<times> 's"
  wr_list_members :: "string \<Rightarrow> 's \<Rightarrow> member_record list"
  wr_get_member :: "string \<Rightarrow> string \<Rightarrow> 's \<Rightarrow> member_record option"
  wr_update_member_role :: "string \<Rightarrow> string \<Rightarrow> string \<Rightarrow> 's \<Rightarrow> bool \<times> 's"
  wr_remove_member :: "string \<Rightarrow> string \<Rightarrow> 's \<Rightarrow> bool \<times> 's"

definition is_member :: "string \<Rightarrow> string \<Rightarrow> member_record \<Rightarrow> bool" where
  "is_member w u m \<longleftrightarrow> wm_workspace m = w \<and> wm_user m = u"

subsection \<open>In memory\<close>

record ws_memory =
  wm_workspaces :: "(string, workspace_record) pydict"
  wm_members :: "member_record list"
  wm_member_id_seq :: int

definition memw_create_workspace :: "workspace_record \<Rightarrow> ws_memory \<Rightarrow> (auth_error + workspace_record) \<times> ws_memory" where
  "memw_create_workspace r s = (Inr r, s\<lparr>wm_workspaces := dset (ws_id r) r (wm_workspaces s)\<rparr>)"

definition memw_find_workspace :: "string \<Rightarrow> ws_memory \<Rightarrow> workspace_record option" where
  "memw_find_workspace w s = dget (wm_workspaces s) w"

definition memw_update_workspace :: "int \<Rightarrow> string \<Rightarrow> string \<Rightarrow> ws_memory \<Rightarrow> workspace_record option \<times> ws_memory" where
  "memw_update_workspace now w name s =
     (case dget (wm_workspaces s) w of
        None \<Rightarrow> (None, s)
      | Some r \<Rightarrow>
          (let r' = r\<lparr>ws_name := name, ws_updated_at := Some now\<rparr> in (Some r', s\<lparr>wm_workspaces := dset w r' (wm_workspaces s)\<rparr>)))"

definition memw_list_for_user :: "string \<Rightarrow> ws_memory \<Rightarrow> (workspace_record \<times> string) list" where
  "memw_list_for_user u s =
     concat (map (\<lambda>m. if wm_user m = u then (case dget (wm_workspaces s) (wm_workspace m) of None \<Rightarrow> [] | Some r \<Rightarrow> [(r, wm_role m)]) else [])
       (wm_members s))"

definition memw_add_member :: "int \<Rightarrow> string \<Rightarrow> string \<Rightarrow> string \<Rightarrow> ws_memory \<Rightarrow> (auth_error + member_record) \<times> ws_memory" where
  "memw_add_member now w u role s =
     (if \<exists>m \<in> set (wm_members s). is_member w u m
      then (Inl (Conflict (''User '' @ u @ '' is already a member of workspace '' @ w)), s)
      else
        (let n = wm_member_id_seq s + 1;
             m = \<lparr>wm_id = n, wm_workspace = w, wm_user = u, wm_role = role, wm_created_at = Some now\<rparr>
         in (Inr m, s\<lparr>wm_member_id_seq := n, wm_members := wm_members s @ [m]\<rparr>)))"

definition memw_list_members :: "string \<Rightarrow> ws_memory \<Rightarrow> member_record list" where
  "memw_list_members w s = filter (\<lambda>m. wm_workspace m = w) (wm_members s)"

definition memw_get_member :: "string \<Rightarrow> string \<Rightarrow> ws_memory \<Rightarrow> member_record option" where
  "memw_get_member w u s = find (is_member w u) (wm_members s)"

fun update_first :: "('a \<Rightarrow> bool) \<Rightarrow> ('a \<Rightarrow> 'a) \<Rightarrow> 'a list \<Rightarrow> bool \<times> 'a list" where
  "update_first p f [] = (False, [])"
| "update_first p f (x # xs) = (if p x then (True, f x # xs) else (case update_first p f xs of (b, ys) \<Rightarrow> (b, x # ys)))"

fun remove_first :: "('a \<Rightarrow> bool) \<Rightarrow> 'a list \<Rightarrow> bool \<times> 'a list" where
  "remove_first p [] = (False, [])"
| "remove_first p (x # xs) = (if p x then (True, xs) else (case remove_first p xs of (b, ys) \<Rightarrow> (b, x # ys)))"

definition memw_update_member_role :: "string \<Rightarrow> string \<Rightarrow> string \<Rightarrow> ws_memory \<Rightarrow> bool \<times> ws_memory" where
  "memw_update_member_role w u role s =
     (case update_first (is_member w u) (\<lambda>m. m\<lparr>wm_role := role\<rparr>) (wm_members s) of (b, ms) \<Rightarrow> (b, s\<lparr>wm_members := ms\<rparr>))"

definition memw_remove_member :: "string \<Rightarrow> string \<Rightarrow> ws_memory \<Rightarrow> bool \<times> ws_memory" where
  "memw_remove_member w u s = (case remove_first (is_member w u) (wm_members s) of (b, ms) \<Rightarrow> (b, s\<lparr>wm_members := ms\<rparr>))"

definition memory_workspaces :: "ws_memory workspace_repository" where
  "memory_workspaces =
     \<lparr>wr_create_workspace = memw_create_workspace, wr_find_workspace = memw_find_workspace, wr_update_workspace = memw_update_workspace,
      wr_list_for_user = memw_list_for_user, wr_add_member = memw_add_member, wr_list_members = memw_list_members,
      wr_get_member = memw_get_member, wr_update_member_role = memw_update_member_role, wr_remove_member = memw_remove_member\<rparr>"

subsection \<open>In PostgreSQL\<close>

text \<open>
  Three tables; of a user only the identifier matters here. Identifiers are canonical. What breaks a
  constraint (an unknown user or workspace, a second membership, a name too long for its column) raises an error
  of the database, which the repository does not catch.
\<close>

record ws_db =
  pw_users :: "string list"
  pw_workspaces :: "workspace_record list"
  pw_members :: "member_record list"
  pw_sequence :: int

definition pgw_create_workspace :: "workspace_record \<Rightarrow> ws_db \<Rightarrow> (auth_error + workspace_record) \<times> ws_db" where
  "pgw_create_workspace r db =
     (if (\<exists>x \<in> set (pw_workspaces db). ws_id x = ws_id r) \<or> ws_created_by r \<notin> set (pw_users db) \<or> 128 < length (ws_name r)
      then (Inl DatabaseError, db)
      else (Inr r, db\<lparr>pw_workspaces := pw_workspaces db @ [r]\<rparr>))"

definition pgw_find_workspace :: "string \<Rightarrow> ws_db \<Rightarrow> workspace_record option" where
  "pgw_find_workspace w db = find (\<lambda>r. ws_id r = w) (pw_workspaces db)"

definition pgw_update_workspace :: "int \<Rightarrow> string \<Rightarrow> string \<Rightarrow> ws_db \<Rightarrow> workspace_record option \<times> ws_db" where
  "pgw_update_workspace now w name db =
     (case find (\<lambda>r. ws_id r = w) (pw_workspaces db) of
        None \<Rightarrow> (None, db)
      | Some r \<Rightarrow>
          (Some (r\<lparr>ws_name := name, ws_updated_at := Some now\<rparr>),
           db\<lparr>pw_workspaces := map (\<lambda>r. if ws_id r = w then r\<lparr>ws_name := name, ws_updated_at := Some now\<rparr> else r) (pw_workspaces db)\<rparr>))"

definition pgw_list_for_user :: "string \<Rightarrow> ws_db \<Rightarrow> (workspace_record \<times> string) list" where
  "pgw_list_for_user u db =
     concat (map (\<lambda>m. if wm_user m = u then map (\<lambda>r. (r, wm_role m)) (filter (\<lambda>r. ws_id r = wm_workspace m) (pw_workspaces db)) else [])
       (pw_members db))"

definition pgw_add_member :: "int \<Rightarrow> string \<Rightarrow> string \<Rightarrow> string \<Rightarrow> ws_db \<Rightarrow> (auth_error + member_record) \<times> ws_db" where
  "pgw_add_member now w u role db =
     (if (\<exists>m \<in> set (pw_members db). is_member w u m) \<or> (\<forall>r \<in> set (pw_workspaces db). ws_id r \<noteq> w) \<or> u \<notin> set (pw_users db)
      then (Inl DatabaseError, db)
      else
        (let m = \<lparr>wm_id = pw_sequence db, wm_workspace = w, wm_user = u, wm_role = role, wm_created_at = Some now\<rparr>
         in (Inr m, db\<lparr>pw_sequence := pw_sequence db + 1, pw_members := pw_members db @ [m]\<rparr>)))"

definition pgw_list_members :: "string \<Rightarrow> ws_db \<Rightarrow> member_record list" where
  "pgw_list_members w db = filter (\<lambda>m. wm_workspace m = w) (pw_members db)"

definition pgw_get_member :: "string \<Rightarrow> string \<Rightarrow> ws_db \<Rightarrow> member_record option" where
  "pgw_get_member w u db = find (is_member w u) (pw_members db)"

definition pgw_update_member_role :: "string \<Rightarrow> string \<Rightarrow> string \<Rightarrow> ws_db \<Rightarrow> bool \<times> ws_db" where
  "pgw_update_member_role w u role db =
     (if find (is_member w u) (pw_members db) = None then (False, db)
      else (True, db\<lparr>pw_members := map (\<lambda>m. if is_member w u m then m\<lparr>wm_role := role\<rparr> else m) (pw_members db)\<rparr>))"

definition pgw_remove_member :: "string \<Rightarrow> string \<Rightarrow> ws_db \<Rightarrow> bool \<times> ws_db" where
  "pgw_remove_member w u db =
     (\<exists>m \<in> set (pw_members db). is_member w u m, db\<lparr>pw_members := filter (\<lambda>m. \<not> is_member w u m) (pw_members db)\<rparr>)"

definition postgres_workspaces :: "ws_db workspace_repository" where
  "postgres_workspaces =
     \<lparr>wr_create_workspace = pgw_create_workspace, wr_find_workspace = pgw_find_workspace, wr_update_workspace = pgw_update_workspace,
      wr_list_for_user = pgw_list_for_user, wr_add_member = pgw_add_member, wr_list_members = pgw_list_members,
      wr_get_member = pgw_get_member, wr_update_member_role = pgw_update_member_role, wr_remove_member = pgw_remove_member\<rparr>"

section \<open>The workspace service\<close>

definition ws_roles :: "string list" where "ws_roles = [''owner'', ''admin'', ''member'', ''viewer'']"

definition member_management_roles :: "string list" where "member_management_roles = [''owner'', ''admin'']"

definition create_workspace ::
  "'s workspace_repository \<Rightarrow> string \<Rightarrow> int \<Rightarrow> string \<Rightarrow> string \<Rightarrow> 's \<Rightarrow> (auth_error + workspace_record \<times> string) \<times> 's" where
  "create_workspace repo uuid now user name s =
     (let n = strip_chars is_space name
      in if n = [] then (Inl (AuthValidation ''Workspace name is required.''), s)
         else
           (case wr_create_workspace repo \<lparr>ws_id = uuid, ws_name = n, ws_created_by = user, ws_created_at = Some now, ws_updated_at = None\<rparr> s of
              (Inl e, s') \<Rightarrow> (Inl e, s')
            | (Inr saved, s') \<Rightarrow>
                (case wr_add_member repo now uuid user ''owner'' s' of
                   (Inl e, s'') \<Rightarrow> (Inl e, s'')
                 | (Inr _, s'') \<Rightarrow> (Inr (saved, ''owner''), s''))))"

definition require_member_role :: "'s workspace_repository \<Rightarrow> string \<Rightarrow> string \<Rightarrow> string list \<Rightarrow> 's \<Rightarrow> auth_error + member_record" where
  "require_member_role repo w user allowed s =
     (case wr_get_member repo w user s of
        None \<Rightarrow> Inl (Authorization ''You are not a member of this workspace.'')
      | Some m \<Rightarrow>
          if wm_role m \<notin> set allowed
          then Inl (Authorization (''Role '' @ [CHR 0x27] @ wm_role m @ [CHR 0x27] @ '' is not allowed for this operation.''))
          else Inr m)"

definition rename_workspace :: "'s workspace_repository \<Rightarrow> int \<Rightarrow> string \<Rightarrow> string \<Rightarrow> string \<Rightarrow> 's \<Rightarrow> (auth_error + workspace_record) \<times> 's" where
  "rename_workspace repo now w actor name s =
     (let cleaned = strip_chars is_space name
      in if cleaned = [] then (Inl (AuthValidation ''Workspace name is required.''), s)
         else if 128 < length cleaned then (Inl (AuthValidation ''Workspace name is too long.''), s)
         else
           (case require_member_role repo w actor member_management_roles s of
              Inl e \<Rightarrow> (Inl e, s)
            | Inr _ \<Rightarrow>
                (case wr_find_workspace repo w s of
                   None \<Rightarrow> (Inl (AuthValidation ''Workspace not found.''), s)
                 | Some _ \<Rightarrow>
                     (case wr_update_workspace repo now w cleaned s of
                        (None, s') \<Rightarrow> (Inl (AuthValidation ''Workspace not found.''), s')
                      | (Some r, s') \<Rightarrow> (Inr r, s')))))"

definition invalid_role :: "string \<Rightarrow> auth_error" where
  "invalid_role role = AuthValidation (''Invalid role '' @ [CHR 0x27] @ role @ [CHR 0x27] @ ''. Must be one of: admin, member, owner, viewer.'')"

definition add_member ::
  "('b billing_ops \<times> 'b) option \<Rightarrow> user_store \<Rightarrow> 's workspace_repository \<Rightarrow> int \<Rightarrow> string \<Rightarrow> string \<Rightarrow> string \<Rightarrow> string \<Rightarrow> 's \<Rightarrow>
     (auth_error + member_record) \<times> 's" where
  "add_member entitlement us repo now w actor email role s =
     (case require_member_role repo w actor member_management_roles s of
        Inl e \<Rightarrow> (Inl e, s)
      | Inr _ \<Rightarrow>
          (let r = py_lower role
           in if r \<notin> set ws_roles then (Inl (invalid_role r), s)
              else if r = ''owner'' then (Inl (AuthValidation (''Cannot assign the '' @ [CHR 0x27] @ ''owner'' @ [CHR 0x27] @ '' role via member management.'')), s)
              else
                (case find_by_email us (clean_email email) of
                   None \<Rightarrow> (Inl (AuthValidation (''User with email '' @ [CHR 0x27] @ email @ [CHR 0x27] @ '' not found.'')), s)
                 | Some target \<Rightarrow>
                     (case (case entitlement of None \<Rightarrow> Inr ()
                            | Some (ops, bs) \<Rightarrow> require_limit ops bs w ''member'' (int (length (wr_list_members repo w s)))) of
                        Inl e \<Rightarrow> (Inl (PlanError e), s)
                      | Inr _ \<Rightarrow> wr_add_member repo now w (us_id target) r s))))"

definition list_members :: "'s workspace_repository \<Rightarrow> string \<Rightarrow> string \<Rightarrow> 's \<Rightarrow> auth_error + member_record list" where
  "list_members repo w actor s =
     (case require_member_role repo w actor ws_roles s of Inl e \<Rightarrow> Inl e | Inr _ \<Rightarrow> Inr (wr_list_members repo w s))"

definition update_member_role :: "'s workspace_repository \<Rightarrow> string \<Rightarrow> string \<Rightarrow> string \<Rightarrow> string \<Rightarrow> 's \<Rightarrow> (auth_error + unit) \<times> 's" where
  "update_member_role repo w actor target role s =
     (case require_member_role repo w actor member_management_roles s of
        Inl e \<Rightarrow> (Inl e, s)
      | Inr _ \<Rightarrow>
          (let r = py_lower role
           in if r \<notin> set ws_roles then (Inl (invalid_role r), s)
              else if r = ''owner'' then (Inl (AuthValidation (''Cannot assign the '' @ [CHR 0x27] @ ''owner'' @ [CHR 0x27] @ '' role via role update.'')), s)
              else
                (case wr_get_member repo w target s of
                   None \<Rightarrow> (Inl (AuthValidation ''Target user is not a member of this workspace.''), s)
                 | Some m \<Rightarrow>
                     if wm_role m = ''owner'' then (Inl (Authorization ''Cannot change the role of the workspace owner.''), s)
                     else
                       (case wr_update_member_role repo w target r s of
                          (False, s') \<Rightarrow> (Inl (AuthValidation ''Failed to update member role.''), s')
                        | (True, s') \<Rightarrow> (Inr (), s')))))"

definition remove_member :: "'s workspace_repository \<Rightarrow> string \<Rightarrow> string \<Rightarrow> string \<Rightarrow> 's \<Rightarrow> (auth_error + unit) \<times> 's" where
  "remove_member repo w actor target s =
     (case require_member_role repo w actor member_management_roles s of
        Inl e \<Rightarrow> (Inl e, s)
      | Inr _ \<Rightarrow>
          (case wr_get_member repo w target s of
             None \<Rightarrow> (Inl (AuthValidation ''Target user is not a member of this workspace.''), s)
           | Some m \<Rightarrow>
               if wm_role m = ''owner'' then (Inl (Authorization ''Cannot remove the workspace owner.''), s)
               else
                 (case wr_remove_member repo w target s of
                    (False, s') \<Rightarrow> (Inl (AuthValidation ''Failed to remove member.''), s')
                  | (True, s') \<Rightarrow> (Inr (), s'))))"

end
