(* ===== verification/WorkspaceRuns.thy ===== *)
theory WorkspaceRuns
  imports Workspaces
begin

text \<open>
  What holds of workspaces however their members use the service of theory \<open>Workspaces\<close>: the interface of a
  repository as a locale with both repositories as interpretations, the single owner of every workspace, who
  can change memberships, and the member ceiling of the plan. Also the way from registration to login.
\<close>

section \<open>Registration and login\<close>

text \<open>Every address in the index belongs to the record it leads to, and every record is in the index.\<close>

definition users_ok :: "user_store \<Rightarrow> bool" where
  "users_ok us \<longleftrightarrow> (\<forall>e i. dget (ur_by_email us) e = Some i \<longrightarrow> (\<exists>r. dget (ur_records us) i = Some r \<and> us_email r = e))"

inductive users_reach :: "(string \<Rightarrow> string \<Rightarrow> string) \<Rightarrow> user_store \<Rightarrow> user_store \<Rightarrow> bool" for scrypt and us where
  refl: "users_reach scrypt us us"
| step: "users_reach scrypt us us1 \<Longrightarrow> find_by_id us1 uuid = None \<Longrightarrow>
    register scrypt uuid salt now email name password us1 = (r, us2) \<Longrightarrow> users_reach scrypt us us2"

lemma register_cases:
  assumes "register scrypt uuid salt now email name password us = (r, us')"
  obtains (refused) e where "r = Inl e" and "us' = us"
  | (accepted) x where "r = Inr x" and "us' = user_create x us" and "us_id x = uuid" and "us_email x = clean_email email" and "us_status x = ''active''"
    and "us_password_hash x = scrypt password (us_password_salt x)" and "find_by_email us (clean_email email) = None"
  using assms by (auto simp: register_def hash_password_def Let_def split: if_splits)

lemma users_ok_register:
  assumes "users_ok us" and "find_by_id us uuid = None" and "register scrypt uuid salt now email name password us = (r, us')"
  shows "users_ok us'"
  using assms(3)
proof (cases rule: register_cases)
  case (accepted x)
  with assms(1,2) show ?thesis by (fastforce simp: users_ok_def user_create_def find_by_id_def split: if_splits)
qed (use assms(1) in simp)

lemma find_by_email_kept:
  assumes "users_ok us" and "find_by_id us uuid = None" and "register scrypt uuid salt now email name password us = (r, us')"
    and "find_by_email us e = Some x"
  shows "find_by_email us' e = Some x"
  using assms(3)
proof (cases rule: register_cases)
  case (accepted y)
  with assms(2,4) show ?thesis by (auto simp: find_by_email_def user_create_def find_by_id_def split: option.splits if_splits)
qed (use assms(4) in simp)

lemma users_reach_keeps: "users_reach scrypt us us' \<Longrightarrow> users_ok us \<Longrightarrow> users_ok us' \<and> (\<forall>e x. find_by_email us e = Some x \<longrightarrow> find_by_email us' e = Some x)"
  by (induction rule: users_reach.induct) (auto intro: users_ok_register find_by_email_kept)

text \<open>
  Whoever has registered can log in with the same password, in whatever case and with whatever blanks around
  the address it is typed, also after any number of further registrations, and gets the registered record. A
  second registration of the address is refused.
\<close>

theorem registered_user_can_login:
  assumes "users_ok us" and "find_by_id us uuid = None"
    and "register scrypt uuid salt now email name password us = (Inr x, us1)" and "users_reach scrypt us1 us2"
    and "clean_email email' = clean_email email"
  shows "login scrypt email' password us2 = Inr x \<and>
    (\<forall>uuid' salt' now' name' password'. isl (fst (register scrypt uuid' salt' now' email' name' password' us2)))"
proof -
  have x: "us1 = user_create x us" "us_email x = clean_email email" "us_status x = ''active''" "us_password_hash x = scrypt password (us_password_salt x)"
    using assms(3) by (auto elim: register_cases)
  have "find_by_email us1 (clean_email email) = Some x" by (simp add: x(1) find_by_email_def user_create_def x(2) [symmetric])
  with users_reach_keeps [OF assms(4) users_ok_register [OF assms(1-3)]] have f: "find_by_email us2 (clean_email email) = Some x" by blast
  then show ?thesis using x(3,4) by (simp add: login_def assms(5) verify_password_def hash_password_def register_def Let_def)
qed

definition demo_user :: user_record where
  "demo_user = \<lparr>us_id = ''1'', us_email = ''a@b'', us_display_name = ''A'', us_password_salt = ''s'', us_password_hash = ''secrets'',
     us_status = ''active'', us_created_at = Some 0\<rparr>"

theorem registered_user_can_login_witness:
  "login (@) '' A@b '' ''secret'' (user_create demo_user \<lparr>ur_records = [], ur_by_email = []\<rparr>) = Inr demo_user"
proof -
  let ?us = "\<lparr>ur_records = [], ur_by_email = []\<rparr>"
  have r: "register (@) ''1'' ''s'' 0 ''a@b'' ''A'' ''secret'' ?us = (Inr demo_user, user_create demo_user ?us)" by code_simp
  have c: "clean_email '' A@b '' = clean_email ''a@b''" by code_simp
  have "users_ok ?us" "find_by_id ?us ''1'' = None" by (simp_all add: users_ok_def find_by_id_def)
  from registered_user_can_login [OF this r users_reach.refl c] show ?thesis by simp
qed

section \<open>Runs\<close>

text \<open>
  One call of the service by an actor on a workspace; a new identifier is not in use. The users may change
  between the calls.
\<close>

inductive ws_step :: "('b billing_ops \<times> 'b) option \<Rightarrow> 's workspace_repository \<Rightarrow> string \<Rightarrow> string \<Rightarrow> 's \<Rightarrow> 's \<Rightarrow> bool" for entitlement repo where
  create: "wr_find_workspace repo uuid s = None \<Longrightarrow> create_workspace repo uuid now actor name s = (r, s') \<Longrightarrow> ws_step entitlement repo actor uuid s s'"
| rename: "rename_workspace repo now w actor name s = (r, s') \<Longrightarrow> ws_step entitlement repo actor w s s'"
| add: "add_member entitlement us repo now w actor email role s = (r, s') \<Longrightarrow> ws_step entitlement repo actor w s s'"
| update: "update_member_role repo w actor target role s = (r, s') \<Longrightarrow> ws_step entitlement repo actor w s s'"
| remove: "remove_member repo w actor target s = (r, s') \<Longrightarrow> ws_step entitlement repo actor w s s'"

inductive ws_reach :: "('b billing_ops \<times> 'b) option \<Rightarrow> 's workspace_repository \<Rightarrow> 's \<Rightarrow> 's \<Rightarrow> bool" for entitlement repo init where
  start: "ws_reach entitlement repo init init"
| step: "ws_reach entitlement repo init s \<Longrightarrow> ws_step entitlement repo actor w s s' \<Longrightarrow> ws_reach entitlement repo init s'"

definition role_in :: "'s workspace_repository \<Rightarrow> string \<Rightarrow> string \<Rightarrow> 's \<Rightarrow> string option" where
  "role_in repo w u s = map_option wm_role (wr_get_member repo w u s)"

section \<open>What a workspace repository promises\<close>

locale workspace_store =
  fixes repo :: "'s workspace_repository"
    and members :: "'s \<Rightarrow> string \<times> string \<Rightarrow> string option"
    and spaces :: "'s \<Rightarrow> string \<Rightarrow> workspace_record option"
    and inv :: "'s \<Rightarrow> bool"
  assumes get_law: "inv s \<Longrightarrow> map_option wm_role (wr_get_member repo w u s) = members s (w, u)"
    and find_law: "inv s \<Longrightarrow> wr_find_workspace repo w s = spaces s w"
    and list_law: "inv s \<Longrightarrow> distinct (map wm_user (wr_list_members repo w s)) \<and>
      wm_user ` set (wr_list_members repo w s) = {u. members s (w, u) \<noteq> None}"
    and create_law: "inv s \<Longrightarrow> spaces s (ws_id r) = None \<Longrightarrow> wr_create_workspace repo r s = (res, s') \<Longrightarrow>
      inv s' \<and> (case res of Inl _ \<Rightarrow> s' = s
        | Inr r' \<Rightarrow> r' = r \<and> members s' = members s \<and> spaces s' = (spaces s)(ws_id r \<mapsto> r) \<and>
            (members s (ws_id r, ws_created_by r) = None \<longrightarrow> (\<forall>now role. \<not> isl (fst (wr_add_member repo now (ws_id r) (ws_created_by r) role s')))))"
    and rename_law: "inv s \<Longrightarrow> wr_update_workspace repo now w name s = (renamed, s') \<Longrightarrow>
      inv s' \<and> members s' = members s \<and> map_option ws_created_by \<circ> spaces s' = map_option ws_created_by \<circ> spaces s"
    and add_law: "inv s \<Longrightarrow> wr_add_member repo now w u role s = (added, s') \<Longrightarrow>
      inv s' \<and> (case added of Inl _ \<Rightarrow> s' = s
        | Inr _ \<Rightarrow> spaces s' = spaces s \<and> members s (w, u) = None \<and> members s' = (members s)((w, u) \<mapsto> role))"
    and role_law: "inv s \<Longrightarrow> wr_update_member_role repo w u role s = (b, s') \<Longrightarrow>
      inv s' \<and> spaces s' = spaces s \<and> members s' = (if members s (w, u) = None then members s else (members s)((w, u) \<mapsto> role))"
    and remove_law: "inv s \<Longrightarrow> wr_remove_member repo w u s = (b, s') \<Longrightarrow>
      inv s' \<and> spaces s' = spaces s \<and> members s' = (members s)((w, u) := None)"

begin

definition own_inv :: "'s \<Rightarrow> bool" where
  "own_inv s \<longleftrightarrow> (\<forall>w r. spaces s w = Some r \<longrightarrow> (\<forall>u. members s (w, u) = Some ''owner'' \<longleftrightarrow> u = ws_created_by r)) \<and>
     (\<forall>w u. spaces s w = None \<longrightarrow> members s (w, u) = None)"

text \<open>The effect of a call on the memberships: none, a new workspace with its owner, or one changed member.\<close>

definition effect :: "('b billing_ops \<times> 'b) option \<Rightarrow> string \<Rightarrow> string \<Rightarrow> 's \<Rightarrow> 's \<Rightarrow> bool" where
  "effect entitlement actor w s s' \<longleftrightarrow> inv s' \<and>
     (members s' = members s \<and> map_option ws_created_by \<circ> spaces s' = map_option ws_created_by \<circ> spaces s \<or>
      (\<exists>r. spaces s w = None \<and> ws_created_by r = actor \<and> spaces s' = (spaces s)(w \<mapsto> r) \<and> members s' = (members s)((w, actor) \<mapsto> ''owner'')) \<or>
      (\<exists>u r. members s (w, actor) \<in> {Some ''owner'', Some ''admin''} \<and> spaces s' = spaces s \<and> members s (w, u) \<noteq> Some ''owner'' \<and>
         r \<noteq> Some ''owner'' \<and> members s' = (members s)((w, u) := r) \<and>
         (r \<noteq> None \<and> members s (w, u) = None \<longrightarrow>
           (case entitlement of None \<Rightarrow> True
            | Some (ops, bs) \<Rightarrow> require_limit ops bs w ''member'' (int (length (wr_list_members repo w s))) = Inr ()))))"

lemma manager:
  assumes "inv s" and "require_member_role repo w actor member_management_roles s = Inr m"
  shows "members s (w, actor) \<in> {Some ''owner'', Some ''admin''}"
  using assms(2) get_law [OF assms(1), of w actor, symmetric]
  by (auto simp: require_member_role_def member_management_roles_def split: option.splits if_splits)

lemma no_effect: "inv s \<Longrightarrow> effect entitlement actor w s s"
  by (simp add: effect_def)

lemma changed_member:
  assumes "inv s'" and "members s (w, actor) \<in> {Some ''owner'', Some ''admin''}" and "spaces s' = spaces s" and "members s (w, u) \<noteq> Some ''owner''"
    and "r \<noteq> Some ''owner''" and "members s' = (members s)((w, u) := r)"
    and "r \<noteq> None \<Longrightarrow> members s (w, u) = None \<Longrightarrow>
      (case entitlement of None \<Rightarrow> True
       | Some (ops, bs) \<Rightarrow> require_limit ops bs w ''member'' (int (length (wr_list_members repo w s))) = Inr ())"
  shows "effect entitlement actor w s s'"
  unfolding effect_def using assms(1)
  by (intro conjI disjI2 exI [of _ u] exI [of _ r] impI) (use assms in auto)

lemma create_effect:
  assumes "inv s" and "own_inv s" and "wr_find_workspace repo w s = None" and "create_workspace repo w now actor name s = (res, s')"
  shows "effect entitlement actor w s s'"
proof (cases "s' = s")
  case False
  let ?r = "\<lparr>ws_id = w, ws_name = strip_chars is_space name, ws_created_by = actor, ws_created_at = Some now, ws_updated_at = None\<rparr>"
  have new: "spaces s w = None" "members s (w, actor) = None"
    using assms(1-3) find_law [OF assms(1), of w] by (auto simp: own_inv_def)
  obtain res1 s1 where 1: "wr_create_workspace repo ?r s = (res1, s1)" by force
  note created = create_law [OF assms(1) _ 1]
  from False assms(4) 1 new created obtain saved where saved: "res1 = Inr saved"
    by (auto simp: create_workspace_def Let_def split: if_splits sum.splits prod.splits)
  from created new saved have s1: "inv s1" "members s1 = members s" "spaces s1 = (spaces s)(w \<mapsto> ?r)"
    "\<not> isl (fst (wr_add_member repo now w actor ''owner'' s1))" by auto
  obtain res2 s2 where 2: "wr_add_member repo now w actor ''owner'' s1 = (res2, s2)" by force
  from assms(4) 1 2 saved False s1(4) have "s2 = s'" by (auto simp: create_workspace_def Let_def split: if_splits sum.splits)
  with add_law [OF s1(1) 2] s1 2 have "inv s'" "spaces s' = (spaces s)(w \<mapsto> ?r)" "members s' = (members s)((w, actor) \<mapsto> ''owner'')"
    by (auto split: sum.splits)
  with new(1) show ?thesis unfolding effect_def by (intro conjI disjI2 disjI1 exI [of _ ?r]) simp_all
qed (use no_effect [OF assms(1)] in simp)

lemma rename_effect:
  assumes "inv s" and "rename_workspace repo now w actor name s = (r, s')"
  shows "effect entitlement actor w s s'"
proof (cases "s' = s")
  case False
  with assms(2) obtain res where "wr_update_workspace repo now w (strip_chars is_space name) s = (res, s')"
    by (auto simp: rename_workspace_def Let_def split: if_splits sum.splits option.splits prod.splits)
  from rename_law [OF assms(1) this] show ?thesis by (simp add: effect_def)
qed (use no_effect [OF assms(1)] in simp)

lemma add_effect:
  assumes "inv s" and "add_member entitlement us repo now w actor email role s = (r, s')"
  shows "effect entitlement actor w s s'"
proof (cases "s' = s")
  case False
  define target where "target = the (find_by_email us (clean_email email))"
  from False assms(2) obtain m where m: "require_member_role repo w actor member_management_roles s = Inr m"
    and role: "py_lower role \<noteq> ''owner''" and add: "wr_add_member repo now w (us_id target) (py_lower role) s = (r, s')"
    and limit: "case entitlement of None \<Rightarrow> True
       | Some (ops, bs) \<Rightarrow> require_limit ops bs w ''member'' (int (length (wr_list_members repo w s))) = Inr ()"
    by (auto simp: add_member_def target_def Let_def split: if_splits sum.splits option.splits)
  from add_law [OF assms(1) add] False have "inv s'" "spaces s' = spaces s" "members s (w, us_id target) = None"
    "members s' = (members s)((w, us_id target) \<mapsto> py_lower role)" by (auto split: sum.splits)
  then show ?thesis using manager [OF assms(1) m] role limit by (intro changed_member) auto
qed (use no_effect [OF assms(1)] in simp)

lemma target_role:
  assumes "inv s" and "wr_get_member repo w u s = Some m"
  shows "members s (w, u) = Some (wm_role m)"
  using get_law [OF assms(1), of w u] assms(2) by simp

lemma update_effect:
  assumes "inv s" and "update_member_role repo w actor target role s = (r, s')"
  shows "effect entitlement actor w s s'"
proof (cases "s' = s")
  case False
  with assms(2) obtain m t b where m: "require_member_role repo w actor member_management_roles s = Inr m"
    and role: "py_lower role \<noteq> ''owner''" and t: "wr_get_member repo w target s = Some t" "wm_role t \<noteq> ''owner''"
    and upd: "wr_update_member_role repo w target (py_lower role) s = (b, s')"
    by (auto simp: update_member_role_def Let_def split: if_splits sum.splits option.splits prod.splits bool.splits)
  from role_law [OF assms(1) upd] target_role [OF assms(1) t(1)] have "inv s'" "spaces s' = spaces s"
    "members s' = (members s)((w, target) \<mapsto> py_lower role)" by auto
  then show ?thesis using manager [OF assms(1) m] role target_role [OF assms(1) t(1)] t(2) by (intro changed_member) auto
qed (use no_effect [OF assms(1)] in simp)

lemma remove_effect:
  assumes "inv s" and "remove_member repo w actor target s = (r, s')"
  shows "effect entitlement actor w s s'"
proof (cases "s' = s")
  case False
  with assms(2) obtain m t b where m: "require_member_role repo w actor member_management_roles s = Inr m"
    and t: "wr_get_member repo w target s = Some t" "wm_role t \<noteq> ''owner''" and rem: "wr_remove_member repo w target s = (b, s')"
    by (auto simp: remove_member_def split: if_splits sum.splits option.splits prod.splits bool.splits)
  from remove_law [OF assms(1) rem] show ?thesis
    using manager [OF assms(1) m] target_role [OF assms(1) t(1)] t(2) by (intro changed_member [where r = None]) auto
qed (use no_effect [OF assms(1)] in simp)

lemma step_effect:
  assumes "ws_step entitlement repo actor w s s'" and "inv s" and "own_inv s"
  shows "effect entitlement actor w s s'"
  using assms(1) by cases (auto intro: create_effect [OF assms(2,3)] rename_effect [OF assms(2)] add_effect [OF assms(2)]
      update_effect [OF assms(2)] remove_effect [OF assms(2)])

lemma effect_cases:
  assumes "effect entitlement actor w s s'"
  obtains (same) "members s' = members s" and "map_option ws_created_by \<circ> spaces s' = map_option ws_created_by \<circ> spaces s"
  | (new) r where "spaces s w = None" and "ws_created_by r = actor" and "spaces s' = (spaces s)(w \<mapsto> r)"
      and "members s' = (members s)((w, actor) \<mapsto> ''owner'')"
  | (changed) u r where "members s (w, actor) \<in> {Some ''owner'', Some ''admin''}" and "spaces s' = spaces s" and "members s (w, u) \<noteq> Some ''owner''"
      and "r \<noteq> Some ''owner''" and "members s' = (members s)((w, u) := r)"
      and "r \<noteq> None \<and> members s (w, u) = None \<longrightarrow>
           (case entitlement of None \<Rightarrow> True
            | Some (ops, bs) \<Rightarrow> require_limit ops bs w ''member'' (int (length (wr_list_members repo w s))) = Inr ())"
  using assms unfolding effect_def
  by (elim conjE disjE exE) (rule same new changed; assumption)+

lemma own_inv_alt:
  "own_inv s \<longleftrightarrow> (\<forall>w u. case (map_option ws_created_by \<circ> spaces s) w of None \<Rightarrow> members s (w, u) = None
     | Some c \<Rightarrow> members s (w, u) = Some ''owner'' \<longleftrightarrow> u = c)"
  by (auto simp: own_inv_def split: option.splits)

lemma effect_own_inv:
  assumes "effect entitlement actor w s s'" and "own_inv s"
  shows "own_inv s'"
  using assms(1)
proof (cases rule: effect_cases)
  case same
  show ?thesis using assms(2) unfolding own_inv_alt same .
next
  case (new r)
  with assms(2) show ?thesis by (auto simp: own_inv_def)
next
  case (changed u r)
  then have "spaces s w \<noteq> None" using assms(2) by (auto simp: own_inv_def)
  with changed(2-5) assms(2) show ?thesis by (auto simp: own_inv_def)
qed

lemma ws_reach_inv:
  assumes "ws_reach entitlement repo init s" and "inv init" and "members init = (\<lambda>_. None)" and "spaces init = (\<lambda>_. None)"
  shows "inv s \<and> own_inv s"
  using assms(1)
proof induction
  case start
  with assms(2-4) show ?case by (simp add: own_inv_def)
next
  case (step s actor w s')
  with step_effect [OF step(2)] have "effect entitlement actor w s s'" by simp
  with effect_own_inv [OF this] step show ?case by (simp add: effect_def)
qed

lemma role_in_members: "inv s \<Longrightarrow> role_in repo w u s = members s (w, u)"
  by (simp add: role_in_def get_law)

lemma one_owner:
  assumes "ws_reach entitlement repo init s" and "inv init" and "members init = (\<lambda>_. None)" and "spaces init = (\<lambda>_. None)"
    and "wr_find_workspace repo w s = Some r"
  shows "{u. role_in repo w u s = Some ''owner''} = {ws_created_by r}"
  using ws_reach_inv [OF assms(1-4)] assms(5) find_law [of s w] by (auto simp: role_in_members own_inv_def)

lemma managers_only:
  assumes "ws_reach entitlement repo init s" and "inv init" and "members init = (\<lambda>_. None)" and "spaces init = (\<lambda>_. None)"
    and "ws_step entitlement repo actor w s s'" and "role_in repo v u s' \<noteq> role_in repo v u s"
  shows "v = w \<and> (wr_find_workspace repo w s = None \<and> u = actor \<or>
    role_in repo w actor s \<in> {Some ''owner'', Some ''admin''} \<and> role_in repo w u s \<noteq> Some ''owner'' \<and> role_in repo w u s' \<noteq> Some ''owner'')"
proof -
  have s: "inv s" "own_inv s" using ws_reach_inv [OF assms(1-4)] by simp_all
  have e: "effect entitlement actor w s s'" by (rule step_effect [OF assms(5) s])
  then have s': "inv s'" by (simp add: effect_def)
  note view = role_in_members [OF s(1)] role_in_members [OF s'] find_law [OF s(1)]
  have differ: "members s' (v, u) \<noteq> members s (v, u)" using assms(6) by (simp only: view not_False_eq_True)
  from e show ?thesis
  proof (cases rule: effect_cases)
    case same
    with differ show ?thesis by simp
  next
    case (new r)
    then have "(v, u) = (w, actor)" using differ by (auto split: if_splits)
    with new(1) show ?thesis by (simp add: view)
  next
    case (changed x r)
    then have "(v, u) = (w, x)" using differ by (auto split: if_splits)
    with changed show ?thesis by (simp add: view)
  qed
qed

lemma list_members_card: "inv s \<Longrightarrow> length (wr_list_members repo w s) = card {u. members s (w, u) \<noteq> None} \<and> finite {u. members s (w, u) \<noteq> None}"
  using list_law [of s w] distinct_card [of "map wm_user (wr_list_members repo w s)"] finite_imageI [OF finite_set, of wm_user "wr_list_members repo w s"]
  by simp

lemma effect_limit:
  assumes "effect (Some (ops, bs)) actor w s s'" and "inv s" and "own_inv s" and "plan_for_workspace ops bs v = Some p"
    and "limit_for p ''member'' = Inr (Some l)" and "int (card {u. members s (v, u) \<noteq> None}) \<le> max 1 l"
  shows "int (card {u. members s' (v, u) \<noteq> None}) \<le> max 1 l"
proof -
  have fin: "finite {u. members s (v, u) \<noteq> None}" and len: "length (wr_list_members repo v s) = card {u. members s (v, u) \<noteq> None}"
    using list_members_card [OF assms(2)] by auto
  from assms(1) show ?thesis
  proof (cases rule: effect_cases)
    case same
    with assms(6) show ?thesis by simp
  next
    case (new r)
    show ?thesis
    proof (cases "v = w")
      case True
      have "{u. members s' (w, u) \<noteq> None} = {actor}" using new(1,4) assms(3) by (auto simp: own_inv_def)
      with True show ?thesis by simp
    qed (use new(4) assms(6) in simp)
  next
    case (changed u r)
    show ?thesis
    proof (cases "v = w \<and> r \<noteq> None \<and> members s (w, u) = None")
      case True
      then have "int (length (wr_list_members repo v s)) < l"
        using changed(6) assms(4,5) by (auto simp: require_limit_def split: if_splits)
      moreover have "{x. members s' (v, x) \<noteq> None} = insert u {x. members s (v, x) \<noteq> None}" using changed(5) True by auto
      ultimately show ?thesis using fin len by (simp add: card_insert_if)
    next
      case False
      then have "{x. members s' (v, x) \<noteq> None} \<subseteq> {x. members s (v, x) \<noteq> None}" using changed(5) by auto
      from card_mono [OF fin this] assms(6) show ?thesis by simp
    qed
  qed
qed

lemma member_limit:
  assumes "ws_reach (Some (ops, bs)) repo init s" and "inv init" and "members init = (\<lambda>_. None)" and "spaces init = (\<lambda>_. None)"
    and "plan_for_workspace ops bs v = Some p" and "limit_for p ''member'' = Inr (Some l)"
  shows "int (length (wr_list_members repo v s)) \<le> max 1 l"
proof -
  have "int (card {u. members s (v, u) \<noteq> None}) \<le> max 1 l"
    using assms(1)
  proof induction
    case start
    with assms(3) show ?case by simp
  next
    case (step s actor w s')
    have s: "inv s" "own_inv s" using ws_reach_inv [OF step(1) assms(2-4)] by simp_all
    from effect_limit [OF step_effect [OF step(2) s] s assms(5,6) step(3)] show ?case .
  qed
  with list_members_card [of s v] ws_reach_inv [OF assms(1-4)] show ?thesis by simp
qed

end

section \<open>Both repositories keep the promise\<close>

definition member_key :: "member_record \<Rightarrow> string \<times> string" where
  "member_key m = (wm_workspace m, wm_user m)"

definition role_of :: "member_record list \<Rightarrow> string \<times> string \<Rightarrow> string option" where
  "role_of ms k = map_option wm_role (find (\<lambda>m. member_key m = k) ms)"

definition members_wf :: "member_record list \<Rightarrow> bool" where
  "members_wf ms \<longleftrightarrow> distinct (map member_key ms)"

lemma is_member_key: "is_member w u = (\<lambda>m. member_key m = (w, u))"
  by (auto simp: is_member_def member_key_def)

lemma member_key_new [simp]: "member_key \<lparr>wm_id = i, wm_workspace = w, wm_user = u, wm_role = r, wm_created_at = t\<rparr> = (w, u)"
  by (simp add: member_key_def)

lemma role_of_None: "role_of ms k = None \<longleftrightarrow> (\<forall>m \<in> set ms. member_key m \<noteq> k)"
  by (auto simp: role_of_def find_None_iff)

lemma members_wf_Cons: "members_wf (m # ms) \<longleftrightarrow> (\<forall>x \<in> set ms. member_key x \<noteq> member_key m) \<and> members_wf ms"
  by (auto simp: members_wf_def image_iff)

lemma members_wf_snoc: "members_wf (ms @ [m]) \<longleftrightarrow> (\<forall>x \<in> set ms. member_key x \<noteq> member_key m) \<and> members_wf ms"
  by (auto simp: members_wf_def image_iff)

lemma role_of_snoc:
  assumes "\<forall>x \<in> set ms. member_key x \<noteq> k" and "member_key m = k"
  shows "role_of (ms @ [m]) = (role_of ms)(k \<mapsto> wm_role m)"
proof
  fix x
  have "find (\<lambda>m. member_key m = x) (ms @ [m]) = (if x = k then Some m else find (\<lambda>m. member_key m = x) ms)"
    using assms by (induction ms) auto
  then show "role_of (ms @ [m]) x = ((role_of ms)(k \<mapsto> wm_role m)) x" by (simp add: role_of_def)
qed

lemma role_of_update:
  "role_of (map (\<lambda>m. if member_key m = k then m\<lparr>wm_role := r\<rparr> else m) ms) =
     (if role_of ms k = None then role_of ms else (role_of ms)(k \<mapsto> r))"
proof
  fix x
  let ?g = "\<lambda>m. if member_key m = k then m\<lparr>wm_role := r\<rparr> else m"
  have "find (\<lambda>m. member_key m = x) (map ?g ms) = map_option ?g (find (\<lambda>m. member_key m = x) ms)"
    by (rule find_key_map) (simp add: member_key_def)
  moreover have "member_key m = x" if "find (\<lambda>m. member_key m = x) ms = Some m" for m
    using that by (auto simp: find_Some_iff)
  ultimately show "role_of (map ?g ms) x = (if role_of ms k = None then role_of ms else (role_of ms)(k \<mapsto> r)) x"
    by (cases "find (\<lambda>m. member_key m = x) ms") (auto simp: role_of_def)
qed

lemma role_of_remove: "role_of (filter (\<lambda>m. member_key m \<noteq> k) ms) = (role_of ms)(k := None)"
proof
  fix x
  show "role_of (filter (\<lambda>m. member_key m \<noteq> k) ms) x = ((role_of ms)(k := None)) x"
  proof (cases "x = k")
    case True
    then show ?thesis using role_of_None [of "filter (\<lambda>m. member_key m \<noteq> k) ms" k] by simp
  qed (simp add: role_of_def find_key_filter)
qed

lemma update_first_map:
  "members_wf ms \<Longrightarrow> update_first (\<lambda>m. member_key m = k) (\<lambda>m. m\<lparr>wm_role := r\<rparr>) ms =
     (\<exists>m \<in> set ms. member_key m = k, map (\<lambda>m. if member_key m = k then m\<lparr>wm_role := r\<rparr> else m) ms)"
proof (induction ms)
  case (Cons m ms)
  have "map (\<lambda>m. if member_key m = k then m\<lparr>wm_role := r\<rparr> else m) ms = ms" if "member_key m = k"
    using Cons.prems that by (intro map_idI) (auto simp: members_wf_Cons)
  with Cons show ?case by (auto simp: members_wf_Cons)
qed simp

lemma remove_first_filter:
  "members_wf ms \<Longrightarrow> remove_first (\<lambda>m. member_key m = k) ms = (\<exists>m \<in> set ms. member_key m = k, filter (\<lambda>m. member_key m \<noteq> k) ms)"
proof (induction ms)
  case (Cons m ms)
  have "filter (\<lambda>m. member_key m \<noteq> k) ms = ms" if "member_key m = k"
    using Cons.prems that by (auto simp: members_wf_Cons intro!: filter_True)
  with Cons show ?case by (auto simp: members_wf_Cons)
qed simp

lemma members_wf_update: "members_wf (map (\<lambda>m. if member_key m = k then m\<lparr>wm_role := r\<rparr> else m) ms) = members_wf ms"
proof -
  have "map member_key (map (\<lambda>m. if member_key m = k then m\<lparr>wm_role := r\<rparr> else m) ms) = map member_key ms"
    by (simp add: member_key_def)
  then show ?thesis by (simp only: members_wf_def)
qed

lemma members_wf_filter: "members_wf ms \<Longrightarrow> members_wf (filter p ms)"
  by (auto simp: members_wf_def distinct_map inj_on_def)

lemma members_of_workspace:
  assumes "members_wf ms"
  shows "distinct (map wm_user (filter (\<lambda>m. wm_workspace m = w) ms))"
    and "wm_user ` set (filter (\<lambda>m. wm_workspace m = w) ms) = {u. role_of ms (w, u) \<noteq> None}"
  using assms by (auto simp: members_wf_def distinct_map inj_on_def member_key_def role_of_None image_iff)

interpretation memory_ws: workspace_store memory_workspaces "\<lambda>s. role_of (wm_members s)" "\<lambda>s. dget (wm_workspaces s)" "\<lambda>s. members_wf (wm_members s)"
proof (unfold_locales, goal_cases)
  case (1 s w u)
  show ?case by (simp add: memory_workspaces_def memw_get_member_def is_member_key role_of_def)
next
  case (2 s w)
  show ?case by (simp add: memory_workspaces_def memw_find_workspace_def)
next
  case (3 s w)
  then show ?case using members_of_workspace by (simp add: memory_workspaces_def memw_list_members_def)
next
  case (4 s r res s')
  then show ?case
    by (auto simp: memory_workspaces_def memw_create_workspace_def memw_add_member_def is_member_key role_of_None fun_eq_iff Let_def)
next
  case (5 s now w name res s')
  then show ?case by (auto simp: memory_workspaces_def memw_update_workspace_def Let_def fun_eq_iff split: option.splits)
next
  case (6 s now w u role res s')
  then show ?case
    by (auto simp: memory_workspaces_def memw_add_member_def is_member_key role_of_None role_of_snoc [of _ "(w, u)"] members_wf_snoc
        Let_def split: if_splits)
next
  case (7 s w u role b s')
  then show ?case
    by (auto simp: memory_workspaces_def memw_update_member_role_def is_member_key update_first_map role_of_update members_wf_update)
next
  case (8 s w u b s')
  then show ?case
    by (auto simp: memory_workspaces_def memw_remove_member_def is_member_key remove_first_filter role_of_remove members_wf_filter)
qed

definition pgw_inv :: "ws_db \<Rightarrow> bool" where
  "pgw_inv db \<longleftrightarrow> members_wf (pw_members db) \<and> distinct (map ws_id (pw_workspaces db))"

interpretation postgres_ws: workspace_store postgres_workspaces "\<lambda>db. role_of (pw_members db)" "\<lambda>db w. find (\<lambda>r. ws_id r = w) (pw_workspaces db)" pgw_inv
proof (unfold_locales, goal_cases)
  case (1 s w u)
  show ?case by (simp add: postgres_workspaces_def pgw_get_member_def is_member_key role_of_def)
next
  case (2 s w)
  show ?case by (simp add: postgres_workspaces_def pgw_find_workspace_def)
next
  case (3 s w)
  then show ?case using members_of_workspace by (simp add: postgres_workspaces_def pgw_list_members_def pgw_inv_def)
next
  case (4 s r res s')
  have "find (\<lambda>x. ws_id x = w) (pw_workspaces s @ [r]) = (if w = ws_id r then Some r else find (\<lambda>x. ws_id x = w) (pw_workspaces s))" for w
    using 4(2) by (auto simp: find_snoc split: option.splits)
  then have spaces: "(\<lambda>w. find (\<lambda>x. ws_id x = w) (pw_workspaces s @ [r])) = (\<lambda>w. find (\<lambda>x. ws_id x = w) (pw_workspaces s))(ws_id r \<mapsto> r)"
    by (auto simp: fun_eq_iff)
  show ?case
  proof (cases "isl res")
    case True
    with 4 show ?thesis by (auto simp: postgres_workspaces_def pgw_create_workspace_def split: if_splits)
  next
    case False
    with 4(3) have res: "res = Inr r" "s' = s\<lparr>pw_workspaces := pw_workspaces s @ [r]\<rparr>" "ws_created_by r \<in> set (pw_users s)"
      by (auto simp: postgres_workspaces_def pgw_create_workspace_def split: if_splits)
    moreover have "\<forall>x \<in> set (pw_workspaces s). ws_id x \<noteq> ws_id r" using 4(2) by (auto simp: find_None_iff)
    ultimately show ?thesis using 4(1) spaces
      by (auto simp: postgres_workspaces_def pgw_inv_def pgw_add_member_def is_member_key role_of_None Let_def)
  qed
next
  case (5 s now w name res s')
  let ?g = "\<lambda>r :: workspace_record. if ws_id r = w then r\<lparr>ws_name := name, ws_updated_at := Some now\<rparr> else r"
  have find: "find (\<lambda>r. ws_id r = x) (map ?g (pw_workspaces s)) = map_option ?g (find (\<lambda>r. ws_id r = x) (pw_workspaces s))" for x
    by (rule find_key_map) simp
  have "ws_created_by \<circ> ?g = ws_created_by" by auto
  then have creators: "map_option ws_created_by (find (\<lambda>r. ws_id r = x) (map ?g (pw_workspaces s))) =
      map_option ws_created_by (find (\<lambda>r. ws_id r = x) (pw_workspaces s))" for x
    unfolding find option.map_comp by (simp only:)
  have "map ws_id (map ?g (pw_workspaces s)) = map ws_id (pw_workspaces s)" by simp
  with 5 creators show ?case
    by (cases "find (\<lambda>r. ws_id r = w) (pw_workspaces s)")
      (auto simp: postgres_workspaces_def pgw_update_workspace_def pgw_inv_def fun_eq_iff simp del: map_map)
next
  case (6 s now w u role res s')
  then show ?case
    by (auto simp: postgres_workspaces_def pgw_add_member_def pgw_inv_def is_member_key role_of_None role_of_snoc [of _ "(w, u)"] members_wf_snoc
        Let_def split: if_splits)
next
  case (7 s w u role b s')
  have "find (\<lambda>m. member_key m = (w, u)) (pw_members s) = None \<longleftrightarrow> role_of (pw_members s) (w, u) = None" by (simp add: role_of_def)
  with 7 show ?case
    by (auto simp: postgres_workspaces_def pgw_update_member_role_def pgw_inv_def is_member_key role_of_update members_wf_update split: if_splits)
next
  case (8 s w u b s')
  then show ?case
    by (auto simp: postgres_workspaces_def pgw_remove_member_def pgw_inv_def is_member_key role_of_remove members_wf_filter)
qed

section \<open>Who owns and who manages a workspace\<close>

definition empty_ws_db :: "string list \<Rightarrow> ws_db" where
  "empty_ws_db users = \<lparr>pw_users = users, pw_workspaces = [], pw_members = [], pw_sequence = 1\<rparr>"

lemma empty_ws_db_laws:
  "pgw_inv (empty_ws_db users)" "role_of (pw_members (empty_ws_db users)) = (\<lambda>_. None)"
  "(\<lambda>w. find (\<lambda>r. ws_id r = w) (pw_workspaces (empty_ws_db users))) = (\<lambda>_. None)"
  by (simp_all add: pgw_inv_def members_wf_def empty_ws_db_def role_of_def fun_eq_iff)

lemma memory_one_owner:
  assumes "ws_reach entitlement memory_workspaces \<lparr>wm_workspaces = [], wm_members = [], wm_member_id_seq = 0\<rparr> s"
    and "wr_find_workspace memory_workspaces w s = Some r"
  shows "{u. role_in memory_workspaces w u s = Some ''owner''} = {ws_created_by r}"
  using assms(1) _ _ _ assms(2) by (rule memory_ws.one_owner) (simp_all add: members_wf_def role_of_def fun_eq_iff)

text \<open>
  C34: However users create workspaces and members call the service, every workspace has exactly one owner, its
  creator. And a call changes a membership only in the workspace it is about, and only when it creates this
  workspace for the caller, or when the caller is its owner or an admin and neither the old nor the new role
  of the member is that of the owner: nobody can take over, demote or remove an owner.
\<close>

theorem workspace_roles_protected:
  assumes "ws_reach entitlement postgres_workspaces (empty_ws_db users) s" and "ws_step entitlement postgres_workspaces actor w s s'"
  shows "(\<forall>v r. wr_find_workspace postgres_workspaces v s = Some r \<longrightarrow>
      {u. role_in postgres_workspaces v u s = Some ''owner''} = {ws_created_by r}) \<and>
    (\<forall>v u. role_in postgres_workspaces v u s' \<noteq> role_in postgres_workspaces v u s \<longrightarrow>
      v = w \<and> (wr_find_workspace postgres_workspaces w s = None \<and> u = actor \<or>
        role_in postgres_workspaces w actor s \<in> {Some ''owner'', Some ''admin''} \<and>
        role_in postgres_workspaces w u s \<noteq> Some ''owner'' \<and> role_in postgres_workspaces w u s' \<noteq> Some ''owner''))"
  by (intro conjI [rotated] allI impI postgres_ws.managers_only [OF assms(1) empty_ws_db_laws assms(2)])
    (simp_all add: postgres_ws.one_owner [OF assms(1) empty_ws_db_laws])

text \<open>
  In a workspace whose plan has a member ceiling, the number of members never exceeds it (the owner, who is
  always a member, apart), whatever calls are made.
\<close>

theorem member_ceiling_kept:
  assumes "ws_reach (Some (ops, bs)) postgres_workspaces (empty_ws_db users) s"
    and "plan_for_workspace ops bs w = Some p" and "limit_for p ''member'' = Inr (Some l)"
  shows "int (length (wr_list_members postgres_workspaces w s)) \<le> max 1 l"
  by (rule postgres_ws.member_limit [OF assms(1) empty_ws_db_laws assms(2,3)])

definition demo_plan :: plan where "demo_plan = pro_plan\<lparr>plan_max_members := Some 2\<rparr>"

definition demo_billing :: billing_repo where
  "demo_billing = snd (assign_plan memory_billing_ops (new_billing_repo [demo_plan]) ''w'' (plan_id demo_plan) TRIAL ''s'' 5)"

definition demo_users :: user_store where
  "demo_users = user_create (demo_user\<lparr>us_id := ''u2''\<rparr>) \<lparr>ur_records = [], ur_by_email = []\<rparr>"

definition demo_ws :: ws_db where
  "demo_ws = snd (create_workspace postgres_workspaces ''w'' 1 ''u1'' ''team'' (empty_ws_db [''u1'', ''u2'']))"

definition demo_ws_joined :: ws_db where
  "demo_ws_joined = snd (add_member (Some (memory_billing_ops, demo_billing)) demo_users postgres_workspaces 2 ''w'' ''u1'' ''A@b'' ''Viewer'' demo_ws)"

lemma demo_ws_reach: "ws_reach entitlement postgres_workspaces (empty_ws_db [''u1'', ''u2'']) demo_ws"
proof -
  have "wr_find_workspace postgres_workspaces ''w'' (empty_ws_db [''u1'', ''u2'']) = None"
    by (simp add: postgres_workspaces_def pgw_find_workspace_def empty_ws_db_def)
  then show ?thesis unfolding demo_ws_def
    by (intro ws_reach.step [OF ws_reach.start] ws_step.create [where r = "fst (create_workspace postgres_workspaces ''w'' 1 ''u1'' ''team'' (empty_ws_db [''u1'', ''u2'']))"])
      simp_all
qed

lemma demo_ws_step: "ws_step (Some (memory_billing_ops, demo_billing)) postgres_workspaces ''u1'' ''w'' demo_ws demo_ws_joined"
  unfolding demo_ws_joined_def by (rule ws_step.add [OF surjective_pairing])

theorem workspace_roles_protected_witness:
  "role_in postgres_workspaces ''w'' ''u2'' demo_ws_joined = Some ''viewer'' \<and> {u. role_in postgres_workspaces ''w'' u demo_ws = Some ''owner''} = {''u1''} \<and>
   role_in postgres_workspaces ''w'' ''u1'' demo_ws \<in> {Some ''owner'', Some ''admin''}"
proof -
  have roles: "role_in postgres_workspaces ''w'' ''u2'' demo_ws_joined = Some ''viewer''" "role_in postgres_workspaces ''w'' ''u2'' demo_ws = None" by code_simp+
  have "map_option ws_created_by (wr_find_workspace postgres_workspaces ''w'' demo_ws) = Some ''u1''" by code_simp
  then obtain r where r: "wr_find_workspace postgres_workspaces ''w'' demo_ws = Some r" "ws_created_by r = ''u1''" by auto
  note t = workspace_roles_protected [OF demo_ws_reach demo_ws_step]
  have owners: "{u. role_in postgres_workspaces ''w'' u demo_ws = Some ''owner''} = {''u1''}"
    using t [THEN conjunct1, rule_format, OF r(1)] unfolding r(2) .
  have "role_in postgres_workspaces ''w'' ''u2'' demo_ws_joined \<noteq> role_in postgres_workspaces ''w'' ''u2'' demo_ws" by (simp add: roles)
  from t [THEN conjunct2, rule_format, OF this] r(1)
  have "role_in postgres_workspaces ''w'' ''u1'' demo_ws \<in> {Some ''owner'', Some ''admin''}" by (elim conjE disjE) simp_all
  with roles(1) owners show ?thesis by (intro conjI)
qed

theorem member_ceiling_kept_witness:
  "length (wr_list_members postgres_workspaces ''w'' demo_ws_joined) = 2 \<and> int (length (wr_list_members postgres_workspaces ''w'' demo_ws_joined)) \<le> max 1 2"
proof -
  have plan: "plan_for_workspace memory_billing_ops demo_billing ''w'' = Some demo_plan" by code_simp
  have l: "limit_for demo_plan ''member'' = Inr (Some 2)" by code_simp
  have n: "length (wr_list_members postgres_workspaces ''w'' demo_ws_joined) = 2" by code_simp
  from member_ceiling_kept [OF ws_reach.step [OF demo_ws_reach demo_ws_step] plan l] n show ?thesis by (intro conjI)
qed

end
