(* ===== verification/ApiKeys.thy ===== *)
theory ApiKeys
  imports Workspaces
begin

text \<open>
  API keys and the identity of a request: \<open>app/auth/models.py\<close>, \<open>hash.py\<close>, \<open>repository.py\<close>,
  \<open>memory_repository.py\<close>, \<open>postgres_repository.py\<close>, \<open>service.py\<close>, \<open>identity.py\<close>, \<open>tenant.py\<close> and \<open>dependencies.py\<close>.

  The hash function (\<open>hashlib.sha256\<close> in hexadecimal) and the fresh key text are arguments, as are the clocks and
  whether a write of the time of last use fails.
\<close>

section \<open>Keys and their repositories\<close>

record api_key =
  ak_key :: string
  ak_name :: string
  ak_id :: "string option"
  ak_user :: "string option"
  ak_workspace :: "string option"

record api_key_record =
  kr_hash :: string
  kr_name :: string
  kr_status :: string
  kr_id :: "string option"
  kr_user :: "string option"
  kr_workspace :: "string option"
  kr_created_at :: "int option"
  kr_last_used_at :: "int option"

record api_key_metadata =
  km_id :: "string option"
  km_prefix :: string
  km_name :: string
  km_status :: string
  km_created_at :: "int option"
  km_last_used_at :: "int option"

text \<open>The repository protocol. A created row takes its identifier from the argument.\<close>

record 's api_key_repository =
  kp_find :: "string \<Rightarrow> 's \<Rightarrow> api_key_record option"
  kp_find_prefix :: "string \<Rightarrow> 's \<Rightarrow> api_key_record list"
  kp_find_prefix_for_user :: "string \<Rightarrow> string \<Rightarrow> 's \<Rightarrow> api_key_record list"
  kp_list :: "'s \<Rightarrow> api_key_record list"
  kp_list_for_user :: "string \<Rightarrow> 's \<Rightarrow> api_key_record list"
  kp_create :: "string \<Rightarrow> api_key_record \<Rightarrow> 's \<Rightarrow> (auth_error + api_key_record) \<times> 's"
  kp_ensure :: "string \<Rightarrow> api_key_record \<Rightarrow> 's \<Rightarrow> bool \<times> 's"
  kp_update_status :: "string \<Rightarrow> string \<Rightarrow> 's \<Rightarrow> bool \<times> 's"
  kp_touch :: "int \<Rightarrow> string \<Rightarrow> 's \<Rightarrow> 's"

definition starts_with :: "string \<Rightarrow> string \<Rightarrow> bool" where
  "starts_with p s \<longleftrightarrow> take (length p) s = p"

type_synonym key_memory = "(string, api_key_record) pydict"

definition mk_find :: "string \<Rightarrow> key_memory \<Rightarrow> api_key_record option" where "mk_find h d = dget d h"

definition mk_find_prefix :: "string \<Rightarrow> key_memory \<Rightarrow> api_key_record list" where
  "mk_find_prefix p d = filter (\<lambda>r. starts_with p (kr_hash r)) (dvalues d)"

definition mk_find_prefix_for_user :: "string \<Rightarrow> string \<Rightarrow> key_memory \<Rightarrow> api_key_record list" where
  "mk_find_prefix_for_user p u d = filter (\<lambda>r. kr_user r = Some u \<and> starts_with p (kr_hash r)) (dvalues d)"

definition mk_list_for_user :: "string \<Rightarrow> key_memory \<Rightarrow> api_key_record list" where
  "mk_list_for_user u d = filter (\<lambda>r. kr_user r = Some u) (dvalues d)"

definition mk_create :: "string \<Rightarrow> api_key_record \<Rightarrow> key_memory \<Rightarrow> (auth_error + api_key_record) \<times> key_memory" where
  \<comment> \<open>the record is stored as it is, without an identifier\<close>
  "mk_create uuid r d = (Inr r, dset (kr_hash r) r d)"

definition mk_ensure :: "string \<Rightarrow> api_key_record \<Rightarrow> key_memory \<Rightarrow> bool \<times> key_memory" where
  "mk_ensure uuid r d = (if dget d (kr_hash r) \<noteq> None then (False, d) else (True, dset (kr_hash r) r d))"

definition mk_update_status :: "string \<Rightarrow> string \<Rightarrow> key_memory \<Rightarrow> bool \<times> key_memory" where
  "mk_update_status h status d = (case dget d h of None \<Rightarrow> (False, d) | Some r \<Rightarrow> (True, dset h (r\<lparr>kr_status := status\<rparr>) d))"

definition mk_touch :: "int \<Rightarrow> string \<Rightarrow> key_memory \<Rightarrow> key_memory" where
  "mk_touch now h d = (case dget d h of None \<Rightarrow> d | Some r \<Rightarrow> dset h (r\<lparr>kr_last_used_at := Some now\<rparr>) d)"

definition memory_keys :: "key_memory api_key_repository" where
  "memory_keys = \<lparr>kp_find = mk_find, kp_find_prefix = mk_find_prefix, kp_find_prefix_for_user = mk_find_prefix_for_user, kp_list = dvalues,
     kp_list_for_user = mk_list_for_user, kp_create = mk_create, kp_ensure = mk_ensure, kp_update_status = mk_update_status, kp_touch = mk_touch\<rparr>"

text \<open>\<open>create_in_memory_repository\<close> over the text of the setting.\<close>

fun split_on :: "char \<Rightarrow> string \<Rightarrow> string list" where
  "split_on c [] = [[]]"
| "split_on c (x # xs) = (if x = c then [] # split_on c xs else (case split_on c xs of [] \<Rightarrow> [[x]] | p # ps \<Rightarrow> (x # p) # ps))"

definition parse_key_entry :: "(string \<Rightarrow> string) \<Rightarrow> int \<Rightarrow> string \<Rightarrow> api_key_record" where
  "parse_key_entry hash now entry =
     (let key = takeWhile (\<lambda>c. c \<noteq> CHR '':'') entry;
          name = (if CHR '':'' \<in> set entry then tl (dropWhile (\<lambda>c. c \<noteq> CHR '':'') entry) else take 8 key)
      in \<lparr>kr_hash = hash key, kr_name = name, kr_status = ''active'', kr_id = None, kr_user = None, kr_workspace = None,
          kr_created_at = Some now, kr_last_used_at = None\<rparr>)"

definition create_in_memory_repository :: "(string \<Rightarrow> string) \<Rightarrow> int \<Rightarrow> string \<Rightarrow> key_memory" where
  "create_in_memory_repository hash now raw_keys =
     fold (\<lambda>r. dset (kr_hash r) r)
       (map (parse_key_entry hash now) (filter (\<lambda>e. e \<noteq> []) (map (strip_chars is_space) (if raw_keys = [] then [] else split_on CHR '','' raw_keys)))) []"

text \<open>
  The table \<open>api_keys\<close>: the hash is unique. \<open>LIKE\<close> with the prefix: of the callers' prefixes, eight
  hexadecimal digits, no character is special. The time of creation is set by the database.
\<close>

type_synonym key_table = "api_key_record list"

definition pk_find :: "string \<Rightarrow> key_table \<Rightarrow> api_key_record option" where "pk_find h t = find (\<lambda>r. kr_hash r = h) t"

definition pk_find_prefix :: "string \<Rightarrow> key_table \<Rightarrow> api_key_record list" where
  "pk_find_prefix p t = filter (\<lambda>r. starts_with p (kr_hash r)) t"

definition pk_find_prefix_for_user :: "string \<Rightarrow> string \<Rightarrow> key_table \<Rightarrow> api_key_record list" where
  "pk_find_prefix_for_user p u t = filter (\<lambda>r. starts_with p (kr_hash r) \<and> kr_user r = Some u) t"

definition created_order :: "key_table \<Rightarrow> key_table" where
  \<comment> \<open>\<open>ORDER BY created_at\<close>, which puts NULL last\<close>
  "created_order t = sort_key (\<lambda>r. case kr_created_at r of Some x \<Rightarrow> (0 :: int, x) | None \<Rightarrow> (1, 0)) t"

definition pk_list_for_user :: "string \<Rightarrow> key_table \<Rightarrow> api_key_record list" where
  "pk_list_for_user u t = created_order (filter (\<lambda>r. kr_user r = Some u) t)"

definition pk_create :: "string \<Rightarrow> api_key_record \<Rightarrow> key_table \<Rightarrow> (auth_error + api_key_record) \<times> key_table" where
  "pk_create uuid r t =
     (if \<exists>x \<in> set t. kr_hash x = kr_hash r then (Inl DatabaseError, t)
      else (let r' = r\<lparr>kr_id := Some uuid, kr_last_used_at := None\<rparr> in (Inr r', t @ [r'])))"

definition pk_ensure :: "string \<Rightarrow> api_key_record \<Rightarrow> key_table \<Rightarrow> bool \<times> key_table" where
  "pk_ensure uuid r t =
     (if \<exists>x \<in> set t. kr_hash x = kr_hash r then (False, t)
      else (True, t @ [r\<lparr>kr_id := Some (case kr_id r of None \<Rightarrow> uuid | Some i \<Rightarrow> if i = [] then uuid else i), kr_last_used_at := None\<rparr>]))"

definition pk_update_status :: "string \<Rightarrow> string \<Rightarrow> key_table \<Rightarrow> bool \<times> key_table" where
  "pk_update_status h status t =
     (if pk_find h t = None then (False, t) else (True, map (\<lambda>r. if kr_hash r = h then r\<lparr>kr_status := status\<rparr> else r) t))"

definition pk_touch :: "int \<Rightarrow> string \<Rightarrow> key_table \<Rightarrow> key_table" where
  "pk_touch now h t = map (\<lambda>r. if kr_hash r = h then r\<lparr>kr_last_used_at := Some now\<rparr> else r) t"

definition postgres_keys :: "key_table api_key_repository" where
  "postgres_keys = \<lparr>kp_find = pk_find, kp_find_prefix = pk_find_prefix, kp_find_prefix_for_user = pk_find_prefix_for_user, kp_list = created_order,
     kp_list_for_user = pk_list_for_user, kp_create = pk_create, kp_ensure = pk_ensure, kp_update_status = pk_update_status, kp_touch = pk_touch\<rparr>"

section \<open>The service\<close>

text \<open>The state is that of the repository and the cache of touch times.\<close>

type_synonym 's key_state = "'s \<times> (string, real) pydict"

definition throttled_touch :: "'s api_key_repository \<Rightarrow> real \<Rightarrow> int \<Rightarrow> bool \<Rightarrow> string \<Rightarrow> 's key_state \<Rightarrow> 's key_state" where
  "throttled_touch repo clock now touch_fails h st =
     (case st of (s, cache) \<Rightarrow>
        (if clock - (case dget cache h of None \<Rightarrow> 0 | Some x \<Rightarrow> x) < 60 then (s, cache)
         else if touch_fails then (s, ddel h cache)
         else (kp_touch repo now h s, dset h clock cache)))"

definition validate_key ::
  "'s api_key_repository \<Rightarrow> (string \<Rightarrow> string) \<Rightarrow> real \<Rightarrow> int \<Rightarrow> bool \<Rightarrow> string \<Rightarrow> 's key_state \<Rightarrow> (auth_error + api_key) \<times> 's key_state" where
  "validate_key repo hash clock now touch_fails raw_key st =
     (case kp_find repo (hash raw_key) (fst st) of
        None \<Rightarrow> (Inl (Authentication ''Invalid API key.''), st)
      | Some r \<Rightarrow>
          if kr_status r \<noteq> ''active'' then (Inl (Authentication ''API key is disabled.''), st)
          else (Inr \<lparr>ak_key = hash raw_key, ak_name = kr_name r, ak_id = kr_id r, ak_user = kr_user r, ak_workspace = kr_workspace r\<rparr>,
                throttled_touch repo clock now touch_fails (hash raw_key) st))"

definition create_key ::
  "'s api_key_repository \<Rightarrow> (string \<Rightarrow> string) \<Rightarrow> string \<Rightarrow> string \<Rightarrow> int \<Rightarrow> string \<Rightarrow> string option \<Rightarrow> string option \<Rightarrow> 's key_state \<Rightarrow>
     (auth_error + api_key_metadata \<times> string) \<times> 's key_state" where
  \<comment> \<open>\<open>token\<close> is the value of \<open>secrets.token_urlsafe(32)\<close>\<close>
  "create_key repo hash uuid token now name user workspace st =
     (let raw_key = ''sk-'' @ token
      in case kp_create repo uuid \<lparr>kr_hash = hash raw_key, kr_name = name, kr_status = ''active'', kr_id = None, kr_user = user, kr_workspace = workspace,
               kr_created_at = Some now, kr_last_used_at = None\<rparr> (fst st) of
           (Inl e, s') \<Rightarrow> (Inl e, (s', snd st))
         | (Inr saved, s') \<Rightarrow>
             (Inr (\<lparr>km_id = kr_id saved, km_prefix = take 8 (kr_hash saved), km_name = kr_name saved, km_status = kr_status saved,
                    km_created_at = kr_created_at saved, km_last_used_at = kr_last_used_at saved\<rparr>, raw_key), (s', snd st)))"

definition revoke_key :: "'s api_key_repository \<Rightarrow> string \<Rightarrow> 's key_state \<Rightarrow> bool \<times> 's key_state" where
  "revoke_key repo h st = (case kp_update_status repo h ''revoked'' (fst st) of (b, s') \<Rightarrow> (b, (s', ddel h (snd st))))"

definition key_listing :: "api_key_record \<Rightarrow> api_key_metadata" where
  "key_listing r = \<lparr>km_id = None, km_prefix = take 8 (kr_hash r), km_name = kr_name r, km_status = kr_status r, km_created_at = kr_created_at r,
     km_last_used_at = kr_last_used_at r\<rparr>"

definition list_keys :: "'s api_key_repository \<Rightarrow> 's key_state \<Rightarrow> api_key_metadata list" where
  "list_keys repo st = map key_listing (kp_list repo (fst st))"

definition list_keys_for_user :: "'s api_key_repository \<Rightarrow> string \<Rightarrow> 's key_state \<Rightarrow> api_key_metadata list" where
  "list_keys_for_user repo u st = map key_listing (kp_list_for_user repo u (fst st))"

definition unique_hash :: "string \<Rightarrow> api_key_record list \<Rightarrow> auth_error + string option" where
  "unique_hash prefix matches =
     (case matches of
        [] \<Rightarrow> Inr None
      | [r] \<Rightarrow> Inr (Some (kr_hash r))
      | _ \<Rightarrow> Inl (Conflict (''key_hash_prefix '' @ [CHR 0x27] @ prefix @ [CHR 0x27] @ '' matches multiple keys.'')))"

definition valid_prefix :: "string \<Rightarrow> bool" where
  "valid_prefix p \<longleftrightarrow> length p = 8 \<and> list_all is_hex p"

definition find_hash_by_prefix :: "'s api_key_repository \<Rightarrow> string \<Rightarrow> 's key_state \<Rightarrow> auth_error + string option" where
  "find_hash_by_prefix repo prefix st =
     (if \<not> valid_prefix prefix then Inl (AuthValidation ''key_hash_prefix must be exactly 8 lowercase hex characters.'')
      else unique_hash prefix (kp_find_prefix repo prefix (fst st)))"

definition find_hash_by_prefix_for_user :: "'s api_key_repository \<Rightarrow> string \<Rightarrow> string \<Rightarrow> 's key_state \<Rightarrow> auth_error + string option" where
  "find_hash_by_prefix_for_user repo prefix u st =
     (if \<not> valid_prefix prefix then Inl (AuthValidation ''key_hash_prefix must be exactly 8 lowercase hex characters.'')
      else unique_hash prefix (kp_find_prefix_for_user repo prefix u (fst st)))"

definition revoke_key_for_user :: "'s api_key_repository \<Rightarrow> string \<Rightarrow> string \<Rightarrow> 's key_state \<Rightarrow> bool \<times> 's key_state" where
  "revoke_key_for_user repo h u st =
     (case kp_find repo h (fst st) of
        None \<Rightarrow> (False, st)
      | Some r \<Rightarrow> if kr_user r \<noteq> Some u then (False, st) else revoke_key repo h st)"

definition ensure_initial_key :: "'s api_key_repository \<Rightarrow> (string \<Rightarrow> string) \<Rightarrow> string \<Rightarrow> int \<Rightarrow> string \<Rightarrow> string \<Rightarrow> 's key_state \<Rightarrow> bool \<times> 's key_state" where
  "ensure_initial_key repo hash uuid now raw_key name st =
     (case kp_ensure repo uuid \<lparr>kr_hash = hash raw_key, kr_name = name, kr_status = ''active'', kr_id = None, kr_user = None, kr_workspace = None,
             kr_created_at = Some now, kr_last_used_at = None\<rparr> (fst st) of
        (b, s') \<Rightarrow> (b, (s', snd st)))"

section \<open>The identity of a request\<close>

record identity_context =
  ic_user :: "string option"
  ic_workspace :: "string option"
  ic_api_key_id :: "string option"
  ic_api_key_hash :: string
  ic_role :: "string option"

definition tenant_scope :: "(string \<Rightarrow> string) \<Rightarrow> identity_context \<Rightarrow> string" where
  "tenant_scope hash i = (case ic_workspace i of Some w \<Rightarrow> hash w | None \<Rightarrow> ic_api_key_hash i)"

definition resolve_tenant_scope :: "(string \<Rightarrow> string) \<Rightarrow> identity_context option \<Rightarrow> string option" where
  \<comment> \<open>\<open>None\<close> is the RuntimeError of a missing identity\<close>
  "resolve_tenant_scope hash identity =
     (case identity of
        None \<Rightarrow> None
      | Some i \<Rightarrow>
          (let scope = tenant_scope hash i
           in if \<not> (length scope = 64 \<and> list_all is_hex scope) then Some (hash scope) else Some scope))"

text \<open>The settings the guards read: is authentication on, and which storage and admin keys are configured.\<close>

record auth_settings =
  as_auth_enabled :: bool
  as_postgres :: bool
  as_admin_keys :: string

definition admin_key_hashes :: "(string \<Rightarrow> string) \<Rightarrow> auth_settings \<Rightarrow> string list" where
  "admin_key_hashes hash cfg =
     (if as_admin_keys cfg = [] then []
      else map hash (filter (\<lambda>k. k \<noteq> []) (map (strip_chars is_space) (split_on CHR '','' (as_admin_keys cfg)))))"

definition is_configured_admin_key_prefix :: "(string \<Rightarrow> string) \<Rightarrow> auth_settings \<Rightarrow> string \<Rightarrow> bool" where
  "is_configured_admin_key_prefix hash cfg prefix \<longleftrightarrow> (\<exists>h \<in> set (admin_key_hashes hash cfg). starts_with prefix h)"

text \<open>The role of a member, \<open>None\<close> outside PostgreSQL and whenever the lookup fails.\<close>

definition resolve_role :: "auth_settings \<Rightarrow> (string \<Rightarrow> string \<Rightarrow> member_record option) \<Rightarrow> string \<Rightarrow> string \<Rightarrow> string option" where
  "resolve_role cfg get_member w u = (if as_postgres cfg then map_option wm_role (get_member w u) else None)"

definition identity_of :: "auth_settings \<Rightarrow> (string \<Rightarrow> string \<Rightarrow> member_record option) \<Rightarrow> api_key \<Rightarrow> identity_context" where
  "identity_of cfg get_member k =
     \<lparr>ic_user = ak_user k, ic_workspace = ak_workspace k, ic_api_key_id = ak_id k, ic_api_key_hash = ak_key k,
      ic_role = (case (ak_workspace k, ak_user k) of (Some w, Some u) \<Rightarrow> resolve_role cfg get_member w u | _ \<Rightarrow> None)\<rparr>"

text \<open>Both guards return the key, the identity they put into the context of the request, and the new state.\<close>

definition require_api_key ::
  "'s api_key_repository \<Rightarrow> (string \<Rightarrow> string) \<Rightarrow> auth_settings \<Rightarrow> (string \<Rightarrow> string \<Rightarrow> member_record option) \<Rightarrow> real \<Rightarrow> int \<Rightarrow> bool \<Rightarrow>
     string option \<Rightarrow> 's key_state \<Rightarrow> (auth_error + api_key \<times> identity_context) \<times> 's key_state" where
  "require_api_key repo hash cfg get_member clock now touch_fails credentials st =
     (if \<not> as_auth_enabled cfg
      then (let k = \<lparr>ak_key = ''disabled'', ak_name = ''authentication-disabled'', ak_id = None, ak_user = None, ak_workspace = None\<rparr>
            in (Inr (k, identity_of cfg get_member k), st))
      else
        (case credentials of
           None \<Rightarrow> (Inl (Authentication ''Missing Authorization header.''), st)
         | Some raw \<Rightarrow>
             (case validate_key repo hash clock now touch_fails raw st of
                (Inl e, st') \<Rightarrow> (Inl e, st')
              | (Inr k, st') \<Rightarrow> (Inr (k, identity_of cfg get_member k), st'))))"

definition require_admin_key ::
  "'s api_key_repository \<Rightarrow> (string \<Rightarrow> string) \<Rightarrow> auth_settings \<Rightarrow> (string \<Rightarrow> string \<Rightarrow> member_record option) \<Rightarrow> real \<Rightarrow> int \<Rightarrow> bool \<Rightarrow>
     string option \<Rightarrow> 's key_state \<Rightarrow> (auth_error + api_key \<times> identity_context) \<times> 's key_state" where
  "require_admin_key repo hash cfg get_member clock now touch_fails credentials st =
     (case credentials of
        None \<Rightarrow> (Inl (Authentication ''Missing Authorization header.''), st)
      | Some raw \<Rightarrow>
          (case validate_key repo hash clock now touch_fails raw st of
             (Inl e, st') \<Rightarrow> (Inl e, st')
           | (Inr k, st') \<Rightarrow>
               if admin_key_hashes hash cfg = [] then (Inl (Authorization ''Admin access not configured.''), st')
               else if ak_key k \<notin> set (admin_key_hashes hash cfg) then (Inl (Authorization ''Admin access required.''), st')
               else (Inr (k, identity_of cfg get_member k), st')))"

section \<open>Runs and the promise of a repository\<close>

text \<open>Calls of the service by anyone; the hash of a new key is not in use.\<close>

inductive key_step :: "'s api_key_repository \<Rightarrow> (string \<Rightarrow> string) \<Rightarrow> string set \<Rightarrow> 's key_state \<Rightarrow> 's key_state \<Rightarrow> bool" for repo hash where
  validate: "validate_key repo hash clock now fails raw st = (r, st') \<Longrightarrow> key_step repo hash {} st st'"
| create: "kp_find repo (hash (''sk-'' @ token)) (fst st) = None \<Longrightarrow> create_key repo hash uuid token now name u w st = (r', st') \<Longrightarrow> key_step repo hash {} st st'"
| ensure: "ensure_initial_key repo hash uuid now raw name st = (b, st') \<Longrightarrow> key_step repo hash {} st st'"
| revoke: "revoke_key repo h st = (b, st') \<Longrightarrow> key_step repo hash {h} st st'"
| revoke_own: "revoke_key_for_user repo h u' st = (b, st') \<Longrightarrow> key_step repo hash {h} st st'"

text \<open>A run, with the hashes whose revocation was asked for.\<close>

inductive key_run :: "'s api_key_repository \<Rightarrow> (string \<Rightarrow> string) \<Rightarrow> 's key_state \<Rightarrow> string set \<Rightarrow> 's key_state \<Rightarrow> bool" for repo hash st where
  start: "key_run repo hash st {} st"
| step: "key_run repo hash st R st1 \<Longrightarrow> key_step repo hash R' st1 st2 \<Longrightarrow> key_run repo hash st (R \<union> R') st2"

text \<open>What a step does to a key in use: its owner, workspace and name stay, and its status changes only to revoked.\<close>

definition same_key :: "string set \<Rightarrow> string \<Rightarrow> api_key_record \<Rightarrow> api_key_record \<Rightarrow> bool" where
  "same_key R h x y \<longleftrightarrow> kr_name y = kr_name x \<and> kr_id y = kr_id x \<and> kr_user y = kr_user x \<and> kr_workspace y = kr_workspace x \<and>
     (kr_status y = kr_status x \<or> h \<in> R \<and> kr_status y = ''revoked'')"

lemma same_key_refl [simp]: "same_key R h x x"
  by (simp add: same_key_def)

lemma same_key_trans: "same_key R h x y \<Longrightarrow> same_key R' h y z \<Longrightarrow> same_key (R \<union> R') h x z"
  by (auto simp: same_key_def)

locale key_store =
  fixes repo :: "'s api_key_repository" and inv :: "'s \<Rightarrow> bool"
  assumes create_law: "inv s \<Longrightarrow> kp_find repo (kr_hash r) s = None \<Longrightarrow>
      \<exists>x s'. kp_create repo uuid r s = (Inr x, s') \<and> inv s' \<and> kr_status x = kr_status r \<and> kr_hash x = kr_hash r \<and> kr_user x = kr_user r \<and> kr_workspace x = kr_workspace r \<and>
        kr_name x = kr_name r \<and> kp_find repo (kr_hash r) s' = Some x \<and> (\<forall>h. h \<noteq> kr_hash r \<longrightarrow> kp_find repo h s' = kp_find repo h s)"
    and ensure_law: "inv s \<Longrightarrow> kp_ensure repo uuid r s = (b, s') \<Longrightarrow> inv s' \<and> (\<forall>h x. kp_find repo h s = Some x \<longrightarrow> kp_find repo h s' = Some x)"
    and status_law: "inv s \<Longrightarrow> kp_update_status repo h status s = (b, s') \<Longrightarrow>
      inv s' \<and> kp_find repo h s' = map_option (\<lambda>x. x\<lparr>kr_status := status\<rparr>) (kp_find repo h s) \<and> (\<forall>h'. h' \<noteq> h \<longrightarrow> kp_find repo h' s' = kp_find repo h' s)"
    and touch_law: "inv s \<Longrightarrow> inv (kp_touch repo now h s) \<and>
      kp_find repo h' (kp_touch repo now h s) = map_option (\<lambda>x. if h' = h then x\<lparr>kr_last_used_at := Some now\<rparr> else x) (kp_find repo h' s)"
begin

definition keeps :: "string set \<Rightarrow> 's \<Rightarrow> 's \<Rightarrow> bool" where
  "keeps R s s' \<longleftrightarrow> inv s' \<and> (\<forall>h x. kp_find repo h s = Some x \<longrightarrow> (\<exists>y. kp_find repo h s' = Some y \<and> same_key R h x y))"

lemma keepsI:
  assumes "inv s'" and "\<And>h x. kp_find repo h s = Some x \<Longrightarrow> \<exists>y. kp_find repo h s' = Some y \<and> same_key R h x y"
  shows "keeps R s s'"
  using assms by (simp add: keeps_def)

lemma keepsD: "keeps R s s' \<Longrightarrow> kp_find repo h s = Some x \<Longrightarrow> \<exists>y. kp_find repo h s' = Some y \<and> same_key R h x y"
  by (simp add: keeps_def)

lemma keeps_refl: "inv s \<Longrightarrow> keeps R s s"
  by (simp add: keeps_def)

lemma keeps_trans:
  assumes "keeps R s s'" and "keeps R' s' s''"
  shows "keeps (R \<union> R') s s''"
proof (rule keepsI)
  show "inv s''" using assms(2) by (simp add: keeps_def)
  fix h x assume "kp_find repo h s = Some x"
  from keepsD [OF assms(1) this] obtain y where y: "kp_find repo h s' = Some y" "same_key R h x y" by blast
  from keepsD [OF assms(2) y(1)] y(2) show "\<exists>z. kp_find repo h s'' = Some z \<and> same_key (R \<union> R') h x z" by (blast intro: same_key_trans)
qed

lemma revoke_keeps:
  assumes "inv (fst st)" and "revoke_key repo h st = (b, st')"
  shows "keeps {h} (fst st) (fst st')"
proof -
  obtain b' s' where u: "kp_update_status repo h ''revoked'' (fst st) = (b', s')" by force
  note law = status_law [OF assms(1) u]
  have "fst st' = s'" using assms(2) u by (auto simp: revoke_key_def)
  moreover have "\<exists>y. kp_find repo h' s' = Some y \<and> same_key {h} h' x y" if "kp_find repo h' (fst st) = Some x" for h' x
    using law that by (cases "h' = h") (auto simp: same_key_def)
  ultimately show ?thesis using law by (intro keepsI) auto
qed

lemma touch_keeps: "inv (fst st) \<Longrightarrow> keeps {} (fst st) (fst (throttled_touch repo clock now fails h st))"
  using touch_law [of "fst st" now h]
  by (cases st) (auto simp: throttled_touch_def keeps_def same_key_def)

lemma create_keeps:
  assumes "inv (fst st)" and "kp_find repo (hash (''sk-'' @ token)) (fst st) = None" and "create_key repo hash uuid token now name u w st = (r, st')"
  shows "keeps {} (fst st) (fst st')"
proof -
  let ?r = "\<lparr>kr_hash = hash (''sk-'' @ token), kr_name = name, kr_status = ''active'', kr_id = None, kr_user = u, kr_workspace = w, kr_created_at = Some now, kr_last_used_at = None\<rparr>"
  from create_law [OF assms(1), of ?r uuid] assms(2) obtain x s' where s': "kp_create repo uuid ?r (fst st) = (Inr x, s')" "inv s'"
    "\<forall>h. h \<noteq> hash (''sk-'' @ token) \<longrightarrow> kp_find repo h s' = kp_find repo h (fst st)" by auto
  then have "fst st' = s'" using assms(3) by (auto simp: create_key_def)
  moreover have "kp_find repo h s' = Some y" if "kp_find repo h (fst st) = Some y" for h y
    using that assms(2) s'(3) by (cases "h = hash (''sk-'' @ token)") auto
  ultimately show ?thesis using s'(2) by (intro keepsI) auto
qed

lemma step_keeps:
  assumes "key_step repo hash R st st'" and "inv (fst st)"
  shows "keeps R (fst st) (fst st')"
  using assms(1)
proof cases
  case (validate clock now fails raw r)
  with assms(2) touch_keeps [OF assms(2)] keeps_refl show ?thesis by (auto simp: validate_key_def split: option.splits if_splits)
next
  case (create token uuid now name u w r)
  with create_keeps [OF assms(2)] show ?thesis by simp
next
  case (ensure uuid now raw name b)
  with ensure_law [OF assms(2)] show ?thesis by (auto simp: ensure_initial_key_def keeps_def split: prod.splits)
next
  case (revoke h b)
  with revoke_keeps [OF assms(2)] show ?thesis by simp
next
  case (revoke_own h u b)
  with revoke_keeps [OF assms(2), of h] keeps_refl [OF assms(2)] show ?thesis by (auto simp: revoke_key_for_user_def split: option.splits if_splits)
qed

lemma run_keeps: "key_run repo hash st R st' \<Longrightarrow> inv (fst st) \<Longrightarrow> keeps R (fst st) (fst st')"
proof (induction rule: key_run.induct)
  case start
  then show ?case by (rule keeps_refl)
next
  case (step R st1 R' st2)
  then have "keeps R (fst st) (fst st1)" by blast
  with step_keeps [OF step(2)] show ?case by (blast intro: keeps_trans keeps_def [THEN iffD1, THEN conjunct1])
qed

lemma created_key_works:
  assumes "inv (fst st)" and "kp_find repo (hash (''sk-'' @ token)) (fst st) = None"
    and "create_key repo hash uuid token now name u w st = (Inr (meta, raw), st1)" and "key_run repo hash st1 R st2" and "hash raw \<notin> R"
  shows "\<exists>k. fst (validate_key repo hash clock now' fails raw st2) = Inr k \<and> ak_user k = u \<and> ak_workspace k = w \<and> ak_name k = name"
proof -
  let ?r = "\<lparr>kr_hash = hash (''sk-'' @ token), kr_name = name, kr_status = ''active'', kr_id = None, kr_user = u, kr_workspace = w, kr_created_at = Some now, kr_last_used_at = None\<rparr>"
  from create_law [OF assms(1), of ?r uuid] assms(2) obtain x s' where s': "kp_create repo uuid ?r (fst st) = (Inr x, s')" "inv s'"
    "kp_find repo (hash (''sk-'' @ token)) s' = Some x" "kr_status x = ''active''" "kr_user x = u" "kr_workspace x = w" "kr_name x = name" by auto
  then have st1: "fst st1 = s'" "raw = ''sk-'' @ token" using assms(3) by (auto simp: create_key_def)
  have "keeps R (fst st1) (fst st2)" using run_keeps [OF assms(4)] s'(2) st1(1) by simp
  from keepsD [OF this, of "hash raw" x] s'(3) st1 obtain y where "kp_find repo (hash raw) (fst st2) = Some y" "same_key R (hash raw) x y" by auto
  with s'(4-7) assms(5) show ?thesis by (auto simp: validate_key_def same_key_def)
qed

lemma revoked_key_refused:
  assumes "inv (fst st)" and "revoke_key repo (hash raw) st = (b, st1)" and "key_run repo hash st1 R st2" and "kp_find repo (hash raw) (fst st) \<noteq> None"
  shows "isl (fst (validate_key repo hash clock now fails raw st2))"
proof -
  obtain b' s' where u: "kp_update_status repo (hash raw) ''revoked'' (fst st) = (b', s')" by force
  note law = status_law [OF assms(1) u]
  have st1: "fst st1 = s'" using assms(2) u by (auto simp: revoke_key_def)
  with law assms(4) obtain x where x: "kp_find repo (hash raw) (fst st1) = Some x" "kr_status x = ''revoked''" by auto
  have "keeps R (fst st1) (fst st2)" using run_keeps [OF assms(3)] law st1 by simp
  from keepsD [OF this x(1)] x(2) obtain y where "kp_find repo (hash raw) (fst st2) = Some y" "kr_status y = ''revoked''"
    by (auto simp: same_key_def)
  then show ?thesis by (simp add: validate_key_def)
qed

end

interpretation memory_key_store: key_store memory_keys "\<lambda>d. \<forall>h x. dget d h = Some x \<longrightarrow> kr_hash x = h"
proof (unfold_locales, goal_cases)
  case (4 s now h h')
  then show ?case by (cases "h' = h") (auto simp: memory_keys_def mk_find_def mk_touch_def option.map_ident split: option.splits)
qed (auto simp: memory_keys_def mk_find_def mk_create_def mk_ensure_def mk_update_status_def split: option.splits if_splits)

definition hashes_distinct :: "key_table \<Rightarrow> bool" where
  "hashes_distinct t \<longleftrightarrow> distinct (map kr_hash t)"

lemma hashes_distinct_map:
  assumes "\<forall>r. kr_hash (g r) = kr_hash r"
  shows "hashes_distinct (map g t) = hashes_distinct t"
proof -
  have "map kr_hash (map g t) = map kr_hash t" using assms by simp
  then show ?thesis by (simp only: hashes_distinct_def)
qed

lemma pk_find_map: "\<forall>r. kr_hash (g r) = kr_hash r \<Longrightarrow> pk_find h (map g t) = map_option g (pk_find h t)"
  unfolding pk_find_def by (rule find_key_map)

lemma pk_find_hash: "pk_find h t = Some r \<Longrightarrow> kr_hash r = h"
  by (auto simp: pk_find_def find_Some_iff)

lemma pk_find_new:
  assumes "\<forall>x \<in> set t. kr_hash x \<noteq> kr_hash r"
  shows "pk_find h (t @ [r]) = (if h = kr_hash r then Some r else pk_find h t)" and "hashes_distinct t \<Longrightarrow> hashes_distinct (t @ [r])"
proof -
  have "pk_find (kr_hash r) t = None" using assms by (auto simp: pk_find_def find_None_iff)
  then show "pk_find h (t @ [r]) = (if h = kr_hash r then Some r else pk_find h t)"
    by (auto simp: pk_find_def find_snoc split: option.splits)
  show "hashes_distinct t \<Longrightarrow> hashes_distinct (t @ [r])" using assms by (auto simp: hashes_distinct_def)
qed

interpretation postgres_key_store: key_store postgres_keys hashes_distinct
proof (unfold_locales, goal_cases)
  case (1 s r uuid)
  then have new: "\<forall>x \<in> set s. kr_hash x \<noteq> kr_hash r" by (auto simp: postgres_keys_def pk_find_def find_None_iff)
  with 1 pk_find_new [of s "r\<lparr>kr_id := Some uuid, kr_last_used_at := None\<rparr>"] show ?case
    by (auto simp: postgres_keys_def pk_create_def Let_def)
next
  case (2 s uuid r b s')
  show ?case
  proof (cases "\<exists>x \<in> set s. kr_hash x = kr_hash r")
    case True
    with 2 show ?thesis by (auto simp: postgres_keys_def pk_ensure_def)
  next
    case False
    let ?i = "Some (case kr_id r of None \<Rightarrow> uuid | Some i \<Rightarrow> if i = [] then uuid else i)"
    have "pk_find (kr_hash r) s = None" using False by (auto simp: pk_find_def find_None_iff)
    with False 2 pk_find_new [of s "r\<lparr>kr_id := ?i, kr_last_used_at := None\<rparr>"] show ?thesis
      by (auto simp: postgres_keys_def pk_ensure_def)
  qed
next
  case (3 s h status b s')
  let ?g = "\<lambda>r :: api_key_record. if kr_hash r = h then r\<lparr>kr_status := status\<rparr> else r"
  have g: "\<forall>r. kr_hash (?g r) = kr_hash r" by simp
  have f: "pk_find h' (map ?g s) = map_option (\<lambda>x. if h' = h then x\<lparr>kr_status := status\<rparr> else x) (pk_find h' s)" for h'
    unfolding pk_find_map [OF g] using pk_find_hash [of h' s] by (cases "pk_find h' s") auto
  from 3 show ?case using f hashes_distinct_map [OF g, of s]
    by (auto simp: postgres_keys_def pk_update_status_def option.map_ident split: if_splits)
next
  case (4 s now h h')
  let ?g = "\<lambda>r :: api_key_record. if kr_hash r = h then r\<lparr>kr_last_used_at := Some now\<rparr> else r"
  have g: "\<forall>r. kr_hash (?g r) = kr_hash r" by simp
  have "pk_find h' (map ?g s) = map_option (\<lambda>x. if h' = h then x\<lparr>kr_last_used_at := Some now\<rparr> else x) (pk_find h' s)"
    unfolding pk_find_map [OF g] using pk_find_hash [of h' s] by (cases "pk_find h' s") auto
  with 4 hashes_distinct_map [OF g, of s] show ?case by (simp add: postgres_keys_def pk_touch_def)
qed

text \<open>
  C35: A created key authenticates its holder, with the user, workspace and name it was created for, however the
  service is used meanwhile, until its revocation is asked for; and from then on it is refused for ever.
\<close>

theorem api_key_valid_until_revoked:
  assumes "key_run postgres_keys hash ([], []) R0 st" and "create_key postgres_keys hash uuid token now name u w st = (Inr (meta, raw), st1)"
    and "key_run postgres_keys hash st1 R st2"
  shows "(hash raw \<notin> R \<longrightarrow> (\<exists>k. fst (validate_key postgres_keys hash clock now' fails raw st2) = Inr k \<and> ak_user k = u \<and> ak_workspace k = w \<and> ak_name k = name)) \<and>
    (\<forall>b st3 R' st4. revoke_key postgres_keys (hash raw) st2 = (b, st3) \<longrightarrow> key_run postgres_keys hash st3 R' st4 \<longrightarrow>
      isl (fst (validate_key postgres_keys hash clock now' fails raw st4)))"
proof -
  have raw: "raw = ''sk-'' @ token" and fresh: "kp_find postgres_keys (hash (''sk-'' @ token)) (fst st) = None"
    using assms(2) by (auto simp: create_key_def postgres_keys_def pk_create_def pk_find_def find_None_iff Let_def split: if_splits)
  have empty: "hashes_distinct (fst ([] :: key_table, [] :: (string, real) pydict))" by (simp add: hashes_distinct_def)
  have st: "hashes_distinct (fst st)" using postgres_key_store.run_keeps [OF assms(1) empty] by (simp add: postgres_key_store.keeps_def)
  have works: "kp_find postgres_keys (hash raw) (fst st1) \<noteq> None"
    using assms(2) by (auto simp: create_key_def postgres_keys_def pk_create_def pk_find_def find_None_iff Let_def split: if_splits)
  have st1: "hashes_distinct (fst st1)" using postgres_key_store.create_keeps [OF st fresh assms(2)] by (simp add: postgres_key_store.keeps_def)
  have st2: "postgres_key_store.keeps R (fst st1) (fst st2)" by (rule postgres_key_store.run_keeps [OF assms(3) st1])
  have "kp_find postgres_keys (hash raw) (fst st2) \<noteq> None" using postgres_key_store.keepsD [OF st2] works by blast
  with st2 postgres_key_store.created_key_works [OF st fresh assms(2,3)] postgres_key_store.revoked_key_refused [of st2 hash raw]
  show ?thesis by (auto simp: postgres_key_store.keeps_def)
qed

text \<open>A key for user u is created and used at once.\<close>

definition demo_key_table :: "key_table key_state" where
  "demo_key_table = snd (create_key postgres_keys (\<lambda>t. t) ''id'' ''t'' 1 ''laptop'' (Some ''u'') None ([], []))"

theorem api_key_valid_until_revoked_witness:
  "\<exists>k. fst (validate_key postgres_keys (\<lambda>t. t) 100 2 False ''sk-t'' demo_key_table) = Inr k \<and> ak_user k = Some ''u''"
proof -
  have "map_sum id snd (fst (create_key postgres_keys (\<lambda>t. t) ''id'' ''t'' 1 ''laptop'' (Some ''u'') None ([], []))) = Inr ''sk-t''" by code_simp
  then obtain meta where "create_key postgres_keys (\<lambda>t. t) ''id'' ''t'' 1 ''laptop'' (Some ''u'') None ([], []) = (Inr (meta, ''sk-t''), demo_key_table)"
    unfolding demo_key_table_def by (cases "create_key postgres_keys (\<lambda>t. t) ''id'' ''t'' 1 ''laptop'' (Some ''u'') None ([], [])"; cases "fst (create_key postgres_keys (\<lambda>t. t) ''id'' ''t'' 1 ''laptop'' (Some ''u'') None ([], []))") auto
  from api_key_valid_until_revoked [OF key_run.start this key_run.start, of 100 2 False] show ?thesis by auto
qed

text \<open>
  Identities of different workspaces, and unbound keys that differ, never share a tenant scope as long as the
  hash keeps their texts apart; the scope is always a valid owner.
\<close>

lemma tenant_scope_valid:
  assumes "\<forall>t. length (hash t) = 64 \<and> list_all is_hex (hash t)" and "resolve_tenant_scope hash (Some i) = Some scope"
  shows "validate_owner_key_hash (Some scope) = Inr scope"
  using assms by (auto simp: resolve_tenant_scope_def validate_owner_key_hash_def Let_def split: if_splits)

lemma workspaces_isolated:
  assumes "inj hash" and "\<forall>t. length (hash t) = 64 \<and> list_all is_hex (hash t)" and "ic_workspace i = Some w" and "ic_workspace j = Some v"
    and "resolve_tenant_scope hash (Some i) = resolve_tenant_scope hash (Some j)"
  shows "w = v"
  using assms by (auto simp: resolve_tenant_scope_def tenant_scope_def Let_def inj_eq)

end
