(* ===== verification/Prompts.thy ===== *)
theory Prompts
  imports Workspaces
begin

text \<open>
  The prompt registry: \<open>app/prompts/models.py\<close>, \<open>repository.py\<close>, \<open>service.py\<close>, \<open>seeds.py\<close>, \<open>builtins.py\<close>. Versions of a template
  are counted up per workspace and name, at most one of them is active, and a reference may pin one.
  The audit log is left out, and \<open>updated_at\<close>, which no operation reads; the JSON of the variables is a list of objects.
\<close>

section \<open>Templates and their repositories\<close>

record prompt_record =
  pr_id :: int
  pr_workspace :: "string option"
  pr_name :: string
  pr_version :: int
  pr_content :: string
  pr_variables :: "pyval list"
  pr_is_active :: bool
  pr_created_by :: "string option"
  pr_created_at :: "int option"

record prompt_version_summary =
  vs_name :: string
  vs_version :: int
  vs_is_active :: bool
  vs_created_at :: "int option"

record 's prompt_repository =
  pp_create :: "prompt_record \<Rightarrow> 's \<Rightarrow> (auth_error + prompt_record) \<times> 's"
  pp_find_active :: "string option \<Rightarrow> string \<Rightarrow> 's \<Rightarrow> prompt_record option"
  pp_find_version :: "string option \<Rightarrow> string \<Rightarrow> int \<Rightarrow> 's \<Rightarrow> prompt_record option"
  pp_list_names :: "string option \<Rightarrow> 's \<Rightarrow> string list"
  pp_list_versions :: "string option \<Rightarrow> string \<Rightarrow> 's \<Rightarrow> prompt_record list"
  pp_set_active :: "string option \<Rightarrow> string \<Rightarrow> int \<Rightarrow> 's \<Rightarrow> bool \<times> 's"
  pp_list_active :: "string option \<Rightarrow> 's \<Rightarrow> prompt_record list"
  pp_seed :: "prompt_record \<Rightarrow> 's \<Rightarrow> (auth_error + prompt_record) \<times> 's"

definition same_prompt :: "string option \<Rightarrow> string \<Rightarrow> prompt_record \<Rightarrow> bool" where
  "same_prompt w n r \<longleftrightarrow> pr_workspace r = w \<and> pr_name r = n"

text \<open>The rows in the order of insertion and the last identifier, in memory and as a table; and the database's clock.\<close>

record prompt_store =
  ps_records :: "prompt_record list"
  ps_next_id :: int
  ps_clock :: int

definition mp_create :: "prompt_record \<Rightarrow> prompt_store \<Rightarrow> (auth_error + prompt_record) \<times> prompt_store" where
  "mp_create r s = (let i = ps_next_id s + 1; r' = r\<lparr>pr_id := i\<rparr> in (Inr r', s\<lparr>ps_records := ps_records s @ [r'], ps_next_id := i\<rparr>))"

definition mp_find_active :: "string option \<Rightarrow> string \<Rightarrow> prompt_store \<Rightarrow> prompt_record option" where
  "mp_find_active w n s = find (\<lambda>r. same_prompt w n r \<and> pr_is_active r) (ps_records s)"

definition mp_find_version :: "string option \<Rightarrow> string \<Rightarrow> int \<Rightarrow> prompt_store \<Rightarrow> prompt_record option" where
  "mp_find_version w n v s = find (\<lambda>r. same_prompt w n r \<and> pr_version r = v) (ps_records s)"

definition mp_list_versions :: "string option \<Rightarrow> string \<Rightarrow> prompt_store \<Rightarrow> prompt_record list" where
  "mp_list_versions w n s = filter (same_prompt w n) (ps_records s)"

definition visible_to :: "string option \<Rightarrow> prompt_record \<Rightarrow> bool" where
  "visible_to w r \<longleftrightarrow> pr_workspace r = w \<or> w \<noteq> None \<and> pr_workspace r = None"

definition mp_list_names :: "string option \<Rightarrow> prompt_store \<Rightarrow> string list" where
  "mp_list_names w s = sort (remdups (map pr_name (filter (visible_to w) (ps_records s))))"

definition deactivate :: "string option \<Rightarrow> string \<Rightarrow> prompt_record list \<Rightarrow> prompt_record list" where
  "deactivate w n rs = map (\<lambda>r. if same_prompt w n r then r\<lparr>pr_is_active := False\<rparr> else r) rs"

definition mp_set_active :: "string option \<Rightarrow> string \<Rightarrow> int \<Rightarrow> prompt_store \<Rightarrow> bool \<times> prompt_store" where
  "mp_set_active w n v s =
     (case mp_find_version w n v s of
        None \<Rightarrow> (False, s)
      | Some _ \<Rightarrow>
          (True, s\<lparr>ps_records := snd (update_first (\<lambda>r. same_prompt w n r \<and> pr_version r = v) (\<lambda>r. r\<lparr>pr_is_active := True\<rparr>)
                    (deactivate w n (ps_records s)))\<rparr>))"

text \<open>The workspace's own template wins over the global one of the same name.\<close>

definition by_name :: "string option \<Rightarrow> prompt_record list \<Rightarrow> (string, prompt_record) pydict" where
  "by_name w rs = fold (\<lambda>r d. if dget d (pr_name r) = None \<or> pr_workspace r = w then dset (pr_name r) r d else d) rs []"

definition mp_list_active :: "string option \<Rightarrow> prompt_store \<Rightarrow> prompt_record list" where
  "mp_list_active w s = dvalues (by_name w (filter (\<lambda>r. pr_is_active r \<and> (pr_workspace r = w \<or> pr_workspace r = None)) (ps_records s)))"

definition mp_seed :: "prompt_record \<Rightarrow> prompt_store \<Rightarrow> (auth_error + prompt_record) \<times> prompt_store" where
  "mp_seed r s =
     (case mp_find_version (pr_workspace r) (pr_name r) (pr_version r) s of
        Some x \<Rightarrow> (Inr x, s)
      | None \<Rightarrow> mp_create r s)"

definition memory_prompts :: "prompt_store prompt_repository" where
  "memory_prompts = \<lparr>pp_create = mp_create, pp_find_active = mp_find_active, pp_find_version = mp_find_version, pp_list_names = mp_list_names,
     pp_list_versions = mp_list_versions, pp_set_active = mp_set_active, pp_list_active = mp_list_active, pp_seed = mp_seed\<rparr>"

text \<open>
  PostgreSQL: the unique constraint covers workspace, name and version, and lets rows without a workspace
  through, since NULLs differ; \<open>created_at\<close> is the server's default, not the record's. A \<open>scalar\<close> reads the first row; the versions come newest first.
\<close>

definition pgp_create :: "prompt_record \<Rightarrow> prompt_store \<Rightarrow> (auth_error + prompt_record) \<times> prompt_store" where
  "pgp_create r s =
     (if pr_workspace r \<noteq> None \<and> (\<exists>x \<in> set (ps_records s). same_prompt (pr_workspace r) (pr_name r) x \<and> pr_version x = pr_version r)
      then (Inl DatabaseError, s)
      else (let i = ps_next_id s + 1; r' = r\<lparr>pr_id := i, pr_created_at := Some (ps_clock s)\<rparr>
            in (Inr r', s\<lparr>ps_records := ps_records s @ [r'], ps_next_id := i\<rparr>)))"

definition pgp_find_active :: "string option \<Rightarrow> string \<Rightarrow> prompt_store \<Rightarrow> prompt_record option" where
  "pgp_find_active w n s = find (\<lambda>r. same_prompt w n r \<and> pr_is_active r) (ps_records s)"

definition pgp_find_version :: "string option \<Rightarrow> string \<Rightarrow> int \<Rightarrow> prompt_store \<Rightarrow> prompt_record option" where
  "pgp_find_version w n v s = find (\<lambda>r. same_prompt w n r \<and> pr_version r = v) (ps_records s)"

definition pgp_list_versions :: "string option \<Rightarrow> string \<Rightarrow> prompt_store \<Rightarrow> prompt_record list" where
  "pgp_list_versions w n s = sort_key (\<lambda>r. - pr_version r) (filter (same_prompt w n) (ps_records s))"

definition pgp_list_names :: "string option \<Rightarrow> prompt_store \<Rightarrow> string list" where
  "pgp_list_names w s = sort (remdups (map pr_name (filter (\<lambda>r. pr_workspace r = w \<or> pr_workspace r = None) (ps_records s))))"

definition pgp_set_active :: "string option \<Rightarrow> string \<Rightarrow> int \<Rightarrow> prompt_store \<Rightarrow> bool \<times> prompt_store" where
  "pgp_set_active w n v s =
     (case find (\<lambda>r. same_prompt w n r \<and> pr_version r = v) (ps_records s) of
        None \<Rightarrow> (False, s)
      | Some _ \<Rightarrow>
          (let cleared = map (\<lambda>r. if same_prompt w n r then r\<lparr>pr_is_active := False\<rparr> else r) (ps_records s)
           in (True, s\<lparr>ps_records := snd (update_first (\<lambda>r. same_prompt w n r \<and> pr_version r = v) (\<lambda>r. r\<lparr>pr_is_active := True\<rparr>) cleared)\<rparr>)))"

definition pgp_list_active :: "string option \<Rightarrow> prompt_store \<Rightarrow> prompt_record list" where
  "pgp_list_active w s = dvalues (by_name w (filter (\<lambda>r. (pr_workspace r = w \<or> pr_workspace r = None) \<and> pr_is_active r) (ps_records s)))"

definition pgp_seed :: "prompt_record \<Rightarrow> prompt_store \<Rightarrow> (auth_error + prompt_record) \<times> prompt_store" where
  "pgp_seed r s =
     (case pgp_find_version (pr_workspace r) (pr_name r) (pr_version r) s of
        Some x \<Rightarrow> (Inr x, s)
      | None \<Rightarrow> pgp_create r s)"

definition postgres_prompts :: "prompt_store prompt_repository" where
  "postgres_prompts = \<lparr>pp_create = pgp_create, pp_find_active = pgp_find_active, pp_find_version = pgp_find_version, pp_list_names = pgp_list_names,
     pp_list_versions = pgp_list_versions, pp_set_active = pgp_set_active, pp_list_active = pgp_list_active, pp_seed = pgp_seed\<rparr>"

section \<open>The service\<close>

text \<open>
  \<open>^(.+)@(\d+)$\<close>: the greedy name ends before the last @ that digits follow to the end (or to a final newline);
  a name contains no newline.
\<close>

definition is_digit :: "char \<Rightarrow> bool" where "is_digit c \<longleftrightarrow> CHR ''0'' \<le> c \<and> c \<le> CHR ''9''"

definition digits_value :: "string \<Rightarrow> int" where
  "digits_value ds = foldl (\<lambda>n c. 10 * n + (of_char c - 48)) 0 ds"

definition split_prompt_ref :: "string \<Rightarrow> string \<times> int option" where
  "split_prompt_ref ref =
     (let body = (if ref \<noteq> [] \<and> last ref = CHR 0x0A then butlast ref else ref);
          ds = rev (takeWhile is_digit (rev body));
          front = rev (dropWhile is_digit (rev body))
      in if ds \<noteq> [] \<and> front \<noteq> [] \<and> last front = CHR ''@'' \<and> butlast front \<noteq> [] \<and> CHR 0x0A \<notin> set (butlast front)
         then (butlast front, Some (digits_value ds)) else (ref, None))"

definition service_seed :: "'s prompt_repository \<Rightarrow> string \<Rightarrow> string \<Rightarrow> pyval list \<Rightarrow> string option \<Rightarrow> 's \<Rightarrow> (auth_error + prompt_record) \<times> 's" where
  "service_seed repo name content variables w s =
     pp_seed repo \<lparr>pr_id = 0, pr_workspace = w, pr_name = name, pr_version = 1, pr_content = content, pr_variables = variables, pr_is_active = True,
       pr_created_by = None, pr_created_at = None\<rparr> s"

fun substitute :: "(string \<times> string) list \<Rightarrow> string \<Rightarrow> string" where
  "substitute [] content = content"
| "substitute ((key, val) # vs) content = substitute vs (py_replace (''{'' @ key @ ''}'') val content)"

definition resolve_template :: "'s prompt_repository \<Rightarrow> string option \<Rightarrow> string \<Rightarrow> 's \<Rightarrow> prompt_record option" where
  "resolve_template repo w name s =
     (case pp_find_active repo w name s of
        Some t \<Rightarrow> Some t
      | None \<Rightarrow> if w \<noteq> None then pp_find_active repo None name s else None)"

definition render :: "'s prompt_repository \<Rightarrow> string \<Rightarrow> (string \<times> string) list \<Rightarrow> string \<Rightarrow> string option \<Rightarrow> 's \<Rightarrow> string" where
  "render repo name variables fallback w s =
     (case resolve_template repo w name s of None \<Rightarrow> fallback | Some t \<Rightarrow> substitute variables (pr_content t))"

text \<open>
  The record that \<open>create_version\<close> builds from the versions it has read, and the call as one step. The code reads and
  inserts in two transactions; other calls in between are not steps of the runs below, and what they can
  do is \<open>global_versions_duplicate\<close>.
\<close>

definition new_version ::
  "int \<Rightarrow> string \<Rightarrow> string \<Rightarrow> pyval list \<Rightarrow> string option \<Rightarrow> string option \<Rightarrow> prompt_record list \<Rightarrow> prompt_record" where
  "new_version now name content variables w created_by versions =
     \<lparr>pr_id = 0, pr_workspace = w, pr_name = name, pr_version = (if versions \<noteq> [] then Max (pr_version ` set versions) + 1 else 1),
      pr_content = content, pr_variables = variables, pr_is_active = False, pr_created_by = created_by, pr_created_at = Some now\<rparr>"

definition create_version ::
  "'s prompt_repository \<Rightarrow> int \<Rightarrow> string \<Rightarrow> string \<Rightarrow> pyval list \<Rightarrow> string option \<Rightarrow> string option \<Rightarrow> 's \<Rightarrow> (auth_error + prompt_record) \<times> 's" where
  "create_version repo now name content variables w created_by s =
     pp_create repo (new_version now name content variables w created_by (pp_list_versions repo w name s)) s"

definition activate :: "'s prompt_repository \<Rightarrow> string \<Rightarrow> int \<Rightarrow> string option \<Rightarrow> 's \<Rightarrow> bool \<times> 's" where
  "activate repo name version w s = pp_set_active repo w name version s"

definition resolve_version :: "'s prompt_repository \<Rightarrow> string \<Rightarrow> string option \<Rightarrow> 's \<Rightarrow> int option" where
  "resolve_version repo name w s = map_option pr_version (resolve_template repo w name s)"

definition render_version :: "'s prompt_repository \<Rightarrow> string \<Rightarrow> int \<Rightarrow> (string \<times> string) list \<Rightarrow> string \<Rightarrow> string option \<Rightarrow> 's \<Rightarrow> string" where
  "render_version repo name version variables fallback w s =
     (case (case pp_find_version repo w name version s of
              Some t \<Rightarrow> Some t
            | None \<Rightarrow> if w \<noteq> None then pp_find_version repo None name version s else None) of
        None \<Rightarrow> fallback
      | Some t \<Rightarrow> substitute variables (pr_content t))"

definition list_prompt_versions :: "'s prompt_repository \<Rightarrow> string \<Rightarrow> string option \<Rightarrow> 's \<Rightarrow> prompt_version_summary list" where
  "list_prompt_versions repo name w s =
     (let own = pp_list_versions repo w name s;
          records = (if own = [] \<and> w \<noteq> None then pp_list_versions repo None name s else own)
      in map (\<lambda>r. \<lparr>vs_name = pr_name r, vs_version = pr_version r, vs_is_active = pr_is_active r, vs_created_at = pr_created_at r\<rparr>) records)"

text \<open>The names of the built-in templates; their texts are an argument.\<close>

definition builtin_names :: "string list" where "builtin_names = [''agent_protocol'', ''rag_preset'', ''chat_system'']"

definition seed_prompt_registry :: "'s prompt_repository \<Rightarrow> (string \<Rightarrow> string) \<Rightarrow> 's \<Rightarrow> 's" where
  "seed_prompt_registry repo content s = fold (\<lambda>n s. snd (service_seed repo n (content n) [] None s)) builtin_names s"

section \<open>One active version\<close>

inductive prompt_reach :: "'s prompt_repository \<Rightarrow> 's \<Rightarrow> 's \<Rightarrow> bool" for repo init where
  start: "prompt_reach repo init init"
| seed: "prompt_reach repo init s \<Longrightarrow> service_seed repo name content vars w s = (r, s') \<Longrightarrow> prompt_reach repo init s'"
| create: "prompt_reach repo init s \<Longrightarrow> create_version repo now name content vars w by s = (r, s') \<Longrightarrow> prompt_reach repo init s'"
| activate: "prompt_reach repo init s \<Longrightarrow> activate repo name v w s = (b, s') \<Longrightarrow> prompt_reach repo init s'"

text \<open>Per workspace and name: the versions are 1, 2, ... in the order of the rows, and at most one is active.\<close>

definition prompts_ok :: "prompt_record list \<Rightarrow> bool" where
  "prompts_ok rs \<longleftrightarrow> (\<forall>w n. map pr_version (filter (same_prompt w n) rs) = [1..int (length (filter (same_prompt w n) rs))] \<and>
     length (filter pr_is_active (filter (same_prompt w n) rs)) \<le> 1)"

definition set_version :: "string option \<Rightarrow> string \<Rightarrow> int \<Rightarrow> prompt_record list \<Rightarrow> prompt_record list" where
  "set_version w n v rs = map (\<lambda>r. if same_prompt w n r then r\<lparr>pr_is_active := (pr_version r = v)\<rparr> else r) rs"

lemma update_first_unique: "length (filter p xs) \<le> 1 \<Longrightarrow> snd (update_first p f xs) = map (\<lambda>x. if p x then f x else x) xs"
proof (induction xs)
  case (Cons x xs)
  have "map (\<lambda>x. if p x then f x else x) xs = xs" if "p x"
    using Cons.prems that by (intro map_idI) (auto simp: filter_empty_conv)
  with Cons show ?case by (auto split: prod.splits)
qed simp

lemma filter_key_le1: "distinct (map f ys) \<Longrightarrow> length (filter (\<lambda>y. f y = v) ys) \<le> 1"
  by (induction ys) (auto simp: filter_empty_conv image_iff)

lemma prompts_okD: "prompts_ok rs \<Longrightarrow> distinct (map pr_version (filter (same_prompt w n) rs))"
  by (simp add: prompts_ok_def)

lemma activate_rows:
  assumes "prompts_ok rs"
  shows "snd (update_first (\<lambda>r. same_prompt w n r \<and> pr_version r = v) (\<lambda>r. r\<lparr>pr_is_active := True\<rparr>) (deactivate w n rs)) = set_version w n v rs"
proof -
  let ?p = "\<lambda>r. same_prompt w n r \<and> pr_version r = v"
  have p: "?p (if same_prompt w n r then r\<lparr>pr_is_active := False\<rparr> else r) = ?p r" for r by (simp add: same_prompt_def)
  have "length (filter ?p (deactivate w n rs)) = length (filter (\<lambda>r. pr_version r = v) (filter (same_prompt w n) rs))"
    by (simp add: deactivate_def filter_map comp_def p)
  then have "length (filter ?p (deactivate w n rs)) \<le> 1" using filter_key_le1 [OF prompts_okD [OF assms]] by simp
  from update_first_unique [OF this] show ?thesis by (auto simp: deactivate_def set_version_def same_prompt_def)
qed

lemma same_prompt_active [simp]: "same_prompt w n (r\<lparr>pr_is_active := b\<rparr>) = same_prompt w n r"
  by (simp add: same_prompt_def)

lemma filter_set_version_same:
  "filter (same_prompt w n) (set_version w n v rs) = map (\<lambda>r. r\<lparr>pr_is_active := (pr_version r = v)\<rparr>) (filter (same_prompt w n) rs)"
  by (induction rs) (simp_all add: set_version_def)

lemma filter_set_version_other:
  assumes "w' \<noteq> w \<or> n' \<noteq> n"
  shows "filter (same_prompt w' n') (set_version w n v rs) = filter (same_prompt w' n') rs"
proof (induction rs)
  case (Cons r rs)
  have "same_prompt w n r \<Longrightarrow> \<not> same_prompt w' n' r" using assms by (auto simp: same_prompt_def)
  with Cons show ?case by (simp add: set_version_def)
qed (simp add: set_version_def)

lemma find_active_set_version:
  "find (\<lambda>r. same_prompt w n r \<and> pr_is_active r) (set_version w n v rs) =
     map_option (\<lambda>r. r\<lparr>pr_is_active := True\<rparr>) (find (\<lambda>r. same_prompt w n r \<and> pr_version r = v) rs)"
  by (induction rs) (auto simp: set_version_def same_prompt_def)

lemma prompts_ok_set:
  assumes "prompts_ok rs"
  shows "prompts_ok (set_version w n v rs)"
  unfolding prompts_ok_def
proof (intro allI)
  fix w' n'
  let ?g = "\<lambda>r :: prompt_record. r\<lparr>pr_is_active := (pr_version r = v)\<rparr>"
  have "length (filter pr_is_active (map ?g ys)) = length (filter (\<lambda>r. pr_version r = v) ys)" for ys by (induction ys) auto
  with assms filter_key_le1 [OF prompts_okD [OF assms, of w n], of v]
  show "map pr_version (filter (same_prompt w' n') (set_version w n v rs)) = [1..int (length (filter (same_prompt w' n') (set_version w n v rs)))] \<and>
      length (filter pr_is_active (filter (same_prompt w' n') (set_version w n v rs))) \<le> 1"
    by (cases "w' = w \<and> n' = n") (simp_all add: prompts_ok_def filter_set_version_same filter_set_version_other comp_def del: filter_filter)
qed

lemma prompts_ok_snoc:
  assumes "prompts_ok rs" and "pr_version r = int (length (filter (same_prompt (pr_workspace r) (pr_name r)) rs)) + 1"
    and "pr_is_active r \<longrightarrow> filter (same_prompt (pr_workspace r) (pr_name r)) rs = []"
  shows "prompts_ok (rs @ [r])"
  unfolding prompts_ok_def
proof (intro allI)
  fix w n
  have "same_prompt w n r \<longleftrightarrow> w = pr_workspace r \<and> n = pr_name r" by (auto simp: same_prompt_def)
  moreover have "filter pr_is_active (filter (same_prompt (pr_workspace r) (pr_name r)) rs) = []" if "pr_is_active r"
    using assms(3) that by simp
  ultimately show "map pr_version (filter (same_prompt w n) (rs @ [r])) = [1..int (length (filter (same_prompt w n) (rs @ [r])))] \<and>
      length (filter pr_is_active (filter (same_prompt w n) (rs @ [r]))) \<le> 1"
    using assms(1,2) by (auto simp: prompts_ok_def upto_rec2 add.commute simp del: filter_filter)
qed

lemma next_version:
  assumes "prompts_ok rs" and "set vs = set (filter (same_prompt w n) rs)"
  shows "(if vs \<noteq> [] then Max (pr_version ` set vs) + 1 else 1) = int (length (filter (same_prompt w n) rs)) + 1"
proof (cases "filter (same_prompt w n) rs = []")
  case True
  with assms(2) show ?thesis by simp
next
  case False
  let ?k = "int (length (filter (same_prompt w n) rs))"
  have "pr_version ` set vs = set (map pr_version (filter (same_prompt w n) rs))" using assms(2) by simp
  also have "\<dots> = set [1..?k]" using assms(1) by (simp only: prompts_ok_def)
  finally have "pr_version ` set vs = {1..?k}" by simp
  moreover have "1 \<le> ?k" using False by (simp add: Suc_leI)
  ultimately have "Max (pr_version ` set vs) = ?k" by (auto intro: Max_eqI)
  moreover have "vs \<noteq> []" using assms(2) False by auto
  ultimately show ?thesis by simp
qed

locale prompt_rows =
  fixes repo :: "'s prompt_repository" and rows :: "'s \<Rightarrow> prompt_record list"
  assumes active_law: "pp_find_active repo w n s = find (\<lambda>r. same_prompt w n r \<and> pr_is_active r) (rows s)"
    and version_law: "pp_find_version repo w n v s = find (\<lambda>r. same_prompt w n r \<and> pr_version r = v) (rows s)"
    and versions_law: "set (pp_list_versions repo w n s) = set (filter (same_prompt w n) (rows s))"
    and create_law: "\<forall>x \<in> set (rows s). same_prompt (pr_workspace r) (pr_name r) x \<longrightarrow> pr_version x \<noteq> pr_version r \<Longrightarrow>
      \<exists>i t s'. pp_create repo r s = (Inr (r\<lparr>pr_id := i, pr_created_at := t\<rparr>), s') \<and> rows s' = rows s @ [r\<lparr>pr_id := i, pr_created_at := t\<rparr>]"
    and seed_law: "pp_seed repo r s =
      (case pp_find_version repo (pr_workspace r) (pr_name r) (pr_version r) s of Some x \<Rightarrow> (Inr x, s) | None \<Rightarrow> pp_create repo r s)"
    and set_law: "prompts_ok (rows s) \<Longrightarrow> pp_set_active repo w n v s = (b, s') \<Longrightarrow>
      b = (pp_find_version repo w n v s \<noteq> None) \<and> rows s' = (if b then set_version w n v (rows s) else rows s)"
begin

lemma create_ok:
  assumes "prompts_ok (rows s)" and "pp_create repo r s = (x, s')"
    and "pr_version r = int (length (filter (same_prompt (pr_workspace r) (pr_name r)) (rows s))) + 1"
    and "pr_is_active r \<longrightarrow> filter (same_prompt (pr_workspace r) (pr_name r)) (rows s) = []"
  shows "prompts_ok (rows s')"
proof -
  let ?f = "filter (same_prompt (pr_workspace r) (pr_name r)) (rows s)"
  have "pr_version ` set ?f = {1..int (length ?f)}"
    using assms(1) unfolding prompts_ok_def by (metis set_map set_upto)
  then have le: "\<forall>x \<in> set ?f. pr_version x \<le> int (length ?f)" by (auto simp: set_eq_iff image_iff)
  have "\<forall>x \<in> set (rows s). same_prompt (pr_workspace r) (pr_name r) x \<longrightarrow> pr_version x \<noteq> pr_version r"
  proof (intro ballI impI)
    fix x assume "x \<in> set (rows s)" "same_prompt (pr_workspace r) (pr_name r) x"
    with le have "pr_version x \<le> int (length ?f)" by simp
    with assms(3) show "pr_version x \<noteq> pr_version r" by simp
  qed
  from create_law [OF this] assms(2) obtain i t where "rows s' = rows s @ [r\<lparr>pr_id := i, pr_created_at := t\<rparr>]" by auto
  with prompts_ok_snoc [OF assms(1), of "r\<lparr>pr_id := i, pr_created_at := t\<rparr>"] assms(3,4) show ?thesis by simp
qed

lemma seed_ok:
  assumes "prompts_ok (rows s)" and "service_seed repo name content vars w s = (x, s')"
  shows "prompts_ok (rows s')"
proof (cases "pp_find_version repo w name 1 s")
  case None
  let ?f = "filter (same_prompt w name) (rows s)"
  have "map pr_version ?f = [1..int (length ?f)]" using assms(1) by (simp add: prompts_ok_def)
  moreover have "1 \<notin> set (map pr_version ?f)" using None by (auto simp: version_law find_None_iff)
  ultimately have "?f = []" by (cases ?f) auto
  moreover have "pp_create repo \<lparr>pr_id = 0, pr_workspace = w, pr_name = name, pr_version = 1, pr_content = content, pr_variables = vars, pr_is_active = True,
       pr_created_by = None, pr_created_at = None\<rparr> s = (x, s')" using assms(2) None by (simp add: service_seed_def seed_law)
  ultimately show ?thesis using create_ok [OF assms(1)] by simp
next
  case (Some a)
  with assms show ?thesis by (simp add: service_seed_def seed_law)
qed

lemma reach_ok: "prompt_reach repo init s \<Longrightarrow> prompts_ok (rows init) \<Longrightarrow> prompts_ok (rows s)"
proof (induction rule: prompt_reach.induct)
  case (seed s name content vars w r s')
  then show ?case using seed_ok by blast
next
  case (create s now name content vars w "by" r s')
  then show ?case using create_ok next_version [OF _ versions_law] by (fastforce simp: create_version_def new_version_def Let_def)
next
  case (activate s name v w b s')
  then show ?case using set_law [of s w name v b s'] prompts_ok_set by (simp add: activate_def)
qed

text \<open>After a version is activated it is the one that renders, and the prompts of other keys are as before.\<close>

lemma activate_spec:
  assumes ok: "prompts_ok (rows s)" and act: "activate repo name v w s = (b, s')"
  shows "b \<longleftrightarrow> 1 \<le> v \<and> v \<le> int (length (filter (same_prompt w name) (rows s)))"
    and "b \<Longrightarrow> resolve_version repo name w s' = Some v"
    and "b \<Longrightarrow> render repo name vars fallback w s' = render_version repo name v vars fallback w s"
proof -
  let ?f = "filter (same_prompt w name) (rows s)"
  have set: "b = (pp_find_version repo w name v s \<noteq> None) \<and> rows s' = (if b then set_version w name v (rows s) else rows s)"
    using set_law [OF ok, of w name v b s'] act by (simp add: activate_def)
  have "pr_version ` set ?f = {1..int (length ?f)}"
    using ok unfolding prompts_ok_def by (metis set_map set_upto)
  moreover have "pp_find_version repo w name v s \<noteq> None \<longleftrightarrow> v \<in> pr_version ` set ?f"
    by (auto simp: version_law find_None_iff image_iff)
  ultimately show b: "b \<longleftrightarrow> 1 \<le> v \<and> v \<le> int (length ?f)" using set by simp
  have now: "pp_find_active repo w name s' = map_option (\<lambda>r. r\<lparr>pr_is_active := True\<rparr>) (pp_find_version repo w name v s)" if b
    using set that find_active_set_version by (simp add: active_law version_law)
  show "resolve_version repo name w s' = Some v" if b
  proof -
    from set that obtain r where "pp_find_version repo w name v s = Some r" by auto
    moreover from this have "pr_version r = v" by (auto simp: version_law find_Some_iff)
    ultimately show ?thesis using now [OF that] by (simp add: resolve_version_def resolve_template_def)
  qed
  show "render repo name vars fallback w s' = render_version repo name v vars fallback w s" if b
    using now [OF that] set that by (auto simp: render_def render_version_def resolve_template_def)
qed

lemma activate_now:
  assumes "prompts_ok (rows s)" and "activate repo name v w s = (b, s')" and b
  shows "\<exists>r. pp_find_active repo w name s' = Some r"
  using set_law [OF assms(1), of w name v b s'] assms(2,3) find_active_set_version
  by (auto simp: activate_def active_law version_law)

lemma activate_others:
  assumes "prompts_ok (rows s)" and "activate repo name v w s = (b, s')"
  shows "filter (\<lambda>r. \<not> same_prompt w name r) (rows s') = filter (\<lambda>r. \<not> same_prompt w name r) (rows s)"
proof -
  have "filter (\<lambda>r. \<not> same_prompt w name r) (set_version w name v rs) = filter (\<lambda>r. \<not> same_prompt w name r) rs" for rs
    by (induction rs) (auto simp: set_version_def)
  then show ?thesis using set_law [OF assms(1), of w name v b s'] assms(2) by (simp add: activate_def)
qed

end

interpretation mprompts: prompt_rows memory_prompts ps_records
proof unfold_locales
  fix w n v s b and s' :: prompt_store
  assume "prompts_ok (ps_records s)" and "pp_set_active memory_prompts w n v s = (b, s')"
  then show "b = (pp_find_version memory_prompts w n v s \<noteq> None) \<and> ps_records s' = (if b then set_version w n v (ps_records s) else ps_records s)"
    by (auto simp: memory_prompts_def mp_set_active_def activate_rows split: option.splits)
next
  fix r and s :: prompt_store
  show "\<exists>i t s'. pp_create memory_prompts r s = (Inr (r\<lparr>pr_id := i, pr_created_at := t\<rparr>), s') \<and>
      ps_records s' = ps_records s @ [r\<lparr>pr_id := i, pr_created_at := t\<rparr>]"
    by (intro exI [of _ "ps_next_id s + 1"] exI [of _ "pr_created_at r"]) (simp add: memory_prompts_def mp_create_def Let_def)
qed (auto simp: memory_prompts_def mp_find_active_def mp_find_version_def mp_list_versions_def mp_seed_def split: option.splits)






text \<open>
  Two calls of \<open>create_version\<close> for the global workspace that both read the versions before either inserts store the same
  version number twice over PostgreSQL: the unique constraint does not compare rows whose workspace is NULL. In a
  workspace the constraint refuses the second.
\<close>

lemma global_versions_duplicate:
  assumes "vs = pp_list_versions postgres_prompts w name s"
    and "pp_create postgres_prompts (new_version now name c variables w u vs) s = (Inr r, s1)"
  shows "case pp_create postgres_prompts (new_version now' name c' variables' w u' vs) s1 of
      (Inr r', _) \<Rightarrow> w = None \<and> pr_version r' = pr_version r
    | (Inl e, _) \<Rightarrow> w \<noteq> None"
  using assms(2) by (auto simp: postgres_prompts_def pgp_create_def new_version_def same_prompt_def Let_def split: if_splits)

end
