(* ===== verification/AgentConfig.thy ===== *)
theory AgentConfig
  imports Prompts ToolExecutor
begin

text \<open>
  Agent definitions and the tool center: \<open>app/agent_config/models.py\<close>, \<open>repository.py\<close>, \<open>service.py\<close> over the tables
  of \<open>app/db/agent_models.py\<close>. The audit log is left out, and \<open>updated_at\<close>, which no operation reads.
  A temperature is the text of a float.
\<close>

section \<open>Records and the repository interface\<close>

record agent_record =
  ag_id :: string
  ag_workspace :: string
  ag_name :: string
  ag_model :: string
  ag_prompt_ref :: string
  ag_temperature :: string
  ag_max_steps :: int
  ag_enabled :: bool
  ag_created_by :: "string option"
  ag_created_at :: "int option"

record agent_tool_record =
  at_id :: int
  at_agent :: string
  at_tool :: string

record tool_record =
  tr_name :: string
  tr_description :: string
  tr_parameters_schema :: pyval
  tr_enabled_by_default :: bool
  tr_owner :: string

record workspace_tool_record =
  wt_workspace :: string
  wt_tool :: string
  wt_enabled :: bool

text \<open>
  \<open>ad_assign\<close> is what assigning to the fields of a record that \<open>find_agent_by_id\<close> returned does to the store:
  the in-memory repository hands out its own objects, the other one copies.
\<close>

record 's agent_repository =
  ad_create :: "agent_record \<Rightarrow> 's \<Rightarrow> (auth_error + agent_record) \<times> 's"
  ad_find :: "string \<Rightarrow> 's \<Rightarrow> agent_record option"
  ad_assign :: "agent_record \<Rightarrow> 's \<Rightarrow> 's"
  ad_list :: "string \<Rightarrow> 's \<Rightarrow> agent_record list"
  ad_update :: "agent_record \<Rightarrow> 's \<Rightarrow> agent_record option \<times> 's"
  ad_delete :: "string \<Rightarrow> 's \<Rightarrow> bool \<times> 's"
  ad_set_tools :: "string \<Rightarrow> string list \<Rightarrow> 's \<Rightarrow> (auth_error + agent_tool_record list) \<times> 's"
  ad_get_tools :: "string \<Rightarrow> 's \<Rightarrow> agent_tool_record list"
  ad_seed_tool :: "tool_record \<Rightarrow> 's \<Rightarrow> tool_record \<times> 's"
  ad_list_tools :: "'s \<Rightarrow> tool_record list"
  ad_set_workspace_tool :: "string \<Rightarrow> string \<Rightarrow> bool \<Rightarrow> 's \<Rightarrow> (auth_error + workspace_tool_record) \<times> 's"
  ad_list_workspace_tools :: "string \<Rightarrow> 's \<Rightarrow> workspace_tool_record list"
  ad_get_workspace_tool :: "string \<Rightarrow> string \<Rightarrow> 's \<Rightarrow> workspace_tool_record option"

section \<open>In memory\<close>

record agent_memory =
  am_agents :: "(string, agent_record) pydict"
  am_agent_tools :: "agent_tool_record list"
  am_tools :: "(string, tool_record) pydict"
  am_workspace_tools :: "workspace_tool_record list"
  am_tool_id_seq :: int

definition ma_create :: "agent_record \<Rightarrow> agent_memory \<Rightarrow> (auth_error + agent_record) \<times> agent_memory" where
  "ma_create r s = (Inr r, s\<lparr>am_agents := dset (ag_id r) r (am_agents s)\<rparr>)"

definition ma_find :: "string \<Rightarrow> agent_memory \<Rightarrow> agent_record option" where
  "ma_find i s = dget (am_agents s) i"

definition ma_assign :: "agent_record \<Rightarrow> agent_memory \<Rightarrow> agent_memory" where
  "ma_assign r s = s\<lparr>am_agents := dset (ag_id r) r (am_agents s)\<rparr>"

definition ma_list :: "string \<Rightarrow> agent_memory \<Rightarrow> agent_record list" where
  "ma_list w s = filter (\<lambda>a. ag_workspace a = w) (dvalues (am_agents s))"

definition ma_update :: "agent_record \<Rightarrow> agent_memory \<Rightarrow> agent_record option \<times> agent_memory" where
  "ma_update r s =
     (if dget (am_agents s) (ag_id r) = None then (None, s) else (Some r, s\<lparr>am_agents := dset (ag_id r) r (am_agents s)\<rparr>))"

definition ma_delete :: "string \<Rightarrow> agent_memory \<Rightarrow> bool \<times> agent_memory" where
  "ma_delete i s = (dget (am_agents s) i \<noteq> None, s\<lparr>am_agents := ddel i (am_agents s)\<rparr>)"

fun number_tools :: "string \<Rightarrow> int \<Rightarrow> string list \<Rightarrow> agent_tool_record list" where
  "number_tools a k [] = []"
| "number_tools a k (n # ns) = \<lparr>at_id = k + 1, at_agent = a, at_tool = n\<rparr> # number_tools a (k + 1) ns"

definition ma_set_tools :: "string \<Rightarrow> string list \<Rightarrow> agent_memory \<Rightarrow> (auth_error + agent_tool_record list) \<times> agent_memory" where
  "ma_set_tools a ns s =
     (let rs = number_tools a (am_tool_id_seq s) ns
      in (Inr rs, s\<lparr>am_agent_tools := filter (\<lambda>t. at_agent t \<noteq> a) (am_agent_tools s) @ rs,
                    am_tool_id_seq := am_tool_id_seq s + int (length ns)\<rparr>))"

definition ma_get_tools :: "string \<Rightarrow> agent_memory \<Rightarrow> agent_tool_record list" where
  "ma_get_tools a s = filter (\<lambda>t. at_agent t = a) (am_agent_tools s)"

definition ma_seed_tool :: "tool_record \<Rightarrow> agent_memory \<Rightarrow> tool_record \<times> agent_memory" where
  "ma_seed_tool r s =
     (case dget (am_tools s) (tr_name r) of
        Some x \<Rightarrow> (x, s)
      | None \<Rightarrow> (r, s\<lparr>am_tools := dset (tr_name r) r (am_tools s)\<rparr>))"

definition ma_list_tools :: "agent_memory \<Rightarrow> tool_record list" where
  "ma_list_tools s = dvalues (am_tools s)"

definition ma_set_workspace_tool :: "string \<Rightarrow> string \<Rightarrow> bool \<Rightarrow> agent_memory \<Rightarrow> (auth_error + workspace_tool_record) \<times> agent_memory" where
  "ma_set_workspace_tool w n e s =
     (let r = \<lparr>wt_workspace = w, wt_tool = n, wt_enabled = e\<rparr>
      in (Inr r, s\<lparr>am_workspace_tools := filter (\<lambda>t. wt_tool t \<noteq> n) (am_workspace_tools s) @ [r]\<rparr>))"

definition ma_list_workspace_tools :: "string \<Rightarrow> agent_memory \<Rightarrow> workspace_tool_record list" where
  "ma_list_workspace_tools w s = filter (\<lambda>t. wt_workspace t = w) (am_workspace_tools s)"

definition ma_get_workspace_tool :: "string \<Rightarrow> string \<Rightarrow> agent_memory \<Rightarrow> workspace_tool_record option" where
  "ma_get_workspace_tool w n s = find (\<lambda>t. wt_workspace t = w \<and> wt_tool t = n) (am_workspace_tools s)"

definition memory_agents :: "agent_memory agent_repository" where
  "memory_agents = \<lparr>ad_create = ma_create, ad_find = ma_find, ad_assign = ma_assign, ad_list = ma_list, ad_update = ma_update,
     ad_delete = ma_delete, ad_set_tools = ma_set_tools, ad_get_tools = ma_get_tools, ad_seed_tool = ma_seed_tool,
     ad_list_tools = ma_list_tools, ad_set_workspace_tool = ma_set_workspace_tool,
     ad_list_workspace_tools = ma_list_workspace_tools, ad_get_workspace_tool = ma_get_workspace_tool\<rparr>"

section \<open>PostgreSQL\<close>

text \<open>
  Four tables, the keys of the workspaces and users they refer to, the last identifier and the clock. Violated
  keys, unique constraints and references raise; the transaction is rolled back. Deleting an agent cascades.
\<close>

record agent_db =
  adb_workspaces :: "string list"
  adb_users :: "string list"
  adb_agents :: "agent_record list"
  adb_agent_tools :: "agent_tool_record list"
  adb_tools :: "tool_record list"
  adb_workspace_tools :: "workspace_tool_record list"
  adb_last_id :: int
  adb_clock :: int

definition pga_create :: "agent_record \<Rightarrow> agent_db \<Rightarrow> (auth_error + agent_record) \<times> agent_db" where
  "pga_create r s =
     (if ag_id r \<in> ag_id ` set (adb_agents s) \<or> ag_workspace r \<notin> set (adb_workspaces s) \<or>
         (case ag_created_by r of None \<Rightarrow> False | Some u \<Rightarrow> u \<notin> set (adb_users s))
      then (Inl DatabaseError, s)
      else (let row = r\<lparr>ag_created_at := Some (adb_clock s)\<rparr> in (Inr row, s\<lparr>adb_agents := adb_agents s @ [row]\<rparr>)))"

definition pga_find :: "string \<Rightarrow> agent_db \<Rightarrow> agent_record option" where
  "pga_find i s = find (\<lambda>a. ag_id a = i) (adb_agents s)"

definition pga_list :: "string \<Rightarrow> agent_db \<Rightarrow> agent_record list" where
  "pga_list w s = filter (\<lambda>a. ag_workspace a = w) (adb_agents s)"

definition pga_update :: "agent_record \<Rightarrow> agent_db \<Rightarrow> agent_record option \<times> agent_db" where
  "pga_update r s =
     (let g = (\<lambda>row. row\<lparr>ag_name := ag_name r, ag_model := ag_model r, ag_prompt_ref := ag_prompt_ref r, ag_temperature := ag_temperature r,
                         ag_max_steps := ag_max_steps r, ag_enabled := ag_enabled r\<rparr>)
      in case find (\<lambda>a. ag_id a = ag_id r) (adb_agents s) of
           None \<Rightarrow> (None, s)
         | Some row \<Rightarrow> (Some (g row), s\<lparr>adb_agents := snd (update_first (\<lambda>a. ag_id a = ag_id r) g (adb_agents s))\<rparr>))"

definition pga_delete :: "string \<Rightarrow> agent_db \<Rightarrow> bool \<times> agent_db" where
  "pga_delete i s =
     (case find (\<lambda>a. ag_id a = i) (adb_agents s) of
        None \<Rightarrow> (False, s)
      | Some _ \<Rightarrow> (True, s\<lparr>adb_agents := filter (\<lambda>a. ag_id a \<noteq> i) (adb_agents s),
                            adb_agent_tools := filter (\<lambda>t. at_agent t \<noteq> i) (adb_agent_tools s)\<rparr>))"

definition pga_set_tools :: "string \<Rightarrow> string list \<Rightarrow> agent_db \<Rightarrow> (auth_error + agent_tool_record list) \<times> agent_db" where
  "pga_set_tools a ns s =
     (if \<not> distinct ns \<or> (\<exists>n \<in> set ns. n \<notin> tr_name ` set (adb_tools s)) \<or> (ns \<noteq> [] \<and> a \<notin> ag_id ` set (adb_agents s))
      then (Inl DatabaseError, s)
      else (Inr (map (\<lambda>n. \<lparr>at_id = 0, at_agent = a, at_tool = n\<rparr>) ns),
            s\<lparr>adb_agent_tools := filter (\<lambda>t. at_agent t \<noteq> a) (adb_agent_tools s) @ number_tools a (adb_last_id s) ns,
              adb_last_id := adb_last_id s + int (length ns)\<rparr>))"

text \<open>
  The statement of \<open>get_agent_tools\<close> has no ORDER BY: the rows come in the order of insertion, in which PostgreSQL scans a table
  whose rows are not updated. Another order would permute the names of the result and nothing else.
\<close>

definition pga_get_tools :: "string \<Rightarrow> agent_db \<Rightarrow> agent_tool_record list" where
  "pga_get_tools a s = filter (\<lambda>t. at_agent t = a) (adb_agent_tools s)"

definition pga_seed_tool :: "tool_record \<Rightarrow> agent_db \<Rightarrow> tool_record \<times> agent_db" where
  "pga_seed_tool r s =
     (case find (\<lambda>t. tr_name t = tr_name r) (adb_tools s) of
        Some x \<Rightarrow> (x, s)
      | None \<Rightarrow> (r, s\<lparr>adb_tools := adb_tools s @ [r]\<rparr>))"

definition pga_list_tools :: "agent_db \<Rightarrow> tool_record list" where
  "pga_list_tools s = adb_tools s"

definition pga_set_workspace_tool :: "string \<Rightarrow> string \<Rightarrow> bool \<Rightarrow> agent_db \<Rightarrow> (auth_error + workspace_tool_record) \<times> agent_db" where
  "pga_set_workspace_tool w n e s =
     (case find (\<lambda>t. wt_workspace t = w \<and> wt_tool t = n) (adb_workspace_tools s) of
        None \<Rightarrow>
          if w \<notin> set (adb_workspaces s) \<or> n \<notin> tr_name ` set (adb_tools s) then (Inl DatabaseError, s)
          else (Inr \<lparr>wt_workspace = w, wt_tool = n, wt_enabled = e\<rparr>,
                s\<lparr>adb_workspace_tools := adb_workspace_tools s @ [\<lparr>wt_workspace = w, wt_tool = n, wt_enabled = e\<rparr>]\<rparr>)
      | Some _ \<Rightarrow>
          (Inr \<lparr>wt_workspace = w, wt_tool = n, wt_enabled = e\<rparr>,
           s\<lparr>adb_workspace_tools := snd (update_first (\<lambda>t. wt_workspace t = w \<and> wt_tool t = n) (\<lambda>t. t\<lparr>wt_enabled := e\<rparr>) (adb_workspace_tools s))\<rparr>))"

definition pga_list_workspace_tools :: "string \<Rightarrow> agent_db \<Rightarrow> workspace_tool_record list" where
  "pga_list_workspace_tools w s = filter (\<lambda>t. wt_workspace t = w) (adb_workspace_tools s)"

definition pga_get_workspace_tool :: "string \<Rightarrow> string \<Rightarrow> agent_db \<Rightarrow> workspace_tool_record option" where
  "pga_get_workspace_tool w n s = find (\<lambda>t. wt_workspace t = w \<and> wt_tool t = n) (adb_workspace_tools s)"

definition postgres_agents :: "agent_db agent_repository" where
  "postgres_agents = \<lparr>ad_create = pga_create, ad_find = pga_find, ad_assign = (\<lambda>r s. s), ad_list = pga_list, ad_update = pga_update,
     ad_delete = pga_delete, ad_set_tools = pga_set_tools, ad_get_tools = pga_get_tools, ad_seed_tool = pga_seed_tool,
     ad_list_tools = pga_list_tools, ad_set_workspace_tool = pga_set_workspace_tool,
     ad_list_workspace_tools = pga_list_workspace_tools, ad_get_workspace_tool = pga_get_workspace_tool\<rparr>"

section \<open>The service\<close>

definition is_tool_enabled :: "tool_registry \<Rightarrow> 's agent_repository \<Rightarrow> string \<Rightarrow> string \<Rightarrow> 's \<Rightarrow> bool" where
  "is_tool_enabled reg repo w n s =
     (case ad_get_workspace_tool repo w n s of
        Some t \<Rightarrow> wt_enabled t
      | None \<Rightarrow>
          (if get_tool reg n = None then False
           else (case find (\<lambda>r. tr_name r = n) (ad_list_tools repo s) of Some r \<Rightarrow> tr_enabled_by_default r | None \<Rightarrow> True)))"

definition quoted :: "string \<Rightarrow> string" where "quoted s = [CHR 0x27] @ s @ [CHR 0x27]"

fun validate_tool_names :: "tool_registry \<Rightarrow> 's agent_repository \<Rightarrow> string option \<Rightarrow> 's \<Rightarrow> string list \<Rightarrow> auth_error + string list" where
  "validate_tool_names reg repo w s [] = Inr []"
| "validate_tool_names reg repo w s (n # ns) =
     (if get_tool reg n = None then Inl (AuthValidation (''Tool '' @ quoted n @ '' is not available in the tool registry.''))
      else if (case w of None \<Rightarrow> False | Some w \<Rightarrow> \<not> is_tool_enabled reg repo w n s)
      then Inl (AuthValidation (''Tool '' @ quoted n @ '' is disabled in this workspace.''))
      else (case validate_tool_names reg repo w s ns of Inl e \<Rightarrow> Inl e | Inr vs \<Rightarrow> Inr (n # vs)))"

definition validate_prompt_ref :: "('p prompt_repository \<times> 'p) option \<Rightarrow> string \<Rightarrow> string option \<Rightarrow> auth_error + unit" where
  "validate_prompt_ref prompts ref w =
     (if ref = [] then Inr ()
      else case prompts of
        None \<Rightarrow> Inr ()
      | Some (prepo, ps) \<Rightarrow>
          (case split_prompt_ref ref of
             (name, pinned) \<Rightarrow>
               (if (case pinned of None \<Rightarrow> render prepo ref [] [] w ps | Some v \<Rightarrow> render_version prepo name v [] [] w ps) = []
                then Inl (AuthValidation (''Prompt template '' @ quoted ref @ '' not found in the registry.'')) else Inr ())))"

definition create_agent ::
  "('p prompt_repository \<times> 'p) option \<Rightarrow> ('b billing_ops \<times> 'b) option \<Rightarrow> tool_registry \<Rightarrow> 's agent_repository \<Rightarrow> string \<Rightarrow> int \<Rightarrow>
     string \<Rightarrow> string \<Rightarrow> string \<Rightarrow> string \<Rightarrow> string list \<Rightarrow> string \<Rightarrow> int \<Rightarrow> string option \<Rightarrow> 's \<Rightarrow> (auth_error + agent_record \<times> string list) \<times> 's" where
  "create_agent prompts entitlement reg repo uuid now w name model prompt_ref tool_names temperature max_steps created_by s =
     (let n = strip_chars is_space name; ref = strip_chars is_space prompt_ref
      in if n = [] then (Inl (AuthValidation ''Agent name is required.''), s)
         else if strip_chars is_space model = [] then (Inl (AuthValidation ''Model is required.''), s)
         else
           (case validate_prompt_ref prompts ref (Some w) of
              Inl e \<Rightarrow> (Inl e, s)
            | Inr _ \<Rightarrow>
                (case (case entitlement of None \<Rightarrow> Inr () | Some (ops, bs) \<Rightarrow> require_limit ops bs w ''agent'' (int (length (ad_list repo w s)))) of
                   Inl e \<Rightarrow> (Inl (PlanError e), s)
                 | Inr _ \<Rightarrow>
                     (case ad_create repo \<lparr>ag_id = uuid, ag_workspace = w, ag_name = n, ag_model = model, ag_prompt_ref = ref,
                             ag_temperature = temperature, ag_max_steps = max_steps, ag_enabled = True, ag_created_by = created_by,
                             ag_created_at = Some now\<rparr> s of
                        (Inl e, s1) \<Rightarrow> (Inl e, s1)
                      | (Inr saved, s1) \<Rightarrow>
                          if tool_names = [] then (Inr (saved, []), s1)
                          else
                            (case validate_tool_names reg repo (Some w) s1 tool_names of
                               Inl e \<Rightarrow> (Inl e, s1)
                             | Inr bound \<Rightarrow>
                                 (case ad_set_tools repo uuid bound s1 of
                                    (Inl e, s2) \<Rightarrow> (Inl e, s2)
                                  | (Inr _, s2) \<Rightarrow> (Inr (saved, bound), s2)))))))"

definition in_workspace :: "string option \<Rightarrow> agent_record \<Rightarrow> bool" where
  "in_workspace w r \<longleftrightarrow> (case w of None \<Rightarrow> True | Some x \<Rightarrow> ag_workspace r = x)"

definition get_agent :: "'s agent_repository \<Rightarrow> string \<Rightarrow> string option \<Rightarrow> 's \<Rightarrow> agent_record option" where
  "get_agent repo i w s =
     (case ad_find repo i s of None \<Rightarrow> None | Some r \<Rightarrow> if \<not> in_workspace w r then None else Some r)"

record agent_changes =
  ch_name :: "string option"
  ch_model :: "string option"
  ch_prompt_ref :: "string option"
  ch_tool_names :: "string list option"
  ch_temperature :: "string option"
  ch_max_steps :: "int option"
  ch_enabled :: "bool option"

definition or_keep :: "'a option \<Rightarrow> 'a \<Rightarrow> 'a" where "or_keep x y = (case x of None \<Rightarrow> y | Some v \<Rightarrow> v)"

text \<open>The assignments before and after the check of the prompt reference.\<close>

definition assign_texts :: "agent_changes \<Rightarrow> agent_record \<Rightarrow> agent_record" where
  "assign_texts ch r =
     r\<lparr>ag_name := or_keep (map_option (strip_chars is_space) (ch_name ch)) (ag_name r),
       ag_model := or_keep (map_option (strip_chars is_space) (ch_model ch)) (ag_model r),
       ag_prompt_ref := or_keep (map_option (strip_chars is_space) (ch_prompt_ref ch)) (ag_prompt_ref r)\<rparr>"

definition assign_numbers :: "agent_changes \<Rightarrow> agent_record \<Rightarrow> agent_record" where
  "assign_numbers ch r =
     r\<lparr>ag_temperature := or_keep (ch_temperature ch) (ag_temperature r), ag_max_steps := or_keep (ch_max_steps ch) (ag_max_steps r),
       ag_enabled := or_keep (ch_enabled ch) (ag_enabled r)\<rparr>"

definition update_agent ::
  "('p prompt_repository \<times> 'p) option \<Rightarrow> tool_registry \<Rightarrow> 's agent_repository \<Rightarrow> string \<Rightarrow> string option \<Rightarrow> agent_changes \<Rightarrow> 's \<Rightarrow>
     (auth_error + agent_record option) \<times> 's" where
  "update_agent prompts reg repo i w ch s =
     (case ad_find repo i s of
        None \<Rightarrow> (Inr None, s)
      | Some existing \<Rightarrow>
          (if \<not> in_workspace w existing then (Inr None, s)
           else
             (let r1 = assign_texts ch existing
              in case (if ch_prompt_ref ch = None then Inr () else validate_prompt_ref prompts (ag_prompt_ref r1) w) of
                   Inl e \<Rightarrow> (Inl e, ad_assign repo r1 s)
                 | Inr _ \<Rightarrow>
                     (let r2 = assign_numbers ch r1
                      in case ad_update repo r2 (ad_assign repo r2 s) of
                           (result, s1) \<Rightarrow>
                             (case ch_tool_names ch of
                                None \<Rightarrow> (Inr result, s1)
                              | Some names \<Rightarrow>
                                  (case validate_tool_names reg repo w s1 names of
                                     Inl e \<Rightarrow> (Inl e, s1)
                                   | Inr bound \<Rightarrow>
                                       (case ad_set_tools repo i bound s1 of
                                          (Inl e, s2) \<Rightarrow> (Inl e, s2)
                                        | (Inr _, s2) \<Rightarrow> (Inr result, s2))))))))"

definition delete_agent :: "'s agent_repository \<Rightarrow> string \<Rightarrow> string option \<Rightarrow> 's \<Rightarrow> bool \<times> 's" where
  "delete_agent repo i w s =
     (case ad_find repo i s of
        None \<Rightarrow> (False, s)
      | Some r \<Rightarrow> if \<not> in_workspace w r then (False, s) else ad_delete repo i s)"

definition get_agent_tools :: "'s agent_repository \<Rightarrow> string \<Rightarrow> 's \<Rightarrow> string list" where
  "get_agent_tools repo a s = map at_tool (ad_get_tools repo a s)"

definition seed_tool :: "'s agent_repository \<Rightarrow> string \<Rightarrow> string \<Rightarrow> pyval \<Rightarrow> bool \<Rightarrow> string \<Rightarrow> 's \<Rightarrow> tool_record \<times> 's" where
  "seed_tool repo name description schema enabled owner s =
     ad_seed_tool repo \<lparr>tr_name = name, tr_description = description, tr_parameters_schema = schema, tr_enabled_by_default = enabled, tr_owner = owner\<rparr> s"

definition set_tool_enabled ::
  "tool_registry \<Rightarrow> 's agent_repository \<Rightarrow> string \<Rightarrow> string \<Rightarrow> bool \<Rightarrow> 's \<Rightarrow> (auth_error + workspace_tool_record) \<times> 's" where
  "set_tool_enabled reg repo w n e s =
     (if get_tool reg n = None then (Inl (AuthValidation (''Tool '' @ quoted n @ '' is not available in the tool registry.'')), s)
      else ad_set_workspace_tool repo w n e s)"

record tool_state =
  ts_record :: tool_record
  ts_enabled :: bool

definition list_tools_with_state :: "tool_registry \<Rightarrow> 's agent_repository \<Rightarrow> string option \<Rightarrow> 's \<Rightarrow> tool_state list" where
  "list_tools_with_state reg repo w s =
     (let records = ad_list_tools repo s;
          overrides = (case w of None \<Rightarrow> []
                       | Some x \<Rightarrow> fold (\<lambda>t. dset (wt_tool t) (wt_enabled t)) (ad_list_workspace_tools repo x s) []);
          defaults = fold (\<lambda>r. dset (tr_name r) (tr_enabled_by_default r)) records []
      in if records = []
         then map (\<lambda>t. \<lparr>ts_record = \<lparr>tr_name = tl_name t, tr_description = tl_description t, tr_parameters_schema = tl_input_schema t,
                          tr_enabled_by_default = True, tr_owner = ''builtin''\<rparr>, ts_enabled = True\<rparr>) (list_tools reg)
         else map (\<lambda>r. \<lparr>ts_record = r,
                         ts_enabled = (case dget overrides (tr_name r) of Some e \<Rightarrow> e
                                       | None \<Rightarrow> (case dget defaults (tr_name r) of Some e \<Rightarrow> e | None \<Rightarrow> True))\<rparr>) records)"

end
