(* ===== verification/AgentConfigRuns.thy ===== *)
theory AgentConfigRuns
  imports AgentConfig
begin

text \<open>
  What the agent definitions keep: the ceiling of agents per workspace, through a locale that both repositories
  interpret, and the state of the tool center over PostgreSQL. The in-memory overrides do not have the second
  property: the last section shows what they do instead.
\<close>

section \<open>Runs of the service\<close>

inductive ac_step ::
  "('p prompt_repository \<times> 'p) option \<Rightarrow> ('b billing_ops \<times> 'b) option \<Rightarrow> tool_registry \<Rightarrow> 's agent_repository \<Rightarrow> 's \<Rightarrow> 's \<Rightarrow> bool"
  for prompts entitlement reg repo where
  create: "create_agent prompts entitlement reg repo uuid now w name model ref tools temp steps cr s = (x, s') \<Longrightarrow> ac_step prompts entitlement reg repo s s'"
| update: "update_agent prompts reg repo i ow ch s = (y, s') \<Longrightarrow> ac_step prompts entitlement reg repo s s'"
| delete: "delete_agent repo i ow s = (b, s') \<Longrightarrow> ac_step prompts entitlement reg repo s s'"
| seed: "seed_tool repo name descr schema e ow s = (t, s') \<Longrightarrow> ac_step prompts entitlement reg repo s s'"
| enable: "set_tool_enabled reg repo w n e s = (r, s') \<Longrightarrow> ac_step prompts entitlement reg repo s s'"

inductive ac_reach ::
  "('p prompt_repository \<times> 'p) option \<Rightarrow> ('b billing_ops \<times> 'b) option \<Rightarrow> tool_registry \<Rightarrow> 's agent_repository \<Rightarrow> 's \<Rightarrow> 's \<Rightarrow> bool"
  for prompts entitlement reg repo init where
  start: "ac_reach prompts entitlement reg repo init init"
| step: "ac_reach prompts entitlement reg repo init s \<Longrightarrow> ac_step prompts entitlement reg repo s s' \<Longrightarrow> ac_reach prompts entitlement reg repo init s'"

section \<open>The agent ceiling\<close>

lemma assigned_keys [simp]:
  "ag_id (assign_texts ch r) = ag_id r" "ag_workspace (assign_texts ch r) = ag_workspace r"
  "ag_id (assign_numbers ch r) = ag_id r" "ag_workspace (assign_numbers ch r) = ag_workspace r"
  by (simp_all add: assign_texts_def assign_numbers_def)

text \<open>The states an update can end in: unchanged, after a failed check, after the update, after the tools.\<close>

lemma update_agent_states:
  assumes "update_agent prompts reg repo i ow ch s = (y, s')"
  obtains "s' = s"
  | a r where "ad_find repo i s = Some a" "ag_id r = ag_id a" "ag_workspace r = ag_workspace a" "s' = ad_assign repo r s"
  | a r x s1 where "ad_find repo i s = Some a" "ag_id r = ag_id a" "ag_workspace r = ag_workspace a"
      "ad_update repo r (ad_assign repo r s) = (x, s1)" "s' = s1"
  | a r x s1 ns z where "ad_find repo i s = Some a" "ag_id r = ag_id a" "ag_workspace r = ag_workspace a"
      "ad_update repo r (ad_assign repo r s) = (x, s1)" "ad_set_tools repo i ns s1 = (z, s')"
proof (cases "ad_find repo i s")
  case None
  with assms that(1) show ?thesis by (simp add: update_agent_def)
next
  case (Some a)
  let ?r1 = "assign_texts ch a"
  let ?r2 = "assign_numbers ch ?r1"
  obtain x s1 where up: "ad_update repo ?r2 (ad_assign repo ?r2 s) = (x, s1)" by fastforce
  consider "s' = s" | "s' = ad_assign repo ?r1 s" | "s' = s1" | ns z where "ad_set_tools repo i ns s1 = (z, s')"
    using assms Some up
    by (auto simp: update_agent_def Let_def split: if_splits sum.splits prod.splits option.splits)
  then show ?thesis
    by cases (use that(1) that(2) [OF Some, of ?r1] that(3) [OF Some _ _ up] that(4) [OF Some _ _ up] in simp_all)
qed

lemma create_agent_states:
  assumes "create_agent prompts entitlement reg repo uuid now w name model ref tools temp steps cr s = (x, s')"
  obtains "s' = s"
  | r a s1 where "ag_workspace r = w" "ad_create repo r s = (a, s1)"
      "case entitlement of None \<Rightarrow> True | Some (ops, bs) \<Rightarrow> require_limit ops bs w ''agent'' (int (length (ad_list repo w s))) = Inr ()" "s' = s1"
  | r a s1 ns z where "ag_workspace r = w" "ad_create repo r s = (a, s1)"
      "case entitlement of None \<Rightarrow> True | Some (ops, bs) \<Rightarrow> require_limit ops bs w ''agent'' (int (length (ad_list repo w s))) = Inr ()"
      "ad_set_tools repo uuid ns s1 = (z, s')"
proof -
  let ?r = "\<lparr>ag_id = uuid, ag_workspace = w, ag_name = strip_chars is_space name, ag_model = model, ag_prompt_ref = strip_chars is_space ref,
    ag_temperature = temp, ag_max_steps = steps, ag_enabled = True, ag_created_by = cr, ag_created_at = Some now\<rparr>"
  let ?limit = "case entitlement of None \<Rightarrow> True | Some (ops, bs) \<Rightarrow> require_limit ops bs w ''agent'' (int (length (ad_list repo w s))) = Inr ()"
  obtain a s1 where made: "ad_create repo ?r s = (a, s1)" by fastforce
  have "?limit \<longleftrightarrow> (case entitlement of None \<Rightarrow> Inr () | Some (ops, bs) \<Rightarrow> require_limit ops bs w ''agent'' (int (length (ad_list repo w s)))) = Inr ()"
    by (simp split: option.split prod.split)
  then consider "s' = s" | "?limit" "s' = s1" | ns z where "?limit" "ad_set_tools repo uuid ns s1 = (z, s')"
    using assms made
    by (simp add: create_agent_def Let_def split: if_splits sum.splits prod.splits)
  then show ?thesis
    by cases (use that(1) that(2) [OF _ made] that(3) [OF _ made] in simp_all)
qed

locale agent_store =
  fixes repo :: "'s agent_repository" and inv :: "'s \<Rightarrow> bool"
  assumes create_law: "inv s \<Longrightarrow> ad_create repo r s = (x, s') \<Longrightarrow>
      inv s' \<and> length (ad_list repo w s') \<le> length (ad_list repo w s) + (if w = ag_workspace r then 1 else 0)"
    and find_law: "inv s \<Longrightarrow> ad_find repo i s = Some a \<Longrightarrow> ag_id a = i"
    and assign_law: "inv s \<Longrightarrow> ad_find repo (ag_id r) s = Some a \<Longrightarrow> ag_workspace r = ag_workspace a \<Longrightarrow>
      inv (ad_assign repo r s) \<and> length (ad_list repo w (ad_assign repo r s)) = length (ad_list repo w s) \<and>
      (\<exists>c. ad_find repo (ag_id r) (ad_assign repo r s) = Some c \<and> ag_workspace c = ag_workspace r)"
    and update_law: "inv s \<Longrightarrow> ad_find repo (ag_id r) s = Some a \<Longrightarrow> ag_workspace r = ag_workspace a \<Longrightarrow> ad_update repo r s = (y, s') \<Longrightarrow>
      inv s' \<and> length (ad_list repo w s') = length (ad_list repo w s)"
    and delete_law: "inv s \<Longrightarrow> ad_delete repo i s = (b, s') \<Longrightarrow> inv s' \<and> length (ad_list repo w s') \<le> length (ad_list repo w s)"
    and tools_law: "inv s \<Longrightarrow> ad_set_tools repo i ns s = (z, s') \<Longrightarrow> inv s' \<and> ad_list repo w s' = ad_list repo w s"
    and seed_law: "inv s \<Longrightarrow> ad_seed_tool repo t s = (t', s') \<Longrightarrow> inv s' \<and> ad_list repo w s' = ad_list repo w s"
    and enable_law: "inv s \<Longrightarrow> ad_set_workspace_tool repo v n e s = (o', s') \<Longrightarrow> inv s' \<and> ad_list repo w s' = ad_list repo w s"
begin

lemma found_assign:
  assumes "inv s" and "ad_find repo i s = Some a" and "ag_id r = ag_id a" and "ag_workspace r = ag_workspace a"
  shows "inv (ad_assign repo r s)" and "length (ad_list repo w (ad_assign repo r s)) = length (ad_list repo w s)"
    and "\<exists>c. ad_find repo (ag_id r) (ad_assign repo r s) = Some c \<and> ag_workspace c = ag_workspace r"
proof -
  have "ad_find repo (ag_id r) s = Some a" using find_law [OF assms(1,2)] assms(2,3) by simp
  note law = assign_law [OF assms(1) this assms(4), of w]
  show "inv (ad_assign repo r s)" "length (ad_list repo w (ad_assign repo r s)) = length (ad_list repo w s)"
    "\<exists>c. ad_find repo (ag_id r) (ad_assign repo r s) = Some c \<and> ag_workspace c = ag_workspace r"
    using law by simp_all
qed

lemma found_update:
  assumes "inv s" and "ad_find repo i s = Some a" and "ag_id r = ag_id a" and "ag_workspace r = ag_workspace a"
    and "ad_update repo r (ad_assign repo r s) = (y, s1)"
  shows "inv s1 \<and> length (ad_list repo w s1) = length (ad_list repo w s)"
proof -
  note assigned = found_assign [OF assms(1-4)]
  obtain c where c: "ad_find repo (ag_id r) (ad_assign repo r s) = Some c" "ag_workspace c = ag_workspace r" using assigned(3) by blast
  show ?thesis using update_law [OF assigned(1) c(1) c(2) [symmetric] assms(5), of w] assigned(2) by simp
qed

lemma update_agent_keeps:
  assumes inv: "inv s" and run: "update_agent prompts reg repo i ow ch s = (y, s')"
  shows "inv s' \<and> length (ad_list repo w s') = length (ad_list repo w s)"
proof (rule update_agent_states [OF run])
  show ?thesis if "s' = s" using inv that by simp
  show ?thesis if "ad_find repo i s = Some a" "ag_id r = ag_id a" "ag_workspace r = ag_workspace a" "s' = ad_assign repo r s" for a r
    using found_assign [OF inv that(1-3)] that(4) by simp
  show ?thesis if "ad_find repo i s = Some a" "ag_id r = ag_id a" "ag_workspace r = ag_workspace a"
      "ad_update repo r (ad_assign repo r s) = (x, s1)" "s' = s1" for a r x s1
    using found_update [OF inv that(1-4)] that(5) by simp
  show ?thesis if "ad_find repo i s = Some a" "ag_id r = ag_id a" "ag_workspace r = ag_workspace a"
      "ad_update repo r (ad_assign repo r s) = (x, s1)" "ad_set_tools repo i ns s1 = (z, s')" for a r x s1 ns z
    using found_update [OF inv that(1-4), of w] tools_law [OF _ that(5), of w] by simp
qed

lemma create_agent_keeps:
  assumes inv: "inv s" and run: "create_agent prompts entitlement reg repo uuid now w name model ref tools temp steps cr s = (x, s')"
  shows "inv s' \<and> (length (ad_list repo v s') \<le> length (ad_list repo v s) \<or>
    length (ad_list repo v s') \<le> length (ad_list repo v s) + 1 \<and>
    (case entitlement of None \<Rightarrow> True | Some (ops, bs) \<Rightarrow> require_limit ops bs v ''agent'' (int (length (ad_list repo v s))) = Inr ()))"
proof (rule create_agent_states [OF run])
  show ?thesis if "s' = s" using inv that by simp
  fix r a s1
  assume created: "ag_workspace r = w" "ad_create repo r s = (a, s1)"
    and limit: "case entitlement of None \<Rightarrow> True | Some (ops, bs) \<Rightarrow> require_limit ops bs w ''agent'' (int (length (ad_list repo w s))) = Inr ()"
  have s1: "inv s1 \<and> length (ad_list repo v s1) \<le> length (ad_list repo v s) + (if v = w then 1 else 0)"
    using create_law [OF inv created(2), of v] created(1) by simp
  have lim: "case entitlement of None \<Rightarrow> True | Some (ops, bs) \<Rightarrow> require_limit ops bs v ''agent'' (int (length (ad_list repo v s))) = Inr ()"
    if "v = w" using limit unfolding that .
  show ?thesis if "s' = s1" using s1 lim that by (cases "v = w") simp_all
  show ?thesis if "ad_set_tools repo uuid ns s1 = (z, s')" for ns z
    using tools_law [OF _ that, of v] s1 lim by (cases "v = w") simp_all
qed

lemma ac_step_keeps:
  assumes step: "ac_step prompts entitlement reg repo s s'" and inv: "inv s"
  shows "inv s' \<and> (length (ad_list repo w s') \<le> length (ad_list repo w s) \<or>
    length (ad_list repo w s') \<le> length (ad_list repo w s) + 1 \<and>
    (case entitlement of None \<Rightarrow> True | Some (ops, bs) \<Rightarrow> require_limit ops bs w ''agent'' (int (length (ad_list repo w s))) = Inr ()))"
  using step
proof cases
  case (create uuid now v name model ref tools temp steps cr x)
  from create_agent_keeps [OF inv this, of w] show ?thesis .
next
  case (update i ow ch y)
  from update_agent_keeps [OF inv this, of w] show ?thesis by simp
next
  case (delete i ow b)
  then show ?thesis using inv delete_law [OF inv, of i b s' w] by (simp add: delete_agent_def split: option.splits if_splits)
next
  case (seed name descr schema e ow t)
  then show ?thesis using seed_law [OF inv, of _ t s' w] by (simp add: seed_tool_def)
next
  case (enable v n e r)
  then show ?thesis using inv enable_law [OF inv, of v n e r s' w] by (simp add: set_tool_enabled_def split: if_splits)
qed

lemma ac_reach_inv: "ac_reach prompts entitlement reg repo init s \<Longrightarrow> inv init \<Longrightarrow> inv s"
  by (induction rule: ac_reach.induct) (simp_all add: ac_step_keeps)

lemma agent_limit:
  assumes "ac_reach prompts (Some (ops, bs)) reg repo init s" and "inv init" and "ad_list repo w init = []"
    and plan: "plan_for_workspace ops bs w = Some p" "limit_for p ''agent'' = Inr (Some l)"
  shows "int (length (ad_list repo w s)) \<le> max 0 l"
  using assms(1)
proof induction
  case start
  then show ?case by (simp add: assms(3))
next
  case (step s s')
  have "require_limit ops bs w ''agent'' n = Inr () \<longleftrightarrow> n < l" for n using plan by (simp add: require_limit_def)
  with ac_step_keeps [OF step.hyps(2) ac_reach_inv [OF step.hyps(1) assms(2)], of w]
  have "length (ad_list repo w s') \<le> length (ad_list repo w s) \<or>
    length (ad_list repo w s') \<le> length (ad_list repo w s) + 1 \<and> int (length (ad_list repo w s)) < l" by (simp only: option.case prod.case)
  then show ?case using step.IH by linarith
qed

end

section \<open>Both repositories\<close>

lemma length_filter_dset:
  "length (filter (p \<circ> snd) (dset k v d)) \<le> length (filter (p \<circ> snd) d) + (if p v then 1 else 0)"
  by (induction d) auto

lemma length_filter_dset_same:
  "dget d k = Some v0 \<Longrightarrow> p v0 = p v \<Longrightarrow> length (filter (p \<circ> snd) (dset k v d)) = length (filter (p \<circ> snd) d)"
  by (induction d) (auto split: if_splits)

lemma length_filter_ddel: "length (filter (p \<circ> snd) (ddel k d)) \<le> length (filter (p \<circ> snd) d)"
  by (induction d) auto

lemma length_filter_conj: "length (filter (\<lambda>x. q x \<and> p x) xs) \<le> length (filter p xs)"
  by (induction xs) auto

definition keys_agree :: "agent_memory \<Rightarrow> bool" where
  "keys_agree s \<longleftrightarrow> (\<forall>k a. dget (am_agents s) k = Some a \<longrightarrow> ag_id a = k)"

interpretation mem_agents: agent_store memory_agents keys_agree
  by unfold_locales
    (auto simp: memory_agents_def keys_agree_def ma_create_def ma_find_def ma_assign_def ma_list_def ma_update_def ma_delete_def ma_set_tools_def
      ma_seed_tool_def ma_set_workspace_tool_def Let_def length_filter_ddel length_filter_dset_same filter_map split: option.splits if_splits
      intro: order.trans [OF length_filter_dset])

text \<open>The keys and unique constraints of the tables.\<close>

definition tables_ok :: "agent_db \<Rightarrow> bool" where
  "tables_ok s \<longleftrightarrow> distinct (map ag_id (adb_agents s)) \<and> distinct (map tr_name (adb_tools s)) \<and>
     distinct (map (\<lambda>t. (wt_workspace t, wt_tool t)) (adb_workspace_tools s)) \<and>
     (\<forall>t \<in> set (adb_agent_tools s). at_agent t \<in> ag_id ` set (adb_agents s))"

lemma not_found_pair: "find (\<lambda>t. f t = a \<and> g t = b) ts = None \<Longrightarrow> (a, b) \<notin> (\<lambda>t. (f t, g t)) ` set ts"
  by (induction ts) (auto split: if_splits)

lemma update_first_keys: "\<forall>x. p x \<longrightarrow> f (g x) = f x \<Longrightarrow> map f (snd (update_first p g xs)) = map f xs"
  by (induction xs) (auto split: prod.splits)

lemma update_first_image: "\<forall>x. p x \<longrightarrow> f (g x) = f x \<Longrightarrow> f ` set (snd (update_first p g xs)) = f ` set xs"
  using update_first_keys [of p f g xs, THEN arg_cong, of set] by simp

lemma length_filter_update_first: "\<forall>x. p x \<longrightarrow> q (g x) = q x \<Longrightarrow> length (filter q (snd (update_first p g xs))) = length (filter q xs)"
  by (induction xs) (auto split: prod.splits)

lemma number_tools_agent: "t \<in> set (number_tools a k ns) \<Longrightarrow> at_agent t = a"
  by (induction ns arbitrary: k) auto

lemma number_tools_names: "map at_tool (number_tools a k ns) = ns"
  by (induction ns arbitrary: k) auto

interpretation pg_agents: agent_store postgres_agents tables_ok
proof unfold_locales
  fix s r x s' w
  assume "tables_ok s" "ad_create postgres_agents r s = (x, s')"
  then show "tables_ok s' \<and> length (ad_list postgres_agents w s') \<le> length (ad_list postgres_agents w s) + (if w = ag_workspace r then 1 else 0)"
    by (auto simp: postgres_agents_def pga_create_def pga_list_def tables_ok_def Let_def split: if_splits)
next
  fix s r a y s' w
  assume "tables_ok s" "ad_update postgres_agents r s = (y, s')"
  then show "tables_ok s' \<and> length (ad_list postgres_agents w s') = length (ad_list postgres_agents w s)"
    by (auto simp: postgres_agents_def pga_update_def pga_list_def tables_ok_def Let_def update_first_keys update_first_image length_filter_update_first split: option.splits)
next
  fix s v n e o' s' w
  assume "tables_ok s" "ad_set_workspace_tool postgres_agents v n e s = (o', s')"
  then show "tables_ok s' \<and> ad_list postgres_agents w s' = ad_list postgres_agents w s"
    by (cases "find (\<lambda>t. wt_workspace t = v \<and> wt_tool t = n) (adb_workspace_tools s)")
      (auto simp: postgres_agents_def pga_set_workspace_tool_def pga_list_def tables_ok_def update_first_keys split: if_splits
        dest: not_found_pair)
qed (auto simp: postgres_agents_def pga_find_def pga_list_def pga_delete_def pga_set_tools_def pga_seed_tool_def tables_ok_def find_Some_iff find_None_iff
    distinct_map_filter length_filter_conj dest: number_tools_agent split: option.splits if_splits)

section \<open>The tool center over PostgreSQL\<close>

lemma find_update_first_same: "\<forall>x. p (g x) = p x \<Longrightarrow> find p (snd (update_first p g xs)) = map_option g (find p xs)"
  by (induction xs) (auto simp: case_prod_unfold)

lemma find_update_first_other: "\<forall>x. q (g x) = q x \<Longrightarrow> \<forall>x. p x \<longrightarrow> \<not> q x \<Longrightarrow> find q (snd (update_first p g xs)) = find q xs"
  by (induction xs) (auto simp: case_prod_unfold)

lemma dget_fold_dset:
  "distinct (map f ts) \<Longrightarrow> dget (fold (\<lambda>t. dset (f t) (h t)) ts d) k = (case find (\<lambda>t. f t = k) ts of Some t \<Rightarrow> Some (h t) | None \<Rightarrow> dget d k)"
proof (induction ts arbitrary: d)
  case (Cons t ts)
  moreover have "find (\<lambda>x. f x = f t) ts = None" using Cons.prems by (auto simp: find_None_iff image_iff)
  ultimately show ?case by (auto split: option.splits)
qed simp

lemma override_after:
  assumes "pga_set_workspace_tool w n e s = (Inr r, s')"
  shows "map_option wt_enabled (pga_get_workspace_tool v m s') = (if (v, m) = (w, n) then Some e else map_option wt_enabled (pga_get_workspace_tool v m s))"
    and "adb_tools s' = adb_tools s"
proof -
  show "adb_tools s' = adb_tools s"
    using assms by (auto simp: pga_set_workspace_tool_def split: option.splits if_splits)
  show "map_option wt_enabled (pga_get_workspace_tool v m s') = (if (v, m) = (w, n) then Some e else map_option wt_enabled (pga_get_workspace_tool v m s))"
  proof (cases "find (\<lambda>t. wt_workspace t = w \<and> wt_tool t = n) (adb_workspace_tools s)")
    case None
    with assms show ?thesis
      by (auto simp: pga_set_workspace_tool_def pga_get_workspace_tool_def find_snoc split: if_splits option.splits)
  next
    case (Some t)
    have "find (\<lambda>t. wt_workspace t = v \<and> wt_tool t = m)
        (snd (update_first (\<lambda>t. wt_workspace t = w \<and> wt_tool t = n) (\<lambda>t. t\<lparr>wt_enabled := e\<rparr>) (adb_workspace_tools s))) =
        find (\<lambda>t. wt_workspace t = v \<and> wt_tool t = m) (adb_workspace_tools s)" if "(v, m) \<noteq> (w, n)"
      using that by (intro find_update_first_other) auto
    moreover have "find (\<lambda>t. wt_workspace t = w \<and> wt_tool t = n)
        (snd (update_first (\<lambda>t. wt_workspace t = w \<and> wt_tool t = n) (\<lambda>t. t\<lparr>wt_enabled := e\<rparr>) (adb_workspace_tools s))) = Some (t\<lparr>wt_enabled := e\<rparr>)"
      using Some by (simp add: find_update_first_same)
    moreover have "adb_workspace_tools s' =
        snd (update_first (\<lambda>t. wt_workspace t = w \<and> wt_tool t = n) (\<lambda>t. t\<lparr>wt_enabled := e\<rparr>) (adb_workspace_tools s))"
      using assms Some by (auto simp: pga_set_workspace_tool_def)
    ultimately show ?thesis by (simp add: pga_get_workspace_tool_def)
  qed
qed

lemma enabled_by_options:
  "is_tool_enabled reg repo w n s =
     (case map_option wt_enabled (ad_get_workspace_tool repo w n s) of
        Some e \<Rightarrow> e
      | None \<Rightarrow> if get_tool reg n = None then False
                else (case find (\<lambda>r. tr_name r = n) (ad_list_tools repo s) of Some r \<Rightarrow> tr_enabled_by_default r | None \<Rightarrow> True))"
  by (simp add: is_tool_enabled_def split: option.split)

lemma find_filter: "find p (filter q xs) = find (\<lambda>x. q x \<and> p x) xs"
  by (induction xs) auto

lemma listing_agrees:
  assumes ok: "tables_ok s" and t: "t \<in> set (list_tools_with_state reg postgres_agents (Some w) s)"
    and "adb_tools s \<noteq> []" and reg: "get_tool reg (tr_name (ts_record t)) \<noteq> None"
  shows "ts_enabled t = is_tool_enabled reg postgres_agents w (tr_name (ts_record t)) s"
proof -
  let ?n = "tr_name (ts_record t)"
  let ?own = "filter (\<lambda>t. wt_workspace t = w) (adb_workspace_tools s)"
  have "distinct (map (\<lambda>t. (wt_workspace t, wt_tool t)) ?own)" using ok by (simp add: tables_ok_def distinct_map_filter)
  then have own: "distinct (map wt_tool ?own)" by (auto simp: distinct_map inj_on_def)
  have "distinct (map tr_name (adb_tools s))" using ok by (simp add: tables_ok_def)
  note dgets = dget_fold_dset [OF own, of wt_enabled "[]"] dget_fold_dset [OF this, of tr_enabled_by_default "[]"]
  define flag where "flag n = (case dget (fold (\<lambda>t. dset (wt_tool t) (wt_enabled t)) ?own []) n of Some e \<Rightarrow> e
      | None \<Rightarrow> (case dget (fold (\<lambda>r. dset (tr_name r) (tr_enabled_by_default r)) (adb_tools s) []) n of Some e \<Rightarrow> e | None \<Rightarrow> True))" for n
  from t assms(3) have "t \<in> (\<lambda>r. \<lparr>ts_record = r, ts_enabled = flag (tr_name r)\<rparr>) ` set (adb_tools s)"
    by (simp add: list_tools_with_state_def postgres_agents_def pga_list_tools_def pga_list_workspace_tools_def Let_def flag_def)
  then have "ts_enabled t = flag ?n" by (elim imageE) simp
  then show ?thesis using reg unfolding flag_def dgets
    by (auto simp: is_tool_enabled_def postgres_agents_def pga_get_workspace_tool_def pga_list_tools_def find_filter split: option.splits)
qed

text \<open>The tables before the first call: only workspaces and users.\<close>

definition empty_agent_db :: "string list \<Rightarrow> string list \<Rightarrow> agent_db" where
  "empty_agent_db ws us = \<lparr>adb_workspaces = ws, adb_users = us, adb_agents = [], adb_agent_tools = [], adb_tools = [], adb_workspace_tools = [],
     adb_last_id = 0, adb_clock = 0\<rparr>"

lemma empty_agent_db_ok [simp]: "tables_ok (empty_agent_db ws us)" "ad_list postgres_agents w (empty_agent_db ws us) = []"
  by (simp_all add: tables_ok_def empty_agent_db_def postgres_agents_def pga_list_def)

lemma validate_tool_names_Inr:
  "validate_tool_names reg repo w s ns = Inr bound \<Longrightarrow>
     bound = ns \<and> (\<forall>n \<in> set ns. get_tool reg n \<noteq> None \<and> (\<forall>v. w = Some v \<longrightarrow> is_tool_enabled reg repo v n s))"
  by (induction ns arbitrary: bound) (auto split: if_splits sum.splits option.splits)

lemma set_tools_get:
  assumes "pga_set_tools a ns s = (Inr rs, s')"
  shows "map at_tool (pga_get_tools a s') = ns" and "adb_agents s' = adb_agents s"
    and "adb_tools s' = adb_tools s" and "adb_workspace_tools s' = adb_workspace_tools s"
proof -
  have "filter (\<lambda>t. at_agent t = a) (number_tools a k ns) = number_tools a k ns" for k
    by (simp add: filter_id_conv number_tools_agent)
  then show "map at_tool (pga_get_tools a s') = ns"
    using assms by (auto simp: pga_set_tools_def pga_get_tools_def number_tools_names split: if_splits)
qed (use assms in \<open>auto simp: pga_set_tools_def split: if_splits\<close>)

lemma pg_tool_ops: "ad_get_workspace_tool postgres_agents = pga_get_workspace_tool" "ad_list_tools postgres_agents = adb_tools"
  by (simp_all add: postgres_agents_def pga_list_tools_def fun_eq_iff)

lemma is_tool_enabled_pg:
  assumes "adb_tools s' = adb_tools s" and "adb_workspace_tools s' = adb_workspace_tools s"
  shows "is_tool_enabled reg postgres_agents w n s' = is_tool_enabled reg postgres_agents w n s"
  unfolding is_tool_enabled_def pg_tool_ops pga_get_workspace_tool_def assms ..

text \<open>
  With a plan that limits agents, a workspace never has more agents than the limit, whatever definitions are
  created, updated and deleted, and whichever of these calls fail.
\<close>

theorem agent_ceiling_kept:
  assumes "ac_reach prompts (Some (ops, bs)) reg postgres_agents (empty_agent_db ws us) s"
    and "plan_for_workspace ops bs w = Some p" and "limit_for p ''agent'' = Inr (Some l)"
  shows "int (length (ad_list postgres_agents w s)) \<le> max 0 l"
  by (rule pg_agents.agent_limit [OF assms(1) empty_agent_db_ok assms(2,3)])

text \<open>
  C37: with the PostgreSQL repository, overriding a tool for one workspace takes effect there and leaves every other
  workspace and tool as it was; and once tools have been seeded, the listing, which batches its lookups, shows for each
  tool that is also in the registry the flag that the check of a single tool computes. (The in-memory repository loses overrides,
  \<open>memory_override_erased\<close>; a seeded tool that is no longer registered is listed with its default, and refused by the check where no override decides.)
\<close>

theorem tool_center_consistent:
  assumes "ac_reach prompts entitlement reg postgres_agents (empty_agent_db ws us) s"
    and "set_tool_enabled reg postgres_agents w n e s = (Inr r, s')"
  shows "is_tool_enabled reg postgres_agents w n s' = e \<and>
    (\<forall>v m. (v, m) \<noteq> (w, n) \<longrightarrow> is_tool_enabled reg postgres_agents v m s' = is_tool_enabled reg postgres_agents v m s) \<and>
    (\<forall>v. \<forall>t \<in> set (list_tools_with_state reg postgres_agents (Some v) s'). adb_tools s' \<noteq> [] \<and> get_tool reg (tr_name (ts_record t)) \<noteq> None \<longrightarrow>
      ts_enabled t = is_tool_enabled reg postgres_agents v (tr_name (ts_record t)) s')"
proof (intro conjI allI ballI impI)
  have set: "pga_set_workspace_tool w n e s = (Inr r, s')"
    using assms(2) by (simp add: set_tool_enabled_def postgres_agents_def split: if_splits)
  show "is_tool_enabled reg postgres_agents w n s' = e"
    unfolding enabled_by_options pg_tool_ops override_after [OF set] by simp
  show "is_tool_enabled reg postgres_agents v m s' = is_tool_enabled reg postgres_agents v m s" if "(v, m) \<noteq> (w, n)" for v m
  proof -
    have "map_option wt_enabled (pga_get_workspace_tool v m s') = map_option wt_enabled (pga_get_workspace_tool v m s)"
      using override_after(1) [OF set, of v m] unfolding if_not_P [OF that] .
    then show ?thesis unfolding enabled_by_options pg_tool_ops override_after(2) [OF set] by (rule arg_cong)
  qed
  have "tables_ok s'"
    by (rule pg_agents.ac_reach_inv [OF ac_reach.step [OF assms(1) ac_step.enable [OF assms(2)]] empty_agent_db_ok(1)])
  then show "ts_enabled t = is_tool_enabled reg postgres_agents v (tr_name (ts_record t)) s'"
    if "t \<in> set (list_tools_with_state reg postgres_agents (Some v) s')"
      "adb_tools s' \<noteq> [] \<and> get_tool reg (tr_name (ts_record t)) \<noteq> None" for v t
    using listing_agrees that by blast
qed

text \<open>
  C38: An agent that was created can be read back, with its name and references stripped, and is bound to exactly the
  requested tools, each of which is registered and enabled in its workspace.
\<close>

theorem created_agent_bound:
  assumes "ac_reach prompts entitlement reg postgres_agents (empty_agent_db ws us) s"
    and "create_agent prompts entitlement reg postgres_agents uuid now w name model ref tools temp steps cr s = (Inr (a, bound), s')"
  shows "get_agent postgres_agents uuid (Some w) s' = Some a \<and> ag_name a = strip_chars is_space name \<and> ag_name a \<noteq> [] \<and>
    ag_prompt_ref a = strip_chars is_space ref \<and> bound = tools \<and> get_agent_tools postgres_agents uuid s' = tools \<and>
    (\<forall>n \<in> set tools. get_tool reg n \<noteq> None \<and> is_tool_enabled reg postgres_agents w n s')"
proof -
  let ?r = "\<lparr>ag_id = uuid, ag_workspace = w, ag_name = strip_chars is_space name, ag_model = model, ag_prompt_ref = strip_chars is_space ref,
    ag_temperature = temp, ag_max_steps = steps, ag_enabled = True, ag_created_by = cr, ag_created_at = Some now\<rparr>"
  obtain x s1 where made: "pga_create ?r s = (x, s1)" by fastforce
  have ok: "tables_ok s" by (rule pg_agents.ac_reach_inv [OF assms(1) empty_agent_db_ok(1)])
  have name: "strip_chars is_space name \<noteq> []" and xa: "x = Inr a"
    and rest: "if tools = [] then bound = [] \<and> s' = s1
      else \<exists>rs. validate_tool_names reg postgres_agents (Some w) s1 tools = Inr bound \<and> pga_set_tools uuid bound s1 = (Inr rs, s')"
    using assms(2) made
    by (auto simp: create_agent_def Let_def postgres_agents_def split: if_splits sum.splits prod.splits)
  have fresh: "uuid \<notin> ag_id ` set (adb_agents s)" and a: "a = ?r\<lparr>ag_created_at := Some (adb_clock s)\<rparr>"
    and s1: "s1 = s\<lparr>adb_agents := adb_agents s @ [a]\<rparr>"
    using made xa by (auto simp: pga_create_def Let_def split: if_splits)
  have found: "get_agent postgres_agents uuid (Some w) s' = Some a" if "adb_agents s' = adb_agents s @ [a]"
    using fresh that by (auto simp: get_agent_def in_workspace_def postgres_agents_def pga_find_def find_snoc find_None_iff a split: option.splits)
      (auto simp: find_Some_iff)
  have untouched: "pga_get_tools uuid s = []" using ok fresh by (auto simp: tables_ok_def pga_get_tools_def filter_empty_conv)
  show ?thesis
  proof (cases "tools = []")
    case True
    then show ?thesis using rest found s1 untouched name a by (simp add: get_agent_tools_def postgres_agents_def pga_get_tools_def)
  next
    case False
    with rest obtain rs where v: "validate_tool_names reg postgres_agents (Some w) s1 tools = Inr bound"
      and t: "pga_set_tools uuid bound s1 = (Inr rs, s')" by auto
    note valid = validate_tool_names_Inr [OF v] and tools = set_tools_get [OF t]
    from tools(1) have "get_agent_tools postgres_agents uuid s' = bound" by (simp add: get_agent_tools_def postgres_agents_def)
    with valid tools(2-4) found s1 name a show ?thesis by (simp add: is_tool_enabled_pg [OF tools(3,4)])
  qed
qed

section \<open>Instances\<close>

definition demo_reg :: tool_registry where
  "demo_reg = [(''calc'', \<lparr>tl_name = ''calc'', tl_description = ''adds'', tl_input_schema = PDict [], tl_output_schema = None, tl_risk_level = None,
     tl_required_permissions = []\<rparr>)]"

definition no_prompts :: "(prompt_store prompt_repository \<times> prompt_store) option" where "no_prompts = None"

definition agent_billing :: billing_repo where
  "agent_billing = snd (assign_plan memory_billing_ops (new_billing_repo [free_plan]) ''w'' (plan_id free_plan) TRIAL ''s'' 5)"

definition agent_plan :: "(billing_repo billing_ops \<times> billing_repo) option" where "agent_plan = Some (memory_billing_ops, agent_billing)"

definition demo_adb0 :: agent_db where
  "demo_adb0 = snd (seed_tool postgres_agents ''calc'' ''adds'' (PDict []) True ''builtin'' (empty_agent_db [''w'', ''v''] [''u'']))"

definition demo_adb1 :: agent_db where
  "demo_adb1 = snd (create_agent no_prompts agent_plan demo_reg postgres_agents ''a'' 1 ''w'' '' helper '' ''m'' [] [''calc''] ''0.7'' 10 (Some ''u'') demo_adb0)"

lemma demo_adb0_reach: "ac_reach prompts entitlement demo_reg postgres_agents (empty_agent_db [''w'', ''v''] [''u'']) demo_adb0"
  unfolding demo_adb0_def by (rule ac_reach.step [OF ac_reach.start ac_step.seed [OF surjective_pairing]])

lemma demo_adb1_reach: "ac_reach no_prompts agent_plan demo_reg postgres_agents (empty_agent_db [''w'', ''v''] [''u'']) demo_adb1"
  unfolding demo_adb1_def by (rule ac_reach.step [OF demo_adb0_reach ac_step.create [OF surjective_pairing]])

theorem agent_ceiling_kept_witness:
  "length (ad_list postgres_agents ''w'' demo_adb1) = 1 \<and> int (length (ad_list postgres_agents ''w'' demo_adb1)) \<le> max 0 3"
proof -
  have plan: "plan_for_workspace memory_billing_ops agent_billing ''w'' = Some free_plan" by code_simp
  have l: "limit_for free_plan ''agent'' = Inr (Some 3)" by code_simp
  have n: "length (ad_list postgres_agents ''w'' demo_adb1) = 1" by code_simp
  from agent_ceiling_kept [OF demo_adb1_reach [unfolded agent_plan_def] plan l] n show ?thesis by (intro conjI)
qed

theorem tool_center_consistent_witness:
  "is_tool_enabled demo_reg postgres_agents ''w'' ''calc'' demo_adb1 \<and>
   \<not> is_tool_enabled demo_reg postgres_agents ''w'' ''calc'' (snd (set_tool_enabled demo_reg postgres_agents ''w'' ''calc'' False demo_adb1)) \<and>
   is_tool_enabled demo_reg postgres_agents ''v'' ''calc'' (snd (set_tool_enabled demo_reg postgres_agents ''w'' ''calc'' False demo_adb1))"
proof -
  have set: "set_tool_enabled demo_reg postgres_agents ''w'' ''calc'' False demo_adb1 =
      (Inr \<lparr>wt_workspace = ''w'', wt_tool = ''calc'', wt_enabled = False\<rparr>, snd (set_tool_enabled demo_reg postgres_agents ''w'' ''calc'' False demo_adb1))"
    by code_simp
  have on: "is_tool_enabled demo_reg postgres_agents ''w'' ''calc'' demo_adb1" "is_tool_enabled demo_reg postgres_agents ''v'' ''calc'' demo_adb1" by code_simp+
  note t = tool_center_consistent [OF demo_adb1_reach set]
  have "(''v'', ''calc'') \<noteq> (''w'', ''calc'')" by simp
  with t [THEN conjunct2, THEN conjunct1, rule_format, OF this] t [THEN conjunct1] on show ?thesis by simp
qed

theorem created_agent_bound_witness:
  "get_agent_tools postgres_agents ''a'' demo_adb1 = [''calc''] \<and> is_tool_enabled demo_reg postgres_agents ''w'' ''calc'' demo_adb1"
proof -
  let ?c = "create_agent no_prompts agent_plan demo_reg postgres_agents ''a'' 1 ''w'' '' helper '' ''m'' [] [''calc''] ''0.7'' 10 (Some ''u'') demo_adb0"
  have "case ?c of (Inr _, _) \<Rightarrow> True | _ \<Rightarrow> False" by code_simp
  then obtain a bound where "?c = (Inr (a, bound), demo_adb1)" unfolding demo_adb1_def by (auto split: sum.splits prod.splits)
  from created_agent_bound [OF demo_adb0_reach this] show ?thesis by simp
qed

section \<open>What the code does not keep\<close>

text \<open>
  In memory an override of one workspace erases the overrides of the same tool in every other workspace: the
  filter of \<open>set_workspace_tool\<close> compares the tool alone.
\<close>

lemma memory_override_erased:
  assumes "v \<noteq> w" and "get_tool reg n \<noteq> None"
  shows "ad_get_workspace_tool memory_agents v n (snd (set_tool_enabled reg memory_agents w n e s)) = None"
  using assms by (auto simp: memory_agents_def set_tool_enabled_def ma_set_workspace_tool_def ma_get_workspace_tool_def Let_def find_None_iff)

text \<open>A request with an unknown tool is refused after the agent was stored: the caller sees an error and the agent exists.\<close>

lemma refused_agent_exists:
  "(case create_agent no_prompts agent_plan demo_reg postgres_agents ''a'' 1 ''w'' ''x'' ''m'' [] [''nope''] ''0.7'' 10 (Some ''u'') demo_adb0 of
      (Inl (AuthValidation _), s) \<Rightarrow> get_agent postgres_agents ''a'' (Some ''w'') s \<noteq> None | _ \<Rightarrow> False)"
  by code_simp

end
