(* ===== verification/LongTermMemory.thy ===== *)
theory LongTermMemory
  imports Conversations ApiKeys ToolExecutor
begin

text \<open>
  Long-term memory: \<open>app/memory/models.py\<close>, \<open>repository.py\<close>, \<open>memory_repository.py\<close>, \<open>postgres_repository.py\<close>,
  \<open>service.py\<close>, \<open>tenant.py\<close>. Times are microseconds; clocks and fresh identifiers are arguments. The terms of
  a text are computed on its code points, so that the branch for CJK characters is part of the model.
\<close>

section \<open>Items and the repository interface\<close>

datatype memory_source = EXPLICIT | CONVERSATION | SYSTEM

datatype memory_kind = FACT | PREFERENCE | INSTRUCTION

record memory_item =
  mi_id :: string
  mi_owner :: string
  mi_content :: string
  mi_source :: memory_source
  mi_kind :: memory_kind
  mi_confidence :: pyfloat
  mi_metadata :: "(string, pyval) pydict"
  mi_created_at :: "int option"
  mi_updated_at :: "int option"
  mi_last_used_at :: "int option"

datatype memory_error = MemoryValue string | MemoryValidation string | MemoryNotFound | MemoryIntegrity

definition validate_owner_scope :: "string \<Rightarrow> memory_error + string" where
  "validate_owner_scope scope =
     (if length scope = 64 \<and> list_all is_hex scope then Inr scope
      else Inl (MemoryValue ''owner_scope must be a lowercase SHA-256 hex digest''))"

record 's memory_repository =
  mr_create :: "memory_item \<Rightarrow> 's \<Rightarrow> (memory_error + memory_item) \<times> 's"
  mr_get :: "string \<Rightarrow> string \<Rightarrow> 's \<Rightarrow> memory_item option"
  mr_list :: "string \<Rightarrow> nat \<Rightarrow> 's \<Rightarrow> memory_item list"
  mr_update :: "memory_item \<Rightarrow> 's \<Rightarrow> memory_item option \<times> 's"
  mr_delete :: "string \<Rightarrow> string \<Rightarrow> 's \<Rightarrow> bool \<times> 's"
  mr_mark_used :: "string \<Rightarrow> string \<Rightarrow> int \<Rightarrow> 's \<Rightarrow> memory_item option \<times> 's"

text \<open>The fields an update copies.\<close>

definition replace_item :: "memory_item \<Rightarrow> memory_item \<Rightarrow> memory_item" where
  "replace_item x current = current\<lparr>mi_content := mi_content x, mi_source := mi_source x, mi_kind := mi_kind x,
     mi_confidence := mi_confidence x, mi_metadata := mi_metadata x, mi_updated_at := mi_updated_at x\<rparr>"

section \<open>In memory\<close>

type_synonym memory_items = "(string, memory_item) pydict"

definition mm_create :: "memory_item \<Rightarrow> memory_items \<Rightarrow> (memory_error + memory_item) \<times> memory_items" where
  "mm_create x s = (Inr x, dset (mi_id x) x s)"

definition mm_get :: "string \<Rightarrow> string \<Rightarrow> memory_items \<Rightarrow> memory_item option" where
  "mm_get i owner s = (case dget s i of None \<Rightarrow> None | Some x \<Rightarrow> if mi_owner x \<noteq> owner then None else Some x)"

definition memory_order_key :: "memory_item \<Rightarrow> int" where
  "memory_order_key x =
     (case mi_last_used_at x of Some t \<Rightarrow> t | None \<Rightarrow>
       (case mi_updated_at x of Some t \<Rightarrow> t | None \<Rightarrow> (case mi_created_at x of Some t \<Rightarrow> t | None \<Rightarrow> datetime_min)))"

definition mm_list :: "string \<Rightarrow> nat \<Rightarrow> memory_items \<Rightarrow> memory_item list" where
  "mm_list owner limit s = take limit (sort_key (\<lambda>x. - memory_order_key x) (filter (\<lambda>x. mi_owner x = owner) (dvalues s)))"

definition mm_update :: "memory_item \<Rightarrow> memory_items \<Rightarrow> memory_item option \<times> memory_items" where
  "mm_update x s =
     (case mm_get (mi_id x) (mi_owner x) s of
        None \<Rightarrow> (None, s)
      | Some current \<Rightarrow> (Some (replace_item x current), dset (mi_id x) (replace_item x current) s))"

definition mm_delete :: "string \<Rightarrow> string \<Rightarrow> memory_items \<Rightarrow> bool \<times> memory_items" where
  "mm_delete i owner s = (case mm_get i owner s of None \<Rightarrow> (False, s) | Some _ \<Rightarrow> (True, ddel i s))"

definition mm_mark_used :: "string \<Rightarrow> string \<Rightarrow> int \<Rightarrow> memory_items \<Rightarrow> memory_item option \<times> memory_items" where
  "mm_mark_used i owner t s =
     (case mm_get i owner s of
        None \<Rightarrow> (None, s)
      | Some current \<Rightarrow> (let updated = current\<lparr>mi_last_used_at := Some t\<rparr> in (Some updated, dset (mi_id current) updated s)))"

definition memory_memories :: "memory_items memory_repository" where
  "memory_memories = \<lparr>mr_create = mm_create, mr_get = mm_get, mr_list = mm_list, mr_update = mm_update, mr_delete = mm_delete,
     mr_mark_used = mm_mark_used\<rparr>"

section \<open>PostgreSQL\<close>

text \<open>The rows of the table; identifiers are the primary key. \<open>DESC\<close> puts NULL first.\<close>

definition pgm_create :: "memory_item \<Rightarrow> memory_item list \<Rightarrow> (memory_error + memory_item) \<times> memory_item list" where
  "pgm_create x s = (if mi_id x \<in> mi_id ` set s then (Inl MemoryIntegrity, s) else (Inr x, s @ [x]))"

definition pgm_get :: "string \<Rightarrow> string \<Rightarrow> memory_item list \<Rightarrow> memory_item option" where
  "pgm_get i owner s =
     (case normalize_thread_id i of None \<Rightarrow> None | Some u \<Rightarrow> find (\<lambda>x. mi_id x = u \<and> mi_owner x = owner) s)"

definition pgm_list :: "string \<Rightarrow> nat \<Rightarrow> memory_item list \<Rightarrow> memory_item list" where
  "pgm_list owner limit s =
     take limit (sort_key (\<lambda>x. (desc_key (mi_last_used_at x), desc_key (mi_updated_at x), desc_key (mi_created_at x)))
       (filter (\<lambda>x. mi_owner x = owner) s))"

definition pgm_change :: "string \<Rightarrow> string \<Rightarrow> (memory_item \<Rightarrow> memory_item) \<Rightarrow> memory_item list \<Rightarrow> memory_item option \<times> memory_item list" where
  "pgm_change i owner f s =
     (case pgm_get i owner s of
        None \<Rightarrow> (None, s)
      | Some row \<Rightarrow> (Some (f row), map (\<lambda>x. if Some (mi_id x) = normalize_thread_id i \<and> mi_owner x = owner then f x else x) s))"

definition pgm_update :: "memory_item \<Rightarrow> memory_item list \<Rightarrow> memory_item option \<times> memory_item list" where
  "pgm_update x s = pgm_change (mi_id x) (mi_owner x) (replace_item x) s"

definition pgm_delete :: "string \<Rightarrow> string \<Rightarrow> memory_item list \<Rightarrow> bool \<times> memory_item list" where
  "pgm_delete i owner s =
     (case pgm_get i owner s of
        None \<Rightarrow> (False, s)
      | Some _ \<Rightarrow> (True, filter (\<lambda>x. \<not> (Some (mi_id x) = normalize_thread_id i \<and> mi_owner x = owner)) s))"

definition pgm_mark_used :: "string \<Rightarrow> string \<Rightarrow> int \<Rightarrow> memory_item list \<Rightarrow> memory_item option \<times> memory_item list" where
  "pgm_mark_used i owner t s = pgm_change i owner (\<lambda>x. x\<lparr>mi_last_used_at := Some t, mi_updated_at := Some t\<rparr>) s"

definition postgres_memories :: "memory_item list memory_repository" where
  "postgres_memories = \<lparr>mr_create = pgm_create, mr_get = pgm_get, mr_list = pgm_list, mr_update = pgm_update, mr_delete = pgm_delete,
     mr_mark_used = pgm_mark_used\<rparr>"

section \<open>Terms of a text\<close>

text \<open>The matches of \<open>[...]+\<close> by \<open>findall\<close>: the maximal runs.\<close>

function runs :: "('a \<Rightarrow> bool) \<Rightarrow> 'a list \<Rightarrow> 'a list list" where
  "runs p [] = []"
| "runs p (x # xs) = (if p x then (x # takeWhile p xs) # runs p (dropWhile p xs) else runs p xs)"
  by pat_completeness auto
termination
  by (relation "measure (\<lambda>(p, xs). length xs)") (auto simp: le_imp_less_Suc length_dropWhile_le)

definition ascii_token :: "int \<Rightarrow> bool" where "ascii_token c \<longleftrightarrow> 97 \<le> c \<and> c \<le> 122 \<or> 48 \<le> c \<and> c \<le> 57"

definition cjk :: "int \<Rightarrow> bool" where "cjk c \<longleftrightarrow> 0x4E00 \<le> c \<and> c \<le> 0x9FFF"

definition cjk_windows :: "int list \<Rightarrow> int list list" where
  "cjk_windows run =
     concat (map (\<lambda>size. map (\<lambda>i. take size (drop i run)) [0..<length run + 1 - size]) [2..<min (length run - 1) 2 + 2])"

text \<open>\<open>Inl\<close> is the return from inside the loops, once there are 256 terms.\<close>

fun add_terms :: "int list list \<Rightarrow> int list list \<Rightarrow> int list list + int list list" where
  "add_terms [] terms = Inr terms"
| "add_terms (t # ts) terms =
     (let terms' = List.insert t terms in if 256 \<le> length terms' then Inl terms' else add_terms ts terms')"

fun cjk_terms :: "int list list \<Rightarrow> int list list \<Rightarrow> int list list" where
  "cjk_terms [] terms = terms"
| "cjk_terms (r # rs) terms =
     (case add_terms (cjk_windows r) (if length r \<le> 8 then List.insert r terms else terms) of
        Inl ts \<Rightarrow> ts
      | Inr ts \<Rightarrow> cjk_terms rs ts)"

definition code_point_terms :: "int list \<Rightarrow> int list list" where
  "code_point_terms lowered =
     cjk_terms (runs cjk lowered)
       (fold (\<lambda>t ts. if 2 \<le> length t then List.insert t ts else ts) (runs ascii_token lowered) [])"

definition text_terms :: "string \<Rightarrow> int list list" where
  "text_terms t = code_point_terms (map of_char (py_lower t))"

definition overlap_score :: "memory_item \<Rightarrow> int list list \<Rightarrow> nat" where
  "overlap_score x query_terms = length (filter (\<lambda>t. t \<in> set query_terms) (text_terms (mi_content x)))"

definition recent_key :: "memory_item \<Rightarrow> int" where
  "recent_key x =
     (case mi_last_used_at x of Some t \<Rightarrow> t | None \<Rightarrow>
       (case mi_updated_at x of Some t \<Rightarrow> t | None \<Rightarrow> (case mi_created_at x of Some t \<Rightarrow> t | None \<Rightarrow> datetime_min)))"

section \<open>The service\<close>

record memory_settings =
  ms_context_limit :: int
  ms_context_max_chars :: int

definition memory_service_init :: "int \<Rightarrow> int \<Rightarrow> memory_settings" where
  "memory_service_init limit chars = \<lparr>ms_context_limit = max limit 0, ms_context_max_chars = max chars 100\<rparr>"

definition normalize_content :: "string \<Rightarrow> memory_error + string" where
  "normalize_content content =
     (let n = strip_chars is_space content
      in if n = [] then Inl (MemoryValidation ''content must not be empty'')
         else if 10000 < length n then Inl (MemoryValidation ''content must be at most 10000 characters'') else Inr n)"

fun confidence_ok :: "pyfloat \<Rightarrow> bool" where
  "confidence_ok (Finite x) = (0 \<le> x \<and> x \<le> 1)"
| "confidence_ok (Infinite b) = False"
| "confidence_ok NotANumber = False"

definition validate_confidence :: "pyfloat \<Rightarrow> memory_error + unit" where
  "validate_confidence c = (if confidence_ok c then Inr () else Inl (MemoryValidation ''confidence must be between 0 and 1''))"

fun json_scalar :: "pyval \<Rightarrow> bool" where
  "json_scalar (PList _) = False"
| "json_scalar (PDict _) = False"
| "json_scalar _ = True"

fun normalize_entries :: "(string, pyval) pydict \<Rightarrow> (string, pyval) pydict \<Rightarrow> memory_error + (string, pyval) pydict" where
  "normalize_entries [] normalized = Inr normalized"
| "normalize_entries ((key, v) # rest) normalized =
     (if key = [] \<or> 64 < length key then Inl (MemoryValidation ''metadata key must be between 1 and 64 characters'')
      else if \<not> json_scalar v then Inl (MemoryValidation ''metadata values must be JSON scalar values'')
      else if (case v of PStr t \<Rightarrow> 500 < length t | _ \<Rightarrow> False)
      then Inl (MemoryValidation ''metadata string values must be at most 500 characters'')
      else normalize_entries rest (dset key v normalized))"

definition normalize_metadata :: "(string, pyval) pydict \<Rightarrow> memory_error + (string, pyval) pydict" where
  "normalize_metadata m =
     (if 32 < length m then Inl (MemoryValidation ''metadata must have at most 32 keys'') else normalize_entries m [])"

definition create_memory ::
  "'s memory_repository \<Rightarrow> string \<Rightarrow> int \<Rightarrow> string \<Rightarrow> string \<Rightarrow> memory_source \<Rightarrow> memory_kind \<Rightarrow> pyfloat \<Rightarrow> (string, pyval) pydict \<Rightarrow> 's \<Rightarrow>
     (memory_error + memory_item) \<times> 's" where
  "create_memory repo uuid now owner content src kind confidence metadata s =
     (case validate_owner_scope owner of
        Inl e \<Rightarrow> (Inl e, s)
      | Inr scope \<Rightarrow>
          (case normalize_content content of
             Inl e \<Rightarrow> (Inl e, s)
           | Inr n \<Rightarrow>
               (case normalize_metadata metadata of
                  Inl e \<Rightarrow> (Inl e, s)
                | Inr md \<Rightarrow>
                    (case validate_confidence confidence of
                       Inl e \<Rightarrow> (Inl e, s)
                     | Inr _ \<Rightarrow>
                         mr_create repo \<lparr>mi_id = uuid, mi_owner = scope, mi_content = n, mi_source = src, mi_kind = kind, mi_confidence = confidence,
                           mi_metadata = md, mi_created_at = Some now, mi_updated_at = Some now, mi_last_used_at = None\<rparr> s))))"

definition get_memory :: "'s memory_repository \<Rightarrow> string \<Rightarrow> string \<Rightarrow> 's \<Rightarrow> memory_error + memory_item" where
  "get_memory repo owner i s =
     (case validate_owner_scope owner of
        Inl e \<Rightarrow> Inl e
      | Inr scope \<Rightarrow> (case mr_get repo i scope s of None \<Rightarrow> Inl MemoryNotFound | Some x \<Rightarrow> Inr x))"

definition list_memories :: "'s memory_repository \<Rightarrow> string \<Rightarrow> int \<Rightarrow> string option \<Rightarrow> 's \<Rightarrow> memory_error + memory_item list" where
  "list_memories repo owner limit query s =
     (case validate_owner_scope owner of
        Inl e \<Rightarrow> Inl e
      | Inr scope \<Rightarrow>
          (let n = nat (max (min limit 100) 1);
               q = (case query of None \<Rightarrow> [] | Some t \<Rightarrow> strip_chars is_space t)
           in if q = [] then Inr (mr_list repo scope n s)
              else
                (let raw = mr_list repo scope 200 s; terms = text_terms q
                 in if terms = [] then Inr (take n raw)
                    else Inr (take n (filter (\<lambda>x. 0 < overlap_score x terms)
                           (sort_key (\<lambda>x. (- int (overlap_score x terms), - recent_key x)) raw))))))"

record memory_changes =
  mc_content :: "string option"
  mc_source :: "memory_source option"
  mc_kind :: "memory_kind option"
  mc_confidence :: "pyfloat option"
  mc_metadata :: "(string, pyval) pydict option"

text \<open>The checks of \<open>update_memory\<close> and the item it builds from the stored one.\<close>

definition changed_item :: "int \<Rightarrow> memory_changes \<Rightarrow> memory_item \<Rightarrow> memory_error + memory_item" where
  "changed_item now ch current =
     (case (case mc_content ch of None \<Rightarrow> Inr (mi_content current) | Some c \<Rightarrow> normalize_content c) of
        Inl e \<Rightarrow> Inl e
      | Inr content \<Rightarrow>
          (let confidence = (case mc_confidence ch of None \<Rightarrow> mi_confidence current | Some c \<Rightarrow> c)
           in case validate_confidence confidence of
                Inl e \<Rightarrow> Inl e
              | Inr _ \<Rightarrow>
                  (case (case mc_metadata ch of None \<Rightarrow> Inr (mi_metadata current) | Some m \<Rightarrow> normalize_metadata m) of
                     Inl e \<Rightarrow> Inl e
                   | Inr md \<Rightarrow>
                       Inr \<lparr>mi_id = mi_id current, mi_owner = mi_owner current, mi_content = content,
                         mi_source = (case mc_source ch of None \<Rightarrow> mi_source current | Some v \<Rightarrow> v),
                         mi_kind = (case mc_kind ch of None \<Rightarrow> mi_kind current | Some v \<Rightarrow> v), mi_confidence = confidence,
                         mi_metadata = md, mi_created_at = mi_created_at current, mi_updated_at = Some now,
                         mi_last_used_at = mi_last_used_at current\<rparr>)))"

definition update_memory :: "'s memory_repository \<Rightarrow> int \<Rightarrow> string \<Rightarrow> string \<Rightarrow> memory_changes \<Rightarrow> 's \<Rightarrow> (memory_error + memory_item) \<times> 's" where
  "update_memory repo now owner i ch s =
     (case validate_owner_scope owner of
        Inl e \<Rightarrow> (Inl e, s)
      | Inr scope \<Rightarrow>
          (case mr_get repo i scope s of
             None \<Rightarrow> (Inl MemoryNotFound, s)
           | Some current \<Rightarrow>
               (if ch = \<lparr>mc_content = None, mc_source = None, mc_kind = None, mc_confidence = None, mc_metadata = None\<rparr>
                then (Inl (MemoryValidation ''At least one memory field must be updated.''), s)
                else
                  (case changed_item now ch current of
                     Inl e \<Rightarrow> (Inl e, s)
                   | Inr updated \<Rightarrow>
                       (case mr_update repo updated s of
                          (None, s') \<Rightarrow> (Inl MemoryNotFound, s')
                        | (Some x, s') \<Rightarrow> (Inr x, s'))))))"

definition delete_memory :: "'s memory_repository \<Rightarrow> string \<Rightarrow> string \<Rightarrow> 's \<Rightarrow> (memory_error + unit) \<times> 's" where
  "delete_memory repo owner i s =
     (case validate_owner_scope owner of
        Inl e \<Rightarrow> (Inl e, s)
      | Inr scope \<Rightarrow> (case mr_delete repo i scope s of (False, s') \<Rightarrow> (Inl MemoryNotFound, s') | (True, s') \<Rightarrow> (Inr (), s')))"

fun bound_items :: "int \<Rightarrow> memory_item list \<Rightarrow> memory_item list" where
  "bound_items remaining [] = []"
| "bound_items remaining (x # xs) =
     (if remaining \<le> 0 then []
      else x # bound_items (remaining - (int (length (take (nat remaining) (mi_content x))) + 32)) xs)"

fun mark_all :: "'s memory_repository \<Rightarrow> (nat \<Rightarrow> int) \<Rightarrow> nat \<Rightarrow> string \<Rightarrow> memory_item list \<Rightarrow> 's \<Rightarrow> 's" where
  "mark_all repo now k owner [] s = s"
| "mark_all repo now k owner (x # xs) s = mark_all repo now (Suc k) owner xs (snd (mr_mark_used repo (mi_id x) owner (now k) s))"

definition retrieve_for_agent ::
  "memory_settings \<Rightarrow> 's memory_repository \<Rightarrow> (nat \<Rightarrow> int) \<Rightarrow> string \<Rightarrow> string \<Rightarrow> int option \<Rightarrow> int option \<Rightarrow> 's \<Rightarrow>
     (memory_error + memory_item list) \<times> 's" where
  "retrieve_for_agent cfg repo now owner query limit max_chars s =
     (if ms_context_limit cfg \<le> 0 then (Inr [], s)
      else
        (case list_memories repo owner (case limit of None \<Rightarrow> ms_context_limit cfg | Some n \<Rightarrow> n) (Some query) s of
           Inl e \<Rightarrow> (Inl e, s)
         | Inr selected \<Rightarrow>
             (if selected = [] then (Inr [], s)
              else
                (let bounded = bound_items (case max_chars of None \<Rightarrow> ms_context_max_chars cfg | Some n \<Rightarrow> n) selected
                 in (Inr bounded, mark_all repo now 0 owner bounded s)))))"

text \<open>\<open>hash_api_key\<close> and SHA-256 are one function of the text: the hash is an argument.\<close>

definition resolve_memory_owner_scope :: "(string \<Rightarrow> string) \<Rightarrow> identity_context option \<Rightarrow> string option" where
  "resolve_memory_owner_scope hash identity =
     (case identity of
        None \<Rightarrow> Some (hash ''disabled'')
      | Some i \<Rightarrow>
          (case (ic_workspace i, ic_user i) of
             (Some w, Some u) \<Rightarrow> Some (hash (w @ '':'' @ u))
           | _ \<Rightarrow> resolve_tenant_scope hash identity))"

end
