(* ===== verification/MemoryRuns.thy ===== *)
theory MemoryRuns
  imports LongTermMemory
begin

text \<open>
  What long-term memory promises, over a locale of the repository interface that both repositories interpret:
  owners are isolated from each other, stored items are well formed, and what an agent is given is bounded, relevant
  and marked as used.
\<close>

section \<open>Steps of an owner\<close>

text \<open>A fresh identifier is in canonical form and not in use, as \<open>uuid4\<close> gives it.\<close>

inductive lm_step :: "'s memory_repository \<Rightarrow> (string \<Rightarrow> string option) \<Rightarrow> string \<Rightarrow> 's \<Rightarrow> 's \<Rightarrow> bool" for repo key_of owner where
  create: "key_of uuid = Some uuid \<Longrightarrow> \<forall>x. mr_get repo uuid x s = None \<Longrightarrow>
    create_memory repo uuid now owner content src kind conf md s = (r, s') \<Longrightarrow> lm_step repo key_of owner s s'"
| update: "update_memory repo now owner i ch s = (r, s') \<Longrightarrow> lm_step repo key_of owner s s'"
| delete: "delete_memory repo owner i s = (d, s') \<Longrightarrow> lm_step repo key_of owner s s'"
| retrieve: "retrieve_for_agent cfg repo clock owner query limit chars s = (xs, s') \<Longrightarrow> lm_step repo key_of owner s s'"

inductive lm_reach :: "'s memory_repository \<Rightarrow> (string \<Rightarrow> string option) \<Rightarrow> 's \<Rightarrow> 's \<Rightarrow> bool" for repo key_of init where
  start: "lm_reach repo key_of init init"
| step: "lm_reach repo key_of init s \<Longrightarrow> lm_step repo key_of owner s s' \<Longrightarrow> lm_reach repo key_of init s'"

definition item_ok :: "memory_item \<Rightarrow> bool" where
  "item_ok x \<longleftrightarrow> mi_content x \<noteq> [] \<and> length (mi_content x) \<le> 10000 \<and> confidence_ok (mi_confidence x) \<and>
     length (mi_owner x) = 64 \<and> length (mi_metadata x) \<le> 32 \<and> list_all (\<lambda>(k, v). k \<noteq> [] \<and> length k \<le> 64 \<and> json_scalar v) (mi_metadata x)"

definition owned_key :: "string option \<Rightarrow> string \<Rightarrow> memory_item \<Rightarrow> bool" where
  "owned_key k owner x \<longleftrightarrow> Some (mi_id x) = k \<and> mi_owner x = owner"

section \<open>Lists of items\<close>

lemma filter_map_other:
  "\<forall>x. mi_owner (f x) = mi_owner x \<Longrightarrow> o' \<noteq> owner \<Longrightarrow>
     filter (\<lambda>x. mi_owner x = o') (map (\<lambda>x. if owned_key k owner x then f x else x) xs) = filter (\<lambda>x. mi_owner x = o') xs"
  by (induction xs) (auto simp: owned_key_def)

lemma filter_filter_other:
  "o' \<noteq> owner \<Longrightarrow> filter (\<lambda>x. \<not> owned_key k owner x \<and> mi_owner x = o') xs = filter (\<lambda>x. mi_owner x = o') xs"
  by (induction xs) (auto simp: owned_key_def)

lemma list_all_dset_pair: "list_all P d \<Longrightarrow> P (k, v) \<Longrightarrow> list_all P (dset k v d)"
  by (induction d) auto

lemma normalize_entries_ok:
  "normalize_entries m acc = Inr md \<Longrightarrow> list_all (\<lambda>(k, v). k \<noteq> [] \<and> length k \<le> 64 \<and> json_scalar v) acc \<Longrightarrow>
     list_all (\<lambda>(k, v). k \<noteq> [] \<and> length k \<le> 64 \<and> json_scalar v) md \<and> length md \<le> length acc + length m"
proof (induction m acc rule: normalize_entries.induct)
  case (2 key v rest normalized)
  have len: "length (dset key v normalized) \<le> Suc (length normalized)" by (induction normalized) auto
  from 2 list_all_dset_pair [of "\<lambda>(k, v). k \<noteq> [] \<and> length k \<le> 64 \<and> json_scalar v" normalized key v] len show ?case by (auto split: if_splits)
qed simp

lemma normalize_metadata_ok:
  "normalize_metadata m = Inr md \<Longrightarrow> length md \<le> 32 \<and> list_all (\<lambda>(k, v). k \<noteq> [] \<and> length k \<le> 64 \<and> json_scalar v) md"
  using normalize_entries_ok [of m "[]" md] by (auto simp: normalize_metadata_def split: if_splits)

lemma bound_items_set: "set (bound_items n xs) \<subseteq> set xs"
  by (induction n xs rule: bound_items.induct) auto

lemma bound_items_length: "length (bound_items n xs) \<le> length xs"
  by (induction n xs rule: bound_items.induct) auto

text \<open>Every item but the last fits, with its separator, into what is left.\<close>

lemma bound_items_fit: "0 < n \<Longrightarrow> sum_list (map (\<lambda>x. int (length (mi_content x)) + 32) (butlast (bound_items n xs))) < n"
proof (induction n xs rule: bound_items.induct)
  case (2 n x xs)
  let ?m = "n - (int (length (take (nat n) (mi_content x))) + 32)"
  show ?case
  proof (cases "0 < ?m")
    case True
    then have "length (take (nat n) (mi_content x)) = length (mi_content x)" by auto
    with 2 True show ?thesis by (auto simp: not_le)
  next
    case False
    then have "bound_items ?m xs = []" by (cases xs) auto
    with 2(2) show ?thesis by simp
  qed
qed simp

lemma find_map_same: "\<forall>x. p (g x) = p x \<Longrightarrow> find p (map g xs) = map_option g (find p xs)"
  by (induction xs) auto

lemma find_own: "x \<in> set xs \<Longrightarrow> mi_owner x = owner \<Longrightarrow> distinct (map mi_id xs) \<Longrightarrow> find (owned_key (Some (mi_id x)) owner) xs = Some x"
  by (induction xs) (auto simp: owned_key_def image_iff)

lemma replace_item_owner: "mi_owner (replace_item x c) = mi_owner c" "mi_id (replace_item x c) = mi_id c"
  by (simp_all add: replace_item_def)

lemma replaced_ok: "item_ok x \<Longrightarrow> item_ok c \<Longrightarrow> item_ok (replace_item x c)"
  by (simp add: item_ok_def replace_item_def)

lemma changed_itemD: "changed_item now ch c = Inr x \<Longrightarrow> mi_owner x = mi_owner c \<and> mi_id x = mi_id c \<and> (item_ok c \<longrightarrow> item_ok x)"
  using normalize_metadata_ok
  by (auto simp: changed_item_def item_ok_def Let_def normalize_content_def validate_confidence_def split: sum.splits option.splits if_splits)

lemma create_memory_states:
  assumes "create_memory repo uuid now owner content src kind conf md s = (r, s')"
  obtains "s' = s" | x where "mr_create repo x s = (r, s')" "mi_id x = uuid" "mi_owner x = owner" "item_ok x"
proof -
  consider "s' = s" | n md' where "length owner = 64" "normalize_content content = Inr n" "normalize_metadata md = Inr md'" "confidence_ok conf"
      "mr_create repo \<lparr>mi_id = uuid, mi_owner = owner, mi_content = n, mi_source = src, mi_kind = kind, mi_confidence = conf,
         mi_metadata = md', mi_created_at = Some now, mi_updated_at = Some now, mi_last_used_at = None\<rparr> s = (r, s')"
    using assms by (auto simp: create_memory_def validate_owner_scope_def validate_confidence_def split: sum.splits if_splits)
  then show ?thesis
  proof cases
    case (2 n md')
    have "n \<noteq> []" "length n \<le> 10000" using 2(2) by (auto simp: normalize_content_def Let_def split: if_splits)
    with 2 that(2) [OF 2(5)] normalize_metadata_ok [OF 2(3)] show ?thesis by (simp add: item_ok_def)
  qed (rule that(1))
qed

section \<open>The interface\<close>

locale memory_store =
  fixes repo :: "'s memory_repository" and rows :: "'s \<Rightarrow> memory_item list" and key_of :: "string \<Rightarrow> string option"
    and order :: "nat \<Rightarrow> memory_item list \<Rightarrow> memory_item list" and used :: "int \<Rightarrow> memory_item \<Rightarrow> memory_item" and inv :: "'s \<Rightarrow> bool"
  assumes get_law: "inv s \<Longrightarrow> mr_get repo i owner s = find (owned_key (key_of i) owner) (rows s)"
    and list_law: "inv s \<Longrightarrow> mr_list repo owner n s = order n (filter (\<lambda>x. mi_owner x = owner) (rows s))"
    and order_law: "set (order n xs) \<subseteq> set xs" "length (order n xs) \<le> n" "distinct xs \<Longrightarrow> distinct (order n xs)"
    and create_law: "inv s \<Longrightarrow> key_of (mi_id x) = Some (mi_id x) \<Longrightarrow> \<forall>o'. mr_get repo (mi_id x) o' s = None \<Longrightarrow>
      mr_create repo x s = (r, s') \<Longrightarrow> inv s' \<and> rows s' = rows s @ [x]"
    and update_law: "inv s \<Longrightarrow> mr_update repo x s = (y, s') \<Longrightarrow>
      inv s' \<and> rows s' = map (\<lambda>r. if owned_key (key_of (mi_id x)) (mi_owner x) r then replace_item x r else r) (rows s)"
    and delete_law: "inv s \<Longrightarrow> mr_delete repo i owner s = (d, s') \<Longrightarrow> inv s' \<and> rows s' = filter (\<lambda>x. \<not> owned_key (key_of i) owner x) (rows s)"
    and mark_law: "inv s \<Longrightarrow> mr_mark_used repo i owner t s = (y, s') \<Longrightarrow>
      inv s' \<and> rows s' = map (\<lambda>r. if owned_key (key_of i) owner r then used t r else r) (rows s)"
    and used_law: "used t x = x\<lparr>mi_last_used_at := Some t, mi_updated_at := mi_updated_at (used t x)\<rparr>"
    and ids_law: "inv s \<Longrightarrow> x \<in> set (rows s) \<Longrightarrow> key_of (mi_id x) = Some (mi_id x)" "inv s \<Longrightarrow> distinct (map mi_id (rows s))"
begin

text \<open>What a step of an owner leaves: the invariant, well-formed items, and every other owner's rows.\<close>

definition keeps :: "string \<Rightarrow> 's \<Rightarrow> 's \<Rightarrow> bool" where
  "keeps owner s s' \<longleftrightarrow> inv s' \<and> (\<forall>o'. o' \<noteq> owner \<longrightarrow> filter (\<lambda>x. mi_owner x = o') (rows s') = filter (\<lambda>x. mi_owner x = o') (rows s)) \<and>
     (list_all item_ok (rows s) \<longrightarrow> list_all item_ok (rows s'))"

lemma keeps_refl: "inv s \<Longrightarrow> keeps owner s s"
  by (simp add: keeps_def)

lemma keeps_trans: "keeps owner s s' \<Longrightarrow> keeps owner s' s'' \<Longrightarrow> keeps owner s s''"
  by (simp add: keeps_def)

lemma used_fields [simp]: "mi_owner (used t x) = mi_owner x" "mi_id (used t x) = mi_id x" "mi_content (used t x) = mi_content x"
    "mi_confidence (used t x) = mi_confidence x" "mi_metadata (used t x) = mi_metadata x" "mi_last_used_at (used t x) = Some t"
  by (subst used_law, simp)+

lemma used_ok: "item_ok (used t x) = item_ok x"
  by (simp add: item_ok_def)

lemma mark_keeps:
  assumes "inv s" and "mr_mark_used repo i owner t s = (y, s')"
  shows "keeps owner s s'"
  using mark_law [OF assms] by (auto simp: keeps_def filter_map_other list_all_iff used_ok)

lemma mark_all_keeps: "inv s \<Longrightarrow> keeps owner s (mark_all repo clock k owner xs s)"
proof (induction xs arbitrary: k s)
  case (Cons x xs)
  have "keeps owner s (snd (mr_mark_used repo (mi_id x) owner (clock k) s))" by (rule mark_keeps [OF Cons.prems surjective_pairing])
  then show ?case using Cons.IH by (auto simp: keeps_def)
qed (simp add: keeps_refl)

lemma create_keeps:
  assumes inv: "inv s" and fresh: "key_of uuid = Some uuid" "\<forall>x. mr_get repo uuid x s = None"
    and run: "create_memory repo uuid now owner content src kind conf md s = (r, s')"
  shows "keeps owner s s'"
  using create_memory_states [OF run]
proof cases
  case 1
  with inv show ?thesis by (simp add: keeps_refl)
next
  case (2 x)
  then show ?thesis using create_law [OF inv, of x r s'] fresh by (auto simp: keeps_def)
qed

lemma update_keeps:
  assumes inv: "inv s" and "update_memory repo now owner i ch s = (r, s')"
  shows "keeps owner s s'"
proof -
  consider "s' = s" | c x y where "mr_get repo i owner s = Some c" "changed_item now ch c = Inr x" "mr_update repo x s = (y, s')"
    using assms(2)
    by (auto simp: update_memory_def validate_owner_scope_def split: sum.splits if_splits option.splits prod.splits)
  then show ?thesis
  proof cases
    case 1
    with inv show ?thesis by (simp add: keeps_refl)
  next
    case 2
    then have "c \<in> set (rows s)" "mi_owner c = owner" by (auto simp: get_law [OF inv] find_Some_iff owned_key_def)
    moreover note changed = changed_itemD [OF 2(2)]
    ultimately show ?thesis using update_law [OF inv 2(3)] replaced_ok
      by (auto simp: keeps_def filter_map_other replace_item_owner list_all_iff)
  qed
qed

lemma lm_step_keeps: "lm_step repo key_of owner s s' \<Longrightarrow> inv s \<Longrightarrow> keeps owner s s'"
proof (induction rule: lm_step.induct)
  case (create uuid s now content src kind conf md r s')
  then show ?case using create_keeps by blast
next
  case (update now i ch s r s')
  then show ?case using update_keeps by blast
next
  case (delete i s d s')
  then show ?case using delete_law [of s i owner _ s'] keeps_refl
    by (auto simp: delete_memory_def validate_owner_scope_def keeps_def filter_filter_other list_all_iff split: sum.splits if_splits prod.splits bool.splits)
next
  case (retrieve cfg clock query limit chars s xs s')
  then show ?case using mark_all_keeps keeps_refl
    by (auto simp: retrieve_for_agent_def Let_def split: sum.splits if_splits)
qed

lemma lm_reach_inv: "lm_reach repo key_of init s \<Longrightarrow> inv init \<Longrightarrow> rows init = [] \<Longrightarrow> inv s \<and> list_all item_ok (rows s)"
proof (induction rule: lm_reach.induct)
  case (step s owner s')
  then show ?case using lm_step_keeps [OF step.hyps(2)] by (simp add: keeps_def)
qed simp

lemma isolated:
  assumes "lm_step repo key_of owner s s'" and "inv s" and "o' \<noteq> owner"
  shows "mr_get repo i o' s' = mr_get repo i o' s" and "mr_list repo o' n s' = mr_list repo o' n s"
proof -
  note k = lm_step_keeps [OF assms(1,2)]
  then have inv': "inv s'" and eq: "filter (\<lambda>x. mi_owner x = o') (rows s') = filter (\<lambda>x. mi_owner x = o') (rows s)"
    using assms(3) by (simp_all add: keeps_def)
  have "find (owned_key k o') xs = find (\<lambda>x. Some (mi_id x) = k) (filter (\<lambda>x. mi_owner x = o') xs)" for k xs
    by (induction xs) (auto simp: owned_key_def)
  then show "mr_get repo i o' s' = mr_get repo i o' s" by (simp add: get_law assms(2) inv' eq)
  show "mr_list repo o' n s' = mr_list repo o' n s" by (simp add: list_law assms(2) inv' eq)
qed

text \<open>Marking: the mark of an item stays when others are marked.\<close>

lemma mark_rows:
  assumes "inv s" and "mr_mark_used repo i owner t s = (y, s')" and "find (owned_key k owner) (rows s) = Some x"
  shows "\<exists>z. find (owned_key k owner) (rows s') = Some z \<and> mi_content z = mi_content x \<and> mi_last_used_at z = (if key_of i = k then Some t else mi_last_used_at x)"
proof -
  let ?g = "\<lambda>r :: memory_item. if owned_key (key_of i) owner r then used t r else r"
  have rows: "rows s' = map ?g (rows s)" using mark_law [OF assms(1,2)] by simp
  have "\<forall>r. owned_key k owner (?g r) = owned_key k owner r" by (simp add: owned_key_def)
  from find_map_same [of "owned_key k owner" ?g, OF this, of "rows s"]
  have "find (owned_key k owner) (rows s') = Some (?g x)" unfolding rows assms(3) by simp
  moreover have "owned_key (key_of i) owner x \<longleftrightarrow> key_of i = k" using assms(3) by (auto simp: find_Some_iff owned_key_def)
  ultimately show ?thesis by simp
qed

lemma mark_all_stays:
  assumes "inv s" and "find (owned_key k owner) (rows s) = Some x" and "mi_last_used_at x \<in> Some ` range clock"
  shows "\<exists>z. find (owned_key k owner) (rows (mark_all repo clock n owner xs s)) = Some z \<and> mi_content z = mi_content x \<and> mi_last_used_at z \<in> Some ` range clock"
  using assms
proof (induction xs arbitrary: n s x)
  case (Cons a xs)
  obtain y s1 where m: "mr_mark_used repo (mi_id a) owner (clock n) s = (y, s1)" by fastforce
  from mark_rows [OF Cons.prems(1) m Cons.prems(2)] obtain z where z: "find (owned_key k owner) (rows s1) = Some z" "mi_content z = mi_content x"
    "mi_last_used_at z \<in> Some ` range clock" using Cons.prems(3) by (auto split: if_splits)
  have "inv s1" using mark_law [OF Cons.prems(1) m] by simp
  from Cons.IH [OF this z(1,3), of "Suc n"] z(2) m show ?case by simp
qed auto

lemma mark_all_marks:
  assumes "inv s" and "x \<in> set xs" and "find (owned_key (key_of (mi_id x)) owner) (rows s) = Some y"
  shows "\<exists>z. find (owned_key (key_of (mi_id x)) owner) (rows (mark_all repo clock n owner xs s)) = Some z \<and> mi_content z = mi_content y \<and>
    mi_last_used_at z \<in> Some ` range clock"
  using assms
proof (induction xs arbitrary: n s y)
  case (Cons a xs)
  obtain b s1 where m: "mr_mark_used repo (mi_id a) owner (clock n) s = (b, s1)" by fastforce
  from mark_rows [OF Cons.prems(1) m Cons.prems(3)] obtain z where z: "find (owned_key (key_of (mi_id x)) owner) (rows s1) = Some z"
    "mi_content z = mi_content y" "mi_last_used_at z = (if key_of (mi_id a) = key_of (mi_id x) then Some (clock n) else mi_last_used_at y)" by blast
  have inv1: "inv s1" using mark_law [OF Cons.prems(1) m] by simp
  show ?case
  proof (cases "x = a")
    case True
    with mark_all_stays [OF inv1 z(1), of clock "Suc n" xs] z(2,3) m show ?thesis by simp
  next
    case False
    with Cons.IH [OF inv1 _ z(1), of "Suc n"] Cons.prems(2) z(2) m show ?thesis by simp
  qed
qed simp

lemma list_memoriesD:
  assumes "inv s" and "list_memories repo owner bnd (Some query) s = Inr xs"
  shows "set xs \<subseteq> {x \<in> set (rows s). mi_owner x = owner}" and "int (length xs) \<le> max (min bnd 100) 1"
    and "text_terms (strip_chars is_space query) \<noteq> [] \<Longrightarrow> strip_chars is_space query \<noteq> [] \<Longrightarrow>
      \<forall>x \<in> set xs. 0 < overlap_score x (text_terms (strip_chars is_space query))"
proof -
  have sub: "set (mr_list repo owner n s) \<subseteq> {x \<in> set (rows s). mi_owner x = owner}" for n
    using order_law(1) [of n "filter (\<lambda>x. mi_owner x = owner) (rows s)"] by (auto simp: list_law [OF assms(1)])
  have len: "length (mr_list repo owner n s) \<le> n" for n using order_law(2) by (simp add: list_law [OF assms(1)])
  show "set xs \<subseteq> {x \<in> set (rows s). mi_owner x = owner}"
    using assms(2) sub [of 200] sub [of "nat (max (min bnd 100) 1)"]
    by (auto simp: list_memories_def validate_owner_scope_def Let_def split: if_splits dest!: in_set_takeD)
  have "length xs \<le> nat (max (min bnd 100) 1)"
    using assms(2) len [of "nat (max (min bnd 100) 1)"] by (auto simp: list_memories_def validate_owner_scope_def Let_def split: if_splits)
  then show "int (length xs) \<le> max (min bnd 100) 1" by linarith
  show "\<forall>x \<in> set xs. 0 < overlap_score x (text_terms (strip_chars is_space query))"
    if "text_terms (strip_chars is_space query) \<noteq> []" "strip_chars is_space query \<noteq> []"
    using assms(2) that by (auto simp: list_memories_def validate_owner_scope_def Let_def split: if_splits dest!: in_set_takeD)
qed

lemma retrieved:
  assumes inv: "inv s" and run: "retrieve_for_agent cfg repo clock owner query limit chars s = (Inr xs, s')"
    and bnd: "bnd = (case limit of None \<Rightarrow> ms_context_limit cfg | Some n \<Rightarrow> n)" and mx: "mx = (case chars of None \<Rightarrow> ms_context_max_chars cfg | Some n \<Rightarrow> n)"
  shows "set xs \<subseteq> {x \<in> set (rows s). mi_owner x = owner}" and "int (length xs) \<le> max (min bnd 100) 1"
    and "text_terms (strip_chars is_space query) \<noteq> [] \<Longrightarrow> strip_chars is_space query \<noteq> [] \<Longrightarrow>
      \<forall>x \<in> set xs. 0 < overlap_score x (text_terms (strip_chars is_space query))"
    and "0 < mx \<Longrightarrow> sum_list (map (\<lambda>x. int (length (mi_content x)) + 32) (butlast xs)) < mx"
    and "x \<in> set xs \<Longrightarrow> \<exists>y. mr_get repo (mi_id x) owner s' = Some y \<and> mi_content y = mi_content x \<and> mi_last_used_at y \<in> Some ` range clock"
proof -
  note run' = run [unfolded retrieve_for_agent_def Let_def, folded bnd mx]
  have "xs = [] \<or> (\<exists>sel. list_memories repo owner bnd (Some query) s = Inr sel \<and> xs = bound_items mx sel \<and> s' = mark_all repo clock 0 owner xs s)"
  proof (cases "ms_context_limit cfg \<le> 0")
    case False
    with run' show ?thesis by (cases "list_memories repo owner bnd (Some query) s"; cases "projr (list_memories repo owner bnd (Some query) s) = []") auto
  qed (use run' in simp)
  then consider "xs = []" | sel where "list_memories repo owner bnd (Some query) s = Inr sel" "xs = bound_items mx sel" "s' = mark_all repo clock 0 owner xs s"
    by blast
  then have "set xs \<subseteq> {x \<in> set (rows s). mi_owner x = owner} \<and> int (length xs) \<le> max (min bnd 100) 1 \<and>
      (text_terms (strip_chars is_space query) \<noteq> [] \<longrightarrow> strip_chars is_space query \<noteq> [] \<longrightarrow>
        (\<forall>x \<in> set xs. 0 < overlap_score x (text_terms (strip_chars is_space query)))) \<and>
      (0 < mx \<longrightarrow> sum_list (map (\<lambda>x. int (length (mi_content x)) + 32) (butlast xs)) < mx) \<and>
      (\<forall>x \<in> set xs. \<exists>y. mr_get repo (mi_id x) owner s' = Some y \<and> mi_content y = mi_content x \<and> mi_last_used_at y \<in> Some ` range clock)"
  proof cases
    case (2 sel)
    note sel = list_memoriesD [OF inv 2(1)]
    have sub: "set xs \<subseteq> set sel" and len: "length xs \<le> length sel" unfolding 2(2) by (rule bound_items_set bound_items_length)+
    have inv': "inv s'" unfolding 2(3) using mark_all_keeps [OF inv] by (simp add: keeps_def)
    have marked: "\<exists>y. mr_get repo (mi_id x) owner s' = Some y \<and> mi_content y = mi_content x \<and> mi_last_used_at y \<in> Some ` range clock" if "x \<in> set xs" for x
    proof -
      have x: "x \<in> set (rows s)" "mi_owner x = owner" using sel(1) sub that by auto
      have "find (owned_key (key_of (mi_id x)) owner) (rows s) = Some x"
        unfolding ids_law(1) [OF inv x(1)] using x ids_law(2) [OF inv] by (rule find_own)
      from mark_all_marks [OF inv that this, of clock 0] show ?thesis unfolding get_law [OF inv', unfolded 2(3)] 2(3) .
    qed
    have "\<forall>x \<in> set xs. 0 < overlap_score x (text_terms (strip_chars is_space query))"
      if "text_terms (strip_chars is_space query) \<noteq> []" "strip_chars is_space query \<noteq> []"
      using sel(3) [OF that] sub by auto
    moreover have "0 < mx \<longrightarrow> sum_list (map (\<lambda>x. int (length (mi_content x)) + 32) (butlast xs)) < mx"
      unfolding 2(2) by (simp add: bound_items_fit)
    ultimately show ?thesis using sel(1,2) sub len marked by auto
  qed simp
  then show "set xs \<subseteq> {x \<in> set (rows s). mi_owner x = owner}" "int (length xs) \<le> max (min bnd 100) 1"
    "text_terms (strip_chars is_space query) \<noteq> [] \<Longrightarrow> strip_chars is_space query \<noteq> [] \<Longrightarrow>
      \<forall>x \<in> set xs. 0 < overlap_score x (text_terms (strip_chars is_space query))"
    "0 < mx \<Longrightarrow> sum_list (map (\<lambda>x. int (length (mi_content x)) + 32) (butlast xs)) < mx"
    "x \<in> set xs \<Longrightarrow> \<exists>y. mr_get repo (mi_id x) owner s' = Some y \<and> mi_content y = mi_content x \<and> mi_last_used_at y \<in> Some ` range clock"
    by blast+
qed

end

section \<open>Both repositories\<close>

definition dict_inv :: "memory_items \<Rightarrow> bool" where
  "dict_inv d \<longleftrightarrow> dict_wf d \<and> list_all (\<lambda>(k, x). mi_id x = k) d"

lemma dict_inv_keys: "list_all (\<lambda>(k, x). mi_id x = k) d \<Longrightarrow> map mi_id (dvalues d) = map fst d"
  by (induction d) auto

lemma dict_inv_distinct: "dict_inv d \<Longrightarrow> distinct (map mi_id (dvalues d))"
  unfolding dict_inv_def dict_wf_def by (metis dict_inv_keys)

lemma dget_find: "list_all (\<lambda>(k, x). mi_id x = k) d \<Longrightarrow> dget d i = find (\<lambda>x. mi_id x = i) (dvalues d)"
  by (induction d) auto

lemma find_conj_unique:
  assumes "distinct (map mi_id xs)"
  shows "find (owned_key (Some i) owner) xs = (case find (\<lambda>x. mi_id x = i) xs of None \<Rightarrow> None | Some x \<Rightarrow> if mi_owner x \<noteq> owner then None else Some x)"
proof -
  have "owned_key (Some i) owner = (\<lambda>x. mi_id x = i \<and> mi_owner x = owner)" by (auto simp: owned_key_def)
  then show ?thesis using find_key [OF assms, of i "\<lambda>x. mi_owner x = owner"] by (simp split: option.splits)
qed

lemma mm_get_find:
  assumes "dict_inv d"
  shows "mm_get i owner d = find (owned_key (Some i) owner) (dvalues d)"
proof -
  have "list_all (\<lambda>(k, x). mi_id x = k) d" using assms by (simp add: dict_inv_def)
  then show ?thesis unfolding mm_get_def find_conj_unique [OF dict_inv_distinct [OF assms]] by (simp only: dget_find)
qed

lemma owned_present:
  assumes "dict_inv d" and "mm_get i owner d = Some c"
  shows "dict_wf d" and "dget d i = Some c" and "(k, x) \<in> set d \<Longrightarrow> owned_key (Some i) owner x \<longleftrightarrow> k = i"
    and "(i, x) \<in> set d \<Longrightarrow> x = c"
proof -
  show wf: "dict_wf d" and c: "dget d i = Some c"
    using assms by (auto simp: dict_inv_def mm_get_def split: option.splits if_splits)
  have own: "mi_owner c = owner" using assms(2) by (auto simp: mm_get_def split: option.splits if_splits)
  show eq: "x = c" if "(i, x) \<in> set d" for x using that c wf by (simp add: dget_iff_mem [symmetric])
  show "owned_key (Some i) owner x \<longleftrightarrow> k = i" if "(k, x) \<in> set d"
    using assms(1) that eq own by (auto simp: owned_key_def dict_inv_def list_all_iff)
qed

lemma dict_inv_dset: "dict_inv d \<Longrightarrow> mi_id v = i \<Longrightarrow> dict_inv (dset i v d)"
  by (auto simp: dict_inv_def intro: list_all_dset_pair)

lemma dvalues_dset_owned:
  assumes "dict_inv d" and "mm_get i owner d = Some c"
  shows "dvalues (dset i (f c) d) = map (\<lambda>r. if owned_key (Some i) owner r then f r else r) (dvalues d)"
proof -
  note present = owned_present [OF assms]
  have "snd (case p of (k, x) \<Rightarrow> if k = i then (k, f c) else (k, x)) = (if owned_key (Some i) owner (snd p) then f (snd p) else snd p)" if "p \<in> set d" for p
    using present(3,4) that by (cases p) auto
  then show ?thesis unfolding dset_present [OF present(1,2)] by simp
qed

lemma dvalues_ddel:
  assumes "dict_inv d" and "mm_get i owner d = Some c"
  shows "dict_inv (ddel i d)" and "dvalues (ddel i d) = filter (\<lambda>x. \<not> owned_key (Some i) owner x) (dvalues d)"
proof -
  note present = owned_present [OF assms]
  show "dict_inv (ddel i d)" using assms(1) by (auto simp: dict_inv_def list_all_iff AList.delete_eq)
  have "filter (\<lambda>(k, x). i \<noteq> k) d = filter (\<lambda>(k, x). \<not> owned_key (Some i) owner x) d"
    using present(3) by (intro filter_cong) auto
  then show "dvalues (ddel i d) = filter (\<lambda>x. \<not> owned_key (Some i) owner x) (dvalues d)"
    by (simp add: AList.delete_eq dvalues_filter)
qed

lemma map_not_owned: "find (owned_key k owner) xs = None \<Longrightarrow> map (\<lambda>r. if owned_key k owner r then f r else r) xs = xs"
  by (induction xs) (auto split: if_splits)

lemma filter_not_owned: "find (owned_key k owner) xs = None \<Longrightarrow> filter (\<lambda>r. \<not> owned_key k owner r) xs = xs"
  by (induction xs) (auto split: if_splits)

definition recent_first :: "nat \<Rightarrow> memory_item list \<Rightarrow> memory_item list" where
  "recent_first n xs = take n (sort_key (\<lambda>x. - memory_order_key x) xs)"

interpretation mem_memory: memory_store memory_memories "map snd" Some recent_first "\<lambda>t x. x\<lparr>mi_last_used_at := Some t\<rparr>" dict_inv
proof unfold_locales
  fix s :: memory_items and x r s'
  assume inv: "dict_inv s" and fresh: "\<forall>o'. mr_get memory_memories (mi_id x) o' s = None" and run: "mr_create memory_memories x s = (r, s')"
  have "dget s (mi_id x) = None" using fresh by (auto simp: memory_memories_def mm_get_def split: option.splits if_splits)
  then show "dict_inv s' \<and> map snd s' = map snd s @ [x]"
    using run dict_inv_dset [OF inv, of x] by (auto simp: memory_memories_def mm_create_def dset_absent)
next
  fix s :: memory_items and x y s'
  assume inv: "dict_inv s" and run: "mr_update memory_memories x s = (y, s')"
  show "dict_inv s' \<and> map snd s' = map (\<lambda>r. if owned_key (Some (mi_id x)) (mi_owner x) r then replace_item x r else r) (map snd s)"
  proof (cases "mm_get (mi_id x) (mi_owner x) s")
    case None
    with run have "s' = s" by (simp add: memory_memories_def mm_update_def)
    then show ?thesis using inv map_not_owned [OF None [unfolded mm_get_find [OF inv]]] by (simp only: simp_thms)
  next
    case (Some c)
    then have "mi_id (replace_item x c) = mi_id x" using inv by (auto simp: mm_get_find find_Some_iff owned_key_def replace_item_owner)
    note ok = dict_inv_dset [OF inv this]
    have "s' = dset (mi_id x) (replace_item x c) s" using Some run by (simp add: memory_memories_def mm_update_def)
    then show ?thesis using ok dvalues_dset_owned [OF inv Some, of "replace_item x"] by (simp only: simp_thms)
  qed
next
  fix s :: memory_items and i owner d s'
  assume inv: "dict_inv s" and run: "mr_delete memory_memories i owner s = (d, s')"
  show "dict_inv s' \<and> map snd s' = filter (\<lambda>x. \<not> owned_key (Some i) owner x) (map snd s)"
  proof (cases "mm_get i owner s")
    case None
    then show ?thesis using run inv filter_not_owned by (simp add: memory_memories_def mm_delete_def mm_get_find)
  next
    case (Some c)
    with run show ?thesis using dvalues_ddel [OF inv Some] by (auto simp: memory_memories_def mm_delete_def)
  qed
next
  fix s :: memory_items and i owner t y s'
  assume inv: "dict_inv s" and run: "mr_mark_used memory_memories i owner t s = (y, s')"
  show "dict_inv s' \<and> map snd s' = map (\<lambda>r. if owned_key (Some i) owner r then r\<lparr>mi_last_used_at := Some t\<rparr> else r) (map snd s)"
  proof (cases "mm_get i owner s")
    case None
    with run have "s' = s" by (simp add: memory_memories_def mm_mark_used_def)
    then show ?thesis using inv map_not_owned [OF None [unfolded mm_get_find [OF inv]]] by (simp only: simp_thms)
  next
    case (Some c)
    then have "mi_id c = i" using inv by (auto simp: mm_get_find find_Some_iff owned_key_def)
    then have ok: "dict_inv (dset i (c\<lparr>mi_last_used_at := Some t\<rparr>) s)" by (intro dict_inv_dset [OF inv]) simp
    have "s' = dset i (c\<lparr>mi_last_used_at := Some t\<rparr>) s" using Some run \<open>mi_id c = i\<close> by (simp add: memory_memories_def mm_mark_used_def Let_def)
    then show ?thesis using ok dvalues_dset_owned [OF inv Some, of "\<lambda>r. r\<lparr>mi_last_used_at := Some t\<rparr>"] by (simp only: simp_thms)
  qed
next
  fix s :: memory_items
  assume "dict_inv s"
  then show "distinct (map mi_id (map snd s))" by (rule dict_inv_distinct)
qed (auto simp: memory_memories_def mm_get_find mm_list_def recent_first_def dest: in_set_takeD)

text \<open>Over PostgreSQL the identifiers are distinct and in canonical form.\<close>

definition rows_inv :: "memory_item list \<Rightarrow> bool" where
  "rows_inv s \<longleftrightarrow> distinct (map mi_id s) \<and> (\<forall>x \<in> set s. normalize_thread_id (mi_id x) = Some (mi_id x))"

definition used_first :: "nat \<Rightarrow> memory_item list \<Rightarrow> memory_item list" where
  "used_first n xs = take n (sort_key (\<lambda>x. (desc_key (mi_last_used_at x), desc_key (mi_updated_at x), desc_key (mi_created_at x))) xs)"

lemma pgm_get_find: "pgm_get i owner s = find (owned_key (normalize_thread_id i) owner) s"
proof (cases "normalize_thread_id i")
  case None
  then have "owned_key (normalize_thread_id i) owner = (\<lambda>x. False)" by (auto simp: owned_key_def)
  moreover have "find (\<lambda>x. False) s = None" by (induction s) auto
  ultimately show ?thesis using None by (simp add: pgm_get_def)
next
  case (Some u)
  then have "owned_key (normalize_thread_id i) owner = (\<lambda>x. mi_id x = u \<and> mi_owner x = owner)" by (auto simp: owned_key_def)
  with Some show ?thesis by (simp add: pgm_get_def)
qed

lemma rows_inv_map: "rows_inv s \<Longrightarrow> \<forall>x. mi_id (f x) = mi_id x \<Longrightarrow> rows_inv (map (\<lambda>r. if p r then f r else r) s)"
  unfolding rows_inv_def by (induction s) (auto simp: image_iff)

lemma pgm_change_rows:
  assumes "rows_inv s" and "pgm_change i owner f s = (y, s')" and "\<forall>x. mi_id (f x) = mi_id x"
  shows "rows_inv s' \<and> s' = map (\<lambda>r. if owned_key (normalize_thread_id i) owner r then f r else r) s"
proof (cases "pgm_get i owner s")
  case None
  with assms map_not_owned [of "normalize_thread_id i" owner s f] show ?thesis by (simp add: pgm_change_def pgm_get_find)
next
  case (Some c)
  with assms(2) have "s' = map (\<lambda>r. if owned_key (normalize_thread_id i) owner r then f r else r) s" by (simp add: pgm_change_def owned_key_def)
  with rows_inv_map [OF assms(1,3)] show ?thesis by simp
qed

interpretation pg_memory: memory_store postgres_memories "\<lambda>s. s" normalize_thread_id used_first
  "\<lambda>t x. x\<lparr>mi_last_used_at := Some t, mi_updated_at := Some t\<rparr>" rows_inv
proof unfold_locales
  fix s x r s'
  assume inv: "rows_inv s" and key: "normalize_thread_id (mi_id x) = Some (mi_id x)"
    and fresh: "\<forall>o'. mr_get postgres_memories (mi_id x) o' s = None" and run: "mr_create postgres_memories x s = (r, s')"
  have new: "mi_id x \<notin> mi_id ` set s"
  proof
    assume "mi_id x \<in> mi_id ` set s"
    then obtain y where "y \<in> set s" "mi_id y = mi_id x" by auto
    with fresh [rule_format, of "mi_owner y"] key show False
      by (auto simp: postgres_memories_def pgm_get_find find_None_iff owned_key_def)
  qed
  then show "rows_inv s' \<and> s' = s @ [x]" using run inv key by (auto simp: postgres_memories_def pgm_create_def rows_inv_def)
next
  fix s x y s'
  assume inv: "rows_inv s" and run: "mr_update postgres_memories x s = (y, s')"
  have "pgm_change (mi_id x) (mi_owner x) (replace_item x) s = (y, s')" using run by (simp add: postgres_memories_def pgm_update_def)
  then show "rows_inv s' \<and> s' = map (\<lambda>r. if owned_key (normalize_thread_id (mi_id x)) (mi_owner x) r then replace_item x r else r) s"
    by (rule pgm_change_rows [OF inv]) (simp add: replace_item_owner)
next
  fix s i owner d s'
  assume inv: "rows_inv s" and run: "mr_delete postgres_memories i owner s = (d, s')"
  have "rows_inv (filter p s)" for p using inv by (auto simp: rows_inv_def distinct_map_filter)
  then show "rows_inv s' \<and> s' = filter (\<lambda>x. \<not> owned_key (normalize_thread_id i) owner x) s"
    using run inv filter_not_owned [of "normalize_thread_id i" owner s]
    by (auto simp: postgres_memories_def pgm_delete_def pgm_get_find owned_key_def split: option.splits)
next
  fix s i owner t y s'
  assume inv: "rows_inv s" and run: "mr_mark_used postgres_memories i owner t s = (y, s')"
  have "pgm_change i owner (\<lambda>x. x\<lparr>mi_last_used_at := Some t, mi_updated_at := Some t\<rparr>) s = (y, s')" using run by (simp add: postgres_memories_def pgm_mark_used_def)
  then show "rows_inv s' \<and> s' = map (\<lambda>r. if owned_key (normalize_thread_id i) owner r then r\<lparr>mi_last_used_at := Some t, mi_updated_at := Some t\<rparr> else r) s"
    by (rule pgm_change_rows [OF inv]) simp
qed (auto simp: postgres_memories_def pgm_get_find pgm_list_def used_first_def rows_inv_def dest: in_set_takeD)

section \<open>Properties\<close>

lemma empty_rows_inv [simp]: "rows_inv []"
  by (simp add: rows_inv_def)

text \<open>
  C39: In every reachable state of the PostgreSQL memory all stored items are well formed (content, confidence, metadata
  within their bounds), and whatever one owner does, what any other owner can read, by identifier or as a list, stays
  the same.
\<close>

theorem memory_isolated:
  assumes "lm_reach postgres_memories normalize_thread_id [] s" and "lm_step postgres_memories normalize_thread_id owner s s'" and "o' \<noteq> owner"
  shows "list_all item_ok s' \<and> mr_get postgres_memories i o' s' = mr_get postgres_memories i o' s \<and>
    mr_list postgres_memories o' n s' = mr_list postgres_memories o' n s"
proof -
  have inv: "rows_inv s" using pg_memory.lm_reach_inv [OF assms(1)] by simp
  have "list_all item_ok s'" using pg_memory.lm_reach_inv [OF lm_reach.step [OF assms(1,2)]] by simp
  with pg_memory.isolated [OF assms(2) inv assms(3)] show ?thesis by simp
qed

lemma retrieve_nothing:
  assumes "retrieve_for_agent cfg repo clock owner query limit chars s = (Inr xs, s')"
    and "ms_context_limit cfg \<le> 0 \<or> (case chars of None \<Rightarrow> ms_context_max_chars cfg | Some n \<Rightarrow> n) \<le> 0"
  shows "xs = [] \<and> s' = s"
proof -
  have b: "m \<le> 0 \<Longrightarrow> bound_items m ys = []" for m ys by (cases ys) simp_all
  show ?thesis using assms by (auto simp: retrieve_for_agent_def Let_def b split: if_splits sum.splits)
qed

text \<open>
  C40: for a service built with the settings \<open>limit\<close> and \<open>chars\<close> over PostgreSQL, whatever limit \<open>n\<close> and character
  budget \<open>m\<close> the call passes or leaves to the settings: with a setting \<open>limit\<close> of 0 or less, or a budget of 0 or less, nothing is
  retrieved and nothing changes. In every case what is retrieved belongs to the owner, is at most as many items as
  the limit clamped to the range from 1 to 100, shares a term with a query that has terms, and without its last
  item stays below the budget, separators included; every retrieved item is afterwards stored with its content
  unchanged and a new time of use.
\<close>

theorem retrieved_memory_bounded:
  assumes "lm_reach postgres_memories normalize_thread_id [] s"
    and "retrieve_for_agent (memory_service_init limit chars) postgres_memories clock owner query n m s = (Inr xs, s')"
    and "q = strip_chars is_space query"
    and "bnd = (case n of None \<Rightarrow> max limit 0 | Some k \<Rightarrow> k)" and "budget = (case m of None \<Rightarrow> max chars 100 | Some k \<Rightarrow> k)"
  shows "(limit \<le> 0 \<or> budget \<le> 0 \<longrightarrow> xs = [] \<and> s' = s) \<and>
    (\<forall>x \<in> set xs. x \<in> set s \<and> mi_owner x = owner) \<and> int (length xs) \<le> max (min bnd 100) 1 \<and>
    (q \<noteq> [] \<and> text_terms q \<noteq> [] \<longrightarrow> (\<forall>x \<in> set xs. 0 < overlap_score x (text_terms q))) \<and>
    (xs \<noteq> [] \<longrightarrow> sum_list (map (\<lambda>x. int (length (mi_content x)) + 32) (butlast xs)) < budget) \<and>
    (\<forall>x \<in> set xs. \<exists>y. mr_get postgres_memories (mi_id x) owner s' = Some y \<and> mi_content y = mi_content x \<and> mi_last_used_at y \<in> Some ` range clock)"
proof -
  have inv: "rows_inv s" using pg_memory.lm_reach_inv [OF assms(1)] by simp
  have cfg: "ms_context_limit (memory_service_init limit chars) = max limit 0" "ms_context_max_chars (memory_service_init limit chars) = max chars 100"
    by (simp_all add: memory_service_init_def)
  note r = pg_memory.retrieved [OF inv assms(2), unfolded cfg, OF assms(4,5)]
  have none: "limit \<le> 0 \<or> budget \<le> 0 \<longrightarrow> xs = [] \<and> s' = s"
    using retrieve_nothing [OF assms(2)] assms(5) unfolding cfg by auto
  then have "xs \<noteq> [] \<longrightarrow> sum_list (map (\<lambda>x. int (length (mi_content x)) + 32) (butlast xs)) < budget"
    using r(4) by (cases "budget \<le> 0") auto
  with none show ?thesis using r(1,2,3,5) unfolding assms(3) by blast
qed

definition wit_owner :: string where "wit_owner = replicate 64 (CHR ''a'')"

definition wit_uuid :: string where "wit_uuid = ''00000000-0000-0000-0000-000000000001''"

definition wit_create :: "memory_item list \<Rightarrow> (memory_error + memory_item) \<times> memory_item list" where
  "wit_create = create_memory postgres_memories wit_uuid 5 wit_owner '' likes tea '' EXPLICIT PREFERENCE (Finite 1) [(''lang'', PStr ''en'')]"

lemma wit_create_step: "lm_step postgres_memories normalize_thread_id wit_owner [] (snd (wit_create []))"
proof (rule lm_step.create [where r = "fst (wit_create [])"])
  show "normalize_thread_id wit_uuid = Some wit_uuid" by code_simp
  show "\<forall>x. mr_get postgres_memories wit_uuid x [] = None" by (simp add: postgres_memories_def pgm_get_def split: option.splits)
  show "create_memory postgres_memories wit_uuid 5 wit_owner '' likes tea '' EXPLICIT PREFERENCE (Finite 1) [(''lang'', PStr ''en'')] [] =
      (fst (wit_create []), snd (wit_create []))" by (simp add: wit_create_def)
qed

lemma wit_reach: "lm_reach postgres_memories normalize_thread_id [] (snd (wit_create []))"
  by (rule lm_reach.step [OF lm_reach.start wit_create_step])

lemma wit_stored: "snd (wit_create []) = [\<lparr>mi_id = wit_uuid, mi_owner = wit_owner, mi_content = ''likes tea'', mi_source = EXPLICIT, mi_kind = PREFERENCE,
     mi_confidence = Finite 1, mi_metadata = [(''lang'', PStr ''en'')], mi_created_at = Some 5, mi_updated_at = Some 5, mi_last_used_at = None\<rparr>]"
proof -
  have "validate_owner_scope wit_owner = Inr wit_owner" by code_simp
  moreover have "normalize_content '' likes tea '' = Inr ''likes tea''" by code_simp
  moreover have "normalize_metadata [(''lang'', PStr ''en'')] = Inr [(''lang'', PStr ''en'')]" by code_simp
  ultimately show ?thesis
    by (simp add: wit_create_def create_memory_def validate_confidence_def postgres_memories_def pgm_create_def)
qed

theorem memory_isolated_witness:
  "list_all item_ok (snd (wit_create [])) \<and> length (snd (wit_create [])) = 1 \<and> mr_list postgres_memories ''other'' 10 (snd (wit_create [])) = []"
proof -
  have "''other'' \<noteq> wit_owner" by code_simp
  from memory_isolated [OF lm_reach.start wit_create_step this, of _ 10]
  show ?thesis by (simp add: wit_stored) (simp add: postgres_memories_def pgm_list_def)
qed

theorem retrieved_memory_bounded_witness:
  "\<exists>x s'. retrieve_for_agent (memory_service_init 5 3000) postgres_memories (\<lambda>k. 9 + int k) wit_owner ''Tea?'' None None (snd (wit_create [])) = (Inr [x], s') \<and>
     mi_content x = ''likes tea'' \<and> (\<exists>y. mr_get postgres_memories (mi_id x) wit_owner s' = Some y \<and> mi_content y = ''likes tea'')"
proof -
  let ?r = "retrieve_for_agent (memory_service_init 5 3000) postgres_memories (\<lambda>k. 9 + int k) wit_owner ''Tea?'' None None (snd (wit_create []))"
  let ?x = "hd (snd (wit_create []))"
  have "validate_owner_scope wit_owner = Inr wit_owner" by code_simp
  moreover have "text_terms (strip_chars is_space ''Tea?'') \<noteq> []" "strip_chars is_space ''Tea?'' \<noteq> []" by code_simp+
  moreover have "filter (\<lambda>t. t \<in> set (text_terms (strip_chars is_space ''Tea?''))) (text_terms ''likes tea'') \<noteq> []" by code_simp
  ultimately have "fst ?r = Inr [?x]"
    by (simp add: wit_stored retrieve_for_agent_def memory_service_init_def list_memories_def overlap_score_def Let_def postgres_memories_def pgm_list_def)
  then have r: "?r = (Inr [?x], snd ?r)" by (intro prod_eqI) (simp_all only: fst_conv snd_conv)
  have x: "mi_content ?x = ''likes tea''" by (simp add: wit_stored)
  from retrieved_memory_bounded [OF wit_reach r refl refl refl]
  have "\<exists>y. mr_get postgres_memories (mi_id ?x) wit_owner (snd ?r) = Some y \<and> mi_content y = mi_content ?x"
    by (elim conjE) (simp only: list.set ball_simps, blast)
  then have "\<exists>y. mr_get postgres_memories (mi_id ?x) wit_owner (snd ?r) = Some y \<and> mi_content y = ''likes tea''" by (simp only: x)
  with r x show ?thesis by blast
qed

text \<open>The budget in characters is not kept by the last item: it is cut for the count alone and returned whole.\<close>

lemma budget_exceeded: "0 < n \<Longrightarrow> n < int (length (mi_content x)) \<Longrightarrow> n < sum_list (map (\<lambda>x. int (length (mi_content x))) (bound_items n [x]))"
  by simp

end
