(* ===== verification/Spec2Isabelle.thy ===== *)
theory Spec2Isabelle
  imports RateLimit UsagePg Billing Quota QuotaSystem QuotaPg WorkflowRun AgentStream ToolExecutor MultiAgentPlan RagRuns
    ConversationContext WorkspaceRuns ApiKeys AgentConfigRuns MemoryRuns
begin

text \<open>
  A verification library for \<open>ai-platform-mini\<close>, a multi-tenant service that runs language-model agents,
  workflows and teams of agents behind an HTTP API. All paths below are under \<open>src/app/\<close>.

  \<^bold>\<open>The program.\<close> A request first passes the rate limiter (\<open>ratelimit/\<close>) and then reserves tokens with the
  quota service (\<open>quota/\<close>), whose limits come from the API key or from the plan of the workspace
  (\<open>billing/\<close>) and whose spent tokens come from the usage store (\<open>usage/\<close>). While the reservation is held
  and renewed (\<open>quota/lifecycle.py\<close>) the request runs a chat, an agent (\<open>agents/runtime.py\<close>), a workflow
  (\<open>workflows/engine/\<close>) or a team of agents (\<open>multi_agent/orchestrator.py\<close>). Agents call tools through
  the tool executor (\<open>tools/executor.py\<close>) and report their events to a stream (\<open>agents/stream.py\<close>) that
  the HTTP handler reads. When the request ends, the usage collector records what it used and the
  reservation is settled or released.

  \<^bold>\<open>The theories.\<close>
  \<^item> \<open>Prelude\<close>: dictionaries in insertion order, the calendar, \<open>int\<close> of a float, \<open>x or 0\<close>, and the lemmas
    the components share.
  \<^item> \<open>PyValue\<close>: JSON-like Python values, \<open>str\<close>, \<open>repr\<close>, \<open>json.dumps\<close>, \<open>str.split\<close>, slices.
  \<^item> \<open>RateLimit\<close>: \<open>ratelimit/memory.py\<close>, \<open>service.py\<close>, \<open>dependencies.py\<close>. The limiter's timestamps per key are
    its state; a run is a sequence of calls at nondecreasing times. Shown: the number of grants in any window,
    that waiting as long as the refusal says leads to a grant, and when the service raises (through the locale
    of the limiter interface).
  \<^item> \<open>Usage\<close>: \<open>usage/models.py\<close>, \<open>memory_repository.py\<close>, \<open>service.py\<close>, \<open>collector.py\<close>. Shown: what a recorded
    chat adds to which total, the monthly total as the sum of its days, the rankings, and the effect of the
    bound on kept records.
  \<^item> \<open>UsagePg\<close>: \<open>usage/postgres_repository.py\<close>, the upsert and the queries over table rows. Shown: per key and day it reports
    what the in-memory repository reports, and to which workspace a shared key is charged.
  \<^item> \<open>Billing\<close>: \<open>billing/models.py\<close>, \<open>memory_repository.py\<close>, \<open>service.py\<close>, \<open>entitlement.py\<close>, \<open>seeds.py\<close>. Shown:
    the repository invariant, that an assigned plan is in force at once, and that seeding is idempotent.
  \<^item> \<open>Quota\<close>, \<open>QuotaSystem\<close>, \<open>QuotaLifecycle\<close>: \<open>quota/models.py\<close>, \<open>memory_repository.py\<close>, \<open>service.py\<close>,
    \<open>lifecycle.py\<close>. The locale of \<open>Quota\<close> states what a repository promises; \<open>QuotaSystem\<close> puts service,
    repository and usage store together as a step relation over concurrent requests, in which recording a usage and
    settling are separate and unguarded calls; its invariant is that a key commits more than the limit only by what requests
    spent beyond the reservations they settled. \<open>QuotaLifecycle\<close> shows that no finalizing call reaches the service after one
    that succeeded, whichever of them raise, and that a reservation is never live after its request.
  \<^item> \<open>QuotaPg\<close>: \<open>quota/postgres_repository.py\<close>, its statements over table rows. A simulation shows that, under the
    restrictions it names, the operations return what the in-memory repository returns, and an interpretation of the repository locale
    carries the lifecycle theorem over.
  \<^item> \<open>WorkflowGraph\<close>, \<open>WorkflowEngine\<close>, \<open>WorkflowRun\<close>: \<open>workflows/engine/models.py\<close>, \<open>validation.py\<close>,
    \<open>executor.py\<close>. Shown: Kahn's algorithm decides acyclicity, the dictionary form round trips, validation
    accepts exactly the well-formed definitions, and the invariant of the execution loop with its consequences.
  \<^item> \<open>ToolModels\<close>, \<open>ToolSchema\<close>, \<open>ToolOutput\<close>, \<open>ToolExecutor\<close>: \<open>tools/models.py\<close>, \<open>registry.py\<close>, \<open>executor.py\<close>.
    Shown: which calls reach a tool, that the result is one of the documented shapes or a cancellation (values that
    \<open>json.dumps\<close> rejects included), that the JSON text of a call determines its name, and that structured outputs are cut to the limit without leaving the output schema.
  \<^item> \<open>AgentRuntime\<close>, \<open>AgentRuns\<close>, \<open>AgentStream\<close>: \<open>agents/models.py\<close>, \<open>runtime.py\<close>, \<open>stream.py\<close> and the two halves of
    the streaming handler in \<open>api/agent.py\<close>. Shown: the shape of the event log, the agreement of status,
    reason and answer, the token budget, the reuse of tool results, that a run returns, and that a client
    sees exactly one terminal item.
  \<^item> \<open>MultiAgent\<close>, \<open>MultiAgentRuns\<close>, \<open>MultiAgentPlan\<close>: \<open>multi_agent/models.py\<close>, \<open>orchestrator.py\<close>,
    \<open>decision_factory.py\<close>. Shown: subtasks run after their dependencies however they interleave, the loop
    ends on every plan, results of dependencies are never passed on, the depth-first search finds exactly the
    cycles, and a plan drawn on the canvas deadlocks only behind a failed subtask.
  \<^item> \<open>RagStore\<close>, \<open>RagIngest\<close>, \<open>RagQueue\<close>, \<open>RagRetrieval\<close>, \<open>RagRuns\<close>: \<open>rag/vector_store.py\<close>, \<open>pg_vector_store.py\<close>,
    \<open>chunker.py\<close>, \<open>safety.py\<close>, \<open>ingestion.py\<close>, \<open>queue.py\<close>, \<open>hybrid.py\<close>, \<open>reranker.py\<close>, \<open>service.py\<close>. The tables of
    documents and chunks are lists of rows. Shown: chunks cover their text, the stored tasks are the submitted ones, each in
    the place its status says, fused results form a ranking, a prompt contains only safe documents of its owner, and
    no document can forge the end of the context.
  \<^item> \<open>Conversations\<close>, \<open>ConversationContext\<close>: \<open>conversations/\<close> and \<open>quota/token_estimator.py\<close>. A locale states what a
    repository promises; both repositories are interpretations. Shown: a history is the log of its thread, the
    context of a turn keeps its bounds, and the binary search for the summary is exact.
  \<^item> \<open>Workspaces\<close>, \<open>WorkspaceRuns\<close>, \<open>ApiKeys\<close>: \<open>auth/\<close>. Again one locale per repository with the in-memory and the
    PostgreSQL one as interpretations. Shown: one owner per workspace and who can change roles, the member
    ceiling of the plan, login after registration, and that a key works until it is revoked and never after.
  \<^item> \<open>Prompts\<close>: \<open>prompts/\<close>. Shown: the versions of a prompt are numbered without gaps, at most one is active, and
    the activated one is the one that renders.
  \<^item> \<open>AgentConfig\<close>, \<open>AgentConfigRuns\<close>: \<open>agent_config/\<close> over the prompts, the plans and the tool registry. Shown: the agent
    ceiling of the plan, the tools a created agent is bound to, the effect of an override of one workspace and
    that the batched listing agrees with the single check; and what the in-memory overrides do instead.
  \<^item> \<open>LongTermMemory\<close>, \<open>MemoryRuns\<close>: \<open>memory/\<close>. Shown: owners are isolated, stored items are well formed, and the bounds of
    what an agent retrieves.

  \<^bold>\<open>Parameters.\<close> The model, the tools, the node executors, the clocks and the cancel event are parameters: an
  environment over a type \<open>'w\<close> of worlds (agents), functions (workflow node executors, tools), lists of
  outcomes (one tick per pass of the orchestrator's loop, which says what finished and how). Exceptions are
  constructors of each component's error or outcome type. Log lines, metrics and traces are left out.

  \<^bold>\<open>Bounds.\<close> The agent loop recurses on the steps left, which the code bounds by \<open>max_steps\<close>. The loop that
  shortens an output has no bound in the code; it is a \<open>partial_function\<close>, where \<open>None\<close> is not returning, and
  \<open>shrink_loop_terminates\<close> shows that it always returns. The orchestrator's loop takes one tick per pass;
  \<open>None\<close> means that more ticks are needed, and \<open>orchestration_terminates\<close> shows that as many as there are
  subtasks are enough. The depth-first search has the number of nodes plus one as fuel, which it never uses
  up. A character is a code point below 256, the ellipsis that marks cut text being U+0085; a
  float is the text \<open>repr\<close> gives it, read back where the code compares numbers; integers are unbounded, as in
  Python. Times are reals, dates year, month and day.

  \<^bold>\<open>Not modelled.\<close> Tables, sessions and their locks are modelled for the quota, usage, document, conversation,
  workspace, key, prompt, agent and memory repositories, one transaction being one step; \<open>create_workspace\<close> and
  \<open>create_version\<close>, which use two, are one step as well. The PDF report workflow runs in a third-party graph interpreter. Providers, the MCP client, parsers,
  embedders and the distance and text-search functions of the database are calls into networks or other packages. Routes, schemas, settings, audit,
  metrics and scripts hold no state of their own. Of the multi-agent service the run
  around the orchestrator and its events are left out, and the agent and chat services.
\<close>

end
